(* ===== verification/Prelude.thy ===== *)
theory Prelude
  imports Complex_Main "HOL-Library.List_Lexorder" "HOL-Library.Char_ord"
    "HOL-Library.Product_Lexorder"
begin

text \<open>
  What every component of the development shares.

  Python exceptions are values of \<open>error\<close>, one constructor per exception class that
  the modelled code raises or catches (\<open>src/src/httk/workflow/errors.py\<close>); the human
  readable message is not modelled. A fallible function returns \<open>error + 'a\<close>
  (\<open>'a res\<close>); a fallible function with effects maps a state to a result and the
  state it leaves behind, because the effects that precede a \<open>raise\<close> persist.

  A Python string is the list of bytes of its UTF-8 encoding. Every separator, keyword
  and character class of the code is ASCII and UTF-8 is self-synchronising, so equality,
  prefix tests, substring tests, splitting and \<open>len(text.encode())\<close> are what the code
  computes, and bytewise lexicographic order is the code point order of \<open>sorted\<close>.
\<close>

section \<open>Collections of facts\<close>

named_theorems res_simps \<open>evaluation of the error monad\<close>
named_theorems frame_simps \<open>members of state frames after an update\<close>

section \<open>Exceptions\<close>

datatype error =
    FormatError
  | WorkspaceUnavailableError
  | WorkspaceCorruptionError
  | TransitionLostError
  | UnsupportedExtensionError
  | TransactionError
  | RunnerResolutionError string
  | SealedError
  | ValueError
  | OverflowError
  | TypeError
  | FileExistsError
  | FileNotFoundError
  | OSError
  | KeyError
  | SealError
  | Interrupted

type_synonym 'a res = "error + 'a"

text \<open>
  \<open>WorkflowError\<close> is the base class of the protocol errors; \<open>FormatError\<close> also
  inherits from \<open>ValueError\<close>; \<open>FileExistsError\<close> and
  \<open>FileNotFoundError\<close> are \<open>OSError\<close>s. \<open>Interrupted\<close> stands for the end of the process:
  no handler of the code sees it.
\<close>

fun is_workflow_error :: "error \<Rightarrow> bool" where
  "is_workflow_error FormatError = True"
| "is_workflow_error WorkspaceUnavailableError = True"
| "is_workflow_error WorkspaceCorruptionError = True"
| "is_workflow_error TransitionLostError = True"
| "is_workflow_error UnsupportedExtensionError = True"
| "is_workflow_error TransactionError = True"
| "is_workflow_error (RunnerResolutionError code) = True"
| "is_workflow_error _ = False"

fun is_os_error :: "error \<Rightarrow> bool" where
  "is_os_error OSError = True"
| "is_os_error FileExistsError = True"
| "is_os_error FileNotFoundError = True"
| "is_os_error _ = False"

text \<open>The frequent clause \<open>except (WorkflowError, OSError)\<close>.\<close>

definition caught :: "error \<Rightarrow> bool" where
  "caught e \<longleftrightarrow> is_workflow_error e \<or> is_os_error e"

section \<open>The error monad\<close>

fun bindr :: "'a res \<Rightarrow> ('a \<Rightarrow> 'b res) \<Rightarrow> 'b res" where
  "bindr (Inl e) f = Inl e"
| "bindr (Inr x) f = f x"

fun mapr :: "('a \<Rightarrow> 'b res) \<Rightarrow> 'a list \<Rightarrow> 'b list res" where
  "mapr f [] = Inr []"
| "mapr f (x # xs) = bindr (f x) (\<lambda>y. bindr (mapr f xs) (\<lambda>ys. Inr (y # ys)))"

definition guardr :: "bool \<Rightarrow> error \<Rightarrow> unit res" where
  "guardr b e = (if b then Inr () else Inl e)"

lemma bindr_Inr_iff [res_simps]:
  "bindr m f = Inr y \<longleftrightarrow> (\<exists>x. m = Inr x \<and> f x = Inr y)"
  by (cases m) auto

lemma bindr_Inl_iff [res_simps]:
  "bindr m f = Inl e \<longleftrightarrow> m = Inl e \<or> (\<exists>x. m = Inr x \<and> f x = Inl e)"
  by (cases m) auto

lemma guardr_Inr [simp]: "guardr b e = Inr u \<longleftrightarrow> b"
  by (simp add: guardr_def)

lemma guardr_Inl [simp]: "guardr b e = Inl e' \<longleftrightarrow> \<not> b \<and> e' = e"
  by (auto simp: guardr_def)

lemma bindr_guardr [simp]: "bindr (guardr b e) f = (if b then f () else Inl e)"
  by (simp add: guardr_def)

lemma mapr_length: "mapr f xs = Inr ys \<Longrightarrow> length ys = length xs"
  by (induction xs arbitrary: ys) (auto simp: res_simps)

lemma mapr_Inr_iff: "mapr f xs = Inr ys \<longleftrightarrow> list_all2 (\<lambda>x y. f x = Inr y) xs ys"
proof (induction xs arbitrary: ys)
  case (Cons x xs)
  show ?case
    by (cases ys) (auto simp: res_simps Cons.IH)
qed auto

lemma mapr_set: "mapr f xs = Inr ys \<Longrightarrow> y \<in> set ys \<Longrightarrow> \<exists>x\<in>set xs. f x = Inr y"
  by (induction xs arbitrary: ys) (auto simp: res_simps)

lemma mapr_all_Inr: "(\<And>x. x \<in> set xs \<Longrightarrow> f x = Inr (g x)) \<Longrightarrow> mapr f xs = Inr (map g xs)"
  by (induction xs) auto

section \<open>Character classes and string operations\<close>

definition digit_chars :: string where
  "digit_chars = ''0123456789''"

definition lower_chars :: string where
  "lower_chars = ''abcdefghijklmnopqrstuvwxyz''"

definition upper_chars :: string where
  "upper_chars = ''ABCDEFGHIJKLMNOPQRSTUVWXYZ''"

definition hex_chars :: string where
  "hex_chars = ''0123456789abcdef''"

definition base36_chars :: string where
  "base36_chars = ''0123456789abcdefghijklmnopqrstuvwxyz''"

definition NUL :: char where
  "NUL = CHR 0x00"

definition all_in :: "string \<Rightarrow> string \<Rightarrow> bool" where
  "all_in cs s = list_all (\<lambda>c. c \<in> set cs) s"

lemma all_in_simps [simp]:
  "all_in cs []"
  "all_in cs (c # s) \<longleftrightarrow> c \<in> set cs \<and> all_in cs s"
  "all_in cs (s @ t) \<longleftrightarrow> all_in cs s \<and> all_in cs t"
  by (simp_all add: all_in_def)

lemma digit_chars_facts [simp]: "length digit_chars = 10" "distinct digit_chars"
  by (simp_all add: digit_chars_def)

lemma all_in_iff: "all_in cs s \<longleftrightarrow> set s \<subseteq> set cs"
  by (auto simp: all_in_def list_all_iff)

fun contains :: "'a list \<Rightarrow> 'a list \<Rightarrow> bool" where
  "contains p [] = (p = [])"
| "contains p (x # xs) = (take (length p) (x # xs) = p \<or> contains p xs)"

lemma contains_iff: "contains p s \<longleftrightarrow> (\<exists>a b. s = a @ p @ b)"
proof (induction s)
  case Nil
  show ?case by auto
next
  case (Cons x xs)
  show ?case
  proof
    assume "contains p (x # xs)"
    then consider "take (length p) (x # xs) = p" | "contains p xs" by auto
    then show "\<exists>a b. x # xs = a @ p @ b"
    proof cases
      case 1
      then have "x # xs = [] @ p @ drop (length p) (x # xs)"
        by (metis append_Nil append_take_drop_id)
      then show ?thesis by blast
    next
      case 2
      with Cons.IH obtain a b where "xs = a @ p @ b" by blast
      then have "x # xs = (x # a) @ p @ b" by simp
      then show ?thesis by blast
    qed
  next
    assume "\<exists>a b. x # xs = a @ p @ b"
    then obtain a b where e: "x # xs = a @ p @ b" by blast
    show "contains p (x # xs)"
    proof (cases a)
      case Nil
      with e have "take (length p) (x # xs) = p" by simp
      then show ?thesis by simp
    next
      case (Cons y ys)
      with e have "xs = ys @ p @ b" by simp
      with Cons.IH show ?thesis by auto
    qed
  qed
qed

definition starts_with :: "'a list \<Rightarrow> 'a list \<Rightarrow> bool" where
  "starts_with p s = (take (length p) s = p)"

lemma starts_with_append [simp]: "starts_with p (p @ s)"
  by (simp add: starts_with_def)

lemma starts_with_iff: "starts_with p s \<longleftrightarrow> (\<exists>r. s = p @ r)"
  by (metis append_eq_conv_conj append_take_drop_id starts_with_def)

text \<open>\<open>text.split(c)\<close>: the pieces between the occurrences of one separator.\<close>

fun split_on :: "'a \<Rightarrow> 'a list \<Rightarrow> 'a list list" where
  "split_on c [] = [[]]"
| "split_on c (x # xs) =
     (if x = c then [] # split_on c xs
      else (case split_on c xs of [] \<Rightarrow> [[x]] | p # ps \<Rightarrow> (x # p) # ps))"

fun join_with :: "'a list \<Rightarrow> 'a list list \<Rightarrow> 'a list" where
  "join_with sep [] = []"
| "join_with sep [p] = p"
| "join_with sep (p # q # ps) = p @ sep @ join_with sep (q # ps)"

lemma split_on_ne [simp]: "split_on c s \<noteq> []"
  by (induction s) (auto split: list.splits)

lemma split_on_no_sep [simp]: "c \<notin> set s \<Longrightarrow> split_on c s = [s]"
  by (induction s) auto

lemma split_on_append [simp]: "c \<notin> set p \<Longrightarrow> split_on c (p @ c # s) = p # split_on c s"
  by (induction p) (auto split: list.splits)

lemma split_on_pieces: "p \<in> set (split_on c s) \<Longrightarrow> c \<notin> set p"
  by (induction s arbitrary: p) (auto split: list.splits if_splits)

lemma split_on_join_with:
  assumes "ps \<noteq> []" and "\<And>p. p \<in> set ps \<Longrightarrow> c \<notin> set p"
  shows "split_on c (join_with [c] ps) = ps"
  using assms by (induction "[c]" ps rule: join_with.induct) auto

lemma join_with_split_on [simp]: "join_with [c] (split_on c s) = s"
proof (induction s)
  case (Cons x xs)
  obtain p ps where s: "split_on c xs = p # ps"
    using split_on_ne by (metis neq_Nil_conv)
  show ?case
    using Cons s by (cases ps) auto
qed simp

text \<open>Split at the last occurrence of a separator, as a greedy prefix match does.\<close>

definition rsplit1 :: "'a \<Rightarrow> 'a list \<Rightarrow> ('a list \<times> 'a list) option" where
  "rsplit1 c s =
     (case dropWhile (\<lambda>x. x \<noteq> c) (rev s) of
        [] \<Rightarrow> None
      | _ # r \<Rightarrow> Some (rev r, rev (takeWhile (\<lambda>x. x \<noteq> c) (rev s))))"

lemma rsplit1_append [simp]: "c \<notin> set b \<Longrightarrow> rsplit1 c (a @ c # b) = Some (a, b)"
proof -
  assume "c \<notin> set b"
  then have a: "\<forall>x\<in>set (rev b). x \<noteq> c" by auto
  have r: "rev (a @ c # b) = rev b @ c # rev a" by simp
  have "dropWhile (\<lambda>x. x \<noteq> c) (rev b @ c # rev a) = c # rev a"
    using a by (subst dropWhile_append2) auto
  moreover have "takeWhile (\<lambda>x. x \<noteq> c) (rev b @ c # rev a) = rev b"
    using a by (subst takeWhile_append2) auto
  ultimately show ?thesis
    unfolding rsplit1_def r by simp
qed

lemma rsplit1_SomeD: "rsplit1 c s = Some (a, b) \<Longrightarrow> s = a @ c # b \<and> c \<notin> set b"
proof -
  assume h: "rsplit1 c s = Some (a, b)"
  let ?P = "\<lambda>x. x \<noteq> c"
  obtain y r where d: "dropWhile ?P (rev s) = y # r"
    using h by (auto simp: rsplit1_def split: list.splits)
  have y: "y = c"
    using hd_dropWhile [of ?P "rev s"] d by auto
  have ab: "a = rev r" "b = rev (takeWhile ?P (rev s))"
    using h d by (auto simp: rsplit1_def)
  have "rev s = takeWhile ?P (rev s) @ c # r"
    using takeWhile_dropWhile_id [of ?P "rev s"] d y by simp
  then have "s = rev r @ c # rev (takeWhile ?P (rev s))"
    by (metis append.assoc append_Cons append_Nil rev.simps(2) rev_append rev_rev_ident)
  then show ?thesis
    using ab set_takeWhileD by fastforce
qed

lemma hd_mid_last: "2 \<le> length xs \<Longrightarrow> xs = hd xs # tl (butlast xs) @ [last xs]"
  by (cases xs) auto

section \<open>Association lists as Python dictionaries\<close>

text \<open>
  A Python \<open>dict\<close> with string keys is an association list with distinct keys, in
  insertion order. Assignment to a present key keeps its position; a new key goes last.
\<close>

type_synonym 'v dict = "(string \<times> 'v) list"

definition dict_keys :: "'v dict \<Rightarrow> string list" where
  "dict_keys d = map fst d"

fun dict_set :: "string \<Rightarrow> 'v \<Rightarrow> 'v dict \<Rightarrow> 'v dict" where
  "dict_set k v [] = [(k, v)]"
| "dict_set k v ((k', v') # d) = (if k = k' then (k, v) # d else (k', v') # dict_set k v d)"

definition dict_del :: "string \<Rightarrow> 'v dict \<Rightarrow> 'v dict" where
  "dict_del k d = filter (\<lambda>p. fst p \<noteq> k) d"

definition dict_update :: "'v dict \<Rightarrow> 'v dict \<Rightarrow> 'v dict" where
  "dict_update d d' = foldl (\<lambda>acc p. dict_set (fst p) (snd p) acc) d d'"

definition dict_select :: "string list \<Rightarrow> 'v dict \<Rightarrow> 'v dict" where
  "dict_select ks d = List.map_filter (\<lambda>k. map_option (Pair k) (map_of d k)) ks"

lemma map_of_dict_set [simp]: "map_of (dict_set k v d) = (map_of d)(k \<mapsto> v)"
  by (induction d) (auto simp: fun_eq_iff)

lemma dict_set_keys [simp]: "fst ` set (dict_set k v d) = insert k (fst ` set d)"
proof (induction d)
  case (Cons p d)
  then show ?case by (cases p) auto
qed simp

lemma dict_set_distinct [simp]: "distinct (map fst d) \<Longrightarrow> distinct (map fst (dict_set k v d))"
proof (induction d)
  case (Cons p d)
  then show ?case by (cases p) auto
qed simp

lemma map_of_dict_del [simp]: "map_of (dict_del k d) = (map_of d)(k := None)"
  by (induction d) (auto simp: dict_del_def fun_eq_iff)

lemma dict_del_distinct [simp]: "distinct (map fst d) \<Longrightarrow> distinct (map fst (dict_del k d))"
  by (induction d) (auto simp: dict_del_def)

lemma map_of_dict_update [simp]: "map_of (dict_update d d') = map_of d ++ map_of (rev d')"
proof (induction d' arbitrary: d)
  case (Cons p d')
  have "dict_update d (p # d') = dict_update (dict_set (fst p) (snd p) d) d'"
    by (simp add: dict_update_def)
  then show ?case
    using Cons.IH [of "dict_set (fst p) (snd p) d"]
    by (cases p) (auto simp: fun_eq_iff map_add_def split: option.splits)
qed (simp add: dict_update_def)

lemma dict_update_distinct [simp]:
  "distinct (map fst d) \<Longrightarrow> distinct (map fst (dict_update d d'))"
  by (induction d' arbitrary: d) (auto simp: dict_update_def)

lemma map_of_dict_select [simp]:
  "map_of (dict_select ks d) k = (if k \<in> set ks then map_of d k else None)"
proof (induction ks)
  case (Cons x ks)
  then show ?case
    by (cases "map_of d x") (auto simp: dict_select_def List.map_filter_simps)
qed (simp add: dict_select_def List.map_filter_simps)

lemma dict_select_keys: "set (map fst (dict_select ks d)) \<subseteq> set ks"
  by (auto simp: dict_select_def List.map_filter_def)

lemma dict_select_distinct [simp]:
  "distinct ks \<Longrightarrow> distinct (map fst (dict_select ks d))"
proof (induction ks)
  case (Cons x ks)
  then show ?case
    using dict_select_keys [of ks d]
    by (cases "map_of d x") (auto simp: dict_select_def List.map_filter_simps)
qed (simp add: dict_select_def List.map_filter_simps)

section \<open>Positional notation\<close>

text \<open>
  The digit loop of \<open>to_base36\<close>, for any base, with the digits as numbers: it divides
  until nothing is left and puts each remainder in front.
\<close>

fun radix_loop :: "nat \<Rightarrow> nat \<Rightarrow> nat list \<Rightarrow> nat list" where
  "radix_loop b n acc =
     (if n = 0 \<or> b < 2 then acc else radix_loop b (n div b) (n mod b # acc))"

declare radix_loop.simps [simp del]

definition radix_value :: "nat \<Rightarrow> nat list \<Rightarrow> nat" where
  "radix_value b ds = foldl (\<lambda>a d. a * b + d) 0 ds"

lemma radix_value_simps [simp]:
  "radix_value b [] = 0"
  "radix_value b (ds @ [d]) = radix_value b ds * b + d"
  by (simp_all add: radix_value_def)

lemma foldl_radix: "foldl (\<lambda>a d. a * b + d) x ds = x * b ^ length ds + radix_value b ds"
proof (induction ds rule: rev_induct)
  case (snoc d ds)
  then show ?case by (simp add: algebra_simps)
qed simp

lemma radix_value_append:
  "radix_value b (xs @ ys) = radix_value b xs * b ^ length ys + radix_value b ys"
proof -
  have "radix_value b (xs @ ys) = foldl (\<lambda>a d. a * b + d) (radix_value b xs) ys"
    by (simp add: radix_value_def)
  then show ?thesis by (simp add: foldl_radix)
qed

lemma radix_loop_append: "radix_loop b n (xs @ acc) = radix_loop b n xs @ acc"
proof (induction b n xs rule: radix_loop.induct)
  case (1 b n xs)
  show ?case
  proof (cases "n = 0 \<or> b < 2")
    case True
    then show ?thesis by (simp add: radix_loop.simps)
  next
    case False
    then have "radix_loop b n (xs @ acc) = radix_loop b (n div b) ((n mod b # xs) @ acc)"
      by (simp add: radix_loop.simps [of b n "xs @ acc"])
    also have "\<dots> = radix_loop b (n div b) (n mod b # xs) @ acc"
      using "1.IH" False by blast
    also have "\<dots> = radix_loop b n xs @ acc"
      using False by (simp add: radix_loop.simps [of b n xs])
    finally show ?thesis .
  qed
qed

lemma radix_loop_0 [simp]: "radix_loop b 0 acc = acc"
  by (simp add: radix_loop.simps)

lemma radix_loop_snoc:
  "0 < n \<Longrightarrow> 2 \<le> b \<Longrightarrow> radix_loop b n [] = radix_loop b (n div b) [] @ [n mod b]"
  using radix_loop_append [of b "n div b" "[]" "[n mod b]"]
  by (simp add: radix_loop.simps [of b n "[]"])

lemma radix_value_loop: "2 \<le> b \<Longrightarrow> radix_value b (radix_loop b n []) = n"
proof (induction n rule: less_induct)
  case (less n)
  show ?case
  proof (cases "n = 0")
    case False
    with less.prems have "n div b < n" by simp
    with less have "radix_value b (radix_loop b (n div b) []) = n div b" by simp
    with False less.prems show ?thesis by (simp add: radix_loop_snoc)
  qed simp
qed

lemma radix_loop_bounded: "2 \<le> b \<Longrightarrow> d \<in> set (radix_loop b n []) \<Longrightarrow> d < b"
proof (induction n arbitrary: d rule: less_induct)
  case (less n)
  show ?case
  proof (cases "n = 0")
    case False
    with less.prems have lt: "n div b < n" by simp
    have "d \<in> set (radix_loop b (n div b) []) \<or> d = n mod b"
      using less.prems(2) False less.prems(1) by (auto simp: radix_loop_snoc [of n b])
    then show ?thesis
      using less.IH [OF lt less.prems(1)] less.prems(1) by auto
  qed (use less in simp)
qed

lemma radix_loop_ne: "0 < n \<Longrightarrow> 2 \<le> b \<Longrightarrow> radix_loop b n [] \<noteq> []"
  by (simp add: radix_loop_snoc)

lemma radix_loop_hd: "0 < n \<Longrightarrow> 2 \<le> b \<Longrightarrow> hd (radix_loop b n []) \<noteq> 0"
proof (induction n rule: less_induct)
  case (less n)
  show ?case
  proof (cases "n div b = 0")
    case True
    with less.prems have "n < b" by (simp add: div_eq_0_iff)
    with less.prems True show ?thesis by (simp add: radix_loop_snoc)
  next
    case False
    with less.prems have "hd (radix_loop b (n div b) []) \<noteq> 0" by (intro less.IH) auto
    moreover have "radix_loop b (n div b) [] \<noteq> []"
      using less.prems False by (intro radix_loop_ne) auto
    ultimately show ?thesis
      using less.prems by (simp add: radix_loop_snoc [of n b])
  qed
qed

lemma radix_value_less:
  "2 \<le> b \<Longrightarrow> (\<And>d. d \<in> set ds \<Longrightarrow> d < b) \<Longrightarrow> radix_value b ds < b ^ length ds"
proof (induction ds rule: rev_induct)
  case (snoc d ds)
  have "radix_value b ds < b ^ length ds" using snoc by simp
  then have "Suc (radix_value b ds) * b \<le> b ^ length ds * b"
    by (intro mult_le_mono1) simp
  moreover have "d < b" using snoc.prems(2) by simp
  ultimately show ?case by (simp add: mult.commute)
qed simp

lemma radix_loop_value:
  assumes "2 \<le> b" and "\<And>d. d \<in> set ds \<Longrightarrow> d < b" and "ds = [] \<or> hd ds \<noteq> 0"
  shows "radix_loop b (radix_value b ds) [] = ds"
  using assms
proof (induction ds rule: rev_induct)
  case (snoc d ds)
  have d: "d < b" using snoc.prems(2) by simp
  have IH: "radix_loop b (radix_value b ds) [] = ds"
    using snoc by (cases ds) auto
  show ?case
  proof (cases "radix_value b ds * b + d = 0")
    case True
    then have v: "radix_value b ds = 0" and z: "d = 0" using snoc.prems(1) by auto
    from v IH have "ds = []" by simp
    with z snoc.prems(3) show ?thesis by simp
  next
    case False
    with d IH snoc.prems(1) show ?thesis
      by (simp add: radix_loop_snoc div_mult_self3 [of _ d b])
  qed
qed simp

lemma radix_loop_length:
  assumes "2 \<le> b" and "n < b ^ k"
  shows "length (radix_loop b n []) \<le> k"
  using assms(2)
proof (induction k arbitrary: n)
  case (Suc k)
  show ?case
  proof (cases "n = 0")
    case False
    have "n div b < b ^ k"
      using Suc.prems assms(1) by (simp add: less_mult_imp_div_less mult.commute)
    with Suc.IH have "length (radix_loop b (n div b) []) \<le> k" .
    with False assms(1) show ?thesis by (simp add: radix_loop_snoc)
  qed simp
qed simp

text \<open>Digits as characters of an alphabet, and back.\<close>

fun index_of :: "'a \<Rightarrow> 'a list \<Rightarrow> nat" where
  "index_of c [] = 0"
| "index_of c (x # xs) = (if x = c then 0 else Suc (index_of c xs))"

lemma index_of_nth [simp]: "distinct xs \<Longrightarrow> i < length xs \<Longrightarrow> index_of (xs ! i) xs = i"
proof (induction xs arbitrary: i)
  case (Cons x xs)
  then show ?case by (cases i) auto
qed simp

lemma nth_index_of [simp]: "c \<in> set xs \<Longrightarrow> xs ! index_of c xs = c"
  by (induction xs) auto

lemma index_of_less: "c \<in> set xs \<Longrightarrow> index_of c xs < length xs"
  by (induction xs) auto

definition digits_text :: "string \<Rightarrow> nat list \<Rightarrow> string" where
  "digits_text cs ds = map (\<lambda>d. cs ! d) ds"

definition text_digits :: "string \<Rightarrow> string \<Rightarrow> nat list" where
  "text_digits cs s = map (\<lambda>c. index_of c cs) s"

lemma text_digits_text [simp]:
  "distinct cs \<Longrightarrow> (\<And>d. d \<in> set ds \<Longrightarrow> d < length cs) \<Longrightarrow> text_digits cs (digits_text cs ds) = ds"
  by (induction ds) (auto simp: text_digits_def digits_text_def)

lemma digits_text_digits [simp]: "all_in cs s \<Longrightarrow> digits_text cs (text_digits cs s) = s"
  by (induction s) (auto simp: text_digits_def digits_text_def)

lemma digits_text_all_in: "(\<And>d. d \<in> set ds \<Longrightarrow> d < length cs) \<Longrightarrow> all_in cs (digits_text cs ds)"
  by (induction ds) (auto simp: digits_text_def)

lemma text_digits_bounded: "all_in cs s \<Longrightarrow> d \<in> set (text_digits cs s) \<Longrightarrow> d < length cs"
  by (induction s) (auto simp: text_digits_def index_of_less)

lemma digits_text_length [simp]: "length (digits_text cs ds) = length ds"
  by (simp add: digits_text_def)

lemma text_digits_length [simp]: "length (text_digits cs s) = length s"
  by (simp add: text_digits_def)

text \<open>Decimal text of a number, as \<open>str\<close> prints it.\<close>

definition nat_text :: "nat \<Rightarrow> string" where
  "nat_text n = (if n = 0 then ''0'' else digits_text digit_chars (radix_loop 10 n []))"

definition int_text :: "int \<Rightarrow> string" where
  "int_text i = (if i < 0 then CHR ''-'' # nat_text (nat (- i)) else nat_text (nat i))"

end
