(* ===== verification/Json.thy ===== *)
theory Json
  imports Prelude
begin

text \<open>
  JSON values as the code sees them after \<open>json.loads\<close>, the deterministic encoder
  \<open>json_bytes\<close> and the \<open>require_*\<close> checks of \<open>src/src/httk/workflow/_util.py\<close>.

  A Python float is its exact rational value, an infinity or NaN (negative zero is
  identified with zero). \<open>JObj\<close> is a dictionary with string keys, as JSON gives it.
\<close>

section \<open>Values\<close>

datatype pyfloat = Fin rat | Inf bool | NaN

datatype json =
    JNull
  | JBool bool
  | JInt int
  | JFloat pyfloat
  | JStr string
  | JArr "json list"
  | JObj "(string \<times> json) list"

type_synonym obj = "json dict"

text \<open>\<open>mapping.get(key)\<close> where an absent member reads as \<open>None\<close>, that is as null.\<close>

definition get :: "obj \<Rightarrow> string \<Rightarrow> json" where
  "get m k = (case map_of m k of None \<Rightarrow> JNull | Some v \<Rightarrow> v)"

definition get_default :: "obj \<Rightarrow> string \<Rightarrow> json \<Rightarrow> json" where
  "get_default m k d = (case map_of m k of None \<Rightarrow> d | Some v \<Rightarrow> v)"

definition has_key :: "obj \<Rightarrow> string \<Rightarrow> bool" where
  "has_key m k = (map_of m k \<noteq> None)"

text \<open>
  Python compares numbers by value across \<open>bool\<close>, \<open>int\<close> and \<open>float\<close>:
  \<open>True == 1\<close> and \<open>2 == 2.0\<close>. A comparison of a JSON value with an integer follows that.
\<close>

fun eq_int :: "json \<Rightarrow> int \<Rightarrow> bool" where
  "eq_int (JInt j) i = (j = i)"
| "eq_int (JBool b) i = ((if b then 1 else 0) = i)"
| "eq_int (JFloat (Fin q)) i = (q = of_int i)"
| "eq_int _ i = False"

fun eq_str :: "json \<Rightarrow> string \<Rightarrow> bool" where
  "eq_str (JStr s) t = (s = t)"
| "eq_str _ t = False"

text \<open>Comparison with a value of type \<open>str | None\<close>.\<close>

fun eq_opt_str :: "json \<Rightarrow> string option \<Rightarrow> bool" where
  "eq_opt_str JNull None = True"
| "eq_opt_str (JStr s) (Some t) = (s = t)"
| "eq_opt_str _ _ = False"

text \<open>The truth value of a value.\<close>

fun truthy :: "json \<Rightarrow> bool" where
  "truthy JNull = False"
| "truthy (JBool b) = b"
| "truthy (JInt i) = (i \<noteq> 0)"
| "truthy (JFloat x) = (x \<noteq> Fin 0)"
| "truthy (JStr s) = (s \<noteq> [])"
| "truthy (JArr xs) = (xs \<noteq> [])"
| "truthy (JObj m) = (m \<noteq> [])"

definition of_opt_str :: "string option \<Rightarrow> json" where
  "of_opt_str x = (case x of None \<Rightarrow> JNull | Some s \<Rightarrow> JStr s)"

definition of_opt_int :: "int option \<Rightarrow> json" where
  "of_opt_int x = (case x of None \<Rightarrow> JNull | Some i \<Rightarrow> JInt i)"

lemma get_simps [simp]:
  "get [] k = JNull"
  "get ((k', v) # m) k = (if k = k' then v else get m k)"
  by (auto simp: get_def)

lemma get_dict_set [simp]: "get (dict_set k v m) k' = (if k' = k then v else get m k')"
  by (simp add: get_def)

lemma has_key_simps [simp]:
  "\<not> has_key [] k"
  "has_key ((k', v) # m) k \<longleftrightarrow> k = k' \<or> has_key m k"
  by (auto simp: has_key_def)

lemma has_key_iff: "has_key m k \<longleftrightarrow> k \<in> set (map fst m)"
  by (auto simp: has_key_def map_of_eq_None_iff)

section \<open>Numbers\<close>

fun bit_length :: "nat \<Rightarrow> nat" where
  "bit_length n = (if n = 0 then 0 else Suc (bit_length (n div 2)))"

declare bit_length.simps [simp del]

text \<open>Integer division rounded to nearest, ties to even.\<close>

definition div_half_even :: "nat \<Rightarrow> nat \<Rightarrow> nat" where
  "div_half_even n d =
     (let q = n div d; r = n mod d
      in if 2 * r > d \<or> (2 * r = d \<and> odd q) then Suc q else q)"

text \<open>
  \<open>float(value)\<close> of an integer: exact below \<open>2^53\<close>, otherwise the nearest 53 bit
  significand; a result of \<open>2^1024\<close> or more raises \<open>OverflowError\<close>.
\<close>

definition float_magnitude :: "nat \<Rightarrow> nat" where
  "float_magnitude n =
     (if n < 2 ^ 53 then n
      else let e = bit_length n - 53 in div_half_even n (2 ^ e) * 2 ^ e)"

definition float_of_int :: "int \<Rightarrow> pyfloat res" where
  "float_of_int i =
     (let m = float_magnitude (nat \<bar>i\<bar>)
      in if m \<ge> 2 ^ 1024 then Inl OverflowError
         else Inr (Fin (of_int (if i < 0 then - int m else int m))))"

lemma bit_length_bounds: "0 < n \<Longrightarrow> 2 ^ (bit_length n - 1) \<le> n \<and> n < 2 ^ bit_length n"
proof (induction n rule: bit_length.induct)
  case (1 n)
  then have bl: "bit_length n = Suc (bit_length (n div 2))"
    by (simp add: bit_length.simps [of n])
  show ?case
  proof (cases "n div 2 = 0")
    case True
    with 1 have "n = 1" by (simp add: div_eq_0_iff)
    then show ?thesis by (simp add: bit_length.simps)
  next
    case False
    with 1 have IH: "2 ^ (bit_length (n div 2) - 1) \<le> n div 2" "n div 2 < 2 ^ bit_length (n div 2)"
      by auto
    have pos: "0 < bit_length (n div 2)" using False by (simp add: bit_length.simps [of "n div 2"])
    then have "2 * 2 ^ (bit_length (n div 2) - 1) = (2::nat) ^ bit_length (n div 2)"
      by (cases "bit_length (n div 2)") auto
    with IH have "2 ^ bit_length (n div 2) \<le> n" "n < 2 * 2 ^ bit_length (n div 2)"
      by linarith+
    then show ?thesis unfolding bl by simp
  qed
qed

lemma bit_length_ge: "2 ^ k \<le> n \<Longrightarrow> k < bit_length n"
proof (rule ccontr)
  assume h: "2 ^ k \<le> n" and "\<not> k < bit_length n"
  then have "(2::nat) ^ bit_length n \<le> 2 ^ k" by simp
  moreover have "0 < n" using h by (metis gr0I not_le power_eq_0_iff zero_less_power zero_neq_numeral le_zero_eq)
  ultimately show False using bit_length_bounds [of n] h by linarith
qed

text \<open>An integer of at least \<open>2^1024\<close> in magnitude has no float.\<close>

lemma float_of_int_overflow:
  assumes "2 ^ 1024 \<le> \<bar>i\<bar>"
  shows "float_of_int i = Inl OverflowError"
proof -
  let ?n = "nat \<bar>i\<bar>"
  have n: "2 ^ 1024 \<le> ?n" using assms by (simp add: le_nat_iff)
  let ?b = "bit_length ?n"
  have b: "1024 < ?b" using n by (rule bit_length_ge)
  have "2 ^ (?b - 1) \<le> ?n" using bit_length_bounds [of ?n] n by (metis gr0I le_zero_eq power_eq_0_iff zero_neq_numeral)
  moreover have "(2::nat) ^ (?b - 1) = 2 ^ 52 * 2 ^ (?b - 53)"
  proof -
    have "?b - 1 = 52 + (?b - 53)" using b by arith
    then show ?thesis by (metis power_add)
  qed
  ultimately have "2 ^ 52 \<le> ?n div 2 ^ (?b - 53)"
    by (metis less_eq_div_iff_mult_less_eq zero_less_numeral zero_less_power)
  moreover have "?n div 2 ^ (?b - 53) \<le> div_half_even ?n (2 ^ (?b - 53))"
    by (simp add: div_half_even_def Let_def)
  ultimately have "2 ^ 52 * 2 ^ (?b - 53) \<le> div_half_even ?n (2 ^ (?b - 53)) * 2 ^ (?b - 53)"
    by (intro mult_le_mono1) (rule order_trans)
  then have "2 ^ (?b - 1) \<le> div_half_even ?n (2 ^ (?b - 53)) * 2 ^ (?b - 53)"
    using \<open>(2::nat) ^ (?b - 1) = 2 ^ 52 * 2 ^ (?b - 53)\<close> by simp
  moreover have "(2::nat) ^ 1024 \<le> 2 ^ (?b - 1)" using b by (intro power_increasing) auto
  moreover have "\<not> ?n < 2 ^ 53"
  proof
    assume "?n < 2 ^ 53"
    moreover have "(2::nat) ^ 53 \<le> 2 ^ 1024" by (intro power_increasing) auto
    ultimately show False using n by linarith
  qed
  ultimately have "2 ^ 1024 \<le> float_magnitude ?n"
    unfolding float_magnitude_def Let_def by (simp only: if_False order_trans [OF \<open>2 ^ 1024 \<le> 2 ^ (?b - 1)\<close>])
  then show ?thesis by (simp only: float_of_int_def Let_def if_True)
qed

section \<open>Shape checks of \<open>_util.py\<close>\<close>

fun require_mapping :: "json \<Rightarrow> obj res" where
  "require_mapping (JObj m) = Inr m"
| "require_mapping _ = Inl FormatError"

fun require_string :: "json \<Rightarrow> string res" where
  "require_string (JStr s) = (if s = [] then Inl FormatError else Inr s)"
| "require_string _ = Inl FormatError"

text \<open>An array check that refuses strings and bytes, as the validators spell it.\<close>

fun require_array :: "json \<Rightarrow> json list res" where
  "require_array (JArr xs) = Inr xs"
| "require_array _ = Inl FormatError"

text \<open>The idiom \<open>default if value is None else check(value)\<close>.\<close>

definition opt_member :: "json \<Rightarrow> 'a \<Rightarrow> (json \<Rightarrow> 'a res) \<Rightarrow> 'a res" where
  "opt_member v d f = (case v of JNull \<Rightarrow> Inr d | _ \<Rightarrow> f v)"

definition require_int :: "json \<Rightarrow> int \<Rightarrow> int option \<Rightarrow> int res" where
  "require_int v lo hi =
     (case v of
        JInt i \<Rightarrow>
          if i < lo \<or> (case hi of None \<Rightarrow> False | Some h \<Rightarrow> i > h) then Inl FormatError
          else Inr i
      | _ \<Rightarrow> Inl FormatError)"

definition require_finite :: "pyfloat \<Rightarrow> rat \<Rightarrow> rat option \<Rightarrow> rat res" where
  "require_finite f lo hi =
     (case f of
        Fin q \<Rightarrow>
          if q < lo \<or> (case hi of None \<Rightarrow> False | Some h \<Rightarrow> q > h) then Inl FormatError
          else Inr q
      | _ \<Rightarrow> Inl FormatError)"

definition require_number :: "json \<Rightarrow> rat \<Rightarrow> rat option \<Rightarrow> rat res" where
  "require_number v lo hi =
     (case v of
        JInt i \<Rightarrow> bindr (float_of_int i) (\<lambda>f. require_finite f lo hi)
      | JFloat f \<Rightarrow> require_finite f lo hi
      | _ \<Rightarrow> Inl FormatError)"

definition validate_inputs :: "json \<Rightarrow> string option dict res" where
  "validate_inputs value =
     (case value of
        JObj m \<Rightarrow>
          mapr (\<lambda>(parameter, destination).
            if parameter = [] then Inl ValueError
            else (case destination of
                    JNull \<Rightarrow> Inr (parameter, None)
                  | JStr s \<Rightarrow> if s = [] then Inl ValueError else Inr (parameter, Some s)
                  | _ \<Rightarrow> Inl ValueError)) m
      | _ \<Rightarrow> Inl ValueError)"

lemma require_mapping_Inr [simp]: "require_mapping v = Inr m \<longleftrightarrow> v = JObj m"
  by (cases v) auto

lemma require_string_Inr [simp]: "require_string v = Inr s \<longleftrightarrow> v = JStr s \<and> s \<noteq> []"
  by (cases v) auto

lemma require_array_Inr [simp]: "require_array v = Inr xs \<longleftrightarrow> v = JArr xs"
  by (cases v) auto

lemma require_mapping_Inl [simp]: "require_mapping v = Inl e \<longleftrightarrow> e = FormatError \<and> (\<forall>m. v \<noteq> JObj m)"
  by (cases v) auto

lemma require_string_Inl [simp]:
  "require_string v = Inl e \<longleftrightarrow> e = FormatError \<and> (\<forall>s. v = JStr s \<longrightarrow> s = [])"
  by (cases v) auto

lemma require_int_Inr [simp]:
  "require_int v lo hi = Inr i \<longleftrightarrow>
     v = JInt i \<and> lo \<le> i \<and> (\<forall>h. hi = Some h \<longrightarrow> i \<le> h)"
  by (cases v) (auto simp: require_int_def split: option.splits)

lemma require_int_ok [simp]:
  "lo \<le> i \<Longrightarrow> (\<forall>h. hi = Some h \<longrightarrow> i \<le> h) \<Longrightarrow> require_int (JInt i) lo hi = Inr i"
  by (auto simp: require_int_def not_less split: option.splits)

lemma require_int_Inl: "require_int v lo hi = Inl e \<Longrightarrow> e = FormatError"
  by (cases v) (auto simp: require_int_def split: option.splits if_splits)

lemma require_finite_Inr:
  "require_finite f lo hi = Inr q \<longleftrightarrow>
     f = Fin q \<and> lo \<le> q \<and> (\<forall>h. hi = Some h \<longrightarrow> q \<le> h)"
  by (cases f) (auto simp: require_finite_def split: option.splits)

lemma require_number_bounds:
  "require_number v lo hi = Inr q \<Longrightarrow> lo \<le> q \<and> (\<forall>h. hi = Some h \<longrightarrow> q \<le> h)"
  by (cases v) (auto simp: require_number_def res_simps require_finite_Inr)

lemma require_number_float [simp]:
  "lo \<le> q \<Longrightarrow> (\<forall>h. hi = Some h \<longrightarrow> q \<le> h) \<Longrightarrow> require_number (JFloat (Fin q)) lo hi = Inr q"
  by (simp add: require_number_def require_finite_Inr)

lemma opt_member_Inr [simp]:
  "opt_member v d f = Inr x \<longleftrightarrow> (if v = JNull then x = d else f v = Inr x)"
  by (cases v) (auto simp: opt_member_def)

lemma opt_member_simps [simp]:
  "opt_member JNull d f = Inr d"
  "v \<noteq> JNull \<Longrightarrow> opt_member v d f = f v"
  by (simp_all add: opt_member_def split: json.splits)

section \<open>The text of a float\<close>

text \<open>
  \<open>float.__repr__\<close>: the shortest decimal that rounds to the same double, the closest one
  where several are as short; positional from \<open>1e-4\<close> up to \<open>1e16\<close>, scientific outside.
  \<open>round_double n d\<close> is the double nearest to \<open>n / d\<close> as a fraction.
\<close>

definition round_double :: "nat \<Rightarrow> nat \<Rightarrow> nat \<times> nat" where
  "round_double n d =
     (let e0 = int (bit_length n) - int (bit_length d) - 53;
          fits = (\<lambda>e. if e \<ge> 0 then div_half_even n (d * 2 ^ nat e)
                       else div_half_even (n * 2 ^ nat (- e)) d);
          e1 = (if fits e0 \<ge> 2 ^ 53 then e0 + 1 else e0);
          e = max e1 (- 1074);
          m = fits e
      in if e \<ge> 0 then (m * 2 ^ nat e, 1) else (m, 2 ^ nat (- e)))"

definition same_fraction :: "nat \<times> nat \<Rightarrow> nat \<times> nat \<Rightarrow> bool" where
  "same_fraction a b = (fst a * snd b = fst b * snd a)"

text \<open>Decimal exponent of a positive fraction: the \<open>k\<close> with \<open>10^k \<le> n / d < 10^(k+1)\<close>.\<close>

fun dec_exp_up :: "nat \<Rightarrow> nat \<Rightarrow> nat \<Rightarrow> nat" where
  "dec_exp_up fuel n d =
     (case fuel of 0 \<Rightarrow> 0 | Suc f \<Rightarrow> if n < 10 * d then 0 else Suc (dec_exp_up f n (10 * d)))"

fun dec_exp_down :: "nat \<Rightarrow> nat \<Rightarrow> nat \<Rightarrow> nat" where
  "dec_exp_down fuel n d =
     (case fuel of 0 \<Rightarrow> 0 | Suc f \<Rightarrow> if n \<ge> d then 0 else Suc (dec_exp_down f (10 * n) d))"

definition dec_exp :: "nat \<Rightarrow> nat \<Rightarrow> int" where
  "dec_exp n d = (if n \<ge> d then int (dec_exp_up 400 n d) else - int (dec_exp_down 400 n d))"

text \<open>The candidate with \<open>k\<close> significant digits: its digits as a number, then the exponent.\<close>

definition dec_value :: "nat \<Rightarrow> int \<Rightarrow> nat \<times> nat" where
  "dec_value m e = (if e \<ge> 0 then (m * 10 ^ nat e, 1) else (m, 10 ^ nat (- e)))"

fun short_digits :: "nat list \<Rightarrow> nat \<Rightarrow> nat \<Rightarrow> nat \<times> int" where
  "short_digits [] n d = (0, 0)"
| "short_digits (k # ks) n d =
     (let x = dec_exp n d; e = x - int k + 1;
          num = (if e \<ge> 0 then n else n * 10 ^ nat (- e));
          den = (if e \<ge> 0 then d * 10 ^ nat e else d);
          lo = num div den;
          near = div_half_even num den;
          far = (if near = lo then Suc lo else lo);
          ok = (\<lambda>m. case dec_value m e of (a, b) \<Rightarrow> same_fraction (round_double a b) (n, d))
      in if ok near then (near, e) else if ok far then (far, e) else short_digits ks n d)"

fun strip_zeros :: "nat \<Rightarrow> nat \<Rightarrow> int \<Rightarrow> nat \<times> int" where
  "strip_zeros fuel m e =
     (case fuel of
        0 \<Rightarrow> (m, e)
      | Suc f \<Rightarrow> if m \<noteq> 0 \<and> m mod 10 = 0 then strip_zeros f (m div 10) (e + 1) else (m, e))"

definition two_digits :: "nat \<Rightarrow> string" where
  "two_digits n = (if n < 10 then CHR ''0'' # nat_text n else nat_text n)"

definition place_point :: "string \<Rightarrow> int \<Rightarrow> string" where
  "place_point ds point =
     (let n = int (length ds)
      in if point > 16 \<or> point < - 3 then
           (case ds of
              [] \<Rightarrow> []
            | c # cs \<Rightarrow>
                c # (if cs = [] then [] else CHR ''.'' # cs)
                @ (if point - 1 < 0 then ''e-'' else ''e+'') @ two_digits (nat \<bar>point - 1\<bar>))
         else if point \<le> 0 then ''0.'' @ replicate (nat (- point)) CHR ''0'' @ ds
         else if point \<ge> n then ds @ replicate (nat (point - n)) CHR ''0'' @ ''.0''
         else take (nat point) ds @ CHR ''.'' # drop (nat point) ds)"

definition float_repr :: "rat \<Rightarrow> string" where
  "float_repr q =
     (if q = 0 then ''0.0''
      else let f = quotient_of \<bar>q\<bar>;
               s = short_digits [1..<18] (nat (fst f)) (nat (snd f));
               t = strip_zeros 20 (fst s) (snd s);
               ds = nat_text (fst t)
           in (if q < 0 then ''-'' else '''') @ place_point ds (int (length ds) + snd t))"

fun float_text :: "pyfloat \<Rightarrow> string" where
  "float_text (Fin q) = float_repr q"
| "float_text (Inf b) = (if b then ''Infinity'' else ''-Infinity'')"
| "float_text NaN = ''NaN''"

section \<open>The encoder\<close>

definition escape_char :: "char \<Rightarrow> string" where
  "escape_char c =
     (if c = CHR 0x22 then [CHR 0x5C, CHR 0x22]
      else if c = CHR 0x5C then [CHR 0x5C, CHR 0x5C]
      else if c = CHR 0x0A then [CHR 0x5C, CHR ''n'']
      else if c = CHR 0x0D then [CHR 0x5C, CHR ''r'']
      else if c = CHR 0x09 then [CHR 0x5C, CHR ''t'']
      else if c = CHR 0x0C then [CHR 0x5C, CHR ''f'']
      else if c = CHR 0x08 then [CHR 0x5C, CHR ''b'']
      else if of_char c < (32::nat) then
        CHR 0x5C # ''u00'' @ [hex_chars ! (of_char c div 16), hex_chars ! (of_char c mod 16)]
      else [c])"

definition json_string :: "string \<Rightarrow> string" where
  "json_string s = CHR 0x22 # concat (map escape_char s) @ [CHR 0x22]"

text \<open>Compact separators, keys in sorted order, no ASCII escaping of non-ASCII text.\<close>

fun json_bytes :: "json \<Rightarrow> string" where
  "json_bytes JNull = ''null''"
| "json_bytes (JBool b) = (if b then ''true'' else ''false'')"
| "json_bytes (JInt i) = int_text i"
| "json_bytes (JFloat f) = float_text f"
| "json_bytes (JStr s) = json_string s"
| "json_bytes (JArr xs) = CHR ''['' # join_with '','' (map json_bytes xs) @ '']''"
| "json_bytes (JObj m) =
     CHR ''{'' # join_with '','' (map (\<lambda>(k, t). json_string k @ CHR '':'' # t)
       (sort_key fst (map (\<lambda>(k, v). (k, json_bytes v)) m))) @ ''}''"

end
