(* ===== verification/Names.thy ===== *)
theory Names
  imports Json
begin

text \<open>
  The names the protocol coins, from \<open>src/src/httk/workflow/models.py\<close>: base-36 numbers,
  canonical UUIDs, labels, declaration names and job keys. A regular expression of the
  source is a predicate that accepts the same strings.
\<close>

section \<open>Base 36\<close>

text \<open>\<open>to_base36\<close> raises on a negative value; its loop is \<open>radix_loop\<close> over the alphabet.\<close>

definition base36_text :: "nat \<Rightarrow> string" where
  "base36_text n = (if n = 0 then ''0'' else digits_text base36_chars (radix_loop 36 n []))"

definition to_base36 :: "int \<Rightarrow> string res" where
  "to_base36 value = (if value < 0 then Inl ValueError else Inr (base36_text (nat value)))"

text \<open>\<open>int(text, 36)\<close> on a text of base-36 digits.\<close>

definition of_base36 :: "string \<Rightarrow> nat" where
  "of_base36 s = radix_value 36 (text_digits base36_chars s)"

lemma base36_chars_facts [simp]: "length base36_chars = 36" "distinct base36_chars"
  by (simp_all add: base36_chars_def)

lemma hex_chars_facts [simp]: "length hex_chars = 16" "distinct hex_chars"
  by (simp_all add: hex_chars_def)

lemma sep_notin_alphabets [simp]:
  "CHR ''-'' \<notin> set hex_chars" "CHR ''-'' \<notin> set base36_chars"
  "CHR ''.'' \<notin> set hex_chars" "CHR ''.'' \<notin> set base36_chars"
  by (simp_all add: hex_chars_def base36_chars_def)

lemma base36_chars_hex: "base36_chars = hex_chars @ ''ghijklmnopqrstuvwxyz''"
  by (simp add: hex_chars_def base36_chars_def)

lemma hex_subset_base36: "all_in hex_chars s \<Longrightarrow> all_in base36_chars s"
  unfolding all_in_iff base36_chars_hex set_append by blast

lemma all_in_sep: "all_in cs s \<Longrightarrow> c \<notin> set cs \<Longrightarrow> c \<notin> set s"
  by (auto simp: all_in_iff)

lemma hex_no_sep: "all_in hex_chars s \<Longrightarrow> CHR ''-'' \<notin> set s" "all_in hex_chars s \<Longrightarrow> CHR ''.'' \<notin> set s"
  by (erule all_in_sep, simp)+

lemma base36_no_sep:
  "all_in base36_chars s \<Longrightarrow> CHR ''-'' \<notin> set s" "all_in base36_chars s \<Longrightarrow> CHR ''.'' \<notin> set s"
  by (erule all_in_sep, simp)+

lemma of_base36_text [simp]: "of_base36 (base36_text n) = n"
proof (cases "n = 0")
  case True
  then show ?thesis
    by (simp add: of_base36_def base36_text_def text_digits_def base36_chars_def radix_value_def)
next
  case False
  then show ?thesis
    using radix_loop_bounded [of 36 _ n] by (simp add: of_base36_def base36_text_def radix_value_loop)
qed

lemma base36_text_all_in: "all_in base36_chars (base36_text n)"
proof (cases "n = 0")
  case True
  then show ?thesis by (simp add: base36_text_def base36_chars_def)
next
  case False
  then show ?thesis
    using radix_loop_bounded [of 36 _ n] by (auto simp: base36_text_def intro: digits_text_all_in)
qed

lemma base36_text_ne [simp]: "base36_text n \<noteq> []"
proof (cases "n = 0")
  case False
  then have "length (radix_loop 36 n []) \<noteq> 0" using radix_loop_ne [of n 36] by simp
  with False show ?thesis by (metis base36_text_def digits_text_length list.size(3))
qed (simp add: base36_text_def)

lemma base36_text_length: "n < 36 ^ k \<Longrightarrow> 0 < k \<Longrightarrow> length (base36_text n) \<le> k"
  using radix_loop_length [of 36 n k] by (auto simp: base36_text_def)

section \<open>Fixed-width digits\<close>

text \<open>Zero-padded numbers: \<open>%032x\<close> of a UUID and \<open>03d\<close> of a priority that fits.\<close>

fun fixed_digits :: "nat \<Rightarrow> nat \<Rightarrow> nat \<Rightarrow> nat list" where
  "fixed_digits b 0 n = []"
| "fixed_digits b (Suc k) n = fixed_digits b k (n div b) @ [n mod b]"

lemma fixed_digits_length [simp]: "length (fixed_digits b k n) = k"
  by (induction k arbitrary: n) auto

lemma fixed_digits_bounded: "0 < b \<Longrightarrow> d \<in> set (fixed_digits b k n) \<Longrightarrow> d < b"
  by (induction k arbitrary: n) auto

lemma radix_value_fixed: "0 < b \<Longrightarrow> n < b ^ k \<Longrightarrow> radix_value b (fixed_digits b k n) = n"
proof (induction k arbitrary: n)
  case (Suc k)
  have "n div b < b ^ k" using Suc.prems by (simp add: less_mult_imp_div_less mult.commute)
  with Suc show ?case by simp
qed simp

lemma fixed_digits_value:
  "0 < b \<Longrightarrow> (\<And>d. d \<in> set ds \<Longrightarrow> d < b) \<Longrightarrow> fixed_digits b (length ds) (radix_value b ds) = ds"
proof (induction ds rule: rev_induct)
  case (snoc d ds)
  have d: "d < b" using snoc.prems(2) by simp
  then have "(radix_value b ds * b + d) div b = radix_value b ds"
    using div_mult_self3 [of b d "radix_value b ds"] by simp
  with d snoc show ?case by simp
qed simp

section \<open>UUIDs\<close>

definition hyphenate :: "string \<Rightarrow> string" where
  "hyphenate h =
     join_with ''-'' [take 8 h, take 4 (drop 8 h), take 4 (drop 12 h), take 4 (drop 16 h), drop 20 h]"

definition dehyphenate :: "string \<Rightarrow> string" where
  "dehyphenate s = filter (\<lambda>c. c \<noteq> CHR ''-'') s"

text \<open>\<open>_UUID_PATTERN\<close>.\<close>

definition uuid_pattern :: "string \<Rightarrow> bool" where
  "uuid_pattern s =
     (case split_on CHR ''-'' s of
        [a, b, c, d, e] \<Rightarrow>
          length a = 8 \<and> length b = 4 \<and> length c = 4 \<and> length d = 4 \<and> length e = 12
          \<and> all_in hex_chars (a @ b @ c @ d @ e)
      | _ \<Rightarrow> False)"

text \<open>
  \<open>str(uuid.UUID(text))\<close>: hyphens removed, 32 hexadecimal digits read as a number, the
  number printed with 32 padded digits and the canonical hyphens. What \<open>uuid.UUID\<close> also
  accepts (braces, a \<open>urn:uuid:\<close> prefix, upper case, signs and underscores) never prints
  back as the text it was read from, so the comparison below refuses it either way.
\<close>

definition uuid_parse :: "string \<Rightarrow> nat option" where
  "uuid_parse text =
     (let h = dehyphenate text
      in if length h = 32 \<and> all_in hex_chars h
         then Some (radix_value 16 (text_digits hex_chars h)) else None)"

definition uuid_text :: "nat \<Rightarrow> string" where
  "uuid_text n = hyphenate (digits_text hex_chars (fixed_digits 16 32 n))"

definition canonical_uuid :: "json \<Rightarrow> string res" where
  "canonical_uuid value =
     bindr (require_string value) (\<lambda>text.
       case uuid_parse text of
         None \<Rightarrow> Inl FormatError
       | Some parsed \<Rightarrow> if text \<noteq> uuid_text parsed then Inl FormatError else Inr text)"

lemma dehyphenate_append [simp]: "dehyphenate (a @ b) = dehyphenate a @ dehyphenate b"
  by (simp add: dehyphenate_def)

lemma dehyphenate_none [simp]: "CHR ''-'' \<notin> set s \<Longrightarrow> dehyphenate s = s"
  by (auto simp: dehyphenate_def filter_id_conv)

lemma hyphenate_pieces:
  "hyphenate h = take 8 h @ ''-'' @ take 4 (drop 8 h) @ ''-'' @ take 4 (drop 12 h) @ ''-''
     @ take 4 (drop 16 h) @ ''-'' @ drop 20 h"
  by (simp add: hyphenate_def)

lemma take_drop_glue: "take n (drop m h) @ drop (n + m) h = drop m h"
  by (metis append_take_drop_id drop_drop)

lemma dehyphenate_hyphenate: "CHR ''-'' \<notin> set h \<Longrightarrow> dehyphenate (hyphenate h) = h"
proof -
  assume n: "CHR ''-'' \<notin> set h"
  have sub: "CHR ''-'' \<notin> set (take i (drop j h))" "CHR ''-'' \<notin> set (drop j h)"
    "CHR ''-'' \<notin> set (take i h)" for i j
    using n by (auto dest: in_set_takeD in_set_dropD)
  have sep: "dehyphenate ''-'' = []" by (simp add: dehyphenate_def)
  have "dehyphenate (hyphenate h)
      = take 8 h @ take 4 (drop 8 h) @ take 4 (drop 12 h) @ take 4 (drop 16 h) @ drop 20 h"
    unfolding hyphenate_pieces dehyphenate_append sep using sub by simp
  also have "\<dots> = h"
    using take_drop_glue [of 4 16 h] take_drop_glue [of 4 12 h] take_drop_glue [of 4 8 h] by simp
  finally show ?thesis .
qed

lemma uuid_pattern_hyphenate:
  assumes "length h = 32" and "all_in hex_chars h"
  shows "uuid_pattern (hyphenate h)"
proof -
  have n: "CHR ''-'' \<notin> set h" using assms(2) by (rule hex_no_sep)
  let ?ps = "[take 8 h, take 4 (drop 8 h), take 4 (drop 12 h), take 4 (drop 16 h), drop 20 h]"
  have "split_on CHR ''-'' (hyphenate h) = ?ps"
    unfolding hyphenate_def using n
    by (intro split_on_join_with) (auto dest: in_set_takeD in_set_dropD)
  moreover have "all_in hex_chars (take i (drop j h))" "all_in hex_chars (drop j h)"
    "all_in hex_chars (take i h)" for i j
    using assms(2) unfolding all_in_iff by (meson set_drop_subset set_take_subset subset_trans)+
  ultimately show ?thesis
    using assms(1) by (simp add: uuid_pattern_def)
qed

lemma uuid_pattern_cases:
  assumes "uuid_pattern s"
  obtains h where "length h = 32" "all_in hex_chars h" "s = hyphenate h"
proof -
  obtain a b c d e where sp: "split_on CHR ''-'' s = [a, b, c, d, e]"
    and len: "length a = 8" "length b = 4" "length c = 4" "length d = 4" "length e = 12"
    and hx: "all_in hex_chars (a @ b @ c @ d @ e)"
    using assms by (auto simp: uuid_pattern_def split: list.splits)
  have "s = join_with ''-'' [a, b, c, d, e]"
    using join_with_split_on [of "CHR ''-''" s] sp by simp
  also have "\<dots> = hyphenate (a @ b @ c @ d @ e)"
    using len by (simp add: hyphenate_def)
  finally show ?thesis
    using that [of "a @ b @ c @ d @ e"] len hx by simp
qed

lemma uuid_text_parse:
  assumes "length h = 32" and "all_in hex_chars h"
  shows "uuid_parse (hyphenate h) = Some (radix_value 16 (text_digits hex_chars h))"
    and "uuid_text (radix_value 16 (text_digits hex_chars h)) = hyphenate h"
proof -
  have n: "CHR ''-'' \<notin> set h" using assms(2) by (rule hex_no_sep)
  show "uuid_parse (hyphenate h) = Some (radix_value 16 (text_digits hex_chars h))"
    using assms n by (simp add: uuid_parse_def dehyphenate_hyphenate)
  have "fixed_digits 16 32 (radix_value 16 (text_digits hex_chars h)) = text_digits hex_chars h"
    using fixed_digits_value [of 16 "text_digits hex_chars h"] assms
      text_digits_bounded [of hex_chars h] by simp
  then show "uuid_text (radix_value 16 (text_digits hex_chars h)) = hyphenate h"
    using assms by (simp add: uuid_text_def)
qed

lemma canonical_uuid_Inr: "canonical_uuid v = Inr s \<longleftrightarrow> v = JStr s \<and> uuid_pattern s"
proof
  assume h: "canonical_uuid v = Inr s"
  then obtain n where v: "v = JStr s" and p: "uuid_parse s = Some n" and t: "s = uuid_text n"
    by (auto simp: canonical_uuid_def res_simps split: option.splits if_splits)
  have "all_in hex_chars (digits_text hex_chars (fixed_digits 16 32 n))"
    using fixed_digits_bounded [of 16 _ 32 n] by (auto intro: digits_text_all_in)
  then have "uuid_pattern s"
    unfolding t uuid_text_def by (intro uuid_pattern_hyphenate) simp_all
  with v show "v = JStr s \<and> uuid_pattern s" ..
next
  assume h: "v = JStr s \<and> uuid_pattern s"
  then obtain x where "length x = 32" "all_in hex_chars x" "s = hyphenate x"
    by (auto elim: uuid_pattern_cases)
  then have "uuid_parse s = Some (radix_value 16 (text_digits hex_chars x))"
    and "uuid_text (radix_value 16 (text_digits hex_chars x)) = s"
    by (simp_all add: uuid_text_parse)
  moreover have "s \<noteq> []"
    using h by (auto simp: uuid_pattern_def)
  ultimately show "canonical_uuid v = Inr s"
    using h by (simp add: canonical_uuid_def)
qed

lemma canonical_uuid_Inl: "canonical_uuid v = Inl e \<Longrightarrow> e = FormatError"
  by (auto simp: canonical_uuid_def res_simps split: option.splits if_splits)

lemma uuid_pattern_length: "uuid_pattern s \<Longrightarrow> length s = 36"
  by (auto elim!: uuid_pattern_cases simp: hyphenate_def)

lemma uuid_pattern_chars: "uuid_pattern s \<Longrightarrow> set s \<subseteq> set (CHR ''-'' # hex_chars)"
proof -
  assume "uuid_pattern s"
  then obtain h where "all_in hex_chars h" "s = hyphenate h"
    by (auto elim: uuid_pattern_cases)
  then show ?thesis
    by (auto simp: hyphenate_pieces all_in_iff dest: in_set_takeD in_set_dropD)
qed

section \<open>Labels and declaration names\<close>

definition label_first :: string where
  "label_first = lower_chars @ digit_chars"

definition label_rest :: string where
  "label_rest = lower_chars @ digit_chars @ ''._-''"

text \<open>\<open>_TAG_PATTERN\<close>, which is \<open>_LABEL_PATTERN\<close>.\<close>

definition label_pattern :: "string \<Rightarrow> bool" where
  "label_pattern s =
     (case s of
        [] \<Rightarrow> False
      | c # cs \<Rightarrow> c \<in> set label_first \<and> all_in label_rest cs \<and> length cs \<le> 47)"

definition is_label :: "string \<Rightarrow> bool" where
  "is_label s = (label_pattern s \<and> \<not> contains ''--'' s)"

definition validate_label :: "json \<Rightarrow> string res" where
  "validate_label value =
     bindr (require_string value) (\<lambda>text.
       if \<not> label_pattern text \<or> contains ''--'' text then Inl FormatError else Inr text)"

lemma label_pattern_Nil [simp]: "\<not> label_pattern []"
  by (simp add: label_pattern_def)

lemma label_ne: "is_label s \<Longrightarrow> s \<noteq> []"
  by (auto simp: is_label_def)

lemma validate_label_Inr [simp]: "validate_label v = Inr s \<longleftrightarrow> v = JStr s \<and> is_label s"
  unfolding validate_label_def bindr_Inr_iff require_string_Inr is_label_def
  by (cases "s = []") auto

lemma validate_label_Inl: "validate_label v = Inl e \<Longrightarrow> e = FormatError"
  by (auto simp: validate_label_def res_simps split: if_splits)

definition declaration_first :: string where
  "declaration_first = upper_chars @ lower_chars @ digit_chars @ ''_''"

definition declaration_rest :: string where
  "declaration_rest = upper_chars @ lower_chars @ digit_chars @ ''._-''"

text \<open>\<open>_DECLARATION_NAME_PATTERN\<close>, whose second class has the underscore.\<close>

definition declaration_pattern :: "string \<Rightarrow> bool" where
  "declaration_pattern s =
     (case s of
        [] \<Rightarrow> False
      | c # cs \<Rightarrow> c \<in> set declaration_first \<and> all_in declaration_rest cs \<and> length cs \<le> 63)"

definition validate_declaration_name :: "json \<Rightarrow> string res" where
  "validate_declaration_name value =
     bindr (require_string value) (\<lambda>text.
       if \<not> declaration_pattern text \<or> contains ''..'' text then Inl FormatError else Inr text)"

definition validate_sha256 :: "json \<Rightarrow> string res" where
  "validate_sha256 value =
     bindr (require_string value) (\<lambda>text.
       if \<not> (length text = 64 \<and> all_in hex_chars text) then Inl FormatError else Inr text)"

definition is_payload_private :: "string \<Rightarrow> bool" where
  "is_payload_private name = (name \<in> {''attempts'', ''logs'', ''.httk-job''})"

text \<open>An attempt control directory is exactly \<open>attempts/<attempt-id>\<close>.\<close>

definition validate_attempt_control :: "json \<Rightarrow> string res" where
  "validate_attempt_control value =
     bindr (require_string value) (\<lambda>text.
       if \<not> starts_with ''attempts/'' text then Inl FormatError
       else bindr (canonical_uuid (JStr (drop (length ''attempts/'') text))) (\<lambda>_. Inr text))"

section \<open>Steps\<close>

definition validate_step :: "json \<Rightarrow> string res" where
  "validate_step value =
     bindr (require_string value) (\<lambda>text.
       if length text > 128 \<or> CHR ''/'' \<in> set text \<or> NUL \<in> set text then Inl FormatError
       else Inr text)"

definition ensure_step_known :: "string \<Rightarrow> string list \<Rightarrow> string res" where
  "ensure_step_known step steps =
     bindr (validate_step (JStr step)) (\<lambda>_.
       if step \<in> set steps then Inr step else Inl FormatError)"

section \<open>Job keys\<close>

definition make_job_key :: "string \<Rightarrow> string option \<Rightarrow> string" where
  "make_job_key job_id tag =
     (case tag of
        None \<Rightarrow> job_id
      | Some t \<Rightarrow> if t = [] then job_id else t @ ''--'' @ job_id)"

text \<open>The slices \<open>value[-36:]\<close>, \<open>value[-38:-36]\<close> and \<open>value[:-38]\<close> clip at the start.\<close>

definition parse_job_key :: "string \<Rightarrow> (string option \<times> string) res" where
  "parse_job_key value =
     (let n = length value; job_id = drop (n - 36) value
      in if \<not> uuid_pattern job_id then Inl FormatError
         else if n = 36 then Inr (None, job_id)
         else if take (n - 36 - (n - 38)) (drop (n - 38) value) \<noteq> ''--'' then Inl FormatError
         else bindr (validate_label (JStr (take (n - 38) value))) (\<lambda>tag. Inr (Some tag, job_id)))"

lemma parse_make_job_key:
  assumes "uuid_pattern i" and "\<And>t. tag = Some t \<Longrightarrow> is_label t"
  shows "parse_job_key (make_job_key i tag) = Inr (tag, i)"
proof (cases tag)
  case None
  then show ?thesis
    using assms(1) uuid_pattern_length [OF assms(1)] by (simp add: make_job_key_def parse_job_key_def)
next
  case (Some t)
  then have t: "is_label t" "t \<noteq> []" using assms(2) label_ne by blast+
  then have k: "make_job_key i tag = t @ ''--'' @ i" using Some by (simp add: make_job_key_def)
  show ?thesis
    unfolding k parse_job_key_def Let_def
    using assms(1) uuid_pattern_length [OF assms(1)] t Some validate_label_Inr [of "JStr t" t]
    by (simp del: validate_label_Inr)
qed

lemma parse_job_key_Inr:
  assumes "parse_job_key k = Inr (tag, i)"
  shows "uuid_pattern i" and "k = make_job_key i tag" and "\<And>t. tag = Some t \<Longrightarrow> is_label t"
proof -
  let ?n = "length k"
  have u: "uuid_pattern i" and i: "i = drop (?n - 36) k"
    using assms by (auto simp: parse_job_key_def Let_def res_simps split: if_splits)
  show "uuid_pattern i" by fact
  have l36: "36 \<le> ?n"
    using uuid_pattern_length [OF u] i by simp
  show "\<And>t. tag = Some t \<Longrightarrow> is_label t"
    using assms by (auto simp: parse_job_key_def Let_def res_simps split: if_splits)
  show "k = make_job_key i tag"
  proof (cases "?n = 36")
    case True
    then show ?thesis
      using assms u i by (auto simp: parse_job_key_def make_job_key_def split: if_splits)
  next
    case False
    with assms have sep: "take (?n - 36 - (?n - 38)) (drop (?n - 38) k) = ''--''"
      and tag: "tag = Some (take (?n - 38) k)" and lab: "is_label (take (?n - 38) k)"
      by (auto simp: parse_job_key_def Let_def res_simps split: if_splits)
    have n38: "38 \<le> ?n"
    proof (rule ccontr)
      assume "\<not> 38 \<le> ?n"
      then have "length (take (?n - 36 - (?n - 38)) (drop (?n - 38) k)) \<le> 1" using l36 by simp
      with sep show False by simp
    qed
    then have "take 2 (drop (?n - 38) k) = ''--''" using sep by simp
    moreover have "drop 2 (drop (?n - 38) k) = i"
    proof -
      have "2 + (?n - 38) = ?n - 36" using n38 by arith
      then show ?thesis using i by (metis drop_drop)
    qed
    ultimately have "drop (?n - 38) k = ''--'' @ i"
      by (metis append_take_drop_id)
    then have "k = take (?n - 38) k @ ''--'' @ i"
      by (metis append_take_drop_id)
    then show ?thesis using tag label_ne [OF lab] by (auto simp: make_job_key_def)
  qed
qed

lemma parse_job_key_error: "parse_job_key k = Inl e \<Longrightarrow> e = FormatError"
  by (auto simp: parse_job_key_def Let_def res_simps split: if_splits dest: validate_label_Inl)

end
