(* ===== verification/Paths.thy ===== *)
theory Paths
  imports Names
begin

text \<open>
  Relative POSIX paths: placements, runner paths and the reserved package form of
  \<open>src/src/httk/workflow/models.py\<close>. \<open>PurePosixPath(text)\<close> is whether the text is
  absolute together with its components; the constructor drops empty and \<open>.\<close> components
  and keeps \<open>..\<close>.
\<close>

section \<open>Pure paths\<close>

record pure_path =
  absolute :: bool
  parts :: "string list"

definition pure_posix_path :: "string \<Rightarrow> pure_path" where
  "pure_posix_path text =
     \<lparr>absolute = starts_with ''/'' text,
      parts = filter (\<lambda>p. p \<noteq> [] \<and> p \<noteq> ''.'') (split_on CHR ''/'' text)\<rparr>"

definition as_posix :: "string list \<Rightarrow> string" where
  "as_posix ps = (if ps = [] then ''.'' else join_with ''/'' ps)"

text \<open>\<open>_UNSAFE_PATH_COMPONENTS\<close>.\<close>

definition unsafe_component :: "string \<Rightarrow> bool" where
  "unsafe_component p = (p \<in> {[], ''.'', ''..'', ''.httk-workspace''} \<or> NUL \<in> set p)"

section \<open>Placements\<close>

definition normalize_parts :: "pure_path \<Rightarrow> string list res" where
  "normalize_parts p =
     (if absolute p \<or> parts p = [] then Inl FormatError
      else if list_ex (\<lambda>c. unsafe_component c \<or> length c > 255) (parts p) then Inl FormatError
      else Inr (parts p))"

definition normalize_placement :: "string \<Rightarrow> string list res" where
  "normalize_placement value = normalize_parts (pure_posix_path value)"

text \<open>Components as they come from a path: no separator inside.\<close>

definition wf_placement :: "string list \<Rightarrow> bool" where
  "wf_placement ps =
     (ps \<noteq> [] \<and> list_all (\<lambda>c. \<not> unsafe_component c \<and> length c \<le> 255 \<and> CHR ''/'' \<notin> set c) ps)"

lemma pure_posix_path_no_slash: "p \<in> set (parts (pure_posix_path s)) \<Longrightarrow> CHR ''/'' \<notin> set p"
  by (auto simp: pure_posix_path_def dest: split_on_pieces)

lemma normalize_placement_wf: "normalize_placement s = Inr ps \<Longrightarrow> wf_placement ps"
proof -
  assume h: "normalize_placement s = Inr ps"
  then have "ps = parts (pure_posix_path s)" "ps \<noteq> []"
    and "\<not> list_ex (\<lambda>c. unsafe_component c \<or> length c > 255) ps"
    by (auto simp: normalize_placement_def normalize_parts_def split: if_splits)
  then show ?thesis
    by (auto simp: wf_placement_def list_all_iff list_ex_iff not_less dest: pure_posix_path_no_slash)
qed

lemma wf_placement_components:
  "wf_placement ps \<Longrightarrow> p \<in> set ps \<Longrightarrow>
     p \<noteq> [] \<and> p \<noteq> ''.'' \<and> p \<noteq> ''..'' \<and> CHR ''/'' \<notin> set p \<and> \<not> unsafe_component p \<and> length p \<le> 255"
  by (auto simp: wf_placement_def list_all_iff unsafe_component_def)

lemma pure_posix_path_as_posix:
  assumes "wf_placement ps"
  shows "pure_posix_path (as_posix ps) = \<lparr>absolute = False, parts = ps\<rparr>"
proof -
  have ne: "ps \<noteq> []" using assms by (simp add: wf_placement_def)
  then obtain p qs where ps: "ps = p # qs" by (cases ps) auto
  have p: "p \<noteq> []" "CHR ''/'' \<notin> set p"
    using wf_placement_components [OF assms, of p] ps by auto
  have sp: "split_on CHR ''/'' (as_posix ps) = ps"
    using ne wf_placement_components [OF assms]
    by (simp add: as_posix_def split_on_join_with)
  have fi: "filter (\<lambda>c. c \<noteq> [] \<and> c \<noteq> ''.'') ps = ps"
    using wf_placement_components [OF assms] by (auto simp: filter_id_conv)
  obtain c cs where c: "p = c # cs" using p(1) by (cases p) auto
  have "hd (as_posix ps) = c"
    using ps c by (cases qs) (auto simp: as_posix_def)
  moreover have "c \<noteq> CHR ''/''" using p(2) c by auto
  ultimately have "\<not> starts_with ''/'' (as_posix ps)"
    by (cases "as_posix ps") (auto simp: starts_with_def)
  with sp fi show ?thesis by (simp add: pure_posix_path_def)
qed

lemma normalize_parts_wf:
  "wf_placement ps \<Longrightarrow> normalize_parts \<lparr>absolute = False, parts = ps\<rparr> = Inr ps"
  by (auto simp: normalize_parts_def wf_placement_def list_all_iff list_ex_iff)

section \<open>Runner paths\<close>

definition identifier_first :: string where
  "identifier_first = upper_chars @ lower_chars @ ''_''"

definition identifier_rest :: string where
  "identifier_rest = upper_chars @ lower_chars @ digit_chars @ ''_''"

definition is_identifier :: "string \<Rightarrow> bool" where
  "is_identifier s =
     (case s of [] \<Rightarrow> False | c # cs \<Rightarrow> c \<in> set identifier_first \<and> all_in identifier_rest cs)"

text \<open>\<open>_MODULE_PATTERN\<close>, also the dotted identifiers of settings.\<close>

definition dotted_identifier :: "string \<Rightarrow> bool" where
  "dotted_identifier s = list_all is_identifier (split_on CHR ''.'' s)"

definition parse_package_runner :: "string \<Rightarrow> (string \<times> string list) option res" where
  "parse_package_runner value =
     (if \<not> starts_with ''pkg:'' value then Inr None
      else
        let rest = drop (length ''pkg:'') value;
            module = takeWhile (\<lambda>c. c \<noteq> CHR ''/'') rest;
            separator = CHR ''/'' \<in> set rest;
            resource = drop (Suc (length module)) rest
        in if \<not> separator \<or> \<not> dotted_identifier module then Inl FormatError
           else
             let relative = pure_posix_path resource
             in if absolute relative \<or> parts relative = [] then Inl FormatError
                else if list_ex unsafe_component (parts relative) then Inl FormatError
                else Inr (Some (module, parts relative)))"

definition validate_runner_path :: "json \<Rightarrow> string \<Rightarrow> string list res" where
  "validate_runner_path value source =
     bindr (require_string value) (\<lambda>text.
       bindr (parse_package_runner text) (\<lambda>package.
         if package \<noteq> None then
           if source \<noteq> ''installed'' then Inl FormatError
           else Inr (parts (pure_posix_path text))
         else
           let path = pure_posix_path text
           in if absolute path \<or> parts path = [] then Inl FormatError
              else if list_ex unsafe_component (parts path) then Inl FormatError
              else Inr (parts path)))"

text \<open>
  Lexical resolution of a joined path, as \<open>os.path.normpath\<close> does it: \<open>..\<close> removes the
  component before it.
\<close>

fun norm_loop :: "string list \<Rightarrow> string list \<Rightarrow> string list" where
  "norm_loop acc [] = acc"
| "norm_loop acc (p # ps) =
     (if p = [] \<or> p = ''.'' then norm_loop acc ps
      else if p = ''..'' then norm_loop (butlast acc) ps
      else norm_loop (acc @ [p]) ps)"

definition normpath :: "string list \<Rightarrow> string list" where
  "normpath ps = norm_loop [] ps"

lemma norm_loop_safe:
  "(\<And>p. p \<in> set ps \<Longrightarrow> \<not> unsafe_component p) \<Longrightarrow> norm_loop acc ps = acc @ ps"
  by (induction ps arbitrary: acc) (auto simp: unsafe_component_def)

lemma norm_loop_append: "norm_loop acc (ps @ qs) = norm_loop (norm_loop acc ps) qs"
  by (induction acc ps rule: norm_loop.induct) auto

lemma normpath_join:
  assumes "normpath base = base" and "\<And>p. p \<in> set ps \<Longrightarrow> \<not> unsafe_component p"
  shows "normpath (base @ ps) = base @ ps"
  using assms norm_loop_safe [OF assms(2)] by (simp add: normpath_def norm_loop_append)

lemma validate_runner_path_safe:
  assumes "validate_runner_path v src = Inr ps" and "src \<noteq> ''installed''"
  shows "ps \<noteq> [] \<and> (\<forall>p\<in>set ps. \<not> unsafe_component p \<and> CHR ''/'' \<notin> set p)"
proof -
  obtain t where ps: "ps = parts (pure_posix_path t)"
    and ok: "parts (pure_posix_path t) \<noteq> []"
      "\<not> list_ex unsafe_component (parts (pure_posix_path t))"
    using assms by (auto simp: validate_runner_path_def res_simps Let_def split: if_splits)
  then show ?thesis
    by (auto simp: list_ex_iff dest: pure_posix_path_no_slash)
qed

section \<open>Properties\<close>

text \<open>
  A placement that \<open>normalize_placement\<close> accepts is normalised: printing its components
  and reading them back gives the same components, and joined below any normalised root
  the path resolves to exactly that root followed by the placement, so it never leaves it.
\<close>

theorem normalize_placement_roundtrip:
  assumes "normalize_placement s = Inr ps" and "normpath base = base"
  shows "normalize_placement (as_posix ps) = Inr ps \<and> normpath (base @ ps) = base @ ps"
proof -
  have wf: "wf_placement ps" using assms(1) by (rule normalize_placement_wf)
  then have "normalize_placement (as_posix ps) = Inr ps"
    by (simp add: normalize_placement_def pure_posix_path_as_posix normalize_parts_wf)
  moreover have "normpath (base @ ps) = base @ ps"
    using assms(2) wf_placement_components [OF wf] by (intro normpath_join) auto
  ultimately show ?thesis ..
qed

theorem normalize_placement_roundtrip_witness:
  "normalize_placement ''a/./b//c'' = Inr [''a'', ''b'', ''c''] \<and>
   normalize_placement (as_posix [''a'', ''b'', ''c'']) = Inr [''a'', ''b'', ''c''] \<and>
   normpath ([''ws''] @ [''a'', ''b'', ''c'']) = [''ws''] @ [''a'', ''b'', ''c'']"
proof -
  have h: "normalize_placement ''a/./b//c'' = Inr [''a'', ''b'', ''c'']"
    by (simp add: normalize_placement_def normalize_parts_def pure_posix_path_def
        starts_with_def unsafe_component_def NUL_def)
  have r: "normpath [''ws''] = [''ws'']" by (simp add: normpath_def)
  show ?thesis using h normalize_placement_roundtrip [OF h r] by simp
qed

text \<open>
  A runner path accepted for a payload or workspace runner names a nonempty path without
  parent references, control-directory components or NUL, so joining it below a normalised
  runner root stays below that root.
\<close>

theorem validate_runner_path_contained:
  assumes "validate_runner_path v src = Inr ps" and "src \<noteq> ''installed''"
    and "normpath base = base"
  shows "ps \<noteq> [] \<and> ''..'' \<notin> set ps \<and> ''.httk-workspace'' \<notin> set ps \<and>
         normpath (base @ ps) = base @ ps"
proof -
  have s: "ps \<noteq> []" "\<And>p. p \<in> set ps \<Longrightarrow> \<not> unsafe_component p"
    using validate_runner_path_safe [OF assms(1,2)] by auto
  have "normpath (base @ ps) = base @ ps"
    using assms(3) s(2) by (rule normpath_join)
  then show ?thesis
    using s by (auto simp: unsafe_component_def)
qed

theorem validate_runner_path_contained_witness:
  "validate_runner_path (JStr ''bin/run'') ''workspace'' = Inr [''bin'', ''run''] \<and>
   normpath ([''ws'', ''runners''] @ [''bin'', ''run'']) = [''ws'', ''runners'', ''bin'', ''run'']"
proof -
  have h: "validate_runner_path (JStr ''bin/run'') ''workspace'' = Inr [''bin'', ''run'']"
    by (simp add: validate_runner_path_def parse_package_runner_def pure_posix_path_def
        starts_with_def unsafe_component_def NUL_def)
  have r: "normpath [''ws'', ''runners''] = [''ws'', ''runners'']" by (simp add: normpath_def)
  show ?thesis using h validate_runner_path_contained [OF h _ r] by simp
qed

end
