(* ===== verification/Markers.thy ===== *)
theory Markers
  imports Paths
begin

text \<open>
  State kinds, record references and state markers
  (\<open>src/src/httk/workflow/models.py\<close>, \<open>journal.py\<close>, and the marker paths of
  \<open>workspace.py\<close>). A marker is one empty file below \<open>state/<kind>/<placement>\<close>; its
  basename carries the job key, the priority, the generation and the record reference.
\<close>

section \<open>State kinds\<close>

datatype kind =
    Submitted | Ready | Claimed | Running | Committing | Cancelling | Relocating
  | Transferring | Waiting | Paused | Succeeded | Failed | Cancelled

fun kind_name :: "kind \<Rightarrow> string" where
  "kind_name Submitted = ''submitted''"
| "kind_name Ready = ''ready''"
| "kind_name Claimed = ''claimed''"
| "kind_name Running = ''running''"
| "kind_name Committing = ''committing''"
| "kind_name Cancelling = ''cancelling''"
| "kind_name Relocating = ''relocating''"
| "kind_name Transferring = ''transferring''"
| "kind_name Waiting = ''waiting''"
| "kind_name Paused = ''paused''"
| "kind_name Succeeded = ''succeeded''"
| "kind_name Failed = ''failed''"
| "kind_name Cancelled = ''cancelled''"

definition STATE_KINDS :: "kind list" where
  "STATE_KINDS = [Submitted, Ready, Claimed, Running, Committing, Cancelling, Relocating,
     Transferring, Waiting, Paused, Succeeded, Failed, Cancelled]"

definition CORE_STATE_KINDS :: "kind list" where
  "CORE_STATE_KINDS = filter (\<lambda>k. k \<noteq> Relocating \<and> k \<noteq> Transferring) STATE_KINDS"

definition TERMINAL_KINDS :: "kind list" where
  "TERMINAL_KINDS = [Succeeded, Failed, Cancelled]"

definition ACTIVE_STATE_KINDS :: "kind list" where
  "ACTIVE_STATE_KINDS = filter (\<lambda>k. k \<notin> set TERMINAL_KINDS) CORE_STATE_KINDS"

definition terminal :: "kind \<Rightarrow> bool" where
  "terminal k = (k \<in> set TERMINAL_KINDS)"

definition kind_of_name :: "string \<Rightarrow> kind option" where
  "kind_of_name s = find (\<lambda>k. kind_name k = s) STATE_KINDS"

lemma terminal_simps [simp]: "terminal k \<longleftrightarrow> k = Succeeded \<or> k = Failed \<or> k = Cancelled"
  by (auto simp: terminal_def TERMINAL_KINDS_def)

lemma kind_of_name_name [simp]: "kind_of_name (kind_name k) = Some k"
  by (cases k) (simp_all add: kind_of_name_def STATE_KINDS_def)

lemma kind_name_inject [simp]: "kind_name k = kind_name k' \<longleftrightarrow> k = k'"
  by (metis kind_of_name_name option.inject)

section \<open>Record references\<close>

text \<open>
  \<open>tagged c cs s\<close>: the rest of a field that is the letter \<open>c\<close> followed by characters of
  \<open>cs\<close>. The fields of a reference are separated by hyphens, which no class contains.
\<close>

definition tagged :: "char \<Rightarrow> string \<Rightarrow> string \<Rightarrow> string option" where
  "tagged c cs s =
     (case s of [] \<Rightarrow> None | x # r \<Rightarrow> if x = c \<and> all_in cs r then Some r else None)"

definition ref_fields ::
  "string \<Rightarrow> (string \<times> string \<times> string \<times> string \<times> string) option" where
  "ref_fields s =
     (case split_on CHR ''-'' s of
        [w, sg, off, len, h] \<Rightarrow>
          (case (tagged CHR ''w'' hex_chars w, tagged CHR ''s'' base36_chars sg,
                 tagged CHR ''o'' base36_chars off, tagged CHR ''l'' base36_chars len,
                 tagged CHR ''h'' hex_chars h) of
             (Some w', Some sg', Some off', Some len', Some h') \<Rightarrow>
               if length w' = 32 \<and> sg' \<noteq> [] \<and> off' \<noteq> [] \<and> len' \<noteq> [] \<and> length h' = 32
               then Some (w', sg', off', len', h') else None
           | _ \<Rightarrow> None)
      | _ \<Rightarrow> None)"

text \<open>The \<open>record_ref\<close> group of \<open>_MARKER_PATTERN\<close>.\<close>

definition marker_ref_pattern :: "string \<Rightarrow> bool" where
  "marker_ref_pattern s = (s = ''init'' \<or> ref_fields s \<noteq> None)"

text \<open>\<open>journal.encode_record_ref\<close>; the checksum is given by the hexadecimal text of its prefix.\<close>

definition encode_record_ref :: "string \<Rightarrow> nat \<Rightarrow> nat \<Rightarrow> nat \<Rightarrow> string \<Rightarrow> string" where
  "encode_record_ref writer_id segment offset len prefix =
     CHR ''w'' # dehyphenate writer_id @ ''-s'' @ base36_text segment @ ''-o'' @ base36_text offset
     @ ''-l'' @ base36_text len @ ''-h'' @ prefix"

text \<open>\<open>journal.parse_record_ref\<close> with the bounded repetitions of \<open>_REF_PATTERN\<close>.\<close>

definition parse_record_ref :: "string \<Rightarrow> (string \<times> nat \<times> nat \<times> nat \<times> string) res" where
  "parse_record_ref record_ref =
     (case ref_fields record_ref of
        None \<Rightarrow> Inl FormatError
      | Some (w, sg, off, len, h) \<Rightarrow>
          if length sg \<le> 7 \<and> length off \<le> 13 \<and> length len \<le> 13
          then Inr (hyphenate w, of_base36 sg, of_base36 off, of_base36 len, h)
          else Inl FormatError)"

lemma tagged_Cons [simp]: "tagged c cs (c # r) = (if all_in cs r then Some r else None)"
  by (simp add: tagged_def)

lemma tagged_Some [simp]: "tagged c cs s = Some r \<longleftrightarrow> s = c # r \<and> all_in cs r"
  by (cases s) (auto simp: tagged_def)

lemma ref_fields_Some:
  "ref_fields s = Some (w, sg, off, len, h) \<longleftrightarrow>
     s = CHR ''w'' # w @ ''-s'' @ sg @ ''-o'' @ off @ ''-l'' @ len @ ''-h'' @ h \<and>
     all_in hex_chars w \<and> all_in base36_chars sg \<and> all_in base36_chars off \<and>
     all_in base36_chars len \<and> all_in hex_chars h \<and>
     length w = 32 \<and> sg \<noteq> [] \<and> off \<noteq> [] \<and> len \<noteq> [] \<and> length h = 32"
  (is "?L \<longleftrightarrow> ?R")
proof
  assume ?L
  then obtain a b c d e where sp: "split_on CHR ''-'' s = [a, b, c, d, e]"
    and "a = CHR ''w'' # w" "b = CHR ''s'' # sg" "c = CHR ''o'' # off" "d = CHR ''l'' # len"
      "e = CHR ''h'' # h"
    and "all_in hex_chars w" "all_in base36_chars sg" "all_in base36_chars off"
      "all_in base36_chars len" "all_in hex_chars h"
    and "length w = 32" "sg \<noteq> []" "off \<noteq> []" "len \<noteq> []" "length h = 32"
    by (auto simp: ref_fields_def split: list.splits option.splits if_splits)
  moreover have "s = join_with ''-'' [a, b, c, d, e]"
    using join_with_split_on [of "CHR ''-''" s] sp by simp
  ultimately show ?R by simp
next
  assume R: ?R
  let ?ps = "[CHR ''w'' # w, CHR ''s'' # sg, CHR ''o'' # off, CHR ''l'' # len, CHR ''h'' # h]"
  have "s = join_with ''-'' ?ps" using R by simp
  moreover have "CHR ''-'' \<notin> set p" if "p \<in> set ?ps" for p
    using that R by (auto dest: hex_no_sep base36_no_sep)
  ultimately have "split_on CHR ''-'' s = ?ps"
    by (simp only: split_on_join_with list.distinct not_False_eq_True)
  then show ?L
    using R by (simp add: ref_fields_def tagged_def)
qed

lemma encode_record_ref_fields:
  assumes "uuid_pattern writer" and "length prefix = 32" and "all_in hex_chars prefix"
  shows "ref_fields (encode_record_ref writer sg off len prefix) =
           Some (dehyphenate writer, base36_text sg, base36_text off, base36_text len, prefix)"
proof -
  obtain h where h: "length h = 32" "all_in hex_chars h" "writer = hyphenate h"
    using assms(1) by (auto elim: uuid_pattern_cases)
  then have "dehyphenate writer = h"
    by (simp add: dehyphenate_hyphenate hex_no_sep)
  with h assms show ?thesis
    by (simp add: ref_fields_Some encode_record_ref_def base36_text_all_in)
qed

lemma hyphenate_dehyphenate: "uuid_pattern w \<Longrightarrow> hyphenate (dehyphenate w) = w"
  by (auto elim!: uuid_pattern_cases simp: dehyphenate_hyphenate hex_no_sep)

lemma encode_record_ref_no_dot:
  "uuid_pattern w \<Longrightarrow> length p = 32 \<Longrightarrow> all_in hex_chars p \<Longrightarrow>
     CHR ''.'' \<notin> set (encode_record_ref w sg off len p)"
  using uuid_pattern_chars [of w] base36_no_sep(2) [OF base36_text_all_in] hex_no_sep(2) [of p]
  by (auto simp: encode_record_ref_def dehyphenate_def hex_chars_def)

section \<open>Markers\<close>

record marker =
  kind :: kind
  placement :: "string list"
  job_key :: string
  priority :: nat
  generation :: nat
  record_ref :: string
  path :: "string list"

definition of_decimal :: "string \<Rightarrow> nat" where
  "of_decimal s = radix_value 10 (text_digits digit_chars s)"

definition decimal3 :: "nat \<Rightarrow> string" where
  "decimal3 n = digits_text digit_chars (fixed_digits 10 3 n)"

text \<open>\<open>Marker.job_id\<close>.\<close>

definition job_id :: "marker \<Rightarrow> string" where
  "job_id m = (case parse_job_key (job_key m) of Inr (_, i) \<Rightarrow> i | Inl _ \<Rightarrow> [])"

definition marker_basename :: "string \<Rightarrow> int \<Rightarrow> int \<Rightarrow> string \<Rightarrow> string res" where
  "marker_basename key prio gen ref =
     bindr (parse_job_key key) (\<lambda>_.
       if \<not> (0 \<le> prio \<and> prio \<le> 999) then Inl FormatError
       else if \<not> (0 \<le> gen \<and> gen \<le> 2 ^ 64 - 1) then Inl FormatError
       else
         let result = key @ ''.p'' @ decimal3 (nat prio) @ ''.g'' @ base36_text (nat gen) @ ''.'' @ ref
         in if length result > 213 then Inl FormatError else Inr result)"

text \<open>
  \<open>_MARKER_PATTERN.fullmatch\<close>. The reference, generation and priority groups hold no dot,
  so the greedy key group ends at the third dot from the right.
\<close>

definition parse_marker_name :: "string \<Rightarrow> (string \<times> string \<times> string \<times> string) option" where
  "parse_marker_name name =
     (case rsplit1 CHR ''.'' name of
        None \<Rightarrow> None
      | Some (a, ref) \<Rightarrow>
          if \<not> marker_ref_pattern ref then None
          else (case rsplit1 CHR ''.'' a of
                  None \<Rightarrow> None
                | Some (b, g) \<Rightarrow>
                    (case (rsplit1 CHR ''.'' b, tagged CHR ''g'' base36_chars g) of
                       (Some (key, p), Some gen) \<Rightarrow>
                         (case tagged CHR ''p'' digit_chars p of
                            None \<Rightarrow> None
                          | Some prio \<Rightarrow>
                              if length prio = 3 \<and> gen \<noteq> [] \<and> key \<noteq> [] \<and> CHR 0x0A \<notin> set key
                              then Some (key, prio, gen, ref) else None)
                     | _ \<Rightarrow> None)))"

text \<open>\<open>Marker.from_path\<close> on the components of a path relative to the state root.\<close>

definition marker_from_path :: "string list \<Rightarrow> marker res" where
  "marker_from_path rel =
     (if length rel < 3 then Inl FormatError
      else case kind_of_name (hd rel) of
        None \<Rightarrow> Inl FormatError
      | Some k \<Rightarrow>
          bindr (normalize_parts \<lparr>absolute = False, parts = tl (butlast rel)\<rparr>) (\<lambda>pl.
            case parse_marker_name (last rel) of
              None \<Rightarrow> Inl FormatError
            | Some (key, prio, gen, ref) \<Rightarrow>
                bindr (parse_job_key key) (\<lambda>_.
                  if of_base36 gen > 2 ^ 64 - 1 then Inl FormatError
                  else Inr \<lparr>kind = k, placement = pl, job_key = key, priority = of_decimal prio,
                            generation = of_base36 gen, record_ref = ref, path = rel\<rparr>)))"

text \<open>\<open>Workspace.state_directory\<close> and \<open>Workspace.marker_path\<close>, relative to \<open>state/\<close>.\<close>

definition state_directory :: "kind \<Rightarrow> string list \<Rightarrow> string list" where
  "state_directory k pl = kind_name k # pl"

definition marker_path ::
  "kind \<Rightarrow> string list \<Rightarrow> string \<Rightarrow> int \<Rightarrow> int \<Rightarrow> string \<Rightarrow> string list res" where
  "marker_path k pl key prio gen ref =
     bindr (marker_basename key prio gen ref) (\<lambda>name. Inr (state_directory k pl @ [name]))"

text \<open>What every marker read from the state tree satisfies.\<close>

definition wf_marker :: "marker \<Rightarrow> bool" where
  "wf_marker m \<longleftrightarrow>
     (\<exists>t. parse_job_key (job_key m) = Inr (t, job_id m)) \<and> priority m \<le> 999 \<and>
     generation m < 2 ^ 64 \<and> marker_ref_pattern (record_ref m) \<and> placement m \<noteq> [] \<and>
     path m = state_directory (kind m) (placement m) @ [last (path m)]"

lemma decimal3_props [simp]: "length (decimal3 n) = 3" "all_in digit_chars (decimal3 n)"
proof -
  show "length (decimal3 n) = 3" by (simp add: decimal3_def)
  show "all_in digit_chars (decimal3 n)"
    unfolding decimal3_def using fixed_digits_bounded [of 10 _ 3 n]
    by (intro digits_text_all_in) simp
qed

lemma of_decimal3: "n < 1000 \<Longrightarrow> of_decimal (decimal3 n) = n"
  using fixed_digits_bounded [of 10 _ 3 n] radix_value_fixed [of 10 n 3]
  by (simp add: of_decimal_def decimal3_def)

lemma of_decimal_less: "all_in digit_chars s \<Longrightarrow> of_decimal s < 10 ^ length s"
  using radix_value_less [of 10 "text_digits digit_chars s"] text_digits_bounded [of digit_chars s]
  by (simp add: of_decimal_def)

lemma digit_no_dot: "all_in digit_chars s \<Longrightarrow> CHR ''.'' \<notin> set s"
  by (erule all_in_sep) (simp add: digit_chars_def)

lemma ref_pattern_no_dot: "marker_ref_pattern r \<Longrightarrow> CHR ''.'' \<notin> set r"
proof -
  assume "marker_ref_pattern r"
  then consider "r = ''init''" | w sg off len h where "ref_fields r = Some (w, sg, off, len, h)"
    by (auto simp: marker_ref_pattern_def)
  then show ?thesis
    by cases (auto simp: ref_fields_Some dest: hex_no_sep base36_no_sep)
qed

lemma job_key_no_newline: "parse_job_key k = Inr x \<Longrightarrow> k \<noteq> [] \<and> CHR 0x0A \<notin> set k"
proof -
  assume h: "parse_job_key k = Inr x"
  obtain t i where x: "x = (t, i)" by (cases x)
  note f = parse_job_key_Inr [OF h [unfolded x]]
  have i: "CHR 0x0A \<notin> set i" "i \<noteq> []"
    using uuid_pattern_chars [OF f(1)] uuid_pattern_length [OF f(1)] by (auto simp: hex_chars_def)
  show ?thesis
  proof (cases t)
    case None
    with f(2) i show ?thesis by (simp add: make_job_key_def)
  next
    case (Some l)
    with f(3) have "is_label l" by simp
    then obtain c cs where l: "l = c # cs" "c \<in> set label_first" "all_in label_rest cs"
      by (auto simp: is_label_def label_pattern_def split: list.splits)
    have "CHR 0x0A \<notin> set label_first" "CHR 0x0A \<notin> set label_rest"
      by (simp_all add: label_first_def label_rest_def lower_chars_def digit_chars_def)
    with l have "CHR 0x0A \<notin> set l" by (auto simp: all_in_iff)
    with Some f(2) i l(1) show ?thesis by (auto simp: make_job_key_def)
  qed
qed

lemma parse_marker_name_basename:
  assumes "marker_basename key prio gen ref = Inr name" and "marker_ref_pattern ref"
  shows "parse_marker_name name = Some (key, decimal3 (nat prio), base36_text (nat gen), ref)"
proof -
  let ?p = "CHR ''p'' # decimal3 (nat prio)" and ?g = "CHR ''g'' # base36_text (nat gen)"
  have name: "name = ((key @ CHR ''.'' # ?p) @ CHR ''.'' # ?g) @ CHR ''.'' # ref"
    and k: "\<exists>x. parse_job_key key = Inr x"
    using assms(1) by (auto simp: marker_basename_def res_simps Let_def split: if_splits)
  have nd: "CHR ''.'' \<notin> set ref" "CHR ''.'' \<notin> set ?g" "CHR ''.'' \<notin> set ?p"
    using ref_pattern_no_dot [OF assms(2)] base36_no_sep(2) [OF base36_text_all_in]
      digit_no_dot [of "decimal3 (nat prio)"] by auto
  have s1: "rsplit1 CHR ''.'' name = Some ((key @ CHR ''.'' # ?p) @ CHR ''.'' # ?g, ref)"
    unfolding name using nd(1) by (rule rsplit1_append)
  have s2: "rsplit1 CHR ''.'' ((key @ CHR ''.'' # ?p) @ CHR ''.'' # ?g)
      = Some (key @ CHR ''.'' # ?p, ?g)"
    using nd(2) by (rule rsplit1_append)
  have s3: "rsplit1 CHR ''.'' (key @ CHR ''.'' # ?p) = Some (key, ?p)"
    using nd(3) by (rule rsplit1_append)
  show ?thesis
    unfolding parse_marker_name_def s1 using assms(2) s2 s3 base36_text_all_in k
    by (auto dest: job_key_no_newline)
qed

lemma label_length: "is_label l \<Longrightarrow> length l \<le> 48"
  by (auto simp: is_label_def label_pattern_def split: list.splits)

lemma job_key_length: "parse_job_key k = Inr x \<Longrightarrow> length k \<le> 86"
proof -
  assume h: "parse_job_key k = Inr x"
  obtain t i where x: "x = (t, i)" by (cases x)
  note f = parse_job_key_Inr [OF h [unfolded x]]
  show ?thesis
    using f(2) uuid_pattern_length [OF f(1)] f(3) label_length
    by (cases t) (force simp: make_job_key_def)+
qed

lemma parse_record_ref_length: "parse_record_ref r = Inr x \<Longrightarrow> length r \<le> 106"
  by (auto simp: parse_record_ref_def ref_fields_Some split: option.splits if_splits)

lemma marker_from_path_wf: "marker_from_path rel = Inr m \<Longrightarrow> wf_marker m \<and> path m = rel"
proof -
  assume h: "marker_from_path rel = Inr m"
  then obtain k pl key prio gen ref where len: "\<not> length rel < 3"
    and k: "kind_of_name (hd rel) = Some k"
    and pl: "normalize_parts \<lparr>absolute = False, parts = tl (butlast rel)\<rparr> = Inr pl"
    and nm: "parse_marker_name (last rel) = Some (key, prio, gen, ref)"
    and key: "\<exists>x. parse_job_key key = Inr x" and g: "\<not> of_base36 gen > 2 ^ 64 - 1"
    and m: "m = \<lparr>kind = k, placement = pl, job_key = key, priority = of_decimal prio,
       generation = of_base36 gen, record_ref = ref, path = rel\<rparr>"
    by (cases "parse_marker_name (last rel)")
      (auto simp: marker_from_path_def res_simps split: if_splits option.splits)
  from key obtain t i where x: "parse_job_key key = Inr (t, i)" by auto
  have kn: "kind_name k = hd rel"
    using k by (auto simp: kind_of_name_def find_Some_iff)
  have pl': "pl = tl (butlast rel)" "pl \<noteq> []"
    using pl by (auto simp: normalize_parts_def split: if_splits)
  have pr: "all_in digit_chars prio" "length prio = 3" "marker_ref_pattern ref"
    using nm by (auto simp: parse_marker_name_def split: option.splits prod.splits if_splits)
  have "of_decimal prio \<le> 999" using of_decimal_less [OF pr(1)] pr(2) by simp
  moreover have "rel = hd rel # tl (butlast rel) @ [last rel]"
    using len by (intro hd_mid_last) simp
  ultimately show ?thesis
    using m kn pl' pr(3) x g
    by (auto simp: wf_marker_def state_directory_def job_id_def)
qed

section \<open>A concrete job\<close>

definition example_id :: string where
  "example_id = ''0123abcd-0123-4567-89ab-0123456789ab''"

definition example_writer :: string where
  "example_writer = ''fedcba98-7654-4321-8fed-cba987654321''"

definition example_prefix :: string where
  "example_prefix = ''0123456789abcdef0123456789abcdef''"

lemma example_ids: "uuid_pattern example_id" "uuid_pattern example_writer"
  "parse_job_key example_id = Inr (None, example_id)"
  "length example_prefix = 32" "all_in hex_chars example_prefix"
  by code_simp+

lemma marker_path_read:
  assumes "marker_path k pl key prio gen ref = Inr p"
    and "normalize_parts \<lparr>absolute = False, parts = pl\<rparr> = Inr pl" and "marker_ref_pattern ref"
  shows "marker_from_path p =
           Inr \<lparr>kind = k, placement = pl, job_key = key, priority = nat prio,
                generation = nat gen, record_ref = ref, path = p\<rparr>"
proof -
  obtain name where b: "marker_basename key prio gen ref = Inr name"
    and p: "p = kind_name k # pl @ [name]"
    using assms(1) by (auto simp: marker_path_def res_simps state_directory_def)
  have n: "parse_marker_name name = Some (key, decimal3 (nat prio), base36_text (nat gen), ref)"
    using b assms(3) by (rule parse_marker_name_basename)
  have rng: "nat prio < 1000" "nat gen \<le> 2 ^ 64 - 1" and key: "\<exists>x. parse_job_key key = Inr x"
    using b by (auto simp: marker_basename_def res_simps split: if_splits)
  have "pl \<noteq> []" using assms(2) by (auto simp: normalize_parts_def split: if_splits)
  then have "\<not> length p < 3" "hd p = kind_name k" "last p = name" "tl (butlast p) = pl"
    by (cases pl; simp add: p butlast_append)+
  then show ?thesis
    using n rng key assms(2) of_decimal3 [OF rng(1)]
    by (auto simp: marker_from_path_def)
qed

lemma parse_encode_record_ref:
  assumes "uuid_pattern writer" and "sg < 2 ^ 32" and "off < 2 ^ 64" and "len < 2 ^ 64"
    and "length prefix = 32" and "all_in hex_chars prefix"
  shows "parse_record_ref (encode_record_ref writer sg off len prefix)
           = Inr (writer, sg, off, len, prefix)"
proof -
  have "length (base36_text sg) \<le> 7" "length (base36_text off) \<le> 13" "length (base36_text len) \<le> 13"
    using assms(2-4) by (auto intro!: base36_text_length)
  then show ?thesis
    using encode_record_ref_fields [OF assms(1,5,6)] assms(1)
    by (simp add: parse_record_ref_def hyphenate_dehyphenate)
qed

lemma marker_basename_ok:
  assumes "parse_job_key key = Inr x" and "0 \<le> prio" "prio \<le> 999"
    and "0 \<le> gen" "gen < 2 ^ 64" and "parse_record_ref ref = Inr y"
  shows "\<exists>name. marker_basename key prio gen ref = Inr name \<and> length name \<le> 213"
proof -
  have "nat gen < 36 ^ 13" using assms(4,5) by simp
  then have "length (base36_text (nat gen)) \<le> 13" by (rule base36_text_length) simp
  then show ?thesis
    using job_key_length [OF assms(1)] parse_record_ref_length [OF assms(6)] assms
    by (simp add: marker_basename_def)
qed

section \<open>Properties\<close>

text \<open>
  Marker paths round trip: the path that \<open>Workspace.marker_path\<close> builds for a legal
  placement and record reference is read back by \<open>Marker.from_path\<close> as the same kind,
  placement, job key, priority, generation and reference.
\<close>

theorem marker_path_roundtrip:
  assumes "marker_path k pl key prio gen ref = Inr p"
    and "wf_placement pl" and "marker_ref_pattern ref"
  shows "marker_from_path p =
           Inr \<lparr>kind = k, placement = pl, job_key = key, priority = nat prio,
                generation = nat gen, record_ref = ref, path = p\<rparr>"
  using assms(1) normalize_parts_wf [OF assms(2)] assms(3) by (rule marker_path_read)

theorem marker_path_roundtrip_witness:
  "let p = [''ready'', ''proj'', ''a'', example_id @ ''.p042.g1z.init'']
   in marker_path Ready [''proj'', ''a''] example_id 42 71 ''init'' = Inr p \<and>
      marker_from_path p =
        Inr \<lparr>kind = Ready, placement = [''proj'', ''a''], job_key = example_id, priority = nat 42,
             generation = nat 71, record_ref = ''init'', path = p\<rparr>"
proof -
  have p: "marker_path Ready [''proj'', ''a''] example_id 42 71 ''init''
      = Inr [''ready'', ''proj'', ''a'', example_id @ ''.p042.g1z.init'']"
    by code_simp
  have w: "wf_placement [''proj'', ''a'']" "marker_ref_pattern ''init''" by code_simp+
  show ?thesis using p marker_path_roundtrip [OF p w] by (simp only: Let_def)
qed

text \<open>
  The 213 byte budget of the core profile is never what refuses a marker: for a valid
  job key, a priority of at most 999, a 64 bit generation and a canonical record reference
  \<open>marker_basename\<close> succeeds, and the name has at most 213 bytes.
\<close>

theorem marker_basename_fits:
  assumes "parse_job_key key = Inr x" and "0 \<le> prio" "prio \<le> 999"
    and "0 \<le> gen" "gen < 2 ^ 64" and "parse_record_ref ref = Inr y"
  shows "\<exists>name. marker_basename key prio gen ref = Inr name \<and> length name \<le> 213"
  using assms by (rule marker_basename_ok)

theorem marker_basename_fits_witness:
  "\<exists>name. marker_basename example_id 999 (2 ^ 64 - 1)
     (encode_record_ref example_writer 1 11 500 example_prefix) = Inr name \<and> length name \<le> 213"
proof -
  have r: "parse_record_ref (encode_record_ref example_writer 1 11 500 example_prefix)
      = Inr (example_writer, 1, 11, 500, example_prefix)"
    by code_simp
  show ?thesis
    by (rule marker_basename_fits [OF example_ids(3) _ _ _ _ r]) simp_all
qed

text \<open>
  Job keys round trip: a key composed from a canonical identifier and an optional valid
  tag parses to that tag and identifier, and every key the parser accepts is the one
  \<open>make_job_key\<close> composes from what it returns, so the encoding is injective.
\<close>

theorem job_key_roundtrip:
  "(uuid_pattern i \<and> (\<forall>t. tag = Some t \<longrightarrow> is_label t) \<longrightarrow>
      parse_job_key (make_job_key i tag) = Inr (tag, i)) \<and>
   (parse_job_key k = Inr (tag, i) \<longrightarrow> make_job_key i tag = k \<and> uuid_pattern i)"
  using parse_make_job_key parse_job_key_Inr by (metis (no_types))

theorem job_key_roundtrip_witness:
  "parse_job_key (make_job_key example_id (Some ''relax'')) = Inr (Some ''relax'', example_id) \<and>
   make_job_key example_id (Some ''relax'') = ''relax--'' @ example_id"
proof -
  have l: "is_label ''relax''" by code_simp
  have "parse_job_key (make_job_key example_id (Some ''relax'')) = Inr (Some ''relax'', example_id)"
    using job_key_roundtrip [of example_id "Some ''relax''" "[]"] example_ids(1) l by blast
  moreover have "parse_job_key (''relax--'' @ example_id) = Inr (Some ''relax'', example_id)"
    by code_simp
  ultimately show ?thesis
    using job_key_roundtrip [of example_id "Some ''relax''" "''relax--'' @ example_id"] by blast
qed

text \<open>
  Record references round trip: parsing what \<open>encode_record_ref\<close> writes for a canonical
  writer, a 32 bit segment number, 64 bit offset and length and a 32 digit checksum prefix
  gives back exactly these components.
\<close>

theorem record_ref_roundtrip:
  assumes "uuid_pattern writer" and "sg < 2 ^ 32" and "off < 2 ^ 64" and "len < 2 ^ 64"
    and "length prefix = 32" and "all_in hex_chars prefix"
  shows "parse_record_ref (encode_record_ref writer sg off len prefix)
           = Inr (writer, sg, off, len, prefix)"
  using assms by (rule parse_encode_record_ref)

theorem record_ref_roundtrip_witness:
  "parse_record_ref (encode_record_ref example_writer 35 36 (2 ^ 63) example_prefix)
     = Inr (example_writer, 35, 36, 2 ^ 63, example_prefix)"
  by (rule record_ref_roundtrip [OF example_ids(2) _ _ _ example_ids(4,5)]) simp_all

end
