(* ===== verification/Documents.thy ===== *)
theory Documents
  imports Markers
begin

text \<open>
  The protocol documents and their validators (\<open>src/src/httk/workflow/models.py\<close>): process
  identities, parameters, resources, the workflow environment, declarations, the retention,
  workspace and retry policies, and structured failures. A validator returns the value the
  code returns or the exception it raises; members are checked in the code's order.
\<close>

section \<open>Process identities\<close>

fun positive_int :: "json \<Rightarrow> bool" where
  "positive_int (JInt i) = (i > 0)"
| "positive_int _ = False"

fun nonempty_string :: "json \<Rightarrow> bool" where
  "nonempty_string (JStr s) = (s \<noteq> [])"
| "nonempty_string _ = False"

definition validate_process :: "json \<Rightarrow> obj option" where
  "validate_process value =
     (case value of
        JObj m \<Rightarrow>
          if \<not> positive_int (get m ''pid'') \<or> \<not> positive_int (get m ''process_group'')
             \<or> \<not> nonempty_string (get m ''hostname'') \<or> \<not> nonempty_string (get m ''launched_at'')
          then None else Some m
      | _ \<Rightarrow> None)"

section \<open>Parameters, resources\<close>

definition MAXIMUM_PARAMETERS_BYTES :: nat where
  "MAXIMUM_PARAMETERS_BYTES = 262144"

definition validate_parameters :: "json \<Rightarrow> obj res" where
  "validate_parameters value =
     bindr (require_mapping value) (\<lambda>mapping.
       if list_ex (\<lambda>k. k = []) (dict_keys mapping) then Inl FormatError
       else if length (json_bytes (JObj mapping)) > MAXIMUM_PARAMETERS_BYTES then Inl FormatError
       else Inr mapping)"

type_synonym requirement = "int dict"

definition validate_resource_entry :: "string \<times> json \<Rightarrow> (string \<times> int) res" where
  "validate_resource_entry entry =
     bindr (validate_label (JStr (fst entry))) (\<lambda>label.
       case snd entry of
         JInt raw \<Rightarrow> if raw < 0 then Inl FormatError else Inr (label, raw)
       | _ \<Rightarrow> Inl FormatError)"

definition validate_resources :: "json \<Rightarrow> requirement res" where
  "validate_resources value =
     bindr (require_mapping value) (\<lambda>mapping. mapr validate_resource_entry mapping)"

definition validate_step_resources :: "json \<Rightarrow> requirement dict res" where
  "validate_step_resources value =
     bindr (require_mapping value) (\<lambda>mapping.
       mapr (\<lambda>(raw_step, raw_resources).
         bindr (validate_step (JStr raw_step)) (\<lambda>step.
           bindr (validate_resources raw_resources) (\<lambda>r. Inr (step, r)))) mapping)"

section \<open>The workflow environment\<close>

fun matches_environment_type :: "json \<Rightarrow> string \<Rightarrow> bool" where
  "matches_environment_type value t =
     (if t = ''string'' then (case value of JStr _ \<Rightarrow> True | _ \<Rightarrow> False)
      else if t = ''number'' then (case value of JInt _ \<Rightarrow> True | JFloat _ \<Rightarrow> True | _ \<Rightarrow> False)
      else if t = ''integer'' then (case value of JInt _ \<Rightarrow> True | _ \<Rightarrow> False)
      else if t = ''boolean'' then (case value of JBool _ \<Rightarrow> True | _ \<Rightarrow> False)
      else if t = ''array'' then (case value of JArr _ \<Rightarrow> True | _ \<Rightarrow> False)
      else (case value of JObj _ \<Rightarrow> True | _ \<Rightarrow> False))"

text \<open>\<open>str.upper\<close> on ASCII letters; a setting name that passes its pattern is ASCII.\<close>

definition upper_char :: "char \<Rightarrow> char" where
  "upper_char c = (if c \<in> set lower_chars then upper_chars ! index_of c lower_chars else c)"

definition environment_variable_name :: "string \<Rightarrow> string" where
  "environment_variable_name setting =
     ''HTTK_'' @ map (\<lambda>c. if c = CHR ''.'' then CHR ''_'' else c) (map upper_char setting)"

definition validate_environment_setting :: "string \<Rightarrow> unit res" where
  "validate_environment_setting setting =
     guardr (\<not> starts_with ''HTTK_WORKFLOW_'' (environment_variable_name setting)) FormatError"

definition environment_members :: "string list" where
  "environment_members = [''type'', ''description'', ''default'', ''setting'']"

definition environment_types :: "string list" where
  "environment_types = [''string'', ''number'', ''integer'', ''boolean'', ''array'', ''object'']"

definition validate_declared_variable :: "string \<times> json \<Rightarrow> (string \<times> obj) res" where
  "validate_declared_variable entry =
     (let key = fst entry in
      if key = [] then Inl FormatError
      else bindr (require_mapping (snd entry)) (\<lambda>metadata.
        if \<not> list_all (\<lambda>k. k \<in> set environment_members) (dict_keys metadata) then Inl FormatError
        else bindr (if has_key metadata ''description''
                    then bindr (require_string (get metadata ''description'')) (\<lambda>_. Inr ())
                    else Inr ()) (\<lambda>_.
          bindr (opt_member (get metadata ''type'') () (\<lambda>t.
                   bindr (require_string t) (\<lambda>environment_type.
                     if environment_type \<notin> set environment_types then Inl FormatError
                     else if has_key metadata ''default''
                             \<and> \<not> matches_environment_type (get metadata ''default'') environment_type
                     then Inl FormatError else Inr ()))) (\<lambda>_.
            bindr (opt_member (get metadata ''setting'') key (\<lambda>s.
                     bindr (require_string s) (\<lambda>setting.
                       if \<not> dotted_identifier setting then Inl FormatError else Inr setting)))
              (\<lambda>effective_setting.
                bindr (validate_environment_setting effective_setting) (\<lambda>_. Inr (key, metadata)))))))"

definition validate_override :: "obj dict \<Rightarrow> string \<times> json \<Rightarrow> (string \<times> json) res" where
  "validate_override declared entry =
     (case map_of declared (fst entry) of
        None \<Rightarrow> Inl FormatError
      | Some metadata \<Rightarrow>
          (case get metadata ''type'' of
             JStr t \<Rightarrow>
               if \<not> matches_environment_type (snd entry) t then Inl FormatError else Inr entry
           | _ \<Rightarrow> Inr entry))"

definition MAXIMUM_ENVIRONMENT_BYTES :: nat where
  "MAXIMUM_ENVIRONMENT_BYTES = 262144"

definition validate_environment :: "json \<Rightarrow> obj res" where
  "validate_environment value =
     bindr (require_mapping value) (\<lambda>mapping.
       bindr (require_mapping (get_default mapping ''declared'' (JObj []))) (\<lambda>declared_raw.
         bindr (require_mapping (get_default mapping ''overrides'' (JObj []))) (\<lambda>overrides_raw.
           bindr (mapr validate_declared_variable declared_raw) (\<lambda>declared.
             bindr (mapr (validate_override declared) overrides_raw) (\<lambda>overrides.
               let result = [(''declared'', JObj (map (\<lambda>(k, m). (k, JObj m)) declared)),
                             (''overrides'', JObj overrides)]
               in if length (json_bytes (JObj result)) > MAXIMUM_ENVIRONMENT_BYTES
                  then Inl FormatError else Inr result)))))"

section \<open>Declared metadata and declarations\<close>

definition MAXIMUM_DECLARED_BYTES :: nat where
  "MAXIMUM_DECLARED_BYTES = 262144"

definition validate_declared_section :: "obj \<Rightarrow> string \<Rightarrow> obj res" where
  "validate_declared_section mapping section =
     (if \<not> has_key mapping section then Inr []
      else bindr (require_mapping (get mapping section)) (\<lambda>raw.
        bindr (mapr (\<lambda>(key, metadata).
                 if key = [] then Inl FormatError
                 else bindr (require_mapping metadata) (\<lambda>m. Inr (key, JObj m))) raw) (\<lambda>entries.
          Inr [(section, JObj entries)])))"

definition validate_declared :: "json \<Rightarrow> obj res" where
  "validate_declared value =
     bindr (require_mapping value) (\<lambda>mapping.
       if \<not> list_all (\<lambda>k. k \<in> {''parameters'', ''inputs''}) (dict_keys mapping) then Inl FormatError
       else bindr (validate_declared_section mapping ''parameters'') (\<lambda>ps.
         bindr (validate_declared_section mapping ''inputs'') (\<lambda>is.
           let result = ps @ is
           in if length (json_bytes (JObj result)) > MAXIMUM_DECLARED_BYTES then Inl FormatError
              else Inr result)))"

definition MAXIMUM_DECLARATIONS_BYTES :: nat where
  "MAXIMUM_DECLARATIONS_BYTES = 262144"

definition validate_declarations :: "json \<Rightarrow> obj res" where
  "validate_declarations value =
     bindr (require_mapping value) (\<lambda>mapping.
       bindr (mapr (\<lambda>(key, document).
                bindr (validate_declaration_name (JStr key)) (\<lambda>declaration.
                  bindr (require_mapping document) (\<lambda>d. Inr (declaration, JObj d)))) mapping)
         (\<lambda>result.
           if length (json_bytes (JObj result)) > MAXIMUM_DECLARATIONS_BYTES then Inl FormatError
           else Inr result))"

section \<open>Workspace policy\<close>

record retention_policy =
  attempt_control_days :: "rat option"
  journal_days :: "rat option"
  trash_days :: "rat option"

definition default_retention :: retention_policy where
  "default_retention = \<lparr>attempt_control_days = None, journal_days = Some 1, trash_days = Some 1\<rparr>"

definition RETENTION_KEYS :: "string list" where
  "RETENTION_KEYS = [''attempt_control_days'', ''journal_days'', ''trash_days'']"

definition optional_days :: "obj \<Rightarrow> string \<Rightarrow> rat option \<Rightarrow> rat option res" where
  "optional_days mapping key dflt =
     (if \<not> has_key mapping key then Inr dflt
      else opt_member (get mapping key) None (\<lambda>raw.
        if eq_str raw ''keep'' then Inr None
        else bindr (require_number raw 0 None) (\<lambda>q. Inr (Some q))))"

definition retention_from_mapping :: "json \<Rightarrow> retention_policy res" where
  "retention_from_mapping value =
     bindr (require_mapping value) (\<lambda>mapping.
       if \<not> list_all (\<lambda>k. k \<in> set RETENTION_KEYS) (dict_keys mapping) then Inl FormatError
       else bindr (optional_days mapping ''attempt_control_days''
                     (attempt_control_days default_retention)) (\<lambda>a.
         bindr (optional_days mapping ''journal_days'' (journal_days default_retention)) (\<lambda>j.
           bindr (optional_days mapping ''trash_days'' (trash_days default_retention)) (\<lambda>t.
             Inr \<lparr>attempt_control_days = a, journal_days = j, trash_days = t\<rparr>))))"

definition of_opt_days :: "rat option \<Rightarrow> json" where
  "of_opt_days d = (case d of None \<Rightarrow> JNull | Some q \<Rightarrow> JFloat (Fin q))"

definition retention_as_mapping :: "retention_policy \<Rightarrow> obj" where
  "retention_as_mapping p =
     (if attempt_control_days p = None then []
      else [(''attempt_control_days'', of_opt_days (attempt_control_days p))])
     @ [(''journal_days'', of_opt_days (journal_days p)), (''trash_days'', of_opt_days (trash_days p))]"

record workspace_policy =
  visibility_deadline_seconds :: rat
  lease_seconds :: rat
  journal_segment_bytes :: int
  retention :: retention_policy

definition default_policy :: workspace_policy where
  "default_policy = \<lparr>visibility_deadline_seconds = 5, lease_seconds = 900,
     journal_segment_bytes = 64 * 1024 * 1024, retention = default_retention\<rparr>"

definition POLICY_KEYS :: "string list" where
  "POLICY_KEYS =
     [''journal_segment_bytes'', ''lease_seconds'', ''retention'', ''visibility_deadline_seconds'']"

definition policy_from_mapping :: "json \<Rightarrow> workspace_policy res" where
  "policy_from_mapping value =
     bindr (require_mapping value) (\<lambda>mapping.
       if \<not> list_all (\<lambda>k. k \<in> set POLICY_KEYS) (dict_keys mapping) then Inl FormatError
       else bindr (opt_member (get mapping ''visibility_deadline_seconds'')
                     (visibility_deadline_seconds default_policy)
                     (\<lambda>v. require_number v 0 (Some 86400))) (\<lambda>deadline.
         bindr (opt_member (get mapping ''lease_seconds'') (lease_seconds default_policy)
                  (\<lambda>v. require_number v 1 None)) (\<lambda>lease.
           bindr (opt_member (get mapping ''journal_segment_bytes'')
                    (journal_segment_bytes default_policy)
                    (\<lambda>v. require_int v 4096 (Some (2 ^ 40)))) (\<lambda>segment.
             bindr (opt_member (get mapping ''retention'') (retention default_policy)
                      retention_from_mapping) (\<lambda>ret.
               Inr \<lparr>visibility_deadline_seconds = deadline, lease_seconds = lease,
                    journal_segment_bytes = segment, retention = ret\<rparr>)))))"

definition policy_as_mapping :: "workspace_policy \<Rightarrow> obj" where
  "policy_as_mapping p =
     [(''visibility_deadline_seconds'', JFloat (Fin (visibility_deadline_seconds p))),
      (''lease_seconds'', JFloat (Fin (lease_seconds p))),
      (''journal_segment_bytes'', JInt (journal_segment_bytes p)),
      (''retention'', JObj (retention_as_mapping (retention p)))]"

definition policy_updated :: "workspace_policy \<Rightarrow> obj \<Rightarrow> workspace_policy res" where
  "policy_updated p changes =
     (if \<not> list_all (\<lambda>k. k \<in> set POLICY_KEYS) (dict_keys changes) then Inl FormatError
      else policy_from_mapping (JObj (dict_update (policy_as_mapping p) changes)))"

definition wf_retention :: "retention_policy \<Rightarrow> bool" where
  "wf_retention p \<longleftrightarrow>
     (\<forall>d\<in>set [attempt_control_days p, journal_days p, trash_days p].
        (case d of None \<Rightarrow> True | Some q \<Rightarrow> 0 \<le> q))"

definition wf_policy :: "workspace_policy \<Rightarrow> bool" where
  "wf_policy p \<longleftrightarrow>
     0 \<le> visibility_deadline_seconds p \<and> visibility_deadline_seconds p \<le> 86400 \<and>
     1 \<le> lease_seconds p \<and> 4096 \<le> journal_segment_bytes p \<and> journal_segment_bytes p \<le> 2 ^ 40 \<and>
     wf_retention (retention p)"

section \<open>Retry policy\<close>

record retry_policy =
  maximum_attempts_per_activation :: "int option"
  maximum_total_attempts :: "int option"
  maximum_activations :: "int option"
  retry_on :: "string list"

definition optional_limit :: "obj \<Rightarrow> string \<Rightarrow> int option res" where
  "optional_limit mapping name =
     opt_member (get mapping name) None (\<lambda>raw.
       bindr (require_int raw 1 None) (\<lambda>i. Inr (Some i)))"

definition retry_from_mapping :: "json \<Rightarrow> retry_policy res" where
  "retry_from_mapping value =
     bindr (require_mapping value) (\<lambda>mapping.
       bindr (require_array (get_default mapping ''retry_on'' (JArr []))) (\<lambda>retry_raw.
         bindr (mapr require_string retry_raw) (\<lambda>on.
           bindr (optional_limit mapping ''maximum_attempts_per_activation'') (\<lambda>a.
             bindr (optional_limit mapping ''maximum_total_attempts'') (\<lambda>t.
               bindr (optional_limit mapping ''maximum_activations'') (\<lambda>n.
                 Inr \<lparr>maximum_attempts_per_activation = a, maximum_total_attempts = t,
                      maximum_activations = n, retry_on = on\<rparr>))))))"

section \<open>Failures\<close>

record failure =
  code :: string
  message :: string
  details :: "obj option"
  retryable :: bool

definition failure_as_mapping :: "failure \<Rightarrow> obj" where
  "failure_as_mapping f =
     [(''code'', JStr (code f)), (''message'', JStr (message f))]
     @ (case details f of None \<Rightarrow> [] | Some d \<Rightarrow> [(''details'', JObj d)])
     @ (if retryable f then [(''retryable'', JBool True)] else [])"

definition FAILURE_MEMBERS :: "string list" where
  "FAILURE_MEMBERS = [''code'', ''message'', ''details'', ''retryable'']"

text \<open>The UTF-8 texts of the characters for which \<open>str.isspace\<close> holds.\<close>

definition space_texts :: "string list" where
  "space_texts =
     map (\<lambda>c. [c]) [CHR 0x09, CHR 0x0A, CHR 0x0B, CHR 0x0C, CHR 0x0D, CHR 0x1C, CHR 0x1D,
       CHR 0x1E, CHR 0x1F, CHR 0x20]
     @ map (\<lambda>c. [CHR 0xC2, c]) [CHR 0x85, CHR 0xA0]
     @ [[CHR 0xE1, CHR 0x9A, CHR 0x80]]
     @ map (\<lambda>c. [CHR 0xE2, CHR 0x80, c]) [CHR 0x80, CHR 0x81, CHR 0x82, CHR 0x83, CHR 0x84,
         CHR 0x85, CHR 0x86, CHR 0x87, CHR 0x88, CHR 0x89, CHR 0x8A, CHR 0xA8, CHR 0xA9, CHR 0xAF]
     @ [[CHR 0xE2, CHR 0x81, CHR 0x9F], [CHR 0xE3, CHR 0x80, CHR 0x80]]"

definition has_space :: "string \<Rightarrow> bool" where
  "has_space s = list_ex (\<lambda>w. contains w s) space_texts"

definition wf_failure_code :: "string \<Rightarrow> bool" where
  "wf_failure_code c = (length c \<le> 128 \<and> NUL \<notin> set c \<and> \<not> has_space c)"

definition validate_failure :: "json \<Rightarrow> failure res" where
  "validate_failure value =
     bindr (require_mapping value) (\<lambda>mapping.
       if \<not> list_all (\<lambda>k. k \<in> set FAILURE_MEMBERS) (dict_keys mapping) then Inl FormatError
       else bindr (require_string (get mapping ''code'')) (\<lambda>c.
         if \<not> wf_failure_code c then Inl FormatError
         else bindr (require_string (get mapping ''message'')) (\<lambda>m.
           bindr (opt_member (get mapping ''details'') None
                    (\<lambda>d. bindr (require_mapping d) (\<lambda>x. Inr (Some x)))) (\<lambda>d.
             case get_default mapping ''retryable'' (JBool False) of
               JBool r \<Rightarrow> Inr \<lparr>code = c, message = m, details = d, retryable = r\<rparr>
             | _ \<Rightarrow> Inl FormatError))))"

definition wf_failure :: "failure \<Rightarrow> bool" where
  "wf_failure f = (code f \<noteq> [] \<and> wf_failure_code (code f) \<and> message f \<noteq> [])"

section \<open>Lemmas\<close>

lemma validate_resources_props:
  assumes "validate_resources v = Inr r" and "(k, n) \<in> set r"
  shows "0 \<le> n \<and> is_label k"
  using assms
  by (auto simp: validate_resources_def validate_resource_entry_def res_simps
      dest!: mapr_set split: json.splits if_splits)

lemma optional_days_days:
  "map_of m k = Some (of_opt_days d) \<Longrightarrow> (case d of None \<Rightarrow> True | Some q \<Rightarrow> 0 \<le> q) \<Longrightarrow>
     optional_days m k x = Inr d"
  by (cases d) (auto simp: optional_days_def of_opt_days_def has_key_def get_def)

lemma optional_days_nonneg:
  "optional_days m k x = Inr d \<Longrightarrow> (case x of None \<Rightarrow> True | Some q \<Rightarrow> 0 \<le> q) \<Longrightarrow>
     (case d of None \<Rightarrow> True | Some q \<Rightarrow> 0 \<le> q)"
  by (auto simp: optional_days_def res_simps split: if_splits dest: require_number_bounds)

lemma retention_roundtrip:
  "wf_retention p \<Longrightarrow> retention_from_mapping (JObj (retention_as_mapping p)) = Inr p"
proof -
  assume wf: "wf_retention p"
  let ?m = "retention_as_mapping p"
  have keys: "list_all (\<lambda>k. k \<in> set RETENTION_KEYS) (dict_keys ?m)"
    by (simp add: retention_as_mapping_def dict_keys_def RETENTION_KEYS_def)
  have a: "optional_days ?m ''attempt_control_days'' None = Inr (attempt_control_days p)"
  proof (cases "attempt_control_days p")
    case None
    then show ?thesis by (simp add: retention_as_mapping_def optional_days_def)
  next
    case (Some q)
    then show ?thesis
      using wf by (intro optional_days_days) (auto simp: retention_as_mapping_def wf_retention_def)
  qed
  have j: "optional_days ?m ''journal_days'' (Some 1) = Inr (journal_days p)"
    using wf by (intro optional_days_days) (auto simp: retention_as_mapping_def wf_retention_def)
  have t: "optional_days ?m ''trash_days'' (Some 1) = Inr (trash_days p)"
    using wf by (intro optional_days_days) (auto simp: retention_as_mapping_def wf_retention_def)
  show ?thesis
    using keys a j t by (simp add: retention_from_mapping_def default_retention_def)
qed

lemma retention_from_mapping_wf: "retention_from_mapping v = Inr p \<Longrightarrow> wf_retention p"
proof -
  assume "retention_from_mapping v = Inr p"
  then obtain m a j t where
      "optional_days m ''attempt_control_days'' None = Inr a"
      "optional_days m ''journal_days'' (Some 1) = Inr j"
      "optional_days m ''trash_days'' (Some 1) = Inr t"
    and p: "p = \<lparr>attempt_control_days = a, journal_days = j, trash_days = t\<rparr>"
    by (auto simp: retention_from_mapping_def res_simps default_retention_def split: if_splits)
  then have "case a of None \<Rightarrow> True | Some q \<Rightarrow> 0 \<le> q" "case j of None \<Rightarrow> True | Some q \<Rightarrow> 0 \<le> q"
    "case t of None \<Rightarrow> True | Some q \<Rightarrow> 0 \<le> q"
    by (auto dest: optional_days_nonneg)
  with p show ?thesis by (auto simp: wf_retention_def)
qed

lemma policy_from_mapping_Inr:
  "policy_from_mapping v = Inr q \<longleftrightarrow>
     (\<exists>m. v = JObj m \<and> list_all (\<lambda>k. k \<in> set POLICY_KEYS) (dict_keys m) \<and>
       opt_member (get m ''visibility_deadline_seconds'') 5 (\<lambda>v. require_number v 0 (Some 86400))
         = Inr (visibility_deadline_seconds q) \<and>
       opt_member (get m ''lease_seconds'') 900 (\<lambda>v. require_number v 1 None) = Inr (lease_seconds q) \<and>
       opt_member (get m ''journal_segment_bytes'') 67108864
         (\<lambda>v. require_int v 4096 (Some (2 ^ 40))) = Inr (journal_segment_bytes q) \<and>
       opt_member (get m ''retention'') default_retention retention_from_mapping = Inr (retention q))"
proof -
  have d: "visibility_deadline_seconds default_policy = 5" "lease_seconds default_policy = 900"
    "journal_segment_bytes default_policy = 67108864" "retention default_policy = default_retention"
    by (simp_all add: default_policy_def)
  show ?thesis
    unfolding policy_from_mapping_def bindr_Inr_iff require_mapping_Inr d
    by (cases q) (auto simp del: opt_member_Inr opt_member_simps simp: bindr_Inr_iff split: if_splits)
qed

lemma policy_from_mapping_wf: "policy_from_mapping v = Inr p \<Longrightarrow> wf_policy p"
proof -
  assume "policy_from_mapping v = Inr p"
  then have "0 \<le> visibility_deadline_seconds p \<and> visibility_deadline_seconds p \<le> 86400"
    and "1 \<le> lease_seconds p"
    and "4096 \<le> journal_segment_bytes p \<and> journal_segment_bytes p \<le> 2 ^ 40"
    and r: "retention p = default_retention \<or> (\<exists>v. retention_from_mapping v = Inr (retention p))"
    unfolding policy_from_mapping_Inr by (auto split: if_splits dest: require_number_bounds)
  moreover have "wf_retention (retention p)"
    using r retention_from_mapping_wf by (auto simp: default_retention_def wf_retention_def)
  ultimately show ?thesis by (simp add: wf_policy_def)
qed

lemma policy_roundtrip:
  "wf_policy p \<Longrightarrow> policy_from_mapping (JObj (policy_as_mapping p)) = Inr p"
  unfolding policy_from_mapping_Inr
  by (simp add: policy_as_mapping_def dict_keys_def POLICY_KEYS_def wf_policy_def retention_roundtrip)

lemma failure_roundtrip:
  assumes "wf_failure f"
  shows "validate_failure (JObj (failure_as_mapping f)) = Inr f"
proof -
  have keys: "list_all (\<lambda>k. k \<in> set FAILURE_MEMBERS) (dict_keys (failure_as_mapping f))"
    by (auto simp: failure_as_mapping_def dict_keys_def FAILURE_MEMBERS_def split: option.splits)
  have g: "get (failure_as_mapping f) ''code'' = JStr (code f)"
    "get (failure_as_mapping f) ''message'' = JStr (message f)"
    "get (failure_as_mapping f) ''details'' = (case details f of None \<Rightarrow> JNull | Some d \<Rightarrow> JObj d)"
    "get_default (failure_as_mapping f) ''retryable'' (JBool False) = JBool (retryable f)"
    by (auto simp: failure_as_mapping_def get_default_def split: option.splits)
  show ?thesis
    unfolding validate_failure_def require_mapping.simps bindr.simps g
    using keys assms by (cases "details f") (simp_all add: wf_failure_def)
qed

lemma validate_failure_wf: "validate_failure v = Inr f \<Longrightarrow> wf_failure f"
  by (auto simp: validate_failure_def res_simps wf_failure_def split: if_splits json.splits)

section \<open>Properties\<close>

text \<open>
  Workspace policy: what \<open>WorkspacePolicy.from_mapping\<close> accepts respects the protocol
  bounds, its stored form reads back as the same policy, and \<open>updated\<close> keeps every member
  that the changes do not name.
\<close>

theorem policy_updated_correct:
  assumes "wf_policy p" and "policy_updated p changes = Inr q"
  shows "wf_policy q \<and> policy_from_mapping (JObj (policy_as_mapping q)) = Inr q \<and>
         (\<not> has_key changes ''lease_seconds'' \<longrightarrow> lease_seconds q = lease_seconds p) \<and>
         (\<not> has_key changes ''visibility_deadline_seconds'' \<longrightarrow>
            visibility_deadline_seconds q = visibility_deadline_seconds p) \<and>
         (\<not> has_key changes ''journal_segment_bytes'' \<longrightarrow>
            journal_segment_bytes q = journal_segment_bytes p) \<and>
         (\<not> has_key changes ''retention'' \<longrightarrow> retention q = retention p)"
proof -
  let ?m = "dict_update (policy_as_mapping p) changes"
  have f: "policy_from_mapping (JObj ?m) = Inr q"
    using assms(2) by (auto simp: policy_updated_def split: if_splits)
  have kept: "get ?m k = get (policy_as_mapping p) k" if "\<not> has_key changes k" for k
  proof -
    have "map_of (rev changes) k = None"
      using that by (simp add: has_key_iff map_of_eq_None_iff)
    then show ?thesis by (simp add: get_def map_add_def)
  qed
  have wf: "wf_policy q" using f by (rule policy_from_mapping_wf)
  moreover have "lease_seconds q = lease_seconds p" if "\<not> has_key changes ''lease_seconds''"
    using f assms(1) kept [OF that]
    by (simp add: policy_from_mapping_Inr policy_as_mapping_def wf_policy_def)
  moreover have "visibility_deadline_seconds q = visibility_deadline_seconds p"
    if "\<not> has_key changes ''visibility_deadline_seconds''"
    using f assms(1) kept [OF that]
    by (simp add: policy_from_mapping_Inr policy_as_mapping_def wf_policy_def)
  moreover have "journal_segment_bytes q = journal_segment_bytes p"
    if "\<not> has_key changes ''journal_segment_bytes''"
    using f assms(1) kept [OF that]
    by (simp add: policy_from_mapping_Inr policy_as_mapping_def wf_policy_def)
  moreover have "retention q = retention p" if "\<not> has_key changes ''retention''"
    using f assms(1) kept [OF that] retention_roundtrip [of "retention p"]
    by (simp add: policy_from_mapping_Inr policy_as_mapping_def wf_policy_def)
  ultimately show ?thesis using policy_roundtrip [OF wf] by blast
qed

theorem policy_updated_correct_witness:
  "\<exists>q. policy_updated default_policy [(''journal_segment_bytes'', JInt 8192)] = Inr q \<and>
       journal_segment_bytes q = 8192 \<and> lease_seconds q = lease_seconds default_policy \<and>
       wf_policy q"
proof -
  let ?c = "[(''journal_segment_bytes'', JInt 8192)]"
  have w: "wf_policy default_policy" by code_simp
  have u: "policy_updated default_policy ?c = Inr (default_policy\<lparr>journal_segment_bytes := 8192\<rparr>)"
    by code_simp
  have "\<not> has_key ?c ''lease_seconds''" by code_simp
  with u policy_updated_correct [OF w u] show ?thesis by auto
qed

text \<open>
  A structured failure round trips: the canonical mapping of a well-formed failure
  validates back to the same failure, and whatever validates is well-formed.
\<close>

theorem failure_mapping_roundtrip:
  "(wf_failure f \<longrightarrow> validate_failure (JObj (failure_as_mapping f)) = Inr f) \<and>
   (validate_failure v = Inr f \<longrightarrow> wf_failure f)"
  using failure_roundtrip validate_failure_wf by blast

theorem failure_mapping_roundtrip_witness:
  "let f = \<lparr>code = ''no_convergence'', message = ''stopped'', details = Some [(''n'', JInt 3)],
            retryable = True\<rparr>
   in validate_failure (JObj (failure_as_mapping f)) = Inr f \<and> wf_failure f"
proof -
  let ?f = "\<lparr>code = ''no_convergence'', message = ''stopped'', details = Some [(''n'', JInt 3)],
            retryable = True\<rparr>"
  have "wf_failure ?f" by code_simp
  then show ?thesis
    using failure_mapping_roundtrip [of ?f "JObj (failure_as_mapping ?f)"] by (simp only: Let_def)
qed

text \<open>
  A JSON integer of magnitude \<open>2^1024\<close> or more makes \<open>require_number\<close> raise
  \<open>OverflowError\<close> from \<open>float(value)\<close>, for every range, instead of the \<open>FormatError\<close> its
  callers document and catch: a lease of that size is not refused as malformed policy.
\<close>

theorem policy_number_overflow:
  assumes "2 ^ 1024 \<le> \<bar>i\<bar>"
  shows "require_number (JInt i) lo hi = Inl OverflowError \<and>
         policy_from_mapping (JObj [(''lease_seconds'', JInt i)]) = Inl OverflowError"
  using float_of_int_overflow [OF assms]
  by (simp add: require_number_def policy_from_mapping_def dict_keys_def POLICY_KEYS_def)

theorem policy_number_overflow_witness:
  "policy_from_mapping (JObj [(''lease_seconds'', JInt (2 ^ 1024))]) = Inl OverflowError"
  using policy_number_overflow [of "2 ^ 1024" 0 None] by simp

end
