(* ===== verification/Visibility.thy ===== *)
theory Visibility
  imports Prelude
begin

text \<open>
  The visibility retry schedule of \<open>src/src/httk/workflow/_util.py\<close>. A path or a journal frame
  that another client wrote may become visible late, so every read is retried with bounded
  backoff until a deadline is spent. Times are rational numbers instead of floats: the
  sums below are exact. What the file system shows at each attempt is a list of views,
  one per attempt, so a retry loop is a function of that list.
\<close>

section \<open>Delays\<close>

definition DEFAULT_VISIBILITY_DEADLINE_SECONDS :: rat where
  "DEFAULT_VISIBILITY_DEADLINE_SECONDS = 5"

definition FIRST_RETRY_DELAY_SECONDS :: rat where
  "FIRST_RETRY_DELAY_SECONDS = 1 / 100"

definition MAXIMUM_RETRY_DELAY_SECONDS :: rat where
  "MAXIMUM_RETRY_DELAY_SECONDS = 5"

definition retry_delay :: "nat \<Rightarrow> rat" where
  "retry_delay attempt = min (1 / 100 * 2 ^ attempt) (1 / 4)"

text \<open>
  The loop of \<open>visibility_schedule\<close>. A delay outside \<open>(0, 5]\<close> never occurs; the loop of the
  model stops there, so that it is total on all arguments.
\<close>

function visibility_loop :: "rat \<Rightarrow> rat \<Rightarrow> rat list" where
  "visibility_loop remaining delay =
     (if remaining \<le> 0 \<or> delay \<le> 0 \<or> MAXIMUM_RETRY_DELAY_SECONDS < delay then []
      else min delay remaining #
        visibility_loop (remaining - min delay remaining) (min (delay * 2) MAXIMUM_RETRY_DELAY_SECONDS))"
  by auto

lemma visibility_loop_measure:
  fixes r d e :: rat
  assumes "0 < r" and "0 < d" and "d \<le> e"
  shows "nat \<lceil>(r - min d r) / e\<rceil> < nat \<lceil>r / d\<rceil>"
proof -
  have "(r - min d r) / e \<le> r / d - 1 \<or> r - min d r = 0"
  proof (cases "d \<le> r")
    case True
    then have "(r - min d r) / e \<le> (r - d) / d"
      using assms by (simp add: frac_le)
    then show ?thesis using assms by (simp add: diff_divide_distrib)
  qed simp
  moreover have "0 < \<lceil>r / d\<rceil>" using assms by (simp add: divide_pos_pos)
  moreover have "\<lceil>(r - min d r) / e\<rceil> < \<lceil>r / d\<rceil>" if "(r - min d r) / e \<le> r / d - 1"
  proof -
    have "\<lceil>(r - min d r) / e\<rceil> \<le> \<lceil>r / d - 1\<rceil>" using that by (rule ceiling_mono)
    then show ?thesis by simp
  qed
  ultimately show ?thesis by auto
qed

termination visibility_loop
proof (relation "measure (\<lambda>(remaining, delay). nat \<lceil>remaining / delay\<rceil>)")
  fix remaining delay :: rat
  assume "\<not> (remaining \<le> 0 \<or> delay \<le> 0 \<or> MAXIMUM_RETRY_DELAY_SECONDS < delay)"
  then have "0 < remaining" "0 < delay" "delay \<le> min (delay * 2) MAXIMUM_RETRY_DELAY_SECONDS"
    by auto
  then show "((remaining - min delay remaining, min (delay * 2) MAXIMUM_RETRY_DELAY_SECONDS),
      remaining, delay) \<in> measure (\<lambda>(remaining, delay). nat \<lceil>remaining / delay\<rceil>)"
    using visibility_loop_measure by simp
qed simp

declare visibility_loop.simps [simp del]

definition visibility_schedule :: "rat option \<Rightarrow> rat list" where
  "visibility_schedule deadline_seconds =
     visibility_loop
       (case deadline_seconds of None \<Rightarrow> DEFAULT_VISIBILITY_DEADLINE_SECONDS | Some d \<Rightarrow> max 0 d)
       FIRST_RETRY_DELAY_SECONDS"

text \<open>The attempts: one more than there are delays.\<close>

definition visibility_attempts :: "rat option \<Rightarrow> nat list" where
  "visibility_attempts deadline_seconds = [0..<Suc (length (visibility_schedule deadline_seconds))]"

section \<open>Waiting for paths\<close>

text \<open>
  \<open>wait_for_paths\<close>: each attempt drops the paths that exist now and the loop stops early when
  none is left; the paths still absent at one last probe are returned.
\<close>

fun wait_loop :: "('p \<Rightarrow> bool) list \<Rightarrow> 'p list \<Rightarrow> 'p list" where
  "wait_loop [] remaining = remaining"
| "wait_loop (exists # views) remaining =
     (let remaining' = filter (\<lambda>p. \<not> exists p) remaining
      in if remaining' = [] then [] else wait_loop views remaining')"

definition wait_for_paths :: "('p \<Rightarrow> bool) list \<Rightarrow> ('p \<Rightarrow> bool) \<Rightarrow> 'p list \<Rightarrow> 'p list" where
  "wait_for_paths views final paths = filter (\<lambda>p. \<not> final p) (wait_loop views paths)"

definition wait_for_path :: "('p \<Rightarrow> bool) list \<Rightarrow> ('p \<Rightarrow> bool) \<Rightarrow> 'p \<Rightarrow> bool" where
  "wait_for_path views final p = (wait_for_paths views final [p] = [])"

section \<open>Bounds of the schedule\<close>

lemma visibility_loop_step:
  "0 < r \<Longrightarrow> 0 < d \<Longrightarrow> d \<le> 5 \<Longrightarrow>
     visibility_loop r d = min d r # visibility_loop (r - min d r) (min (d * 2) 5)"
  by (simp add: visibility_loop.simps [of r d] MAXIMUM_RETRY_DELAY_SECONDS_def)

lemma visibility_loop_done [simp]: "r \<le> 0 \<Longrightarrow> visibility_loop r d = []"
  by (simp add: visibility_loop.simps)

lemma visibility_loop_sum:
  "0 \<le> r \<Longrightarrow> 0 < d \<Longrightarrow> d \<le> 5 \<Longrightarrow> sum_list (visibility_loop r d) = r"
proof (induction r d rule: visibility_loop.induct)
  case (1 r d)
  show ?case
  proof (cases "r = 0")
    case False
    with 1 have "sum_list (visibility_loop (r - min d r) (min (d * 2) 5)) = r - min d r"
      by (intro "1.IH" [unfolded MAXIMUM_RETRY_DELAY_SECONDS_def]) auto
    with False 1 show ?thesis by (simp add: visibility_loop_step)
  qed simp
qed

lemma visibility_loop_bounds:
  "0 < d \<Longrightarrow> d \<le> 5 \<Longrightarrow> x \<in> set (visibility_loop r d) \<Longrightarrow> 0 < x \<and> x \<le> 5"
proof (induction r d rule: visibility_loop.induct)
  case (1 r d)
  show ?case
  proof (cases "r \<le> 0")
    case False
    then consider "x = min d r" | "x \<in> set (visibility_loop (r - min d r) (min (d * 2) 5))"
      using 1 by (auto simp: visibility_loop_step)
    then show ?thesis
    proof cases
      case 2
      with False 1 show ?thesis
        by (intro "1.IH" [unfolded MAXIMUM_RETRY_DELAY_SECONDS_def]) auto
    qed (use False 1 in auto)
  qed (use 1 in simp)
qed

text \<open>The number of delays: one more per doubling below the longest delay, then one per 5 seconds.\<close>

lemma visibility_loop_length_max: "length (visibility_loop r 5) = nat \<lceil>r / 5\<rceil>"
proof (induction "nat \<lceil>r / 5\<rceil>" arbitrary: r rule: less_induct)
  case less
  show ?case
  proof (cases "r \<le> 0")
    case False
    then have lt: "nat \<lceil>(r - min 5 r) / 5\<rceil> < nat \<lceil>r / 5\<rceil>"
      by (intro visibility_loop_measure) auto
    have "length (visibility_loop r 5) = Suc (nat \<lceil>(r - min 5 r) / 5\<rceil>)"
      using less [OF lt] False by (simp add: visibility_loop_step)
    moreover have "nat \<lceil>r / 5\<rceil> \<le> Suc (nat \<lceil>(r - min 5 r) / 5\<rceil>)"
    proof (cases "5 \<le> r")
      case True
      then have "(r - min 5 r) / 5 = r / 5 - 1" by (simp add: diff_divide_distrib)
      then have "\<lceil>(r - min 5 r) / 5\<rceil> = \<lceil>r / 5\<rceil> - 1" by (simp only: ceiling_diff_one)
      then show ?thesis by arith
    next
      case small: False
      then have "\<lceil>r / 5\<rceil> \<le> 1" by (simp add: ceiling_le_iff)
      then show ?thesis by arith
    qed
    ultimately show ?thesis using lt by (simp only: le_antisym Suc_leI)
  qed (simp add: divide_le_0_iff)
qed

lemma visibility_loop_length_step:
  assumes "\<And>r. length (visibility_loop r (min (d * 2) 5)) \<le> n + nat \<lceil>r / 5\<rceil>"
    and "0 < d" and "d \<le> 5"
  shows "length (visibility_loop r d) \<le> Suc n + nat \<lceil>r / 5\<rceil>"
proof (cases "r \<le> 0")
  case False
  have "\<lceil>(r - min d r) / 5\<rceil> \<le> \<lceil>r / 5\<rceil>"
    using assms(2) False by (intro ceiling_mono divide_right_mono) auto
  then have "nat \<lceil>(r - min d r) / 5\<rceil> \<le> nat \<lceil>r / 5\<rceil>" by (rule nat_mono)
  with assms(1) [of "r - min d r"] show ?thesis
    using False assms(2,3) by (simp add: visibility_loop_step)
qed simp

lemma visibility_loop_length: "length (visibility_loop r (1 / 100)) \<le> 9 + nat \<lceil>r / 5\<rceil>"
proof -
  have "length (visibility_loop r (2 ^ (9 - n) / 100)) \<le> n + nat \<lceil>r / 5\<rceil>"
    if "1 \<le> n" "n \<le> 9" for n :: nat and r
    using that
  proof (induction n arbitrary: r rule: nat_induct_at_least)
    case base
    have "length (visibility_loop r (64 / 25)) \<le> Suc 0 + nat \<lceil>r / 5\<rceil>"
      by (rule visibility_loop_length_step) (simp_all add: visibility_loop_length_max)
    then show ?case by simp
  next
    case (Suc n)
    have e: "(2::rat) ^ (9 - n) = 2 * 2 ^ (9 - Suc n)"
      using Suc by (simp add: Suc_diff_Suc flip: power_Suc)
    have "(2::rat) ^ (9 - Suc n) \<le> 2 ^ 7" using Suc.hyps by (intro power_increasing) auto
    then have m: "min (2 ^ (9 - Suc n) / 100 * 2) 5 = (2::rat) ^ (9 - n) / 100"
      by (simp add: e)
    show ?case
      using Suc.IH Suc.prems \<open>(2::rat) ^ (9 - Suc n) \<le> 2 ^ 7\<close>
      by (intro visibility_loop_length_step) (simp_all only: m, simp_all)
  qed
  from this [of 9 r] show ?thesis by simp
qed

section \<open>Properties\<close>

text \<open>
  The visibility schedule spends exactly its deadline: the delays sum to the deadline
  (zero when it is negative, five seconds by default), each is positive and at most five
  seconds, so that a reader keeps probing, and there are at most nine more of them than
  five-second intervals in the deadline.
\<close>

theorem visibility_schedule_exact:
  "sum_list (visibility_schedule (Some d)) = max 0 d \<and> sum_list (visibility_schedule None) = 5 \<and>
   list_all (\<lambda>x. 0 < x \<and> x \<le> 5) (visibility_schedule deadline) \<and>
   length (visibility_attempts (Some d)) \<le> 10 + nat \<lceil>d / 5\<rceil>"
proof -
  have "nat \<lceil>max 0 d / 5\<rceil> = nat \<lceil>d / 5\<rceil>" by (cases "0 \<le> d") (simp_all add: max_def divide_le_0_iff)
  then have "length (visibility_attempts (Some d)) \<le> 10 + nat \<lceil>d / 5\<rceil>"
    using visibility_loop_length [of "max 0 d"]
    by (simp add: visibility_attempts_def visibility_schedule_def FIRST_RETRY_DELAY_SECONDS_def)
  moreover have "list_all (\<lambda>x. 0 < x \<and> x \<le> 5) (visibility_schedule deadline)"
    unfolding visibility_schedule_def list_all_iff FIRST_RETRY_DELAY_SECONDS_def
    by (intro ballI visibility_loop_bounds) auto
  ultimately show ?thesis
    by (simp add: visibility_schedule_def visibility_loop_sum
        FIRST_RETRY_DELAY_SECONDS_def DEFAULT_VISIBILITY_DEADLINE_SECONDS_def)
qed

lemma wait_loop_absent:
  "set (wait_loop views ps) = {p \<in> set ps. \<forall>v\<in>set views. \<not> v p}"
proof (induction views arbitrary: ps)
  case (Cons v views)
  show ?case
  proof (cases "filter (\<lambda>p. \<not> v p) ps = []")
    case True
    then show ?thesis by (auto simp: filter_empty_conv)
  next
    case False
    then show ?thesis using Cons by (auto simp: Let_def)
  qed
qed simp

text \<open>
  A shared visibility window is exact: \<open>wait_for_paths\<close> reports precisely the paths that
  no probe ever saw, so a path that appears at any attempt is never reported as absent.
\<close>

theorem wait_for_paths_exact:
  "set (wait_for_paths views final ps) = {p \<in> set ps. \<not> final p \<and> list_all (\<lambda>v. \<not> v p) views} \<and>
   (wait_for_path views final p \<longleftrightarrow> final p \<or> list_ex (\<lambda>v. v p) views)"
proof -
  have "set (wait_for_paths views final qs)
      = {p \<in> set qs. \<not> final p \<and> list_all (\<lambda>v. \<not> v p) views}" for qs
    by (auto simp: wait_for_paths_def wait_loop_absent list_all_iff)
  moreover from this [of "[p]"]
  have "wait_for_path views final p \<longleftrightarrow> final p \<or> list_ex (\<lambda>v. v p) views"
    by (auto simp: wait_for_path_def list_all_iff list_ex_iff simp flip: set_empty)
  ultimately show ?thesis by blast
qed

end
