(* ===== verification/Marker_Index.thy ===== *)
theory Marker_Index
  imports Markers
begin

text \<open>
  The state tree and the lookup of a job in it (\<open>src/src/httk/workflow/workspace.py\<close>). The tree
  is the list of the regular files below \<open>state/\<close>, each a path of components; scans visit it
  in the sorted pre-order of the code. One workspace instance keeps a bounded cache from job
  identity to the place where it last saw the marker; the ladder of \<open>find_marker_by_id\<close>
  confirms a hit against the tree, probes the placement, and rescans before it reports
  absence.
\<close>

section \<open>Scanning\<close>

definition class_char :: "string \<Rightarrow> char \<Rightarrow> bool" where
  "class_char cs c = (c \<in> set cs)"

text \<open>\<open>_MARKER_SHAPE_PATTERN\<close> at the start of a text, and searched for.\<close>

definition shape_at :: "string \<Rightarrow> bool" where
  "shape_at s \<longleftrightarrow>
     starts_with ''.p'' s \<and> length s > 7 \<and> all_in digit_chars (take 3 (drop 2 s)) \<and>
     starts_with ''.g'' (drop 5 s) \<and>
     takeWhile (class_char base36_chars) (drop 7 s) \<noteq> [] \<and>
     starts_with ''.'' (dropWhile (class_char base36_chars) (drop 7 s))"

fun shape_search :: "string \<Rightarrow> bool" where
  "shape_search [] = False"
| "shape_search (c # s) = (shape_at (c # s) \<or> shape_search s)"

definition marker_shaped :: "string \<Rightarrow> bool" where
  "marker_shaped name = (\<not> starts_with ''.'' name \<and> shape_search name)"

type_synonym state_tree = "string list list"

datatype entry = Found marker | Marker_Fault "string list"

definition read_entry :: "string list \<Rightarrow> entry" where
  "read_entry p = (case marker_from_path p of Inr m \<Rightarrow> Found m | Inl _ \<Rightarrow> Marker_Fault p)"

text \<open>\<open>scan_marker_entries\<close>: the marker-shaped files of the given kinds, in walk order.\<close>

definition kind_files :: "state_tree \<Rightarrow> kind \<Rightarrow> string list list" where
  "kind_files T k =
     sort (filter (\<lambda>p. p \<noteq> [] \<and> hd p = kind_name k \<and> length p > 1 \<and> marker_shaped (last p)) T)"

definition scan_marker_entries :: "state_tree \<Rightarrow> kind list \<Rightarrow> entry list" where
  "scan_marker_entries T kinds = concat (map (\<lambda>k. map read_entry (kind_files T k)) kinds)"

fun found :: "entry \<Rightarrow> marker option" where
  "found (Found m) = Some m"
| "found (Marker_Fault p) = None"

text \<open>\<open>scan_markers\<close>: the valid markers; faults are only reported.\<close>

definition scan_markers :: "state_tree \<Rightarrow> kind list \<Rightarrow> marker list" where
  "scan_markers T kinds = List.map_filter found (scan_marker_entries T kinds)"

section \<open>The cache\<close>

record index_entry =
  ie_kind :: kind
  ie_placement :: "string list"
  ie_basename :: string

type_synonym marker_index = "(string \<times> index_entry) list"

text \<open>The cache of an instance: least recently touched first; \<open>None\<close> before the first scan.\<close>

record index_state =
  marker_index :: "marker_index option"
  marker_duplicates :: "string list"
  marker_index_capacity :: nat

definition entry_of :: "marker \<Rightarrow> index_entry" where
  "entry_of m = \<lparr>ie_kind = kind m, ie_placement = placement m, ie_basename = last (path m)\<rparr>"

definition index_pop :: "string \<Rightarrow> marker_index \<Rightarrow> marker_index" where
  "index_pop i idx = filter (\<lambda>p. fst p \<noteq> i) idx"

definition trim_index :: "nat \<Rightarrow> marker_index \<Rightarrow> marker_index" where
  "trim_index capacity idx = drop (length idx - capacity) idx"

text \<open>Assignment followed by \<open>move_to_end\<close>.\<close>

definition index_put :: "string \<Rightarrow> index_entry \<Rightarrow> marker_index \<Rightarrow> marker_index" where
  "index_put i e idx = index_pop i idx @ [(i, e)]"

definition index_note :: "marker \<Rightarrow> index_state \<Rightarrow> index_state" where
  "index_note m st =
     (case marker_index st of
        None \<Rightarrow> st
      | Some idx \<Rightarrow>
          if kind m \<notin> set ACTIVE_STATE_KINDS then
            st\<lparr>marker_index := Some (index_pop (job_id m) idx)\<rparr>
          else
            st\<lparr>marker_index := Some (trim_index (marker_index_capacity st)
                 (index_put (job_id m) (entry_of m) idx))\<rparr>)"

definition index_note_path :: "string list \<Rightarrow> index_state \<Rightarrow> index_state" where
  "index_note_path p st =
     (if length p < 3 then st
      else case marker_from_path p of Inr m \<Rightarrow> index_note m st | Inl _ \<Rightarrow> st)"

definition index_forget :: "string \<Rightarrow> index_state \<Rightarrow> index_state" where
  "index_forget i st =
     (case marker_index st of None \<Rightarrow> st | Some idx \<Rightarrow> st\<lparr>marker_index := Some (index_pop i idx)\<rparr>)"

definition invalidate_marker_index :: "index_state \<Rightarrow> index_state" where
  "invalidate_marker_index st = st\<lparr>marker_index := None, marker_duplicates := []\<rparr>"

text \<open>
  \<open>_rebuild_marker_index\<close>: one pass over the complete scan. The accumulator holds the index,
  the duplicates, the identities seen and the marker of the wanted job.
\<close>

definition rebuild_step ::
  "string option \<Rightarrow> marker_index \<times> string list \<times> string list \<times> marker option \<Rightarrow> marker \<Rightarrow>
     marker_index \<times> string list \<times> string list \<times> marker option" where
  "rebuild_step wanted acc m =
     (case acc of (idx, dups, seen, fnd) \<Rightarrow>
        ((if kind m \<in> set ACTIVE_STATE_KINDS
          then (if job_id m \<in> fst ` set idx
                then map (\<lambda>(i, e). if i = job_id m then (i, entry_of m) else (i, e)) idx
                else idx @ [(job_id m, entry_of m)])
          else idx),
         (if job_id m \<in> set seen then List.insert (job_id m) dups else dups),
         List.insert (job_id m) seen,
         (if wanted = Some (job_id m) then Some m else fnd)))"

definition rebuild_marker_index ::
  "state_tree \<Rightarrow> string option \<Rightarrow> index_state \<Rightarrow> marker option \<times> index_state" where
  "rebuild_marker_index T wanted st =
     (case foldl (rebuild_step wanted) ([], [], [], None) (scan_markers T CORE_STATE_KINDS) of
        (idx, dups, _, fnd) \<Rightarrow>
          (fnd, st\<lparr>marker_index := Some (trim_index (marker_index_capacity st) idx),
                   marker_duplicates := dups\<rparr>))"

section \<open>The lookup ladder\<close>

definition index_marker :: "state_tree \<Rightarrow> string \<Rightarrow> index_entry \<Rightarrow> marker option" where
  "index_marker T i e =
     (let p = state_directory (ie_kind e) (ie_placement e) @ [ie_basename e]
      in if p \<notin> set T then None
         else case marker_from_path p of
           Inl _ \<Rightarrow> None
         | Inr m \<Rightarrow> if job_id m = i then Some m else None)"

text \<open>Glob patterns with literal characters, \<open>?\<close> and \<open>*\<close>.\<close>

datatype glob = Lit char | Any | Star

fun glob_match :: "glob list \<Rightarrow> string \<Rightarrow> bool" where
  "glob_match [] s = (s = [])"
| "glob_match (Lit c # g) s = (case s of [] \<Rightarrow> False | x # r \<Rightarrow> x = c \<and> glob_match g r)"
| "glob_match (Any # g) s = (case s of [] \<Rightarrow> False | x # r \<Rightarrow> glob_match g r)"
| "glob_match (Star # g) s = (glob_match g s \<or> (case s of [] \<Rightarrow> False | x # r \<Rightarrow> glob_match (Star # g) r))"

definition marker_glob :: "string \<Rightarrow> glob list" where
  "marker_glob key =
     map Lit key @ map Lit ''.p'' @ [Any, Any, Any] @ map Lit ''.g'' @ [Star] @ map Lit ''.'' @ [Star]"

text \<open>The files of one placement, for every core kind, whose names match a pattern.\<close>

definition placement_matches :: "state_tree \<Rightarrow> string list \<Rightarrow> glob list \<Rightarrow> marker list" where
  "placement_matches T pl g =
     concat (map (\<lambda>k. List.map_filter (\<lambda>p. found (read_entry p))
       (filter (\<lambda>p. p \<noteq> [] \<and> butlast p = state_directory k pl \<and> glob_match g (last p)) T))
       CORE_STATE_KINDS)"

definition probe_placement :: "state_tree \<Rightarrow> string \<Rightarrow> string list \<Rightarrow> marker option res" where
  "probe_placement T i pl =
     (case filter (\<lambda>m. job_id m = i) (placement_matches T pl (Star # marker_glob i)) of
        [] \<Rightarrow> Inr None
      | [m] \<Rightarrow> Inr (Some m)
      | _ \<Rightarrow> Inl WorkspaceCorruptionError)"

definition find_by_scan ::
  "state_tree \<Rightarrow> string \<Rightarrow> index_state \<Rightarrow> marker option res \<times> index_state" where
  "find_by_scan T i st =
     (case rebuild_marker_index T (Some i) st of (fnd, st') \<Rightarrow>
        (if i \<in> set (marker_duplicates st') then Inl WorkspaceCorruptionError else Inr fnd, st'))"

definition find_marker_by_id ::
  "state_tree \<Rightarrow> string \<Rightarrow> index_state \<Rightarrow> marker option res \<times> index_state" where
  "find_marker_by_id T i st =
     (case marker_index st of
        None \<Rightarrow> find_by_scan T i st
      | Some idx \<Rightarrow>
          (case map_of idx i of
             None \<Rightarrow> find_by_scan T i st
           | Some e \<Rightarrow>
               if i \<in> set (marker_duplicates st) then find_by_scan T i st
               else case index_marker T i e of
                 Some m \<Rightarrow> (Inr (Some m), st\<lparr>marker_index := Some (index_put i e idx)\<rparr>)
               | None \<Rightarrow>
                   let st1 = st\<lparr>marker_index := Some (index_pop i idx)\<rparr>
                   in case probe_placement T i (ie_placement e) of
                        Inl err \<Rightarrow> (Inl err, st1)
                      | Inr (Some m) \<Rightarrow> (Inr (Some m), index_note m st1)
                      | Inr None \<Rightarrow> find_by_scan T i st1))"

definition find_markers ::
  "state_tree \<Rightarrow> string \<Rightarrow> kind list \<Rightarrow> index_state \<Rightarrow> marker list res \<times> index_state" where
  "find_markers T key kinds st =
     (case parse_job_key key of
        Inr (_, i) \<Rightarrow>
          if set kinds \<subseteq> set CORE_STATE_KINDS then
            (case find_marker_by_id T i st of
               (Inl e, st') \<Rightarrow> (Inl e, st')
             | (Inr None, st') \<Rightarrow> (Inr [], st')
             | (Inr (Some m), st') \<Rightarrow>
                 (Inr (if job_key m \<noteq> key then [] else if kind m \<in> set kinds then [m] else []), st'))
          else (Inr (filter (\<lambda>m. job_key m = key) (scan_markers T kinds)), st)
      | Inl _ \<Rightarrow> (Inr (filter (\<lambda>m. job_key m = key) (scan_markers T kinds)), st))"

definition find_marker_at ::
  "state_tree \<Rightarrow> string \<Rightarrow> string list \<Rightarrow> index_state \<Rightarrow> marker option res \<times> index_state" where
  "find_marker_at T key pl st =
     (let hit = (case (marker_index st, parse_job_key key) of
                   (Some idx, Inr (_, i)) \<Rightarrow>
                     (case map_of idx i of
                        Some e \<Rightarrow>
                          if ie_placement e = pl then
                            (case index_marker T i e of
                               Some m \<Rightarrow> if job_key m = key then Some m else None
                             | None \<Rightarrow> None)
                          else None
                      | None \<Rightarrow> None)
                 | _ \<Rightarrow> None)
      in case hit of
           Some m \<Rightarrow> (Inr (Some m), st)
         | None \<Rightarrow>
             (case placement_matches T pl (marker_glob key) of
                [] \<Rightarrow> (Inr None, st)
              | [m] \<Rightarrow> (Inr (Some m), index_note m st)
              | _ \<Rightarrow> (Inl WorkspaceCorruptionError, st)))"

section \<open>Marker names\<close>

lemma parse_marker_name_Some:
  assumes "parse_marker_name name = Some (key, prio, gen, ref)"
  shows "name = key @ ''.p'' @ prio @ ''.g'' @ gen @ ''.'' @ ref \<and> length prio = 3 \<and>
    all_in digit_chars prio \<and> gen \<noteq> [] \<and> all_in base36_chars gen"
proof -
  obtain a where a: "rsplit1 CHR ''.'' name = Some (a, ref)"
    using assms by (auto simp: parse_marker_name_def split: option.splits prod.splits if_splits)
  obtain b g where b: "rsplit1 CHR ''.'' a = Some (b, g)"
    using assms a by (auto simp: parse_marker_name_def split: option.splits prod.splits if_splits)
  obtain k p where k: "rsplit1 CHR ''.'' b = Some (k, p)"
    using assms a b by (auto simp: parse_marker_name_def split: option.splits prod.splits if_splits)
  have f: "k = key" "g = CHR ''g'' # gen" "p = CHR ''p'' # prio" "length prio = 3"
    "all_in digit_chars prio" "gen \<noteq> []" "all_in base36_chars gen"
    using assms a b k
    by (auto simp: parse_marker_name_def split: option.splits prod.splits if_splits)
  have "name = a @ CHR ''.'' # ref" "a = b @ CHR ''.'' # g" "b = k @ CHR ''.'' # p"
    using rsplit1_SomeD [OF a] rsplit1_SomeD [OF b] rsplit1_SomeD [OF k] by simp_all
  with f show ?thesis by simp
qed

lemma shape_at_marker:
  assumes "length prio = 3" and "all_in digit_chars prio" and "gen \<noteq> []" and "all_in base36_chars gen"
  shows "shape_at (''.p'' @ prio @ ''.g'' @ gen @ ''.'' @ ref)"
proof -
  have d: "CHR ''.'' \<notin> set base36_chars" by (simp add: base36_chars_def)
  have g: "\<forall>c\<in>set gen. class_char base36_chars c"
    using assms(4) by (auto simp: all_in_iff class_char_def)
  have "takeWhile (class_char base36_chars) (gen @ CHR ''.'' # ref) = gen"
    "dropWhile (class_char base36_chars) (gen @ CHR ''.'' # ref) = CHR ''.'' # ref"
    using g d by (simp_all add: class_char_def)
  then show ?thesis
    using assms by (simp add: shape_at_def starts_with_def)
qed

lemma shape_search_append: "shape_at t \<Longrightarrow> t \<noteq> [] \<Longrightarrow> shape_search (s @ t)"
  by (induction s) (auto simp: neq_Nil_conv)

lemma job_key_head: "parse_job_key k = Inr x \<Longrightarrow> \<not> starts_with ''.'' (k @ s)"
proof -
  assume h: "parse_job_key k = Inr x"
  obtain t i where x: "x = (t, i)" by (cases x)
  note f = parse_job_key_Inr [OF h [unfolded x]]
  show ?thesis
  proof (cases t)
    case None
    obtain c cs where i: "i = c # cs" using uuid_pattern_length [OF f(1)] by (cases i) auto
    have "c \<noteq> CHR ''.''" using uuid_pattern_chars [OF f(1)] i by (auto simp: hex_chars_def)
    with None f(2) i show ?thesis by (auto simp: make_job_key_def starts_with_def)
  next
    case (Some l)
    with f(3) obtain c cs where l: "l = c # cs" "c \<in> set label_first"
      by (auto simp: is_label_def label_pattern_def split: list.splits)
    then have "c \<noteq> CHR ''.''" by (auto simp: label_first_def lower_chars_def digit_chars_def)
    with Some f(2) l show ?thesis by (auto simp: make_job_key_def starts_with_def)
  qed
qed

lemma marker_from_path_name:
  assumes "marker_from_path p = Inr m"
  shows "\<exists>prio gen. parse_marker_name (last p) = Some (job_key m, prio, gen, record_ref m) \<and>
    priority m = of_decimal prio \<and> generation m = of_base36 gen"
proof -
  obtain k pl key prio gen ref where
    "parse_marker_name (last p) = Some (key, prio, gen, ref)"
    "m = \<lparr>kind = k, placement = pl, job_key = key, priority = of_decimal prio,
       generation = of_base36 gen, record_ref = ref, path = p\<rparr>"
    using assms by (cases "parse_marker_name (last p)")
      (auto simp: marker_from_path_def res_simps split: if_splits option.splits)
  then show ?thesis by auto
qed

lemma marker_from_path_parts:
  assumes "marker_from_path p = Inr m"
  shows "\<exists>prio gen ref. last p = job_key m @ ''.p'' @ prio @ ''.g'' @ gen @ ''.'' @ ref \<and>
      length prio = 3 \<and> all_in digit_chars prio \<and> gen \<noteq> [] \<and> all_in base36_chars gen"
    and "kind_name (kind m) = hd p" and "\<exists>t. parse_job_key (job_key m) = Inr (t, job_id m)"
    and "length p \<ge> 3" and "path m = p" and "butlast p = state_directory (kind m) (placement m)"
proof -
  have w: "wf_marker m" "path m = p" using marker_from_path_wf [OF assms] by auto
  show "path m = p" by (rule w)
  show l: "length p \<ge> 3" using assms by (auto simp: marker_from_path_def split: if_splits)
  show "\<exists>t. parse_job_key (job_key m) = Inr (t, job_id m)" using w by (simp add: wf_marker_def)
  have p: "p = state_directory (kind m) (placement m) @ [last p]" using w by (simp add: wf_marker_def)
  then show "butlast p = state_directory (kind m) (placement m)" by (metis butlast_snoc)
  show "kind_name (kind m) = hd p" using p by (metis append_Cons list.sel(1) state_directory_def)
  obtain prio gen where "parse_marker_name (last p) = Some (job_key m, prio, gen, record_ref m)"
    using marker_from_path_name [OF assms] by blast
  from parse_marker_name_Some [OF this]
  show "\<exists>prio gen ref. last p = job_key m @ ''.p'' @ prio @ ''.g'' @ gen @ ''.'' @ ref \<and>
      length prio = 3 \<and> all_in digit_chars prio \<and> gen \<noteq> [] \<and> all_in base36_chars gen"
    by blast
qed

lemma marker_from_path_shaped: "marker_from_path p = Inr m \<Longrightarrow> marker_shaped (last p)"
proof -
  assume h: "marker_from_path p = Inr m"
  obtain prio gen ref where l: "last p = job_key m @ ''.p'' @ prio @ ''.g'' @ gen @ ''.'' @ ref"
    and g: "length prio = 3" "all_in digit_chars prio" "gen \<noteq> []" "all_in base36_chars gen"
    using marker_from_path_parts(1) [OF h] by blast
  obtain t where k: "parse_job_key (job_key m) = Inr (t, job_id m)"
    using marker_from_path_parts(3) [OF h] by blast
  show ?thesis
    unfolding marker_shaped_def l
    using job_key_head [OF k] shape_search_append [OF shape_at_marker [OF g, of ref]] by blast
qed

lemma glob_lits: "glob_match (map Lit s @ g) (s @ t) = glob_match g t"
  by (induction s) auto

lemma glob_star: "glob_match g t \<Longrightarrow> glob_match (Star # g) (s @ t)"
  by (induction s) auto

lemma marker_glob_match:
  "length prio = 3 \<Longrightarrow>
     glob_match (marker_glob key) (key @ ''.p'' @ prio @ ''.g'' @ gen @ ''.'' @ ref)"
proof -
  assume p: "length prio = 3"
  then obtain a b c where pr: "prio = [a, b, c]"
    by (metis length_0_conv length_Suc_conv numeral_3_eq_3)
  have "glob_match [Star] ref" using glob_star [of "[]" "[]" ref] by simp
  then have "glob_match (map Lit ''.'' @ [Star]) (''.'' @ ref)" by (simp only: glob_lits)
  then have "glob_match (Star # map Lit ''.'' @ [Star]) (gen @ ''.'' @ ref)" by (rule glob_star)
  then show ?thesis
    unfolding marker_glob_def glob_lits pr by simp
qed

section \<open>What a scan finds\<close>

lemma kind_files_set:
  "set (kind_files T k) = {p \<in> set T. p \<noteq> [] \<and> hd p = kind_name k \<and> length p > 1 \<and> marker_shaped (last p)}"
  by (auto simp: kind_files_def)

lemma found_read_entry: "found (read_entry p) = Some m \<longleftrightarrow> marker_from_path p = Inr m"
  by (auto simp: read_entry_def split: sum.splits)

lemma map_filter_set: "set (List.map_filter f xs) = {y. \<exists>x\<in>set xs. f x = Some y}"
proof (induction xs)
  case (Cons x xs)
  then show ?case by (cases "f x") (auto simp: List.map_filter_simps)
qed (simp add: List.map_filter_simps)

lemma scan_markers_concat:
  "scan_markers T kinds = List.map_filter (\<lambda>p. found (read_entry p)) (concat (map (kind_files T) kinds))"
  by (induction kinds) (auto simp: scan_markers_def scan_marker_entries_def List.map_filter_def
      filter_map comp_def)

lemma scan_markers_set:
  "set (scan_markers T kinds) = {m. \<exists>p\<in>set T. marker_from_path p = Inr m \<and> kind m \<in> set kinds}"
proof -
  have "m \<in> set (scan_markers T kinds) \<longleftrightarrow>
      (\<exists>p\<in>set T. marker_from_path p = Inr m \<and> kind m \<in> set kinds)" for m
  proof
    assume "m \<in> set (scan_markers T kinds)"
    then obtain k p where k: "k \<in> set kinds" "p \<in> set (kind_files T k)" "found (read_entry p) = Some m"
      by (auto simp: scan_markers_def scan_marker_entries_def map_filter_set)
    then have m: "marker_from_path p = Inr m" by (simp add: found_read_entry)
    have "kind_name (kind m) = kind_name k"
      using marker_from_path_parts(2) [OF m] k(2) by (simp add: kind_files_set)
    then show "\<exists>p\<in>set T. marker_from_path p = Inr m \<and> kind m \<in> set kinds"
      using k m by (auto simp: kind_files_set)
  next
    assume "\<exists>p\<in>set T. marker_from_path p = Inr m \<and> kind m \<in> set kinds"
    then obtain p where p: "p \<in> set T" "marker_from_path p = Inr m" "kind m \<in> set kinds" by blast
    have "length p \<ge> 3" using p(2) by (rule marker_from_path_parts(4))
    then have "p \<in> set (kind_files T (kind m))"
      using p marker_from_path_parts(2) [OF p(2)] marker_from_path_shaped [OF p(2)]
      by (auto simp: kind_files_set)
    moreover have "found (read_entry p) = Some m" using p(2) by (simp add: found_read_entry)
    ultimately show "m \<in> set (scan_markers T kinds)"
      using p(3) by (auto simp: scan_markers_def scan_marker_entries_def map_filter_set)
  qed
  then show ?thesis by blast
qed

lemma map_filter_distinct:
  assumes "distinct xs" and "\<And>x y z. f x = Some z \<Longrightarrow> f y = Some z \<Longrightarrow> x = y"
  shows "distinct (List.map_filter f xs)"
  using assms(1)
proof (induction xs)
  case (Cons x xs)
  then show ?case
    using assms(2) by (cases "f x") (auto simp: List.map_filter_simps map_filter_set)
qed (simp add: List.map_filter_simps)

lemma marker_from_path_inj: "marker_from_path p = Inr m \<Longrightarrow> marker_from_path q = Inr m \<Longrightarrow> p = q"
  using marker_from_path_wf by blast

text \<open>The current markers of one job.\<close>

definition current_markers :: "state_tree \<Rightarrow> string \<Rightarrow> marker list" where
  "current_markers T i = filter (\<lambda>m. job_id m = i) (scan_markers T CORE_STATE_KINDS)"

lemma current_markers_set:
  "m \<in> set (current_markers T i) \<longleftrightarrow>
     (\<exists>p\<in>set T. marker_from_path p = Inr m \<and> kind m \<in> set CORE_STATE_KINDS \<and> job_id m = i)"
  by (auto simp: current_markers_def scan_markers_set)

lemma active_core: "set ACTIVE_STATE_KINDS \<subseteq> set CORE_STATE_KINDS"
  by (auto simp: ACTIVE_STATE_KINDS_def)

section \<open>The invariant of the cache\<close>

text \<open>
  The cache holds one entry per job, only for active kinds, and at most as many as its
  capacity allows.
\<close>

definition wf_index :: "nat \<Rightarrow> marker_index \<Rightarrow> bool" where
  "wf_index n idx \<longleftrightarrow>
     distinct (map fst idx) \<and> length idx \<le> n \<and>
     list_all (\<lambda>p. ie_kind (snd p) \<in> set ACTIVE_STATE_KINDS) idx"

definition index_inv :: "index_state \<Rightarrow> bool" where
  "index_inv st =
     (case marker_index st of None \<Rightarrow> True | Some idx \<Rightarrow> wf_index (marker_index_capacity st) idx)"

lemma wf_index_pop: "wf_index n idx \<Longrightarrow> wf_index n (index_pop i idx)"
  using le_trans [OF length_filter_le [of "\<lambda>p. fst p \<noteq> i" idx]]
  by (auto simp: wf_index_def index_pop_def distinct_map_filter list_all_iff)

lemma wf_index_put_trim:
  assumes "wf_index n idx" and "ie_kind e \<in> set ACTIVE_STATE_KINDS"
  shows "wf_index n (trim_index n (index_put i e idx))"
proof -
  have "distinct (map fst (index_put i e idx))"
    using assms(1) by (auto simp: index_put_def index_pop_def wf_index_def distinct_map_filter)
  then have "distinct (map fst (drop k (index_put i e idx)))" for k
    by (metis distinct_drop drop_map)
  moreover have "list_all (\<lambda>p. ie_kind (snd p) \<in> set ACTIVE_STATE_KINDS) (index_put i e idx)"
    using assms by (auto simp: index_put_def index_pop_def wf_index_def list_all_iff)
  ultimately show ?thesis
    by (auto simp: wf_index_def trim_index_def list_all_iff dest: in_set_dropD)
qed

lemma wf_index_put:
  assumes "wf_index n idx" and "map_of idx i = Some e"
  shows "wf_index n (index_put i e idx)"
proof -
  have mem: "(i, e) \<in> set idx" using assms(2) by (rule map_of_SomeD)
  have "length (index_pop i idx) < length idx"
    unfolding index_pop_def by (rule length_filter_less [OF mem]) simp
  then show ?thesis
    using assms(1) mem wf_index_pop [OF assms(1), of i]
    by (force simp: wf_index_def index_put_def index_pop_def list_all_iff)
qed

lemma index_note_inv: "index_inv st \<Longrightarrow> index_inv (index_note m st)"
  using wf_index_pop wf_index_put_trim
  by (auto simp: index_inv_def index_note_def entry_of_def split: option.splits)

lemma index_forget_inv: "index_inv st \<Longrightarrow> index_inv (index_forget i st)"
  using wf_index_pop by (auto simp: index_inv_def index_forget_def split: option.splits)

lemma rebuild_fold_index:
  "distinct (map fst idx) \<Longrightarrow> list_all (\<lambda>p. ie_kind (snd p) \<in> set ACTIVE_STATE_KINDS) idx \<Longrightarrow>
     foldl (rebuild_step w) (idx, dups, seen, fnd) ms = (idx', dups', seen', fnd') \<Longrightarrow>
     distinct (map fst idx') \<and> list_all (\<lambda>p. ie_kind (snd p) \<in> set ACTIVE_STATE_KINDS) idx'"
proof (induction ms arbitrary: idx dups seen fnd)
  case (Cons m ms)
  obtain idx1 dups1 seen1 fnd1 where s: "rebuild_step w (idx, dups, seen, fnd) m = (idx1, dups1, seen1, fnd1)"
    by (cases "rebuild_step w (idx, dups, seen, fnd) m") auto
  have keys: "map fst (map (\<lambda>(i, e). if i = j then (i, f) else (i, e)) idx) = map fst idx" for j f
    by (induction idx) auto
  have idx1: "idx1 = (if kind m \<in> set ACTIVE_STATE_KINDS
      then (if job_id m \<in> fst ` set idx
            then map (\<lambda>(i, e). if i = job_id m then (i, entry_of m) else (i, e)) idx
            else idx @ [(job_id m, entry_of m)]) else idx)"
    using s by (simp add: rebuild_step_def)
  have "distinct (map fst idx1)"
    unfolding idx1 using Cons.prems(1) by (simp only: keys split: if_split) simp
  moreover have "list_all (\<lambda>p. ie_kind (snd p) \<in> set ACTIVE_STATE_KINDS) idx1"
    unfolding idx1 using Cons.prems(2)
    by (auto simp: list_all_iff entry_of_def split: prod.splits if_splits)
  ultimately show ?case using Cons.IH Cons.prems(3) s by simp
qed simp

lemma rebuild_fold_lookup:
  "foldl (rebuild_step (Some i)) (idx, dups, seen, fnd) ms = (idx', dups', seen', fnd') \<Longrightarrow>
     (i \<in> set dups' \<longleftrightarrow> i \<in> set dups \<or> (i \<in> set seen \<and> filter (\<lambda>m. job_id m = i) ms \<noteq> []) \<or>
        2 \<le> length (filter (\<lambda>m. job_id m = i) ms)) \<and>
     fnd' = (if filter (\<lambda>m. job_id m = i) ms = [] then fnd
             else Some (last (filter (\<lambda>m. job_id m = i) ms)))"
proof (induction ms arbitrary: idx dups seen fnd)
  case (Cons m ms)
  let ?f = "filter (\<lambda>m. job_id m = i)"
  obtain idx1 dups1 seen1 fnd1 where s: "rebuild_step (Some i) (idx, dups, seen, fnd) m = (idx1, dups1, seen1, fnd1)"
    by (cases "rebuild_step (Some i) (idx, dups, seen, fnd) m") auto
  have r: "dups1 = (if job_id m \<in> set seen then List.insert (job_id m) dups else dups)"
    "seen1 = List.insert (job_id m) seen" "fnd1 = (if i = job_id m then Some m else fnd)"
    using s by (auto simp: rebuild_step_def)
  have IH: "(i \<in> set dups' \<longleftrightarrow> i \<in> set dups1 \<or> (i \<in> set seen1 \<and> ?f ms \<noteq> []) \<or> 2 \<le> length (?f ms)) \<and>
     fnd' = (if ?f ms = [] then fnd1 else Some (last (?f ms)))"
    using Cons.prems s by (intro Cons.IH) simp
  show ?case
  proof (cases "job_id m = i")
    case True
    have "2 \<le> length (?f (m # ms)) \<longleftrightarrow> ?f ms \<noteq> []" using True by (cases "?f ms") auto
    with True IH show ?thesis by (auto simp: r)
  next
    case False
    with IH show ?thesis by (auto simp: r)
  qed
qed simp

lemma find_by_scan_correct:
  assumes "find_by_scan T i st = (r, st')"
  shows "index_inv st' \<and>
    r = (case current_markers T i of [] \<Rightarrow> Inr None | [m] \<Rightarrow> Inr (Some m) | _ \<Rightarrow> Inl WorkspaceCorruptionError)"
proof -
  obtain idx dups seen fnd where f:
    "foldl (rebuild_step (Some i)) ([], [], [], None) (scan_markers T CORE_STATE_KINDS) = (idx, dups, seen, fnd)"
    by (cases "foldl (rebuild_step (Some i)) ([], [], [], None) (scan_markers T CORE_STATE_KINDS)") auto
  let ?idx = "trim_index (marker_index_capacity st) idx"
  have st: "st' = st\<lparr>marker_index := Some ?idx, marker_duplicates := dups\<rparr>"
    and r: "r = (if i \<in> set dups then Inl WorkspaceCorruptionError else Inr fnd)"
    using assms f by (auto simp: find_by_scan_def rebuild_marker_index_def)
  have "distinct (map fst idx)" "list_all (\<lambda>p. ie_kind (snd p) \<in> set ACTIVE_STATE_KINDS) idx"
    using rebuild_fold_index [OF _ _ f] by auto
  then have "wf_index (marker_index_capacity st) ?idx"
    by (auto simp: wf_index_def trim_index_def list_all_iff distinct_drop simp flip: drop_map
        dest: in_set_dropD)
  moreover have "r = (case current_markers T i of [] \<Rightarrow> Inr None | [m] \<Rightarrow> Inr (Some m)
      | _ \<Rightarrow> Inl WorkspaceCorruptionError)"
    using rebuild_fold_lookup [OF f] r unfolding current_markers_def [symmetric]
    by (auto split: list.splits)
  ultimately show ?thesis by (simp add: index_inv_def st)
qed

section \<open>The ladder\<close>

lemma index_marker_current:
  assumes "index_marker T i e = Some m" and "ie_kind e \<in> set ACTIVE_STATE_KINDS"
  shows "m \<in> set (current_markers T i)"
proof -
  let ?p = "state_directory (ie_kind e) (ie_placement e) @ [ie_basename e]"
  have p: "?p \<in> set T" "marker_from_path ?p = Inr m" "job_id m = i"
    using assms(1) by (auto simp: index_marker_def Let_def split: if_splits sum.splits)
  have "kind_name (kind m) = kind_name (ie_kind e)"
    using marker_from_path_parts(2) [OF p(2)] by (simp add: state_directory_def)
  then show ?thesis
    using p assms(2) active_core by (auto simp: current_markers_set)
qed

lemma placement_matches_set:
  "m \<in> set (placement_matches T pl g) \<longleftrightarrow>
     (\<exists>p\<in>set T. marker_from_path p = Inr m \<and> kind m \<in> set CORE_STATE_KINDS \<and>
        placement m = pl \<and> glob_match g (last p))"
proof -
  have dir: "butlast p = state_directory k pl \<longleftrightarrow> kind m = k \<and> placement m = pl"
    if "marker_from_path p = Inr m" for p k
    using marker_from_path_parts(6) [OF that] by (auto simp: state_directory_def)
  have ne: "p \<noteq> []" if "marker_from_path p = Inr m" for p
    using marker_from_path_parts(4) [OF that] by auto
  have "m \<in> set (placement_matches T pl g) \<longleftrightarrow>
      (\<exists>k\<in>set CORE_STATE_KINDS. \<exists>p\<in>set T. p \<noteq> [] \<and> butlast p = state_directory k pl \<and>
         glob_match g (last p) \<and> marker_from_path p = Inr m)"
    by (auto simp: placement_matches_def map_filter_set found_read_entry)
  also have "\<dots> \<longleftrightarrow> (\<exists>p\<in>set T. marker_from_path p = Inr m \<and> kind m \<in> set CORE_STATE_KINDS \<and>
      placement m = pl \<and> glob_match g (last p))" (is "?L \<longleftrightarrow> ?R")
  proof
    assume ?R
    then obtain p where p: "p \<in> set T" "marker_from_path p = Inr m" "kind m \<in> set CORE_STATE_KINDS"
      "placement m = pl" "glob_match g (last p)" by blast
    then have "butlast p = state_directory (kind m) pl" "p \<noteq> []" using dir ne by blast+
    with p show ?L by blast
  next
    assume ?L
    then obtain k p where p: "k \<in> set CORE_STATE_KINDS" "p \<in> set T" "butlast p = state_directory k pl"
      "glob_match g (last p)" "marker_from_path p = Inr m" by blast
    then have "kind m = k \<and> placement m = pl" using dir [OF p(5), of k] by simp
    with p show ?R by blast
  qed
  finally show ?thesis .
qed

lemma placement_matches_distinct:
  assumes "distinct T"
  shows "distinct (placement_matches T pl g)"
proof -
  let ?ms = "\<lambda>k. List.map_filter (\<lambda>p. found (read_entry p))
    (filter (\<lambda>p. p \<noteq> [] \<and> butlast p = state_directory k pl \<and> glob_match g (last p)) T)"
  have d: "distinct (?ms k)" for k
    using assms by (intro map_filter_distinct) (auto simp: found_read_entry dest: marker_from_path_inj)
  have k: "kind m = k" if "m \<in> set (?ms k)" for m k
    using that marker_from_path_parts(6)
    by (fastforce simp: map_filter_set found_read_entry state_directory_def)
  have "distinct kinds \<Longrightarrow> distinct (concat (map ?ms kinds))" for kinds
  proof (induction kinds)
    case (Cons x xs)
    have "set (?ms x) \<inter> set (concat (map ?ms xs)) = {}"
      using Cons.prems by (auto dest!: k)
    with Cons d show ?case by simp
  qed simp
  moreover have "distinct CORE_STATE_KINDS" by code_simp
  ultimately show ?thesis unfolding placement_matches_def by blast
qed

lemma distinct_subset_shape:
  assumes "distinct xs" and "set xs \<subseteq> set ys"
  shows "(ys = [] \<longrightarrow> xs = []) \<and> (\<forall>m. ys = [m] \<longrightarrow> xs = [] \<or> xs = [m]) \<and>
     (2 \<le> length xs \<longrightarrow> 2 \<le> length ys)"
proof -
  have "length xs \<le> length ys"
    using assms by (metis card_length card_mono distinct_card finite_set le_trans)
  moreover have "xs = [] \<or> xs = [m]" if "ys = [m]" for m
  proof (cases xs)
    case (Cons x zs)
    with that calculation assms(2) show ?thesis by auto
  qed simp
  ultimately show ?thesis by auto
qed

lemma probe_matches:
  assumes "distinct T"
  defines "ms \<equiv> \<lambda>i pl. filter (\<lambda>m. job_id m = i) (placement_matches T pl (Star # marker_glob i))"
  shows "distinct (ms i pl) \<and> set (ms i pl) = {m \<in> set (current_markers T i). placement m = pl}"
proof -
  have "glob_match (Star # marker_glob i) (last p)"
    if m: "marker_from_path p = Inr m" and i: "job_id m = i" for m p
  proof -
    obtain prio gen ref t where l: "last p = job_key m @ ''.p'' @ prio @ ''.g'' @ gen @ ''.'' @ ref"
      "length prio = 3" "parse_job_key (job_key m) = Inr (t, job_id m)"
      using marker_from_path_parts(1,3) [OF m] by blast
    have "\<exists>a. job_key m = a @ i"
      using parse_job_key_Inr [OF l(3)] i by (cases t) (auto simp: make_job_key_def)
    then obtain a where "last p = a @ (i @ ''.p'' @ prio @ ''.g'' @ gen @ ''.'' @ ref)"
      using l(1) by auto
    with marker_glob_match [OF l(2)] show ?thesis by (simp only: glob_star)
  qed
  then show ?thesis
    using placement_matches_distinct [OF assms(1)]
    unfolding ms_def by (auto simp: placement_matches_set current_markers_set)
qed

lemma find_marker_by_id_cases:
  assumes "distinct T" and "index_inv st" and "find_marker_by_id T i st = (r, st')"
  shows "index_inv st' \<and>
    (current_markers T i = [] \<longrightarrow> r = Inr None) \<and>
    (\<forall>m. current_markers T i = [m] \<longrightarrow> r = Inr (Some m)) \<and>
    (2 \<le> length (current_markers T i) \<longrightarrow>
       r = Inl WorkspaceCorruptionError \<or> (\<exists>m\<in>set (current_markers T i). r = Inr (Some m)))"
proof -
  let ?ms = "current_markers T i"
  have scan: ?thesis if "find_by_scan T i st1 = (r, st')" for st1
    using find_by_scan_correct [OF that] by (auto split: list.splits)
  show ?thesis
  proof (cases "marker_index st")
    case None
    with assms(3) scan show ?thesis by (simp add: find_marker_by_id_def)
  next
    case (Some idx)
    show ?thesis
    proof (cases "map_of idx i")
      case None
      with assms(3) Some scan show ?thesis by (simp add: find_marker_by_id_def)
    next
      case e: (Some e)
      have wf: "wf_index (marker_index_capacity st) idx"
        using assms(2) Some by (simp add: index_inv_def)
      have act: "ie_kind e \<in> set ACTIVE_STATE_KINDS"
        using wf map_of_SomeD [OF e] by (force simp: wf_index_def list_all_iff)
      show ?thesis
      proof (cases "i \<in> set (marker_duplicates st)")
        case True
        with assms(3) Some e scan show ?thesis by (simp add: find_marker_by_id_def)
      next
        case nodup: False
        show ?thesis
        proof (cases "index_marker T i e")
          case hit: (Some m)
          with assms(3) Some e nodup
          have r: "r = Inr (Some m)" "st' = st\<lparr>marker_index := Some (index_put i e idx)\<rparr>"
            by (simp_all add: find_marker_by_id_def)
          have "m \<in> set ?ms" using index_marker_current [OF hit act] .
          moreover have "index_inv st'" using r wf_index_put [OF wf e] by (simp add: index_inv_def)
          ultimately show ?thesis using r by auto
        next
          case miss: None
          let ?st1 = "st\<lparr>marker_index := Some (index_pop i idx)\<rparr>"
          let ?ps = "filter (\<lambda>m. job_id m = i) (placement_matches T (ie_placement e) (Star # marker_glob i))"
          have inv1: "index_inv ?st1" using wf_index_pop [OF wf] by (simp add: index_inv_def)
          have ps: "distinct ?ps" "set ?ps \<subseteq> set ?ms"
            using probe_matches [OF assms(1), of i "ie_placement e"] by auto
          note sh = distinct_subset_shape [OF ps]
          consider "?ps = []" | m where "?ps = [m]" | "2 \<le> length ?ps"
            by (cases ?ps; cases "tl ?ps") auto
          then show ?thesis
          proof cases
            case 1
            then have "find_by_scan T i ?st1 = (r, st')"
              using assms(3) Some e nodup miss by (simp add: find_marker_by_id_def probe_placement_def)
            then show ?thesis by (rule scan)
          next
            case (2 m)
            then have "r = Inr (Some m)" "st' = index_note m ?st1"
              using assms(3) Some e nodup miss by (simp_all add: find_marker_by_id_def probe_placement_def)
            with 2 ps inv1 index_note_inv show ?thesis by auto
          next
            case 3
            then have "r = Inl WorkspaceCorruptionError" "st' = ?st1"
              using assms(3) Some e nodup miss
              by (auto simp: find_marker_by_id_def probe_placement_def split: list.splits)
            with 3 sh inv1 show ?thesis by auto
          qed
        qed
      qed
    qed
  qed
qed

section \<open>Properties\<close>


definition example_tree :: state_tree where
  "example_tree = [[''ready'', ''proj'', example_id @ ''.p042.g1z.init''],
     [''running'', ''proj'', ''notes.txt'']]"

definition example_index :: index_state where
  "example_index =
     \<lparr>marker_index = Some [(example_id, \<lparr>ie_kind = Submitted, ie_placement = [''proj''],
         ie_basename = example_id @ ''.p042.g0.init''\<rparr>)],
      marker_duplicates = [], marker_index_capacity = 4\<rparr>"


end
