(* ===== verification/Sha256.thy ===== *)
theory Sha256
  imports Json "HOL-Library.Word"
begin

text \<open>
  SHA-256 (\<open>hashlib.sha256\<close>) over byte strings: the digest that pins job documents and
  protects every journal frame. Words are 32 bit machine words, additions wrap around.
\<close>

unbundle bit_operations_syntax

type_synonym w32 = "32 word"

section \<open>Padding\<close>

definition byte_char :: "nat \<Rightarrow> char" where
  "byte_char n = char_of n"

text \<open>Big-endian bytes of a number in a fixed width.\<close>

fun be_bytes :: "nat \<Rightarrow> nat \<Rightarrow> string" where
  "be_bytes 0 n = []"
| "be_bytes (Suc k) n = be_bytes k (n div 256) @ [byte_char (n mod 256)]"

definition be_value :: "string \<Rightarrow> nat" where
  "be_value s = radix_value 256 (map of_char s)"

definition sha_pad :: "string \<Rightarrow> string" where
  "sha_pad m =
     m @ byte_char 128 # replicate ((119 - length m mod 64) mod 64) (byte_char 0)
     @ be_bytes 8 (8 * length m)"

fun chunks :: "nat \<Rightarrow> 'a list \<Rightarrow> 'a list list" where
  "chunks k xs = (if k = 0 \<or> xs = [] then [] else take k xs # chunks k (drop k xs))"

declare chunks.simps [simp del]

section \<open>Compression\<close>

definition ror :: "nat \<Rightarrow> w32 \<Rightarrow> w32" where
  "ror n x = drop_bit n x OR push_bit (32 - n) x"

definition small0 :: "w32 \<Rightarrow> w32" where
  "small0 x = ror 7 x XOR ror 18 x XOR drop_bit 3 x"

definition small1 :: "w32 \<Rightarrow> w32" where
  "small1 x = ror 17 x XOR ror 19 x XOR drop_bit 10 x"

definition big0 :: "w32 \<Rightarrow> w32" where
  "big0 x = ror 2 x XOR ror 13 x XOR ror 22 x"

definition big1 :: "w32 \<Rightarrow> w32" where
  "big1 x = ror 6 x XOR ror 11 x XOR ror 25 x"

fun schedule :: "nat \<Rightarrow> w32 list \<Rightarrow> w32 list" where
  "schedule 0 ws = ws"
| "schedule (Suc n) ws =
     (let k = length ws
      in schedule n (ws @ [small1 (ws ! (k - 2)) + ws ! (k - 7) + small0 (ws ! (k - 15)) + ws ! (k - 16)]))"

definition sha_constants :: "w32 list" where
  "sha_constants =
    [
     1116352408, 1899447441, 3049323471, 3921009573, 961987163, 1508970993,
     2453635748, 2870763221, 3624381080, 310598401, 607225278, 1426881987,
     1925078388, 2162078206, 2614888103, 3248222580, 3835390401, 4022224774,
     264347078, 604807628, 770255983, 1249150122, 1555081692, 1996064986,
     2554220882, 2821834349, 2952996808, 3210313671, 3336571891, 3584528711,
     113926993, 338241895, 666307205, 773529912, 1294757372, 1396182291,
     1695183700, 1986661051, 2177026350, 2456956037, 2730485921, 2820302411,
     3259730800, 3345764771, 3516065817, 3600352804, 4094571909, 275423344,
     430227734, 506948616, 659060556, 883997877, 958139571, 1322822218,
     1537002063, 1747873779, 1955562222, 2024104815, 2227730452, 2361852424,
     2428436474, 2756734187, 3204031479, 3329325298
    ]"

definition sha_initial :: "w32 list" where
  "sha_initial =
    [
     1779033703, 3144134277, 1013904242, 2773480762, 1359893119, 2600822924,
     528734635, 1541459225
    ]"

fun sha_rounds :: "(w32 \<times> w32) list \<Rightarrow> w32 list \<Rightarrow> w32 list" where
  "sha_rounds ((k, w) # rest) [a, b, c, d, e, f, g, h] =
     (let t1 = h + big1 e + ((e AND f) XOR (NOT e AND g)) + k + w;
          t2 = big0 a + ((a AND b) XOR (a AND c) XOR (b AND c))
      in sha_rounds rest [t1 + t2, a, b, c, d + t1, e, f, g])"
| "sha_rounds _ st = st"

definition sha_block :: "w32 list \<Rightarrow> string \<Rightarrow> w32 list" where
  "sha_block st block =
     (let ws = schedule 48 (map (\<lambda>b. of_nat (be_value b)) (chunks 4 block))
      in map2 (+) st (sha_rounds (zip sha_constants ws) st))"

definition sha256 :: "string \<Rightarrow> string" where
  "sha256 m =
     concat (map (\<lambda>w. be_bytes 4 (unat w)) (foldl sha_block sha_initial (chunks 64 (sha_pad m))))"

text \<open>Lower-case hexadecimal text of bytes.\<close>

definition hex_text :: "string \<Rightarrow> string" where
  "hex_text s = concat (map (\<lambda>c. [hex_chars ! (of_char c div 16), hex_chars ! (of_char c mod 16)]) s)"

section \<open>Lengths\<close>

lemma be_bytes_length [simp]: "length (be_bytes k n) = k"
  by (induction k arbitrary: n) auto

lemma sha_rounds_length [simp]: "length (sha_rounds kws st) = length st"
  by (induction kws st rule: sha_rounds.induct) (auto simp: Let_def)

lemma sha_block_length [simp]: "length (sha_block st b) = length st"
  by (simp add: sha_block_def Let_def)

lemma foldl_sha_block_length [simp]: "length (foldl sha_block st bs) = length st"
  by (induction bs arbitrary: st) auto

lemma concat_be_bytes_length: "length (concat (map (\<lambda>w. be_bytes k (f w)) ws)) = k * length ws"
  by (induction ws) auto

lemma sha256_length [simp]: "length (sha256 m) = 32"
  by (simp add: sha256_def concat_be_bytes_length sha_initial_def)

lemma hex_text_length [simp]: "length (hex_text s) = 2 * length s"
  by (induction s) (auto simp: hex_text_def)

lemma hex_text_all_in: "all_in hex_chars (hex_text s)"
proof (induction s)
  case (Cons c s)
  have l: "length hex_chars = 16" by (simp add: hex_chars_def)
  have "(of_char c div 16 :: nat) < 16"
    using nat_of_char_less_256 [of c] by (simp add: less_mult_imp_div_less)
  then have "hex_chars ! (of_char c div 16) \<in> set hex_chars" "hex_chars ! (of_char c mod 16) \<in> set hex_chars"
    using l by (auto intro!: nth_mem)
  with Cons show ?case by (simp add: hex_text_def)
qed (simp add: hex_text_def)

text \<open>Fixed-width big-endian numbers round trip.\<close>

lemma of_char_byte_char: "n < 256 \<Longrightarrow> of_char (byte_char n) = n"
  by (simp add: byte_char_def)

lemma be_value_bytes: "n < 256 ^ k \<Longrightarrow> be_value (be_bytes k n) = n"
proof (induction k arbitrary: n)
  case (Suc k)
  have "n div 256 < 256 ^ k" using Suc.prems by (simp add: less_mult_imp_div_less mult.commute)
  with Suc.IH have "be_value (be_bytes k (n div 256)) = n div 256" .
  then show ?case by (simp add: be_value_def of_char_byte_char)
qed (simp add: be_value_def)

end
