(* ===== verification/Json_Parser.thy ===== *)
theory Json_Parser
  imports Json
begin

text \<open>
  \<open>json.loads\<close> on UTF-8 text, as the journal and the document readers use it: strict
  strings, Python's number grammar, the literals \<open>NaN\<close>, \<open>Infinity\<close> and \<open>-Infinity\<close>, the last
  value of a repeated key, no trailing data. \<open>None\<close> is \<open>JSONDecodeError\<close>. The recursion has
  fuel; every nested call consumes a character, so twice the length of the text is enough.
\<close>

section \<open>Lexical parts\<close>

fun skip_ws :: "string \<Rightarrow> string" where
  "skip_ws [] = []"
| "skip_ws (c # s) =
     (if c \<in> {CHR 0x20, CHR 0x09, CHR 0x0A, CHR 0x0D} then skip_ws s else c # s)"

definition is_digit :: "char \<Rightarrow> bool" where
  "is_digit c = (c \<in> set digit_chars)"

definition hex_any :: string where
  "hex_any = ''0123456789abcdefABCDEF''"

definition hex_value :: "char \<Rightarrow> nat" where
  "hex_value c = (let i = index_of c hex_any in if i < 16 then i else i - 6)"

definition parse_hex4 :: "string \<Rightarrow> (nat \<times> string) option" where
  "parse_hex4 s =
     (if length s \<ge> 4 \<and> all_in hex_any (take 4 s)
      then Some (radix_value 16 (map hex_value (take 4 s)), drop 4 s) else None)"

definition utf8 :: "nat \<Rightarrow> string" where
  "utf8 n =
     (if n < 128 then [char_of n]
      else if n < 2048 then [char_of (192 + n div 64), char_of (128 + n mod 64)]
      else if n < 65536 then
        [char_of (224 + n div 4096), char_of (128 + n div 64 mod 64), char_of (128 + n mod 64)]
      else [char_of (240 + n div 262144), char_of (128 + n div 4096 mod 64),
            char_of (128 + n div 64 mod 64), char_of (128 + n mod 64)])"

text \<open>An escape after the backslash: the characters it denotes and the rest of the text.\<close>

definition parse_unicode :: "string \<Rightarrow> (string \<times> string) option" where
  "parse_unicode s =
     (case parse_hex4 s of
        None \<Rightarrow> None
      | Some (u, r) \<Rightarrow>
          if 55296 \<le> u \<and> u \<le> 56319 \<and> take 2 r = [CHR 0x5C, CHR ''u''] then
            (case parse_hex4 (drop 2 r) of
               None \<Rightarrow> None
             | Some (v, r') \<Rightarrow>
                 if 56320 \<le> v \<and> v \<le> 57343
                 then Some (utf8 (65536 + (u - 55296) * 1024 + (v - 56320)), r')
                 else Some (utf8 u, r))
          else Some (utf8 u, r))"

definition parse_escape :: "string \<Rightarrow> (string \<times> string) option" where
  "parse_escape s =
     (case s of
        [] \<Rightarrow> None
      | c # r \<Rightarrow>
          if c = CHR 0x22 \<or> c = CHR 0x5C \<or> c = CHR ''/'' then Some ([c], r)
          else if c = CHR ''b'' then Some ([CHR 0x08], r)
          else if c = CHR ''f'' then Some ([CHR 0x0C], r)
          else if c = CHR ''n'' then Some ([CHR 0x0A], r)
          else if c = CHR ''r'' then Some ([CHR 0x0D], r)
          else if c = CHR ''t'' then Some ([CHR 0x09], r)
          else if c = CHR ''u'' then parse_unicode r
          else None)"

fun parse_string :: "nat \<Rightarrow> string \<Rightarrow> (string \<times> string) option" where
  "parse_string fuel s =
     (case fuel of
        0 \<Rightarrow> None
      | Suc f \<Rightarrow>
          (case s of
             [] \<Rightarrow> None
           | c # r \<Rightarrow>
               if c = CHR 0x22 then Some ([], r)
               else if c = CHR 0x5C then
                 (case parse_escape r of
                    None \<Rightarrow> None
                  | Some (cs, r') \<Rightarrow> map_option (\<lambda>(t, r''). (cs @ t, r'')) (parse_string f r'))
               else if of_char c < (32::nat) then None
               else map_option (\<lambda>(t, r'). (c # t, r')) (parse_string f r)))"

declare parse_string.simps [simp del]

section \<open>Numbers\<close>

definition decimal_value :: "string \<Rightarrow> nat" where
  "decimal_value s = radix_value 10 (text_digits digit_chars s)"

definition int_part :: "string \<Rightarrow> (string \<times> string) option" where
  "int_part s =
     (case s of
        [] \<Rightarrow> None
      | c # r \<Rightarrow>
          if c = CHR ''0'' then Some ([c], r)
          else if is_digit c then Some (takeWhile is_digit s, dropWhile is_digit s) else None)"

definition frac_part :: "string \<Rightarrow> string \<times> string" where
  "frac_part s =
     (case s of
        c # d # r \<Rightarrow>
          if c = CHR ''.'' \<and> is_digit d
          then (takeWhile is_digit (d # r), dropWhile is_digit (d # r)) else ([], s)
      | _ \<Rightarrow> ([], s))"

definition exp_part :: "string \<Rightarrow> int option \<times> string" where
  "exp_part s =
     (case s of
        c # r \<Rightarrow>
          if c = CHR ''e'' \<or> c = CHR ''E'' then
            (let (sgn, r') = (case r of
                 x # y \<Rightarrow> if x = CHR ''-'' then (- 1, y) else if x = CHR ''+'' then (1, y) else (1, r)
               | [] \<Rightarrow> (1, r));
                 ds = takeWhile is_digit r'
             in if ds = [] then (None, s)
                else (Some (sgn * int (decimal_value ds)), dropWhile is_digit r'))
          else (None, s)
      | [] \<Rightarrow> (None, s))"

definition float_literal :: "bool \<Rightarrow> nat \<Rightarrow> int \<Rightarrow> pyfloat" where
  "float_literal neg m e =
     (if m = 0 then Fin 0
      else let v = dec_value m e; r = round_double (fst v) (snd v);
               q = of_int (int (fst r)) / of_int (int (snd r))
           in if q \<ge> 2 ^ 1024 then Inf (\<not> neg) else Fin (if neg then - q else q))"

definition parse_number :: "string \<Rightarrow> (json \<times> string) option" where
  "parse_number s =
     (let neg = starts_with ''-'' s; s1 = (if neg then drop 1 s else s)
      in case int_part s1 of
           None \<Rightarrow> None
         | Some (ds, r) \<Rightarrow>
             (case (frac_part r) of (fs, r') \<Rightarrow>
                (case exp_part r' of (ex, r'') \<Rightarrow>
                   if fs = [] \<and> ex = None then
                     Some (JInt (if neg then - int (decimal_value ds) else int (decimal_value ds)), r)
                   else
                     Some (JFloat (float_literal neg (decimal_value (ds @ fs))
                       ((case ex of None \<Rightarrow> 0 | Some e \<Rightarrow> e) - int (length fs))), r''))))"

section \<open>Values\<close>

fun parse_value :: "nat \<Rightarrow> string \<Rightarrow> (json \<times> string) option"
and parse_elems :: "nat \<Rightarrow> string \<Rightarrow> (json list \<times> string) option"
and parse_members :: "nat \<Rightarrow> string \<Rightarrow> ((string \<times> json) list \<times> string) option" where
  "parse_value fuel s =
     (case fuel of 0 \<Rightarrow> None | Suc f \<Rightarrow>
     (case s of
        [] \<Rightarrow> None
      | c # r \<Rightarrow>
          if c = CHR 0x22 then map_option (\<lambda>(t, r'). (JStr t, r')) (parse_string (length s) r)
          else if c = CHR ''['' then
            (if starts_with '']'' (skip_ws r) then Some (JArr [], drop 1 (skip_ws r))
             else map_option (\<lambda>(xs, r'). (JArr xs, r')) (parse_elems f (skip_ws r)))
          else if c = CHR ''{'' then
            (if starts_with ''}'' (skip_ws r) then Some (JObj [], drop 1 (skip_ws r))
             else map_option (\<lambda>(m, r'). (JObj (dict_update [] m), r')) (parse_members f (skip_ws r)))
          else if starts_with ''null'' s then Some (JNull, drop 4 s)
          else if starts_with ''true'' s then Some (JBool True, drop 4 s)
          else if starts_with ''false'' s then Some (JBool False, drop 5 s)
          else if starts_with ''NaN'' s then Some (JFloat NaN, drop 3 s)
          else if starts_with ''Infinity'' s then Some (JFloat (Inf True), drop 8 s)
          else if starts_with ''-Infinity'' s then Some (JFloat (Inf False), drop 9 s)
          else parse_number s))"
| "parse_elems fuel s =
     (case fuel of 0 \<Rightarrow> None | Suc f \<Rightarrow>
     (case parse_value f s of
        None \<Rightarrow> None
      | Some (v, r) \<Rightarrow>
          (case skip_ws r of
             c # r' \<Rightarrow>
               if c = CHR '','' then
                 map_option (\<lambda>(vs, r''). (v # vs, r'')) (parse_elems f (skip_ws r'))
               else if c = CHR '']'' then Some ([v], r') else None
           | [] \<Rightarrow> None)))"
| "parse_members fuel s =
     (case fuel of 0 \<Rightarrow> None | Suc f \<Rightarrow>
     (case s of
        c # r \<Rightarrow>
          if c \<noteq> CHR 0x22 then None
          else (case parse_string (length s) r of
                  None \<Rightarrow> None
                | Some (k, r1) \<Rightarrow>
                    (case skip_ws r1 of
                       c1 # r2 \<Rightarrow>
                         if c1 \<noteq> CHR '':'' then None
                         else (case parse_value f (skip_ws r2) of
                                 None \<Rightarrow> None
                               | Some (v, r3) \<Rightarrow>
                                   (case skip_ws r3 of
                                      c2 # r4 \<Rightarrow>
                                        if c2 = CHR '','' then
                                          map_option (\<lambda>(m, r5). ((k, v) # m, r5))
                                            (parse_members f (skip_ws r4))
                                        else if c2 = CHR ''}'' then Some ([(k, v)], r4) else None
                                    | [] \<Rightarrow> None))
                     | [] \<Rightarrow> None))
      | [] \<Rightarrow> None))"

declare parse_value.simps [simp del] parse_elems.simps [simp del] parse_members.simps [simp del]

definition json_loads :: "string \<Rightarrow> json option" where
  "json_loads s =
     (case parse_value (2 * length s + 2) (skip_ws s) of
        None \<Rightarrow> None
      | Some (v, r) \<Rightarrow> if skip_ws r = [] then Some v else None)"

section \<open>Decoding bytes\<close>

text \<open>
  Well-formed UTF-8. \<open>bytes.decode\<close> refuses encoded surrogates; \<open>json.loads\<close> on bytes
  decodes with \<open>surrogatepass\<close> and accepts them.
\<close>

definition cont_byte :: "char \<Rightarrow> bool" where
  "cont_byte c \<longleftrightarrow> 128 \<le> (of_char c :: nat) \<and> (of_char c :: nat) < 192"

fun utf8_valid :: "bool \<Rightarrow> string \<Rightarrow> bool" where
  "utf8_valid sp [] = True"
| "utf8_valid sp (a # s) =
     (let x = of_char a :: nat
      in if x < 128 then utf8_valid sp s
         else if 194 \<le> x \<and> x < 224 then
           (case s of b # r \<Rightarrow> cont_byte b \<and> utf8_valid sp r | _ \<Rightarrow> False)
         else if 224 \<le> x \<and> x < 240 then
           (case s of
              b # c # r \<Rightarrow>
                cont_byte b \<and> cont_byte c \<and> (x = 224 \<longrightarrow> 160 \<le> (of_char b :: nat)) \<and>
                (x = 237 \<and> \<not> sp \<longrightarrow> (of_char b :: nat) < 160) \<and> utf8_valid sp r
            | _ \<Rightarrow> False)
         else if 240 \<le> x \<and> x < 245 then
           (case s of
              b # c # d # r \<Rightarrow>
                cont_byte b \<and> cont_byte c \<and> cont_byte d \<and>
                (x = 240 \<longrightarrow> 144 \<le> (of_char b :: nat)) \<and> (x = 244 \<longrightarrow> (of_char b :: nat) < 144) \<and>
                utf8_valid sp r
            | _ \<Rightarrow> False)
         else False)"

text \<open>
  A document without byte order mark, in UTF-8. (\<open>json.loads\<close> on bytes also recognises
  UTF-16 and UTF-32, which no writer of the protocol produces and the model refuses.)
\<close>

definition json_decode :: "bool \<Rightarrow> string \<Rightarrow> json option" where
  "json_decode sp data = (if utf8_valid sp data then json_loads data else None)"

end
