(* ===== verification/Json_Roundtrip.thy ===== *)
theory Json_Roundtrip
  imports Json_Parser
begin

text \<open>
  What \<open>json_bytes\<close> writes, \<open>json.loads\<close> reads back: the value with the members of every
  object in key order. This is what lets a journal record be read as it was appended.
\<close>

section \<open>Strings\<close>

lemma parse_string_Suc:
  "parse_string (Suc f) (c # r) =
     (if c = CHR 0x22 then Some ([], r)
      else if c = CHR 0x5C then
        (case parse_escape r of
           None \<Rightarrow> None
         | Some (cs, r') \<Rightarrow> map_option (\<lambda>(t, r''). (cs @ t, r'')) (parse_string f r'))
      else if of_char c < (32::nat) then None
      else map_option (\<lambda>(t, r'). (c # t, r')) (parse_string f r))"
  by (simp add: parse_string.simps)

definition control_text :: "nat \<Rightarrow> string" where
  "control_text n = ''00'' @ [hex_chars ! (n div 16), hex_chars ! (n mod 16)]"

lemma control_texts:
  "list_all (\<lambda>n. all_in hex_any (control_text n) \<and>
     radix_value 16 (map hex_value (control_text n)) = n) [0..<32]"
  by code_simp

lemma parse_unicode_control:
  assumes "n < 32"
  shows "parse_unicode (control_text n @ r) = Some ([char_of n], r)"
proof -
  have n: "all_in hex_any (control_text n)" "radix_value 16 (map hex_value (control_text n)) = n"
    using control_texts assms by (auto simp: list_all_iff)
  have "length (control_text n) = 4" by (simp add: control_text_def)
  then have "parse_hex4 (control_text n @ r) = Some (n, r)"
    using n by (simp add: parse_hex4_def)
  then show ?thesis
    using assms by (simp add: parse_unicode_def utf8_def)
qed

lemma parse_string_escape_char:
  "parse_string (Suc f) (escape_char c @ r) = map_option (\<lambda>(t, r'). (c # t, r')) (parse_string f r)"
proof (cases "c \<in> {CHR 0x22, CHR 0x5C, CHR 0x0A, CHR 0x0D, CHR 0x09, CHR 0x0C, CHR 0x08}")
  case True
  then show ?thesis
    by (elim insertE emptyE; simp add: escape_char_def parse_string_Suc parse_escape_def)
next
  case plain: False
  show ?thesis
  proof (cases "of_char c < (32::nat)")
    case True
    with plain have "escape_char c @ r = CHR 0x5C # CHR ''u'' # control_text (of_char c) @ r"
      by (simp add: escape_char_def control_text_def)
    then show ?thesis
      using True parse_unicode_control [of "of_char c" r]
      by (simp add: parse_string_Suc parse_escape_def)
  next
    case False
    with plain show ?thesis by (simp add: escape_char_def parse_string_Suc)
  qed
qed

lemma parse_json_string:
  assumes "length s < f"
  shows "parse_string f (concat (map escape_char s) @ CHR 0x22 # r) = Some (s, r)"
  using assms
proof (induction s arbitrary: f)
  case Nil
  then show ?case by (cases f) (simp_all add: parse_string_Suc)
next
  case (Cons c s)
  then show ?case by (cases f) (simp_all add: parse_string_escape_char)
qed

lemma escape_char_ne [simp]: "escape_char c \<noteq> []"
  by (simp add: escape_char_def)

lemma escaped_length: "length s \<le> length (concat (map escape_char s))"
proof (induction s)
  case (Cons c s)
  have "1 \<le> length (escape_char c)" by (cases "escape_char c") (use escape_char_ne in auto)
  with Cons show ?case by simp
qed simp

lemma parse_string_printed:
  "parse_string (length (json_string s @ r)) (tl (json_string s) @ r) = Some (s, r)"
  using escaped_length [of s] parse_json_string [of s "length (json_string s @ r)" r]
  by (simp add: json_string_def)

section \<open>Numbers\<close>

text \<open>A printed number is followed by the end of the text or by one of these characters.\<close>

definition stops :: "string \<Rightarrow> bool" where
  "stops r \<longleftrightarrow> r = [] \<or> hd r \<in> {CHR '','', CHR '']'', CHR ''}''}"

lemma is_digit_all: "all_in digit_chars s \<longleftrightarrow> list_all is_digit s"
  by (simp add: all_in_def is_digit_def [abs_def])

lemma stops_not_digit: "stops (c # r) \<Longrightarrow> \<not> is_digit c \<and> c \<noteq> CHR ''.'' \<and> c \<noteq> CHR ''e'' \<and> c \<noteq> CHR ''E''"
  by (auto simp: stops_def is_digit_def digit_chars_def)

lemma take_digits:
  assumes "list_all is_digit ds" and "r = [] \<or> \<not> is_digit (hd r)"
  shows "takeWhile is_digit (ds @ r) = ds" "dropWhile is_digit (ds @ r) = r"
proof -
  have "takeWhile is_digit r = []" "dropWhile is_digit r = r"
    using assms(2) by (cases r; simp)+
  then show "takeWhile is_digit (ds @ r) = ds" "dropWhile is_digit (ds @ r) = r"
    using assms(1) by (simp_all add: list_all_iff)
qed

lemma zero_digit: "CHR ''0'' \<in> set digit_chars" "digit_chars ! 0 = CHR ''0''"
  by (simp_all add: digit_chars_def)

lemma nat_text_digits: "all_in digit_chars (nat_text n)" "nat_text n \<noteq> []"
  and nat_text_head: "hd (nat_text n) = CHR ''0'' \<Longrightarrow> n = 0"
  and nat_text_value: "decimal_value (nat_text n) = n"
proof -
  let ?ds = "radix_loop 10 n []"
  have b: "d < length digit_chars" if "d \<in> set ?ds" for d
    using radix_loop_bounded [of 10 d n] that by simp
  show "all_in digit_chars (nat_text n)"
    using digits_text_all_in [of ?ds digit_chars] b zero_digit by (simp add: nat_text_def)
  show "nat_text n \<noteq> []"
    using radix_loop_ne [of n 10] by (auto simp: nat_text_def digits_text_def)
  show "n = 0" if h: "hd (nat_text n) = CHR ''0''"
  proof (rule ccontr)
    assume n: "n \<noteq> 0"
    then have ne: "?ds \<noteq> []" and hd: "hd ?ds \<noteq> 0"
      using radix_loop_ne [of n 10] radix_loop_hd [of n 10] by simp_all
    then have "digit_chars ! hd ?ds \<noteq> digit_chars ! 0"
      using b [of "hd ?ds"] by (simp add: nth_eq_iff_index_eq)
    then show False
      using h n ne zero_digit(2) by (simp add: nat_text_def digits_text_def list.map_sel)
  qed
  show "decimal_value (nat_text n) = n"
  proof (cases "n = 0")
    case False
    then show ?thesis
      using b by (simp add: decimal_value_def nat_text_def radix_value_loop)
  qed (simp add: decimal_value_def nat_text_def text_digits_def digit_chars_def radix_value_def)
qed

lemma int_part_printed:
  assumes "r = [] \<or> \<not> is_digit (hd r)"
  shows "int_part (nat_text n @ r) = Some (nat_text n, r)"
proof (cases "n = 0")
  case False
  obtain c cs where t: "nat_text n = c # cs" using nat_text_digits(2) by (cases "nat_text n") auto
  then have "c \<noteq> CHR ''0''" using nat_text_head [of n] False by auto
  moreover have "list_all is_digit (c # cs)"
    using nat_text_digits(1) [of n] t by (simp only: is_digit_all)
  ultimately show ?thesis
    using take_digits [of "c # cs" r] assms by (simp add: int_part_def t)
qed (simp add: int_part_def nat_text_def)

lemma no_fraction: "stops r \<Longrightarrow> frac_part r = ([], r)"
  by (auto simp: frac_part_def dest: stops_not_digit split: list.splits)

lemma no_exponent: "stops r \<Longrightarrow> exp_part r = (None, r)"
  by (auto simp: exp_part_def dest: stops_not_digit split: list.splits)

lemma stops_head: "stops r \<Longrightarrow> r = [] \<or> \<not> is_digit (hd r)"
  by (cases r) (auto dest: stops_not_digit)

lemma digit_not_minus: "is_digit c \<Longrightarrow> c \<noteq> CHR ''-''"
  by (auto simp: is_digit_def digit_chars_def)

lemma parse_number_int:
  assumes "stops r"
  shows "parse_number (int_text i @ r) = Some (JInt i, r)"
proof -
  note parts = int_part_printed [OF stops_head [OF assms]] no_fraction [OF assms]
    no_exponent [OF assms] nat_text_value
  show ?thesis
  proof (cases "i < 0")
    case True
    then show ?thesis by (simp add: parse_number_def int_text_def starts_with_def parts)
  next
    case False
    obtain c cs where t: "nat_text (nat i) = c # cs"
      using nat_text_digits(2) by (cases "nat_text (nat i)") auto
    then have "is_digit c" using nat_text_digits(1) [of "nat i"] by (simp add: is_digit_def)
    then have "\<not> starts_with ''-'' (nat_text (nat i) @ r)"
      by (auto simp: starts_with_def t dest: digit_not_minus)
    with False show ?thesis by (simp add: parse_number_def int_text_def parts)
  qed
qed

lemma span_append:
  assumes "r = [] \<or> \<not> P (hd r)"
  shows "takeWhile P (s @ r) = takeWhile P s" "dropWhile P (s @ r) = dropWhile P s @ r"
proof -
  have r: "takeWhile P r = []" "dropWhile P r = r" using assms by (cases r; simp)+
  show "takeWhile P (s @ r) = takeWhile P s" "dropWhile P (s @ r) = dropWhile P s @ r"
    by (induction s) (use r in auto)
qed

lemma digit_span:
  assumes "stops r"
  shows "takeWhile is_digit (s @ r) = takeWhile is_digit s"
    "dropWhile is_digit (s @ r) = dropWhile is_digit s @ r"
  using span_append [where P = is_digit and s = s, OF stops_head [OF assms]] by simp_all

lemma int_part_append:
  "int_part s = Some (ds, t) \<Longrightarrow> stops r \<Longrightarrow> int_part (s @ r) = Some (ds, t @ r)"
  using digit_span [of r s] by (cases s) (auto simp: int_part_def split: if_splits)

lemma frac_part_append:
  "frac_part s = (fs, t) \<Longrightarrow> stops r \<Longrightarrow> frac_part (s @ r) = (fs, t @ r)"
proof -
  assume h: "frac_part s = (fs, t)" and r: "stops r"
  consider "s = []" | c where "s = [c]" | c d u where "s = c # d # u"
    by (metis list.exhaust)
  then show ?thesis
  proof cases
    case 1
    with h no_fraction [OF r] show ?thesis by (simp add: frac_part_def)
  next
    case 2
    with h r show ?thesis
      by (cases r) (auto simp: frac_part_def dest: stops_not_digit)
  next
    case 3
    with h digit_span [OF r, of "d # u"] show ?thesis
      by (auto simp: frac_part_def split: if_splits)
  qed
qed

definition exp_sign :: "string \<Rightarrow> int \<times> string" where
  "exp_sign r =
     (case r of
        x # y \<Rightarrow> if x = CHR ''-'' then (- 1, y) else if x = CHR ''+'' then (1, y) else (1, r)
      | [] \<Rightarrow> (1, r))"

lemma exp_part_alt:
  "exp_part (c # r) =
     (if (c = CHR ''e'' \<or> c = CHR ''E'') \<and> takeWhile is_digit (snd (exp_sign r)) \<noteq> [] then
        (Some (fst (exp_sign r) * int (decimal_value (takeWhile is_digit (snd (exp_sign r))))),
         dropWhile is_digit (snd (exp_sign r)))
      else (None, c # r))"
  by (simp add: exp_part_def exp_sign_def [symmetric] Let_def split: prod.splits)

lemma exp_sign_append:
  "stops r \<Longrightarrow> exp_sign (s @ r) = (fst (exp_sign s), snd (exp_sign s) @ r)"
  by (cases s; cases r) (auto simp: exp_sign_def stops_def)

lemma exp_part_append:
  assumes "exp_part s = (ex, t)" and "stops r"
  shows "exp_part (s @ r) = (ex, t @ r)"
proof (cases s)
  case Nil
  with assms no_exponent [OF assms(2)] show ?thesis by (simp add: exp_part_def)
next
  case (Cons c u)
  with assms(1) digit_span [OF assms(2), of "snd (exp_sign u)"] show ?thesis
    by (auto simp: exp_part_alt exp_sign_append [OF assms(2)] split: if_splits)
qed

lemma parse_number_append:
  assumes "parse_number s = Some (v, [])" and "stops r"
  shows "parse_number (s @ r) = Some (v, r)"
proof -
  have ne: "s \<noteq> []" using assms(1) by (auto simp: parse_number_def starts_with_def int_part_def)
  let ?neg = "starts_with ''-'' s" and ?s1 = "if starts_with ''-'' s then drop 1 s else s"
  have n: "starts_with ''-'' (s @ r) = ?neg"
    "(if starts_with ''-'' s then drop 1 (s @ r) else s @ r) = ?s1 @ r"
    using ne by (auto simp: starts_with_def neq_Nil_conv)
  obtain ds t where i: "int_part ?s1 = Some (ds, t)"
    using assms(1) by (auto simp: parse_number_def Let_def split: option.splits)
  obtain fs u where f: "frac_part t = (fs, u)" by (cases "frac_part t")
  obtain ex w where e: "exp_part u = (ex, w)" by (cases "exp_part u")
  have "parse_number s = (if fs = [] \<and> ex = None
      then Some (JInt (if ?neg then - int (decimal_value ds) else int (decimal_value ds)), t)
      else Some (JFloat (float_literal ?neg (decimal_value (ds @ fs))
        ((case ex of None \<Rightarrow> 0 | Some e \<Rightarrow> e) - int (length fs))), w))"
    unfolding parse_number_def Let_def i by (simp only: option.case prod.case f e)
  moreover have "parse_number (s @ r) = (if fs = [] \<and> ex = None
      then Some (JInt (if ?neg then - int (decimal_value ds) else int (decimal_value ds)), t @ r)
      else Some (JFloat (float_literal ?neg (decimal_value (ds @ fs))
        ((case ex of None \<Rightarrow> 0 | Some e \<Rightarrow> e) - int (length fs))), w @ r))"
    unfolding parse_number_def Let_def n int_part_append [OF i assms(2)]
    by (simp only: option.case prod.case frac_part_append [OF f assms(2)] exp_part_append [OF e assms(2)])
  ultimately show ?thesis using assms(1) by (auto split: if_splits)
qed

lemma parse_number_head:
  "parse_number s = Some x \<Longrightarrow>
     \<exists>c t. s = c # t \<and> (is_digit c \<or> (c = CHR ''-'' \<and> t \<noteq> [] \<and> is_digit (hd t)))"
  by (cases s; cases "tl s")
    (auto simp: parse_number_def starts_with_def int_part_def is_digit_def zero_digit(1) Let_def
      split: option.splits if_splits)

section \<open>Values\<close>

text \<open>
  \<open>canon\<close> puts the members of every object in key order. \<open>json_ok\<close> is what a Python value
  of the protocol satisfies: dictionaries have distinct keys, strings encode to UTF-8, and
  the printed form of a float denotes that float.
\<close>

fun canon :: "json \<Rightarrow> json" where
  "canon (JArr xs) = JArr (map canon xs)"
| "canon (JObj m) = JObj (sort_key fst (map (\<lambda>(k, v). (k, canon v)) m))"
| "canon v = v"

fun float_ok :: "pyfloat \<Rightarrow> bool" where
  "float_ok (Fin q) = (parse_number (float_repr q) = Some (JFloat (Fin q), []))"
| "float_ok _ = True"

fun json_ok :: "json \<Rightarrow> bool" where
  "json_ok (JFloat f) = float_ok f"
| "json_ok (JStr s) = utf8_valid False s"
| "json_ok (JArr xs) = list_all json_ok xs"
| "json_ok (JObj m) =
     (distinct (map fst m) \<and> list_all (\<lambda>(k, v). utf8_valid False k \<and> json_ok v) m)"
| "json_ok _ = True"

lemma insort_map:
  "insort_key fst (k, f v) (map (\<lambda>(k, v). (k, f v)) xs) = map (\<lambda>(k, v). (k, f v)) (insort_key fst (k, v) xs)"
  by (induction xs) (auto split: prod.splits)

lemma sort_map:
  "sort_key fst (map (\<lambda>(k, v). (k, f v)) m) = map (\<lambda>(k, v). (k, f v)) (sort_key fst m)"
proof (induction m)
  case (Cons p m)
  then show ?case by (cases p) (simp add: insort_map)
qed simp

lemma dict_set_new: "k \<notin> fst ` set d \<Longrightarrow> dict_set k v d = d @ [(k, v)]"
  by (induction d) (auto split: prod.splits)

lemma dict_update_fresh: "distinct (map fst (d @ m)) \<Longrightarrow> dict_update d m = d @ m"
proof (induction m arbitrary: d)
  case (Cons p m)
  have "dict_update d (p # m) = dict_update (d @ [p]) m"
    using Cons.prems dict_set_new [of "fst p" d "snd p"] by (simp add: dict_update_def)
  then show ?case using Cons.IH [of "d @ [p]"] Cons.prems by simp
qed (simp add: dict_update_def)

definition member_text :: "string \<times> json \<Rightarrow> string" where
  "member_text p = json_string (fst p) @ CHR '':'' # json_bytes (snd p)"

lemma json_bytes_obj:
  "json_bytes (JObj m) = CHR ''{'' # join_with '','' (map member_text (sort_key fst m)) @ ''}''"
proof -
  have "map (\<lambda>(k, t). json_string k @ CHR '':'' # t) (map (\<lambda>(k, v). (k, json_bytes v)) ps)
      = map member_text ps" for ps
    by (induction ps) (auto simp: member_text_def)
  then show ?thesis by (simp only: json_bytes.simps sort_map)
qed

definition plain_head :: "string \<Rightarrow> bool" where
  "plain_head s \<longleftrightarrow> s \<noteq> [] \<and>
     hd s \<notin> {CHR 0x20, CHR 0x09, CHR 0x0A, CHR 0x0D, CHR '','', CHR '']'', CHR ''}''}"

lemma plain_head_skip: "plain_head s \<Longrightarrow> skip_ws (s @ r) = s @ r"
  by (cases s) (auto simp: plain_head_def)

lemma plain_head_not: "plain_head s \<Longrightarrow> \<not> starts_with '']'' (s @ r) \<and> \<not> starts_with ''}'' (s @ r)"
  by (cases s) (auto simp: plain_head_def starts_with_def)

lemma number_plain_head: "parse_number s = Some x \<Longrightarrow> plain_head s"
  using parse_number_head [of s x] by (auto simp: plain_head_def is_digit_def digit_chars_def)

lemma json_bytes_head: "json_ok v \<Longrightarrow> plain_head (json_bytes v)"
proof (cases v)
  case (JInt i)
  have "stops []" by (simp add: stops_def)
  from parse_number_int [OF this, of i] JInt show ?thesis
    by (simp add: number_plain_head)
next
  case (JFloat f)
  moreover assume "json_ok v"
  ultimately show ?thesis
    by (cases f) (auto simp: plain_head_def dest: number_plain_head)
qed (auto simp: plain_head_def json_string_def)

lemma parse_value_number:
  assumes "parse_number (s @ r) = Some x"
  shows "parse_value (Suc f) (s @ r) = Some x"
proof -
  obtain c t where s: "s @ r = c # t"
    and c: "is_digit c \<or> (c = CHR ''-'' \<and> t \<noteq> [] \<and> is_digit (hd t))"
    using parse_number_head [OF assms] by auto
  have ne: "c \<noteq> CHR 0x22 \<and> c \<noteq> CHR ''['' \<and> c \<noteq> CHR ''{'' \<and> c \<noteq> CHR ''n'' \<and> c \<noteq> CHR ''t'' \<and>
      c \<noteq> CHR ''f'' \<and> c \<noteq> CHR ''N'' \<and> c \<noteq> CHR ''I''"
    using c by (auto simp: is_digit_def digit_chars_def)
  moreover have "\<not> starts_with ''-Infinity'' (c # t)"
    using c by (cases t) (auto simp: starts_with_def is_digit_def digit_chars_def)
  ultimately show ?thesis
    using assms unfolding s by (auto simp: parse_value.simps starts_with_def)
qed

definition reads_back :: "json \<Rightarrow> bool" where
  "reads_back v \<longleftrightarrow>
     (\<forall>f r. 2 * length (json_bytes v) \<le> f \<longrightarrow> stops r \<longrightarrow>
        parse_value f (json_bytes v @ r) = Some (canon v, r))"

lemma reads_backD:
  "reads_back v \<Longrightarrow> 2 * length (json_bytes v) \<le> f \<Longrightarrow> stops r \<Longrightarrow>
     parse_value f (json_bytes v @ r) = Some (canon v, r)"
  by (simp add: reads_back_def)

lemma parse_elems_printed:
  assumes "xs \<noteq> []" and "\<And>x. x \<in> set xs \<Longrightarrow> reads_back x \<and> json_ok x"
    and "2 * (length (join_with '','' (map json_bytes xs)) + 1) \<le> f"
  shows "parse_elems f (join_with '','' (map json_bytes xs) @ CHR '']'' # r) = Some (map canon xs, r)"
  using assms
proof (induction xs arbitrary: f)
  case (Cons x xs)
  from Cons.prems(3) obtain g where f: "f = Suc g" by (cases f) auto
  have x: "reads_back x" using Cons.prems(2) by simp
  show ?case
  proof (cases xs)
    case Nil
    have "parse_value g (json_bytes x @ CHR '']'' # r) = Some (canon x, CHR '']'' # r)"
      using Cons.prems(3) f Nil by (intro reads_backD [OF x]) (auto simp: stops_def)
    with Nil f show ?thesis by (simp add: parse_elems.simps)
  next
    case (Cons y ys)
    let ?rest = "join_with '','' (map json_bytes xs) @ CHR '']'' # r"
    have "parse_value g (json_bytes x @ CHR '','' # ?rest) = Some (canon x, CHR '','' # ?rest)"
      using Cons.prems(3) f Cons by (intro reads_backD [OF x]) (auto simp: stops_def)
    moreover have "parse_elems g ?rest = Some (map canon xs, r)"
      using Cons.IH [of g] Cons.prems f Cons by simp
    moreover have "skip_ws ?rest = ?rest"
      using plain_head_skip [OF json_bytes_head, of y] Cons.prems(2) Cons
      by (cases ys) simp_all
    ultimately show ?thesis
      using f Cons by (simp add: parse_elems.simps [of "Suc g"])
  qed
qed simp

lemma member_text_parts:
  "member_text (k, v) @ r = json_string k @ CHR '':'' # json_bytes v @ r"
  "length (json_bytes v) < length (member_text (k, v))"
  by (simp_all add: member_text_def)

lemma parse_members_step:
  assumes "reads_back v" and "json_ok v" and "2 * length (member_text (k, v)) \<le> g"
    and "c = CHR '','' \<or> c = CHR ''}''"
  shows "parse_members (Suc g) (member_text (k, v) @ c # r) =
     (if c = CHR '','' then map_option (\<lambda>(m, s). ((k, canon v) # m, s)) (parse_members g (skip_ws r))
      else Some ([(k, canon v)], r))"
proof -
  let ?r = "CHR '':'' # json_bytes v @ c # r"
  let ?t = "member_text (k, v) @ c # r"
  have t: "?t = CHR 0x22 # tl (json_string k) @ ?r"
    by (simp add: member_text_parts(1) json_string_def)
  have k: "parse_string (length ?t) (tl (json_string k) @ ?r) = Some (k, ?r)"
    using parse_string_printed [of k ?r] by (simp add: member_text_parts(1))
  have "parse_value g (json_bytes v @ c # r) = Some (canon v, c # r)"
    using assms(3,4) member_text_parts(2) [of v k]
    by (intro reads_backD [OF assms(1)]) (auto simp: stops_def)
  moreover have "skip_ws (json_bytes v @ c # r) = json_bytes v @ c # r"
    by (intro plain_head_skip json_bytes_head assms(2))
  moreover have "skip_ws (c # r) = c # r" using assms(4) by auto
  ultimately show ?thesis
    using assms(4) k unfolding t by (auto simp: parse_members.simps [of "Suc g"])
qed

lemma parse_members_printed:
  assumes "ps \<noteq> []" and "\<And>p. p \<in> set ps \<Longrightarrow> reads_back (snd p) \<and> json_ok (snd p)"
    and "2 * (length (join_with '','' (map member_text ps)) + 1) \<le> f"
  shows "parse_members f (join_with '','' (map member_text ps) @ CHR ''}'' # r)
     = Some (map (\<lambda>(k, v). (k, canon v)) ps, r)"
  using assms
proof (induction ps arbitrary: f)
  case (Cons p ps)
  obtain k v where p: "p = (k, v)" by (cases p)
  from Cons.prems(3) obtain g where f: "f = Suc g" by (cases f) auto
  have v: "reads_back v" "json_ok v" using Cons.prems(2) [of p] p by auto
  show ?case
  proof (cases ps)
    case Nil
    with Cons.prems(3) f p show ?thesis
      by (simp add: parse_members_step [OF v])
  next
    case (Cons q qs)
    let ?rest = "join_with '','' (map member_text ps) @ CHR ''}'' # r"
    have "parse_members g ?rest = Some (map (\<lambda>(k, v). (k, canon v)) ps, r)"
      using Cons.IH [of g] Cons.prems f Cons by simp
    moreover have "skip_ws ?rest = ?rest"
      unfolding Cons by (cases qs) (simp_all add: member_text_def json_string_def)
    moreover have "2 * length (member_text (k, v)) \<le> g"
      using Cons.prems(3) f p Cons by simp
    ultimately show ?thesis
      using parse_members_step [OF v, of k g "CHR '',''" ?rest] p f Cons by simp
  qed
qed simp

lemma sort_fst_facts:
  "set (sort_key fst m) = set m" "sort_key fst m = [] \<longleftrightarrow> m = []"
  "distinct (map fst (sort_key fst m)) \<longleftrightarrow> distinct (map fst m)"
proof -
  show "set (sort_key fst m) = set m" by simp
  show "sort_key fst m = [] \<longleftrightarrow> m = []" by (metis length_0_conv length_sort)
  show "distinct (map fst (sort_key fst m)) \<longleftrightarrow> distinct (map fst m)"
    by (simp add: distinct_map)
qed

lemma reads_back_number:
  assumes "\<And>r. stops r \<Longrightarrow> parse_number (json_bytes v @ r) = Some (canon v, r)" and "json_ok v"
  shows "reads_back v"
  unfolding reads_back_def
proof (intro allI impI)
  fix f r assume f: "2 * length (json_bytes v) \<le> f" and r: "stops r"
  have "json_bytes v \<noteq> []" using json_bytes_head [OF assms(2)] by (simp add: plain_head_def)
  with f obtain g where "f = Suc g" by (cases f) auto
  with parse_value_number [OF assms(1) [OF r]] show
    "parse_value f (json_bytes v @ r) = Some (canon v, r)" by simp
qed

lemma json_reads_back: "json_ok v \<Longrightarrow> reads_back v"
proof (induction v rule: canon.induct [case_names arr obj null bool int float str])
  case (arr xs)
  show ?case
    unfolding reads_back_def
  proof (intro allI impI)
    fix f r assume f: "2 * length (json_bytes (JArr xs)) \<le> f" and r: "stops r"
    from f obtain g where g: "f = Suc g" by (cases f) auto
    show "parse_value f (json_bytes (JArr xs) @ r) = Some (canon (JArr xs), r)"
    proof (cases xs)
      case Nil
      then show ?thesis by (simp add: g parse_value.simps starts_with_def)
    next
      case (Cons y ys)
      let ?t = "join_with '','' (map json_bytes xs)"
      have e: "parse_elems g (?t @ CHR '']'' # r) = Some (map canon xs, r)"
        using arr f g Cons by (intro parse_elems_printed) (auto simp: list_all_iff)
      have "plain_head ?t"
        using json_bytes_head [of y] arr Cons by (cases ys) (auto simp: plain_head_def)
      from plain_head_skip [OF this] plain_head_not [OF this] e show ?thesis
        by (simp add: g parse_value.simps [of "Suc g"])
    qed
  qed
next
  case (obj m)
  let ?ps = "sort_key fst m"
  have ok: "reads_back (snd p) \<and> json_ok (snd p)" if "p \<in> set m" for p
    using obj that by (cases p) (auto simp: list_all_iff)
  have upd: "dict_update [] (map (\<lambda>(k, v). (k, canon v)) ?ps) = map (\<lambda>(k, v). (k, canon v)) ?ps"
    using dict_update_fresh [of "[]" "map (\<lambda>(k, v). (k, canon v)) ?ps"] obj sort_fst_facts(3) [of m]
    by (simp add: comp_def case_prod_beta)
  show ?case
    unfolding reads_back_def
  proof (intro allI impI)
    fix f r assume f: "2 * length (json_bytes (JObj m)) \<le> f" and r: "stops r"
    from f obtain g where g: "f = Suc g" by (cases f) auto
    show "parse_value f (json_bytes (JObj m) @ r) = Some (canon (JObj m), r)"
    proof (cases "m = []")
      case True
      then show ?thesis by (simp add: g parse_value.simps starts_with_def)
    next
      case False
      let ?t = "join_with '','' (map member_text ?ps)"
      have e: "parse_members g (?t @ CHR ''}'' # r) = Some (map (\<lambda>(k, v). (k, canon v)) ?ps, r)"
        using ok f g False sort_fst_facts [of m]
        by (intro parse_members_printed) (auto simp: json_bytes_obj simp del: json_bytes.simps)
      have "?ps \<noteq> []" using False sort_fst_facts(2) by blast
      then have "plain_head ?t"
        by (cases ?ps; cases "tl ?ps") (auto simp: plain_head_def member_text_def json_string_def)
      from plain_head_skip [OF this] plain_head_not [OF this] e upd show ?thesis
        unfolding json_bytes_obj
        by (simp add: g parse_value.simps [of "Suc g"] sort_map)
    qed
  qed
next
  case null
  show ?case
    unfolding reads_back_def by (auto simp: parse_value.simps starts_with_def split: nat.splits)
next
  case (bool b)
  show ?case
    unfolding reads_back_def by (auto simp: parse_value.simps starts_with_def split: nat.splits)
next
  case (int i)
  show ?case by (rule reads_back_number) (simp_all add: parse_number_int)
next
  case (float x)
  show ?case
  proof (cases x)
    case (Fin q)
    with float show ?thesis
      by (intro reads_back_number) (auto intro: parse_number_append)
  qed (auto simp: reads_back_def parse_value.simps starts_with_def split: nat.splits)
next
  case (str s)
  show ?case
    unfolding reads_back_def
  proof (intro allI impI)
    fix f r assume f: "2 * length (json_bytes (JStr s)) \<le> f" and r: "stops r"
    from f obtain g where g: "f = Suc g" by (cases f) (auto simp: json_string_def)
    have t: "json_string s @ r = CHR 0x22 # tl (json_string s) @ r" by (simp add: json_string_def)
    show "parse_value f (json_bytes (JStr s) @ r) = Some (canon (JStr s), r)"
      using parse_string_printed [of s r] unfolding json_bytes.simps g t
      by (simp add: parse_value.simps [of "Suc g"])
  qed
qed

section \<open>Encoding\<close>

definition ascii :: "string \<Rightarrow> bool" where
  "ascii s = list_all (\<lambda>c. of_char c < (128::nat)) s"

lemma ascii_simps [simp]:
  "ascii []"
  "ascii (c # s) \<longleftrightarrow> of_char c < (128::nat) \<and> ascii s"
  "ascii (s @ t) \<longleftrightarrow> ascii s \<and> ascii t"
  "ascii (replicate n c) \<longleftrightarrow> n = 0 \<or> of_char c < (128::nat)"
  by (auto simp: ascii_def list_all_iff)

lemma ascii_take_drop: "ascii s \<Longrightarrow> ascii (take n s) \<and> ascii (drop n s)"
  unfolding ascii_def list_all_iff by (meson in_set_dropD in_set_takeD)

lemma ascii_subset: "all_in cs s \<Longrightarrow> ascii cs \<Longrightarrow> ascii s"
  by (auto simp: all_in_iff ascii_def list_all_iff)

lemma ascii_digits: "ascii digit_chars"
  by (simp add: digit_chars_def)

lemma ascii_nat_text [simp]: "ascii (nat_text n)"
  using nat_text_digits(1) ascii_digits by (rule ascii_subset)

lemma ascii_int_text [simp]: "ascii (int_text i)"
  by (simp add: int_text_def)

lemma ascii_place_point: "ascii ds \<Longrightarrow> ascii (place_point ds p)"
  using ascii_take_drop [of ds "nat p"]
  by (auto simp: place_point_def two_digits_def Let_def split: list.splits)

lemma ascii_float_text [simp]: "ascii (float_text x)"
proof (cases x)
  case (Fin q)
  have "ascii ((if q < 0 then ''-'' else []) @ place_point (nat_text n) p)" for n p
    using ascii_place_point [OF ascii_nat_text] by simp
  then have "ascii (float_repr q)"
    unfolding float_repr_def Let_def by (cases "q = 0") (simp, simp only: if_False)
  with Fin show ?thesis by simp
qed simp_all

lemma utf8_append: "utf8_valid sp s \<Longrightarrow> utf8_valid sp t \<Longrightarrow> utf8_valid sp (s @ t)"
proof (induction sp s rule: utf8_valid.induct)
  case (2 sp a s)
  then show ?case
    by (auto simp: Let_def split: if_splits list.splits)
qed simp

lemma utf8_ascii: "ascii s \<Longrightarrow> utf8_valid sp s"
  by (induction s) simp_all

lemma utf8_ascii_append: "ascii s \<Longrightarrow> utf8_valid sp t \<Longrightarrow> utf8_valid sp (s @ t)"
  by (rule utf8_append [OF utf8_ascii])

lemma utf8_surrogatepass: "utf8_valid False s \<Longrightarrow> utf8_valid True s"
proof (induction False s rule: utf8_valid.induct)
  case (2 a s)
  then show ?case by (auto simp: Let_def split: if_splits list.splits)
qed simp

lemma escape_char_high: "128 \<le> (of_char c :: nat) \<Longrightarrow> escape_char c = [c]"
proof -
  assume h: "128 \<le> (of_char c :: nat)"
  then have "c \<notin> {CHR 0x22, CHR 0x5C, CHR 0x0A, CHR 0x0D, CHR 0x09, CHR 0x0C, CHR 0x08}"
    by (intro notI) (elim insertE emptyE; simp)
  with h show ?thesis by (simp add: escape_char_def)
qed

lemma ascii_hex_digit: "n < 16 \<Longrightarrow> of_char (hex_chars ! n) < (128::nat)"
proof -
  assume "n < 16"
  then have "hex_chars ! n \<in> set hex_chars" by (intro nth_mem) (simp add: hex_chars_def)
  moreover have "ascii hex_chars" by (simp add: hex_chars_def)
  ultimately show ?thesis by (simp add: ascii_def list_all_iff)
qed

lemma escape_char_low: "of_char c < (128::nat) \<Longrightarrow> ascii (escape_char c)"
  by (simp add: escape_char_def ascii_hex_digit)

lemma escape_char_cont: "cont_byte c \<Longrightarrow> escape_char c = [c]"
  by (simp add: escape_char_high cont_byte_def)

lemma utf8_escaped: "utf8_valid sp s \<Longrightarrow> utf8_valid sp (concat (map escape_char s))"
proof (induction sp s rule: utf8_valid.induct)
  case (2 sp a s)
  show ?case
  proof (cases "of_char a < (128::nat)")
    case True
    with 2 have "utf8_valid sp (concat (map escape_char s))" by simp
    with True show ?thesis by (simp add: utf8_ascii_append escape_char_low)
  next
    case False
    then have "escape_char a = [a]" by (simp add: escape_char_high)
    with 2 False show ?thesis
      by (auto simp: Let_def escape_char_cont split: if_splits list.splits)
  qed
qed simp

lemma utf8_json_string: "utf8_valid sp s \<Longrightarrow> utf8_valid sp (json_string s)"
  using utf8_append [OF utf8_escaped, of sp s "[CHR 0x22]"] by (simp add: json_string_def)

lemma utf8_join: "(\<And>t. t \<in> set ts \<Longrightarrow> utf8_valid sp t) \<Longrightarrow> utf8_valid sp (join_with '','' ts)"
proof (induction "'',''" ts rule: join_with.induct)
  case (3 p q ps)
  then have "utf8_valid sp ('','' @ join_with '','' (q # ps))" by simp
  then have "utf8_valid sp (p @ '','' @ join_with '','' (q # ps))"
    using 3 by (intro utf8_append) simp_all
  then show ?case by simp
qed simp_all

lemma utf8_json_bytes: "json_ok v \<Longrightarrow> utf8_valid False (json_bytes v)"
proof (induction v rule: canon.induct)
  case (1 xs)
  have "utf8_valid False (join_with '','' (map json_bytes xs))"
    using 1 by (intro utf8_join) (auto simp: list_all_iff)
  then show ?case using utf8_append [of False _ "'']''"] by simp
next
  case (2 m)
  have "utf8_valid False (member_text p)" if "p \<in> set m" for p
  proof -
    obtain k v where p: "p = (k, v)" by (cases p)
    with 2 that have "utf8_valid False k" "utf8_valid False (json_bytes v)"
      by (auto simp: list_all_iff)
    then have "utf8_valid False (json_string k @ CHR '':'' # json_bytes v)"
      by (intro utf8_append utf8_json_string) simp_all
    with p show ?thesis by (simp add: member_text_def)
  qed
  then have "utf8_valid False (join_with '','' (map member_text (sort_key fst m)))"
    by (intro utf8_join) auto
  then show ?case
    using utf8_append [of False _ "''}''"] unfolding json_bytes_obj by simp
qed (simp_all add: utf8_ascii utf8_json_string)

section \<open>Reading back\<close>

lemma json_loads_bytes: "json_ok v \<Longrightarrow> json_loads (json_bytes v) = Some (canon v)"
proof -
  assume ok: "json_ok v"
  have "parse_value (2 * length (json_bytes v) + 2) (json_bytes v @ []) = Some (canon v, [])"
    by (rule reads_backD [OF json_reads_back [OF ok]]) (simp_all add: stops_def)
  then show ?thesis
    using plain_head_skip [OF json_bytes_head [OF ok], of "[]"] by (simp add: json_loads_def)
qed

lemma json_decode_bytes: "json_ok v \<Longrightarrow> json_decode sp (json_bytes v) = Some (canon v)"
  using utf8_json_bytes [of v] utf8_surrogatepass
  by (cases sp) (simp_all add: json_decode_def json_loads_bytes)

lemma canon_obj_members:
  assumes "distinct (map fst m)" and "canon (JObj m) = JObj m'"
  shows "get m' k = canon (get m k)" and "has_key m' k \<longleftrightarrow> has_key m k"
    and "distinct (map fst m')"
proof -
  have m': "m' = map (\<lambda>(k, v). (k, canon v)) (sort_key fst m)"
    using assms(2) by (simp add: sort_map)
  have "map_of (sort_key fst m) = map_of m"
    using assms(1) sort_fst_facts [of m] by (intro map_of_inject_set [THEN iffD2]) simp_all
  then have mo: "map_of m' k = map_option canon (map_of m k)" for k
    by (simp add: m' map_of_map)
  show "get m' k = canon (get m k)" by (simp add: get_def mo split: option.splits)
  show "has_key m' k \<longleftrightarrow> has_key m k" by (simp add: has_key_def mo)
  show "distinct (map fst m')"
    using assms(1) sort_fst_facts(3) [of m] by (simp add: m' comp_def case_prod_beta)
qed



end
