(* ===== verification/Journal.thy ===== *)
theory Journal
  imports Markers Sha256 Json_Roundtrip Visibility
begin

text \<open>
  The packed append-only transition journal (\<open>src/src/httk/workflow/journal.py\<close>) at the level
  of bytes. The journal directory maps a writer directory to its segment files. A writer
  owns one directory and appends frames (length, canonical JSON, SHA-256, length again) to
  its current segment; readers verify one referenced frame, walk the chain of previous
  references, or walk a whole segment.

  \<open>fsync\<close> has no effect in the model. Offsets and lengths are unbounded in the reader; the
  references of the writer stay below \<open>2^64\<close>.
\<close>

section \<open>Segment files\<close>

type_synonym journal = "string \<rightharpoonup> (string \<rightharpoonup> string)"

definition SEGMENT_HEADER :: string where
  "SEGMENT_HEADER = ''HTTK-HWJ-V1'' @ [CHR 0x0A]"

definition MAXIMUM_FRAME_BYTES :: nat where
  "MAXIMUM_FRAME_BYTES = 16 * 1024 * 1024"

text \<open>The file a segment number names inside its writer directory (\<open>segment_path\<close>).\<close>

definition segment_file :: "nat \<Rightarrow> string" where
  "segment_file segment = base36_text segment @ ''.hwj''"

definition segment_bytes :: "journal \<Rightarrow> string \<Rightarrow> nat \<Rightarrow> string option" where
  "segment_bytes J writer_id segment =
     (case J writer_id of None \<Rightarrow> None | Some files \<Rightarrow> files (segment_file segment))"

definition set_segment :: "journal \<Rightarrow> string \<Rightarrow> nat \<Rightarrow> string \<Rightarrow> journal" where
  "set_segment J writer_id segment data =
     J(writer_id \<mapsto>
         (case J writer_id of None \<Rightarrow> Map.empty | Some files \<Rightarrow> files)(segment_file segment \<mapsto> data))"

section \<open>The writer\<close>

text \<open>
  \<open>JournalWriter\<close>. The handle is the position of the open file, \<open>None\<close> when it is closed.
\<close>

record journal_writer =
  jw_writer_id :: string
  jw_maximum_segment_bytes :: nat
  jw_segment_number :: nat
  jw_handle :: "nat option"

text \<open>\<open>_open_segment\<close>: exclusive creation, then the header.\<close>

definition open_segment ::
  "journal_writer \<Rightarrow> nat \<Rightarrow> journal \<Rightarrow> unit res \<times> journal_writer \<times> journal" where
  "open_segment w number J =
     (if number > 2 ^ 32 - 1 then (Inl WorkspaceCorruptionError, w, J)
      else case segment_bytes J (jw_writer_id w) number of
        Some _ \<Rightarrow> (Inl FileExistsError, w, J)
      | None \<Rightarrow>
          (Inr (), w\<lparr>jw_handle := Some (length SEGMENT_HEADER)\<rparr>,
           set_segment J (jw_writer_id w) number SEGMENT_HEADER))"

text \<open>\<open>__init__\<close>, with the writer identity given or drawn by the caller.\<close>

definition journal_writer_init ::
  "string \<Rightarrow> nat \<Rightarrow> journal \<Rightarrow> unit res \<times> journal_writer \<times> journal" where
  "journal_writer_init writer_id maximum J =
     (let w = \<lparr>jw_writer_id = writer_id, jw_maximum_segment_bytes = maximum,
               jw_segment_number = 0, jw_handle = None\<rparr>
      in if \<not> uuid_pattern writer_id then (Inl ValueError, w, J)
         else if J writer_id \<noteq> None then (Inl FileExistsError, w, J)
         else open_segment w 0 (J(writer_id \<mapsto> Map.empty)))"

text \<open>\<open>_rotate_if_needed\<close>. \<open>tell\<close> on a closed handle raises \<open>ValueError\<close>.\<close>

definition rotate_if_needed ::
  "journal_writer \<Rightarrow> nat \<Rightarrow> journal \<Rightarrow> unit res \<times> journal_writer \<times> journal" where
  "rotate_if_needed w frame_bytes J =
     (case jw_handle w of
        None \<Rightarrow> (Inl ValueError, w, J)
      | Some tell \<Rightarrow>
          if tell = length SEGMENT_HEADER then (Inr (), w, J)
          else if tell + frame_bytes \<le> jw_maximum_segment_bytes w then (Inr (), w, J)
          else
            let n = jw_segment_number w + 1
            in open_segment (w\<lparr>jw_handle := None, jw_segment_number := n\<rparr>) n J)"

text \<open>The frame of a payload: length, payload, checksum, length.\<close>

definition length_bytes :: "string \<Rightarrow> string" where
  "length_bytes payload = be_bytes 8 (length payload)"

definition frame_checksum :: "string \<Rightarrow> string" where
  "frame_checksum payload = sha256 (length_bytes payload @ payload)"

definition frame_bytes :: "string \<Rightarrow> string" where
  "frame_bytes payload =
     length_bytes payload @ payload @ frame_checksum payload @ length_bytes payload"

definition checksum_prefix :: "string \<Rightarrow> string" where
  "checksum_prefix checksum = hex_text (take 16 checksum)"

text \<open>Writing at the position of the handle.\<close>

definition write_at :: "nat \<Rightarrow> string \<Rightarrow> string \<Rightarrow> string" where
  "write_at pos data file = take pos file @ data @ drop (pos + length data) file"

text \<open>
  \<open>append\<close>. Encoding the payload raises \<open>UnicodeEncodeError\<close>, a \<open>ValueError\<close>, when a string
  is not encodable.
\<close>

definition append_record ::
  "journal_writer \<Rightarrow> obj \<Rightarrow> journal \<Rightarrow> string res \<times> journal_writer \<times> journal" where
  "append_record w rec J =
     (let payload = json_bytes (JObj rec); frame = frame_bytes payload
      in if \<not> utf8_valid False payload then (Inl ValueError, w, J)
         else case rotate_if_needed w (length frame) J of
           (Inl e, w', J') \<Rightarrow> (Inl e, w', J')
         | (Inr _, w', J') \<Rightarrow>
             let offset = (case jw_handle w' of None \<Rightarrow> 0 | Some tell \<Rightarrow> tell);
                 file = (case segment_bytes J' (jw_writer_id w') (jw_segment_number w') of
                           None \<Rightarrow> [] | Some b \<Rightarrow> b)
             in (Inr (encode_record_ref (jw_writer_id w') (jw_segment_number w') offset
                   (length payload) (checksum_prefix (frame_checksum payload))),
                 w'\<lparr>jw_handle := Some (offset + length frame)\<rparr>,
                 set_segment J' (jw_writer_id w') (jw_segment_number w') (write_at offset frame file)))"

definition journal_close :: "journal_writer \<Rightarrow> journal_writer" where
  "journal_close w = w\<lparr>jw_handle := None\<rparr>"

section \<open>Reading one frame\<close>

datatype frame_problem =
    missing_segment | short_read | invalid_header | length_mismatch | trailer_mismatch
  | checksum_mismatch | reference_mismatch | undecodable_frame | not_an_object

definition transient :: "frame_problem \<Rightarrow> bool" where
  "transient p = (p \<in> {missing_segment, short_read, undecodable_frame})"

definition read_frame ::
  "string option \<Rightarrow> nat \<Rightarrow> nat \<Rightarrow> string \<Rightarrow> frame_problem + obj" where
  "read_frame file offset expected_length expected_prefix =
     (case file of
        None \<Rightarrow> Inl missing_segment
      | Some b \<Rightarrow>
          let header = take (length SEGMENT_HEADER) b
          in if length header \<noteq> length SEGMENT_HEADER then Inl short_read
             else if header \<noteq> SEGMENT_HEADER then Inl invalid_header
             else
               let len_bytes = take 8 (drop offset b)
               in if length len_bytes \<noteq> 8 then Inl short_read
                  else
                    let len = be_value len_bytes
                    in if len \<noteq> expected_length then Inl length_mismatch
                       else
                         let payload = take len (drop (offset + 8) b);
                             checksum = take 32 (drop (offset + 8 + len) b);
                             trailer = take 8 (drop (offset + 8 + len + 32) b)
                         in if length payload \<noteq> len \<or> length checksum \<noteq> 32 \<or> length trailer \<noteq> 8
                            then Inl short_read
                            else if trailer \<noteq> len_bytes then Inl trailer_mismatch
                            else if sha256 (len_bytes @ payload) \<noteq> checksum then Inl checksum_mismatch
                            else if checksum_prefix checksum \<noteq> expected_prefix then Inl reference_mismatch
                            else (case json_decode True payload of
                                    None \<Rightarrow> Inl undecodable_frame
                                  | Some (JObj m) \<Rightarrow> Inr m
                                  | Some _ \<Rightarrow> Inl not_an_object))"

text \<open>
  \<open>read_record\<close> over the views of the journal that the successive visibility attempts see.
\<close>

fun read_attempts ::
  "string option list \<Rightarrow> nat \<Rightarrow> nat \<Rightarrow> string \<Rightarrow> obj res" where
  "read_attempts [] offset len prefix = Inl WorkspaceUnavailableError"
| "read_attempts (file # views) offset len prefix =
     (case read_frame file offset len prefix of
        Inr value \<Rightarrow> Inr value
      | Inl problem \<Rightarrow>
          if transient problem then read_attempts views offset len prefix
          else Inl WorkspaceCorruptionError)"

definition read_record :: "journal list \<Rightarrow> string \<Rightarrow> obj res" where
  "read_record views ref =
     bindr (parse_record_ref ref) (\<lambda>(writer_id, segment, offset, len, prefix).
       read_attempts (map (\<lambda>J. segment_bytes J writer_id segment) views) offset len prefix)"

text \<open>\<open>verify_record\<close>: the same read with the last problem as a value.\<close>

datatype verification = Verified obj | Problem frame_problem | Invalid_record_ref | Unreadable_frame

fun verify_attempts ::
  "string option list \<Rightarrow> frame_problem option \<Rightarrow> nat \<Rightarrow> nat \<Rightarrow> string \<Rightarrow> verification" where
  "verify_attempts [] last_error offset len prefix =
     (case last_error of None \<Rightarrow> Unreadable_frame | Some p \<Rightarrow> Problem p)"
| "verify_attempts (file # views) last_error offset len prefix =
     (case read_frame file offset len prefix of
        Inr value \<Rightarrow> Verified value
      | Inl problem \<Rightarrow>
          if transient problem then verify_attempts views (Some problem) offset len prefix
          else Problem problem)"

definition verify_record :: "journal list \<Rightarrow> string \<Rightarrow> verification" where
  "verify_record views ref =
     (case parse_record_ref ref of
        Inl _ \<Rightarrow> Invalid_record_ref
      | Inr (writer_id, segment, offset, len, prefix) \<Rightarrow>
          verify_attempts (map (\<lambda>J. segment_bytes J writer_id segment) views) None offset len prefix)"

section \<open>Walking a segment\<close>

record journal_frame =
  jf_record_ref :: string
  jf_writer_id :: string
  jf_segment :: nat
  jf_offset :: nat
  jf_frame :: obj

text \<open>One turn of the walk on the bytes from the current offset on.\<close>

function segment_walk :: "string \<Rightarrow> nat \<Rightarrow> nat \<Rightarrow> string \<Rightarrow> journal_frame list" where
  "segment_walk writer_id segment offset b =
     (let len_bytes = take 8 b; len = be_value len_bytes; payload = take len (drop 8 b);
          checksum = take 32 (drop (8 + len) b); trailer = take 8 (drop (8 + len + 32) b)
      in if length len_bytes \<noteq> 8 then []
         else if len > MAXIMUM_FRAME_BYTES then []
         else if length payload \<noteq> len \<or> length checksum \<noteq> 32 \<or> trailer \<noteq> len_bytes then []
         else
           let rest = segment_walk writer_id segment (offset + (48 + len)) (drop (48 + len) b)
           in if sha256 (len_bytes @ payload) \<noteq> checksum then rest
              else (case json_decode True payload of
                      Some (JObj m) \<Rightarrow>
                        \<lparr>jf_record_ref = encode_record_ref writer_id segment offset len
                            (checksum_prefix checksum),
                         jf_writer_id = writer_id, jf_segment = segment, jf_offset = offset,
                         jf_frame = m\<rparr> # rest
                    | _ \<Rightarrow> rest))"
  by auto
termination
  by (relation "measure (\<lambda>(_, _, _, b). length b)") auto

declare segment_walk.simps [simp del]

definition iter_segment_frames :: "string option \<Rightarrow> string \<Rightarrow> nat \<Rightarrow> journal_frame list" where
  "iter_segment_frames file writer_id segment =
     (case file of
        None \<Rightarrow> []
      | Some b \<Rightarrow>
          if take (length SEGMENT_HEADER) b \<noteq> SEGMENT_HEADER then []
          else segment_walk writer_id segment (length SEGMENT_HEADER) (drop (length SEGMENT_HEADER) b))"

section \<open>Walking history backwards\<close>

text \<open>
  \<open>iter_record_chain\<close>. Every reference is read at most once, so what the file system shows
  is given per reference. Readable references are canonical, and there are finitely many
  canonical references, so the walk ends.
\<close>

definition canonical_refs :: "string set" where
  "canonical_refs = {r. \<exists>x. parse_record_ref r = Inr x}"

lemma finite_canonical_refs: "finite canonical_refs"
proof (rule finite_subset)
  show "canonical_refs \<subseteq> {xs. set xs \<subseteq> UNIV \<and> length xs \<le> 106}"
    by (auto simp: canonical_refs_def dest: parse_record_ref_length)
qed (rule finite_lists_length_le, simp)

lemma read_record_canonical: "read_record views r = Inr f \<Longrightarrow> r \<in> canonical_refs"
  by (auto simp: read_record_def res_simps canonical_refs_def)

function chain_walk ::
  "(string \<Rightarrow> journal list) \<Rightarrow> string list \<Rightarrow> string \<Rightarrow> (string \<times> obj option) list" where
  "chain_walk views visited current =
     (if current = ''init'' \<or> current \<in> set visited then []
      else case read_record (views current) current of
        Inl _ \<Rightarrow> [(current, None)]
      | Inr frame \<Rightarrow>
          (current, Some frame) #
          (case get frame ''previous_record_ref'' of
             JStr previous \<Rightarrow>
               if previous = ''init'' then [] else chain_walk views (current # visited) previous
           | _ \<Rightarrow> []))"
  by auto
termination
proof (relation "measure (\<lambda>(_, visited, _). card (canonical_refs - set visited))")
  fix views visited current frame previous
  assume "\<not> (current = ''init'' \<or> current \<in> set visited)"
    and "read_record (views current) current = Inr frame"
  then have "canonical_refs - set (current # visited) \<subset> canonical_refs - set visited"
    using read_record_canonical by auto
  then show "((views, current # visited, previous), views, visited, current)
      \<in> measure (\<lambda>(_, visited, _). card (canonical_refs - set visited))"
    by (simp add: psubset_card_mono finite_canonical_refs)
qed simp

declare chain_walk.simps [simp del]

definition iter_record_chain ::
  "(string \<Rightarrow> journal list) \<Rightarrow> string \<Rightarrow> (string \<times> obj option) list" where
  "iter_record_chain views ref = chain_walk views [] ref"

section \<open>Segment files as a store\<close>

lemma base36_text_inject [simp]: "base36_text m = base36_text n \<longleftrightarrow> m = n"
  by (metis of_base36_text)

lemma segment_file_inject [simp]: "segment_file m = segment_file n \<longleftrightarrow> m = n"
  by (simp add: segment_file_def)

lemma segment_bytes_set [simp]:
  "segment_bytes (set_segment J w n b) w' n' = (if w' = w \<and> n' = n then Some b else segment_bytes J w' n')"
  by (auto simp: segment_bytes_def set_segment_def split: option.splits)

lemma segment_header_length [simp]: "length SEGMENT_HEADER = 12"
  by (simp add: SEGMENT_HEADER_def)

lemma write_at_end [simp]: "write_at (length b) data b = b @ data"
  by (simp add: write_at_def)

lemma length_bytes_length [simp]: "length (length_bytes p) = 8"
  by (simp add: length_bytes_def)

lemma frame_checksum_length [simp]: "length (frame_checksum p) = 32"
  by (simp add: frame_checksum_def)

lemma frame_bytes_length [simp]: "length (frame_bytes p) = 48 + length p"
  by (simp add: frame_bytes_def)

lemma checksum_prefix_facts [simp]:
  "length c = 32 \<Longrightarrow> length (checksum_prefix c) = 32" "all_in hex_chars (checksum_prefix c)"
  by (simp_all add: checksum_prefix_def hex_text_all_in)

lemma length_bytes_value: "length p < 2 ^ 64 \<Longrightarrow> be_value (length_bytes p) = length p"
  unfolding length_bytes_def by (rule be_value_bytes) simp

section \<open>Reading a written frame\<close>

definition decode_payload :: "string \<Rightarrow> frame_problem + obj" where
  "decode_payload p =
     (case json_decode True p of
        None \<Rightarrow> Inl undecodable_frame
      | Some (JObj m) \<Rightarrow> Inr m
      | Some _ \<Rightarrow> Inl not_an_object)"

lemma read_frame_parts:
  assumes "take 12 b = SEGMENT_HEADER" and "take 8 (drop off b) = l" and "length l = 8"
    and "be_value l = len"
  shows "read_frame (Some b) off len h =
     (let payload = take len (drop (off + 8) b); checksum = take 32 (drop (off + 8 + len) b);
          trailer = take 8 (drop (off + 8 + len + 32) b)
      in if length payload \<noteq> len \<or> length checksum \<noteq> 32 \<or> length trailer \<noteq> 8 then Inl short_read
         else if trailer \<noteq> l then Inl trailer_mismatch
         else if sha256 (l @ payload) \<noteq> checksum then Inl checksum_mismatch
         else if checksum_prefix checksum \<noteq> h then Inl reference_mismatch
         else decode_payload payload)"
  unfolding read_frame_def option.case segment_header_length decode_payload_def assms Let_def
  by (simp only: segment_header_length if_False simp_thms)

lemma read_frame_written:
  assumes "take 12 (pre @ frame_bytes p @ post) = SEGMENT_HEADER" and "length p < 2 ^ 64"
  shows "read_frame (Some (pre @ frame_bytes p @ post)) (length pre) (length p)
           (checksum_prefix (frame_checksum p)) = decode_payload p"
proof -
  let ?l = "length_bytes p" and ?c = "frame_checksum p"
  let ?b = "pre @ frame_bytes p @ post"
  have b: "?b = pre @ ?l @ p @ ?c @ ?l @ post" by (simp add: frame_bytes_def)
  have "take 8 (drop (length pre) ?b) = ?l" "take (length p) (drop (length pre + 8) ?b) = p"
    "take 32 (drop (length pre + 8 + length p) ?b) = ?c"
    "take 8 (drop (length pre + 8 + length p + 32) ?b) = ?l"
    unfolding b by simp_all
  moreover have "sha256 (?l @ p) = ?c" by (simp add: frame_checksum_def)
  ultimately show ?thesis
    using read_frame_parts [OF assms(1), of "length pre" ?l] length_bytes_value [OF assms(2)]
    by (simp only: Let_def length_bytes_length frame_checksum_length if_False simp_thms)
qed

text \<open>A reader that sees only a prefix of the segment reports a transient problem.\<close>

lemma read_frame_torn:
  assumes "take 12 (pre @ frame_bytes p @ post) = SEGMENT_HEADER" and "length p < 2 ^ 64"
    and "n < length pre + length (frame_bytes p)"
  shows "read_frame (Some (take n (pre @ frame_bytes p @ post))) (length pre) (length p) h = Inl short_read"
proof -
  define b where "b = take n (pre @ frame_bytes p @ post)"
  have len: "length b \<le> n" by (simp add: b_def)
  have pre: "take k b = take k (pre @ frame_bytes p @ post)" if "k \<le> n" for k
    unfolding b_def using that by (simp only: take_take min_absorb1)
  have "read_frame (Some b) (length pre) (length p) h = Inl short_read"
  proof (cases "length b < 12 \<or> length b < length pre + 8")
    case True
    then have "length (take 12 b) \<noteq> 12 \<or> (length (take 8 (drop (length pre) b)) \<noteq> 8 \<and>
        take 12 b = SEGMENT_HEADER)"
      using pre [of 12] assms(1) len by auto
    then show ?thesis
      by (auto simp: read_frame_def Let_def simp del: length_take length_drop)
  next
    case False
    have h: "take 12 b = SEGMENT_HEADER" using pre [of 12] assms(1) len False by simp
    have "take 8 (drop (length pre) b) = drop (length pre) (take (length pre + 8) b)"
      by (simp add: drop_take)
    also have "\<dots> = length_bytes p"
      using pre [of "length pre + 8"] len False by (simp add: frame_bytes_def)
    finally have l: "take 8 (drop (length pre) b) = length_bytes p" .
    have "length (take 8 (drop (length pre + 8 + length p + 32) b)) \<noteq> 8"
      using assms(3) len by simp
    then show ?thesis
      using read_frame_parts [OF h l length_bytes_length length_bytes_value [OF assms(2)]]
      by (simp only: Let_def not_False_eq_True if_True simp_thms)
  qed
  then show ?thesis by (simp only: b_def)
qed

end
