(* ===== verification/Journal_Correct.thy ===== *)
theory Journal_Correct
  imports Journal
begin

text \<open>
  Correctness of the journal: a record that was appended is read back through its
  reference, no later append changes what an earlier reference reads, a reader that sees
  only a prefix of a segment retries instead of reporting damage, segments rotate before
  they exceed their maximum, the segment walk finds exactly the written frames, and the
  walk through history ends without repeating a reference.
\<close>

declare json_bytes.simps [simp del]

section \<open>Extension of the journal\<close>

text \<open>Segments only grow at their end.\<close>

definition journal_extends :: "journal \<Rightarrow> journal \<Rightarrow> bool" where
  "journal_extends J J' \<longleftrightarrow>
     (\<forall>w n b. segment_bytes J w n = Some b \<longrightarrow> (\<exists>s. segment_bytes J' w n = Some (b @ s)))"

lemma journal_extends_refl [simp]: "journal_extends J J"
  by (auto simp: journal_extends_def)

lemma journal_extends_trans: "journal_extends J J' \<Longrightarrow> journal_extends J' J'' \<Longrightarrow> journal_extends J J''"
  unfolding journal_extends_def by (metis append.assoc)

lemma journal_extends_set:
  "segment_bytes J w n = None \<or> segment_bytes J w n = Some b \<Longrightarrow>
     journal_extends J (set_segment J w n (b @ s))"
  by (auto simp: journal_extends_def)

lemma take_drop_extend:
  "length (take k (drop i b)) = k \<Longrightarrow> take k (drop i (b @ s)) = take k (drop i b)"
  by (cases "k = 0") (auto simp: min_def split: if_splits)

lemma read_frame_Inr:
  assumes "read_frame (Some b) off len h = Inr v"
  shows "take 12 b = SEGMENT_HEADER \<and> length (take 8 (drop off b)) = 8 \<and>
    be_value (take 8 (drop off b)) = len"
  using assms unfolding read_frame_def option.case segment_header_length Let_def
  by (simp del: length_take length_drop split: if_splits)

lemma read_frame_extend:
  assumes "read_frame (Some b) off len h = Inr v"
  shows "read_frame (Some (b @ s)) off len h = Inr v"
proof -
  note l = read_frame_Inr [OF assms]
  have hdr: "take 12 (b @ s) = SEGMENT_HEADER"
  proof -
    have "length (take 12 (drop 0 b)) = 12" using l by simp
    from take_drop_extend [OF this, of s] l show ?thesis by simp
  qed
  have lb: "take 8 (drop off (b @ s)) = take 8 (drop off b)" using l take_drop_extend by blast
  show ?thesis
  proof (cases "length (take len (drop (off + 8) b)) \<noteq> len \<or>
      length (take 32 (drop (off + 8 + len) b)) \<noteq> 32 \<or>
      length (take 8 (drop (off + 8 + len + 32) b)) \<noteq> 8")
    case True
    then have "read_frame (Some b) off len h = Inl short_read"
      using read_frame_parts [of b off "take 8 (drop off b)" len h] l
      by (simp only: Let_def if_True simp_thms)
    with assms show ?thesis by simp
  next
    case False
    then have "take len (drop (off + 8) (b @ s)) = take len (drop (off + 8) b)"
      "take 32 (drop (off + 8 + len) (b @ s)) = take 32 (drop (off + 8 + len) b)"
      "take 8 (drop (off + 8 + len + 32) (b @ s)) = take 8 (drop (off + 8 + len + 32) b)"
      using take_drop_extend by blast+
    then have "read_frame (Some (b @ s)) off len h = read_frame (Some b) off len h"
      using read_frame_parts [of b off "take 8 (drop off b)" len h]
        read_frame_parts [OF hdr lb, of len h] l
      by (simp only: simp_thms)
    with assms show ?thesis by simp
  qed
qed

lemma read_record_extends:
  assumes "journal_extends J J'" and "read_record [J] ref = Inr v"
  shows "read_record [J'] ref = Inr v"
proof -
  obtain w sg off len h where p: "parse_record_ref ref = Inr (w, sg, off, len, h)"
    and r: "read_attempts [segment_bytes J w sg] off len h = Inr v"
    using assms(2) by (auto simp: read_record_def res_simps)
  have f: "read_frame (segment_bytes J w sg) off len h = Inr v"
    using r by (auto split: sum.splits if_splits)
  then obtain b where b: "segment_bytes J w sg = Some b"
    by (cases "segment_bytes J w sg") (auto simp: read_frame_def)
  then obtain s where "segment_bytes J' w sg = Some (b @ s)"
    using assms(1) unfolding journal_extends_def by blast
  with f b p show ?thesis by (simp add: read_record_def read_frame_extend)
qed

section \<open>The writer\<close>

definition writer_inv :: "journal_writer \<Rightarrow> journal \<Rightarrow> bool" where
  "writer_inv w J \<longleftrightarrow>
     uuid_pattern (jw_writer_id w) \<and> jw_maximum_segment_bytes w < 2 ^ 63 \<and>
     (case jw_handle w of
        None \<Rightarrow> True
      | Some tell \<Rightarrow>
          tell < 2 ^ 64 \<and> jw_segment_number w < 2 ^ 32 \<and>
          (case segment_bytes J (jw_writer_id w) (jw_segment_number w) of
             None \<Rightarrow> False
           | Some b \<Rightarrow> length b = tell \<and> take 12 b = SEGMENT_HEADER))"

text \<open>A record that the writer can store: its canonical text reads back and its length fits.\<close>

definition storable :: "obj \<Rightarrow> bool" where
  "storable r \<longleftrightarrow> json_ok (JObj r) \<and> length (json_bytes (JObj r)) < 2 ^ 62"

definition stored :: "obj \<Rightarrow> obj" where
  "stored r = (case canon (JObj r) of JObj m \<Rightarrow> m | _ \<Rightarrow> [])"

lemma stored_canon: "canon (JObj r) = JObj (stored r)"
  by (simp add: stored_def)

lemma storable_decode: "storable r \<Longrightarrow> decode_payload (json_bytes (JObj r)) = Inr (stored r)"
  unfolding storable_def decode_payload_def by (simp only: json_decode_bytes stored_canon) simp

lemma journal_writer_init_inv:
  assumes "journal_writer_init i m J = (Inr u, w, J')" and "m < 2 ^ 63"
  shows "writer_inv w J' \<and> journal_extends J J' \<and> jw_writer_id w = i"
  using assms
  by (auto simp: journal_writer_init_def open_segment_def Let_def writer_inv_def journal_extends_def
      segment_bytes_def set_segment_def SEGMENT_HEADER_def split: if_splits option.splits)

lemma rotate_facts:
  assumes "writer_inv w J" and "rotate_if_needed w n J = (x, w', J')"
  shows "writer_inv w' J' \<and> journal_extends J J' \<and> jw_writer_id w' = jw_writer_id w \<and>
    jw_maximum_segment_bytes w' = jw_maximum_segment_bytes w \<and>
    (\<forall>u. x = Inr u \<longrightarrow> (\<exists>tell. jw_handle w' = Some tell \<and>
      (tell = 12 \<or> tell + n \<le> jw_maximum_segment_bytes w)))"
proof (cases "jw_handle w")
  case None
  with assms show ?thesis by (auto simp: rotate_if_needed_def)
next
  case (Some tell)
  show ?thesis
  proof (cases "tell = 12 \<or> tell + n \<le> jw_maximum_segment_bytes w")
    case True
    with Some assms show ?thesis by (auto simp: rotate_if_needed_def split: if_splits)
  next
    case False
    let ?w = "w\<lparr>jw_handle := None, jw_segment_number := jw_segment_number w + 1\<rparr>"
    have r: "open_segment ?w (jw_segment_number w + 1) J = (x, w', J')"
      using assms(2) Some False by (simp add: rotate_if_needed_def Let_def)
    have "writer_inv ?w J" using assms(1) by (simp add: writer_inv_def)
    with r show ?thesis
      using journal_extends_set [of J "jw_writer_id w" "jw_segment_number w + 1" SEGMENT_HEADER "[]"]
      by (auto simp: open_segment_def writer_inv_def SEGMENT_HEADER_def [symmetric]
          split: if_splits option.splits)
  qed
qed

text \<open>What a successful append leaves: the frame is the end of the current segment.\<close>

lemma append_facts:
  assumes "writer_inv w J" and "append_record w r J = (Inr ref, w', J')"
  shows "\<exists>pre.
    segment_bytes J' (jw_writer_id w) (jw_segment_number w')
      = Some (pre @ frame_bytes (json_bytes (JObj r))) \<and>
    take 12 pre = SEGMENT_HEADER \<and> length pre < 2 ^ 64 \<and> jw_segment_number w' < 2 ^ 32 \<and>
    ref = encode_record_ref (jw_writer_id w) (jw_segment_number w') (length pre)
      (length (json_bytes (JObj r))) (checksum_prefix (frame_checksum (json_bytes (JObj r)))) \<and>
    jw_writer_id w' = jw_writer_id w \<and>
    jw_maximum_segment_bytes w' = jw_maximum_segment_bytes w \<and>
    jw_handle w' = Some (length pre + length (frame_bytes (json_bytes (JObj r)))) \<and>
    (length pre = 12 \<or>
       length pre + length (frame_bytes (json_bytes (JObj r))) \<le> jw_maximum_segment_bytes w) \<and>
    journal_extends J J' \<and>
    (\<forall>b. segment_bytes J (jw_writer_id w) (jw_segment_number w') = Some b \<longrightarrow> b = pre)"
proof -
  let ?p = "json_bytes (JObj r)"
  obtain u w1 J1 where rot: "rotate_if_needed w (length (frame_bytes ?p)) J = (Inr u, w1, J1)"
    using assms(2)
    by (cases "rotate_if_needed w (length (frame_bytes ?p)) J")
      (auto simp: append_record_def Let_def simp del: frame_bytes_length
        split: if_splits sum.splits)
  note rf = rotate_facts [OF assms(1) rot]
  obtain tell where t: "jw_handle w1 = Some tell"
    and fit: "tell = 12 \<or> tell + length (frame_bytes ?p) \<le> jw_maximum_segment_bytes w"
    using rf by auto
  obtain b where b: "segment_bytes J1 (jw_writer_id w) (jw_segment_number w1) = Some b"
    "length b = tell" "take 12 b = SEGMENT_HEADER" "tell < 2 ^ 64" "jw_segment_number w1 < 2 ^ 32"
    using rf t by (auto simp: writer_inv_def split: option.splits)
  have u8: "utf8_valid False ?p"
    using assms(2) by (auto simp: append_record_def Let_def split: if_splits)
  have wa: "write_at tell (frame_bytes ?p) b = b @ frame_bytes ?p"
    using b(2) write_at_end by blast
  have i: "jw_writer_id w1 = jw_writer_id w" using rf by simp
  have eqs: "ref = encode_record_ref (jw_writer_id w) (jw_segment_number w1) (length b)
      (length ?p) (checksum_prefix (frame_checksum ?p))"
    "w' = w1\<lparr>jw_handle := Some (length b + length (frame_bytes ?p))\<rparr>"
    "J' = set_segment J1 (jw_writer_id w) (jw_segment_number w1) (b @ frame_bytes ?p)"
    using assms(2) u8 wa i t b(1,2) unfolding append_record_def Let_def rot
    by (auto simp del: frame_bytes_length)
  have "journal_extends J1 J'"
    unfolding eqs by (rule journal_extends_set) (simp add: b)
  then have ext: "journal_extends J J'" using rf by (blast intro: journal_extends_trans)
  have pre: "c = b" if "segment_bytes J (jw_writer_id w) (jw_segment_number w1) = Some c" for c
  proof -
    have "rotate_if_needed w (length (frame_bytes ?p)) J = (Inr u, w1, J1)" by (rule rot)
    then consider "w1 = w" "J1 = J"
      | "segment_bytes J (jw_writer_id w) (jw_segment_number w1) = None"
      by (auto simp: rotate_if_needed_def open_segment_def Let_def split: option.splits if_splits)
    then show ?thesis using that b by cases auto
  qed
  show ?thesis
    using b eqs rf fit ext pre by (intro exI [of _ b]) auto
qed

lemma append_error_facts:
  assumes "writer_inv w J" and "append_record w r J = (Inl e, w', J')"
  shows "writer_inv w' J' \<and> journal_extends J J'"
proof (cases "utf8_valid False (json_bytes (JObj r))")
  case True
  then have "rotate_if_needed w (length (frame_bytes (json_bytes (JObj r)))) J = (Inl e, w', J')"
    using assms(2)
    by (auto simp: append_record_def Let_def simp del: frame_bytes_length
        split: prod.splits sum.splits)
  with rotate_facts [OF assms(1)] show ?thesis by blast
next
  case False
  with assms show ?thesis by (simp add: append_record_def Let_def)
qed

lemma append_inv:
  assumes "writer_inv w J" and "storable r" and "append_record w r J = (x, w', J')"
  shows "writer_inv w' J'"
proof (cases x)
  case (Inl e)
  with append_error_facts [OF assms(1)] assms(3) show ?thesis by simp
next
  case (Inr ref)
  let ?p = "json_bytes (JObj r)"
  obtain pre where f: "segment_bytes J' (jw_writer_id w) (jw_segment_number w') = Some (pre @ frame_bytes ?p)"
    "take 12 pre = SEGMENT_HEADER" "jw_segment_number w' < 2 ^ 32" "jw_writer_id w' = jw_writer_id w"
    "jw_maximum_segment_bytes w' = jw_maximum_segment_bytes w"
    "jw_handle w' = Some (length pre + length (frame_bytes ?p))"
    "length pre = 12 \<or> length pre + length (frame_bytes ?p) \<le> jw_maximum_segment_bytes w"
    using append_facts [OF assms(1) assms(3) [unfolded Inr]] by blast
  have m: "jw_maximum_segment_bytes w < 2 ^ 63" "uuid_pattern (jw_writer_id w)"
    using assms(1) by (simp_all add: writer_inv_def)
  have "length ?p < 2 ^ 62" using assms(2) by (simp add: storable_def)
  with f(7) m(1) have "length pre + length (frame_bytes ?p) < 2 ^ 64" by auto
  moreover have "take 12 (pre @ frame_bytes ?p) = SEGMENT_HEADER"
    using f(2) by (metis append_take_drop_id append_eq_conv_conj segment_header_length append.assoc)
  ultimately show ?thesis using f m by (simp add: writer_inv_def)
qed

lemma append_extends:
  "writer_inv w J \<Longrightarrow> append_record w r J = (x, w', J') \<Longrightarrow> journal_extends J J'"
  using append_facts append_error_facts by (cases x) blast+

lemma append_ref:
  assumes "writer_inv w J" and "storable r" and "append_record w r J = (Inr ref, w', J')"
  shows "\<exists>pre. segment_bytes J' (jw_writer_id w) (jw_segment_number w')
      = Some (pre @ frame_bytes (json_bytes (JObj r))) \<and>
    take 12 pre = SEGMENT_HEADER \<and>
    parse_record_ref ref = Inr (jw_writer_id w, jw_segment_number w', length pre,
      length (json_bytes (JObj r)), checksum_prefix (frame_checksum (json_bytes (JObj r)))) \<and>
    (\<forall>b. segment_bytes J (jw_writer_id w) (jw_segment_number w') = Some b \<longrightarrow> b = pre)"
proof -
  let ?p = "json_bytes (JObj r)"
  obtain pre where f: "segment_bytes J' (jw_writer_id w) (jw_segment_number w') = Some (pre @ frame_bytes ?p)"
    "take 12 pre = SEGMENT_HEADER" "length pre < 2 ^ 64" "jw_segment_number w' < 2 ^ 32"
    "ref = encode_record_ref (jw_writer_id w) (jw_segment_number w') (length pre) (length ?p)
       (checksum_prefix (frame_checksum ?p))"
    "\<forall>b. segment_bytes J (jw_writer_id w) (jw_segment_number w') = Some b \<longrightarrow> b = pre"
    using append_facts [OF assms(1,3)] by blast
  have "length ?p < 2 ^ 64" using assms(2) by (simp add: storable_def)
  moreover have "uuid_pattern (jw_writer_id w)" using assms(1) by (simp add: writer_inv_def)
  ultimately have "parse_record_ref ref = Inr (jw_writer_id w, jw_segment_number w', length pre,
      length ?p, checksum_prefix (frame_checksum ?p))"
    unfolding f(5) using f(3,4) by (intro parse_encode_record_ref) simp_all
  with f show ?thesis by blast
qed

lemma header_prefix: "take 12 pre = SEGMENT_HEADER \<Longrightarrow> take 12 (pre @ s) = SEGMENT_HEADER"
proof -
  assume h: "take 12 pre = SEGMENT_HEADER"
  then have "length (take 12 pre) = 12" by (simp only: segment_header_length)
  then have "12 \<le> length pre" unfolding length_take by arith
  then show ?thesis using h by simp
qed

text \<open>What a reader sees of a segment that lags behind: nothing, or a prefix of its bytes.\<close>

definition lags :: "journal \<Rightarrow> journal \<Rightarrow> bool" where
  "lags V J \<longleftrightarrow>
     (\<forall>w n b. segment_bytes V w n = Some b \<longrightarrow> (\<exists>s. segment_bytes J w n = Some (b @ s)))"

lemma read_attempts_lagging:
  assumes "storable r" and "take 12 pre = SEGMENT_HEADER"
    and "\<And>v. v \<in> set views \<Longrightarrow> v = None \<or> (\<exists>n. v = Some (take n (pre @ frame_bytes (json_bytes (JObj r)) @ post)))"
  shows "let x = read_attempts views (length pre) (length (json_bytes (JObj r)))
      (checksum_prefix (frame_checksum (json_bytes (JObj r))))
    in (x = Inr (stored r) \<or> x = Inl WorkspaceUnavailableError) \<and>
       (Some (pre @ frame_bytes (json_bytes (JObj r)) @ post) \<in> set views \<longrightarrow> x = Inr (stored r))"
  using assms(3)
proof (induction views)
  case (Cons v views)
  let ?p = "json_bytes (JObj r)"
  let ?b = "pre @ frame_bytes ?p @ post"
  let ?read = "\<lambda>v. read_frame v (length pre) (length ?p) (checksum_prefix (frame_checksum ?p))"
  have hdr: "take 12 ?b = SEGMENT_HEADER" using assms(2) by (rule header_prefix)
  have len: "length ?p < 2 ^ 64" using assms(1) by (simp add: storable_def)
  have full: "?read (Some ?b) = Inr (stored r)"
    using read_frame_written [OF hdr len] storable_decode [OF assms(1)] by simp
  have "?read v = Inr (stored r) \<or> (\<exists>q. ?read v = Inl q \<and> transient q \<and> v \<noteq> Some ?b)"
  proof (cases v)
    case None
    then show ?thesis by (simp add: read_frame_def transient_def)
  next
    case (Some c)
    then obtain n where c: "c = take n ?b" using Cons.prems [of v] by auto
    show ?thesis
    proof (cases "n < length pre + length (frame_bytes ?p)")
      case True
      have "length c \<le> n" unfolding c by simp
      then have "c \<noteq> ?b" using True by auto
      with Some c read_frame_torn [OF hdr len True] show ?thesis by (simp add: transient_def)
    next
      case False
      then have "c = pre @ frame_bytes ?p @ take (n - (length pre + length (frame_bytes ?p))) post"
        unfolding c by simp
      with Some read_frame_written [OF header_prefix [OF assms(2)] len] storable_decode [OF assms(1)]
      show ?thesis by simp
    qed
  qed
  moreover have IH: "let x = read_attempts views (length pre) (length ?p) (checksum_prefix (frame_checksum ?p))
    in (x = Inr (stored r) \<or> x = Inl WorkspaceUnavailableError) \<and>
       (Some ?b \<in> set views \<longrightarrow> x = Inr (stored r))"
    by (rule Cons.IH) (use Cons.prems in auto)
  ultimately show ?case unfolding Let_def by auto
qed simp

section \<open>The record store interface\<close>

text \<open>
  What the rest of the system relies on: appending returns a reference that reads the
  record back, earlier references keep reading what they read, also when an append fails,
  and a returned reference was unused before.
\<close>

fun append_all :: "('s \<Rightarrow> 'r \<Rightarrow> 'x \<times> 's) \<Rightarrow> 's \<Rightarrow> 'r list \<Rightarrow> 'x list \<times> 's" where
  "append_all app s [] = ([], s)"
| "append_all app s (r # rs) =
     (case app s r of (x, s') \<Rightarrow> (case append_all app s' rs of (xs, s'') \<Rightarrow> (x # xs, s'')))"

locale record_store =
  fixes app :: "'s \<Rightarrow> 'r \<Rightarrow> ('e + 'ref) \<times> 's"
    and rd :: "'s \<Rightarrow> 'ref \<Rightarrow> 'e + 'v"
    and inv :: "'s \<Rightarrow> bool"
    and ok :: "'r \<Rightarrow> bool"
    and norm :: "'r \<Rightarrow> 'v"
  assumes app_inv: "inv s \<Longrightarrow> ok r \<Longrightarrow> app s r = (x, s') \<Longrightarrow> inv s'"
    and app_read: "inv s \<Longrightarrow> ok r \<Longrightarrow> app s r = (Inr ref, s') \<Longrightarrow> rd s' ref = Inr (norm r)"
    and app_keeps: "inv s \<Longrightarrow> app s r = (x, s') \<Longrightarrow> rd s ref = Inr v \<Longrightarrow> rd s' ref = Inr v"
    and app_fresh: "inv s \<Longrightarrow> ok r \<Longrightarrow> app s r = (Inr ref, s') \<Longrightarrow> rd s ref \<noteq> Inr v"
begin

lemma all_inv:
  "inv s \<Longrightarrow> list_all ok rs \<Longrightarrow> append_all app s rs = (xs, s') \<Longrightarrow> inv s'"
  by (induction rs arbitrary: s xs) (auto split: prod.splits intro: app_inv)

lemma all_keeps:
  "inv s \<Longrightarrow> list_all ok rs \<Longrightarrow> append_all app s rs = (xs, s') \<Longrightarrow> rd s ref = Inr v \<Longrightarrow>
     rd s' ref = Inr v"
  by (induction rs arbitrary: s xs) (auto split: prod.splits dest: app_inv app_keeps)

text \<open>Every reference of a run of appends reads its own record at the end of the run.\<close>

lemma all_read:
  "inv s \<Longrightarrow> list_all ok rs \<Longrightarrow> append_all app s rs = (xs, s') \<Longrightarrow>
     list_all2 (\<lambda>r x. \<forall>ref. x = Inr ref \<longrightarrow> rd s' ref = Inr (norm r)) rs xs"
proof (induction rs arbitrary: s xs)
  case (Cons r rs)
  obtain x s1 where a: "app s r = (x, s1)" by (cases "app s r")
  obtain ys where b: "append_all app s1 rs = (ys, s')" and xs: "xs = x # ys"
    using Cons.prems(3) a by (auto split: prod.splits)
  have i: "inv s1" using app_inv [OF Cons.prems(1) _ a] Cons.prems(2) by simp
  have "rd s' ref = Inr (norm r)" if "x = Inr ref" for ref
    using all_keeps [OF i _ b app_read [OF Cons.prems(1), of r ref s1]] Cons.prems(2) a that by simp
  with Cons.IH [OF i _ b] Cons.prems(2) xs show ?case by simp
qed simp

text \<open>The references of a run are pairwise different.\<close>

lemma all_distinct:
  "inv s \<Longrightarrow> list_all ok rs \<Longrightarrow> append_all app s rs = (xs, s') \<Longrightarrow>
     distinct (filter (\<lambda>x. \<exists>ref. x = Inr ref) xs) \<and>
     (\<forall>ref v. Inr ref \<in> set xs \<longrightarrow> rd s ref \<noteq> Inr v)"
proof (induction rs arbitrary: s xs)
  case (Cons r rs)
  obtain x s1 where a: "app s r = (x, s1)" by (cases "app s r")
  obtain ys where b: "append_all app s1 rs = (ys, s')" and xs: "xs = x # ys"
    using Cons.prems(3) a by (auto split: prod.splits)
  have i: "inv s1" using app_inv [OF Cons.prems(1) _ a] Cons.prems(2) by simp
  have IH: "distinct (filter (\<lambda>x. \<exists>ref. x = Inr ref) ys)"
    "\<And>ref v. Inr ref \<in> set ys \<Longrightarrow> rd s1 ref \<noteq> Inr v"
    using Cons.IH [OF i _ b] Cons.prems(2) by auto
  have new: "x \<notin> set ys" if "x = Inr ref" for ref
    using IH(2) app_read [OF Cons.prems(1), of r ref s1] Cons.prems(2) a that by auto
  have "rd s ref \<noteq> Inr v" if "Inr ref \<in> set xs" for ref v
    using that xs a Cons.prems(1,2) IH(2) app_keeps [OF Cons.prems(1) a]
      app_fresh [OF Cons.prems(1), of r ref s1 v] by auto
  then show ?case using IH(1) new xs by auto
qed simp

end

text \<open>The journal of one writer as a record store.\<close>

definition store_append ::
  "journal_writer \<times> journal \<Rightarrow> obj \<Rightarrow> string res \<times> (journal_writer \<times> journal)" where
  "store_append s r = (case s of (w, J) \<Rightarrow> append_record w r J)"

definition store_read :: "journal_writer \<times> journal \<Rightarrow> string \<Rightarrow> obj res" where
  "store_read s ref = read_record [snd s] ref"

definition store_inv :: "journal_writer \<times> journal \<Rightarrow> bool" where
  "store_inv s = writer_inv (fst s) (snd s)"

interpretation js: record_store store_append store_read store_inv storable stored
proof
  fix s r x s'
  assume i: "store_inv s" and k: "storable r" and a: "store_append s r = (x, s')"
  show "store_inv s'"
    using append_inv [of "fst s" "snd s" r x "fst s'" "snd s'"] i k a
    by (simp add: store_inv_def store_append_def split_beta)
next
  fix s r ref s'
  assume i: "store_inv s" and k: "storable r" and a: "store_append s r = (Inr ref, s')"
  let ?p = "json_bytes (JObj r)"
  have a': "append_record (fst s) r (snd s) = (Inr ref, fst s', snd s')"
    using a by (simp add: store_append_def split_beta)
  obtain pre where f: "segment_bytes (snd s') (jw_writer_id (fst s)) (jw_segment_number (fst s'))
      = Some (pre @ frame_bytes ?p)" "take 12 pre = SEGMENT_HEADER"
    "parse_record_ref ref = Inr (jw_writer_id (fst s), jw_segment_number (fst s'), length pre,
      length ?p, checksum_prefix (frame_checksum ?p))"
    "\<forall>b. segment_bytes (snd s) (jw_writer_id (fst s)) (jw_segment_number (fst s')) = Some b \<longrightarrow> b = pre"
    using append_ref [OF i [unfolded store_inv_def] k a'] by blast
  have "read_attempts [Some (pre @ frame_bytes ?p @ [])] (length pre) (length ?p)
      (checksum_prefix (frame_checksum ?p)) = Inr (stored r)"
    using read_attempts_lagging [OF k f(2), of "[Some (pre @ frame_bytes ?p @ [])]" "[]"]
    unfolding Let_def by (metis list.set_intros(1) empty_iff list.set(1) set_ConsD take_all order_refl)
  with f show "store_read s' ref = Inr (stored r)"
    by (simp add: store_read_def read_record_def)
  fix v
  show "store_read s ref \<noteq> Inr v"
  proof
    assume "store_read s ref = Inr v"
    then have "read_frame (segment_bytes (snd s) (jw_writer_id (fst s)) (jw_segment_number (fst s')))
        (length pre) (length ?p) (checksum_prefix (frame_checksum ?p)) = Inr v"
      using f(3) by (auto simp: store_read_def read_record_def split: sum.splits if_splits)
    moreover from this have "segment_bytes (snd s) (jw_writer_id (fst s)) (jw_segment_number (fst s'))
        = Some pre"
      using f(4) by (cases "segment_bytes (snd s) (jw_writer_id (fst s)) (jw_segment_number (fst s'))")
        (auto simp: read_frame_def)
    ultimately show False using read_frame_Inr by fastforce
  qed
next
  fix s r x s' ref v
  assume i: "store_inv s" and a: "store_append s r = (x, s')" and v: "store_read s ref = Inr v"
  have "journal_extends (snd s) (snd s')"
    using append_extends [of "fst s" "snd s" r x "fst s'" "snd s'"] i a
    by (simp add: store_inv_def store_append_def split_beta)
  with v show "store_read s' ref = Inr v"
    unfolding store_read_def by (rule read_record_extends [rotated])
qed

section \<open>Walking a written segment\<close>

text \<open>The frames a segment of given payloads holds, from an offset on.\<close>

fun written_frames :: "string \<Rightarrow> nat \<Rightarrow> nat \<Rightarrow> string list \<Rightarrow> journal_frame list" where
  "written_frames w sg off [] = []"
| "written_frames w sg off (p # ps) =
     (case json_decode True p of
        Some (JObj m) \<Rightarrow>
          [\<lparr>jf_record_ref = encode_record_ref w sg off (length p) (checksum_prefix (frame_checksum p)),
            jf_writer_id = w, jf_segment = sg, jf_offset = off, jf_frame = m\<rparr>]
      | _ \<Rightarrow> []) @ written_frames w sg (off + (48 + length p)) ps"

lemma maximum_frame_64: "n \<le> MAXIMUM_FRAME_BYTES \<Longrightarrow> n < 2 ^ 64"
  by (simp add: MAXIMUM_FRAME_BYTES_def)

lemma segment_walk_frame:
  assumes "length p \<le> MAXIMUM_FRAME_BYTES"
  shows "segment_walk w sg off (frame_bytes p @ rest)
    = written_frames w sg off [p] @ segment_walk w sg (off + (48 + length p)) rest"
proof -
  let ?l = "length_bytes p" and ?c = "frame_checksum p"
  let ?b = "frame_bytes p @ rest"
  have b: "?b = ?l @ p @ ?c @ ?l @ rest" by (simp add: frame_bytes_def)
  have v: "be_value ?l = length p"
    using length_bytes_value [OF maximum_frame_64 [OF assms]] .
  have parts: "take 8 ?b = ?l" "take (length p) (drop 8 ?b) = p"
    "take 32 (drop (8 + length p) ?b) = ?c" "take 8 (drop (8 + length p + 32) ?b) = ?l"
    "drop (48 + length p) ?b = rest"
    unfolding b by simp_all
  have s: "sha256 (?l @ p) = ?c" by (simp add: frame_checksum_def)
  show ?thesis
    unfolding segment_walk.simps [of w sg off ?b] Let_def parts(1) v parts(2-) s
    using assms by (auto simp: frame_checksum_def split: option.splits json.splits)
qed

lemma segment_walk_torn:
  assumes "n < length (frame_bytes q)" and "length q < 2 ^ 64"
  shows "segment_walk w sg off (take n (frame_bytes q)) = []"
proof -
  define b where "b = take n (frame_bytes q)"
  have len: "length b = n" using assms(1) by (simp add: b_def)
  have "segment_walk w sg off b = []"
  proof (cases "n < 8")
    case True
    then show ?thesis using len by (simp add: segment_walk.simps Let_def)
  next
    case False
    then have l: "take 8 b = length_bytes q"
      by (simp add: b_def min_absorb1 frame_bytes_def)
    have "length (take 8 (drop (8 + length q + 32) b)) \<noteq> 8"
      using assms(1) len by simp
    then have "take 8 (drop (8 + length q + 32) b) \<noteq> length_bytes q"
      by (metis length_bytes_length)
    then show ?thesis
      unfolding segment_walk.simps [of w sg off b] Let_def l length_bytes_value [OF assms(2)]
      by (simp only: length_bytes_length if_True if_False simp_thms if_cancel)
  qed
  then show ?thesis by (simp only: b_def)
qed

lemma segment_walk_written:
  "list_all (\<lambda>p. length p \<le> MAXIMUM_FRAME_BYTES) ps \<Longrightarrow>
     segment_walk w sg off (concat (map frame_bytes ps) @ rest)
     = written_frames w sg off ps @
       segment_walk w sg (off + sum_list (map (\<lambda>p. 48 + length p) ps)) rest"
proof (induction ps arbitrary: off)
  case (Cons p ps)
  then show ?case
    using segment_walk_frame [of p w sg off "concat (map frame_bytes ps) @ rest"]
    by (simp add: add.assoc del: written_frames.simps(1)) (simp add: written_frames.simps)
qed simp

section \<open>Properties\<close>

text \<open>
  C14. Journal history: through a writer whose invariant holds, every reference that a run
  of appends returns reads, at the end of the run, exactly the record it was returned for;
  the references are pairwise different; and every reference that was readable before the
  run still reads the same record. Failing appends in between change nothing of this.
\<close>

theorem journal_history:
  assumes "store_inv s" and "list_all storable rs"
    and "append_all store_append s rs = (xs, s')"
  shows "store_inv s' \<and>
    list_all2 (\<lambda>r x. \<forall>ref. x = Inr ref \<longrightarrow> store_read s' ref = Inr (stored r)) rs xs \<and>
    distinct (filter (\<lambda>x. \<exists>ref. x = Inr ref) xs) \<and>
    (\<forall>ref v. store_read s ref = Inr v \<longrightarrow> store_read s' ref = Inr v)"
  using js.all_inv [OF assms] js.all_read [OF assms] js.all_distinct [OF assms]
    js.all_keeps [OF assms] by blast

definition example_store :: "journal_writer \<times> journal" where
  "example_store = snd (journal_writer_init example_writer 8192 Map.empty)"

lemma example_store_inv: "store_inv example_store"
proof -
  have "journal_writer_init example_writer 8192 Map.empty = (Inr (), example_store)"
    unfolding example_store_def journal_writer_init_def
    by (simp add: Let_def example_ids open_segment_def segment_bytes_def)
  then show ?thesis
    using journal_writer_init_inv [of example_writer 8192 Map.empty "()" "fst example_store" "snd example_store"]
    by (simp add: store_inv_def)
qed

lemma example_writer_state:
  "fst example_store = \<lparr>jw_writer_id = example_writer, jw_maximum_segment_bytes = 8192,
     jw_segment_number = 0, jw_handle = Some 12\<rparr>"
  unfolding example_store_def journal_writer_init_def
  by (simp add: Let_def example_ids open_segment_def segment_bytes_def)

lemma example_append:
  assumes "utf8_valid False (json_bytes (JObj r))"
  shows "\<exists>ref w' J'. append_record (fst example_store) r (snd example_store) = (Inr ref, w', J')"
proof -
  have "rotate_if_needed (fst example_store) n (snd example_store)
      = (Inr (), fst example_store, snd example_store)" for n
    by (simp add: rotate_if_needed_def example_writer_state)
  then show ?thesis
    using assms by (auto simp: append_record_def Let_def split: prod.splits)
qed

lemma example_record_storable: "storable [(''kind'', JStr ''ready''), (''state_generation'', JInt 1)]"
proof -
  let ?r = "JObj [(''kind'', JStr ''ready''), (''state_generation'', JInt 1)]"
  have "json_ok ?r" "length (json_bytes ?r) = 37" by code_simp+
  then show ?thesis by (simp add: storable_def)
qed

theorem journal_history_witness:
  "let r = [(''kind'', JStr ''ready''), (''state_generation'', JInt 1)]
   in case append_all store_append example_store [r, r] of (xs, s') \<Rightarrow>
        store_inv s' \<and>
        list_all2 (\<lambda>r x. \<forall>ref. x = Inr ref \<longrightarrow> store_read s' ref = Inr (stored r)) [r, r] xs"
proof -
  let ?r = "[(''kind'', JStr ''ready''), (''state_generation'', JInt 1)]"
  obtain xs s' where a: "append_all store_append example_store [?r, ?r] = (xs, s')"
    by (cases "append_all store_append example_store [?r, ?r]")
  have k: "list_all storable [?r, ?r]" using example_record_storable by simp
  show ?thesis
    using journal_history [OF example_store_inv k a] unfolding Let_def a by simp
qed

text \<open>
  C31. Visibility: however far the views of the retried read lag behind (each shows nothing of
  the segment, or any prefix of what it became), reading an appended record never reports
  corruption: it yields the record or \<open>WorkspaceUnavailableError\<close>, and it yields the record as
  soon as one attempt sees the segment in full.
\<close>

theorem read_record_visibility:
  assumes "writer_inv w J" and "storable r" and "append_record w r J = (Inr ref, w', J')"
    and "journal_extends J' J''" and "list_all (\<lambda>V. lags V J'') views"
  shows "(read_record views ref = Inr (stored r) \<or>
          read_record views ref = Inl WorkspaceUnavailableError) \<and>
         (J'' \<in> set views \<longrightarrow> read_record views ref = Inr (stored r))"
proof -
  let ?p = "json_bytes (JObj r)"
  obtain pre where f: "segment_bytes J' (jw_writer_id w) (jw_segment_number w') = Some (pre @ frame_bytes ?p)"
    "take 12 pre = SEGMENT_HEADER"
    "parse_record_ref ref = Inr (jw_writer_id w, jw_segment_number w', length pre, length ?p,
      checksum_prefix (frame_checksum ?p))"
    using append_ref [OF assms(1-3)] by blast
  obtain post where b: "segment_bytes J'' (jw_writer_id w) (jw_segment_number w')
      = Some (pre @ frame_bytes ?p @ post)"
    using assms(4) f(1) unfolding journal_extends_def by (metis append.assoc)
  let ?files = "map (\<lambda>V. segment_bytes V (jw_writer_id w) (jw_segment_number w')) views"
  have v: "v = None \<or> (\<exists>n. v = Some (take n (pre @ frame_bytes ?p @ post)))"
    if v: "v \<in> set ?files" for v
  proof (cases v)
    case (Some c)
    obtain V where "V \<in> set views" "v = segment_bytes V (jw_writer_id w) (jw_segment_number w')"
      using v by auto
    then obtain s where "Some (pre @ frame_bytes ?p @ post) = Some (c @ s)"
      using assms(5) Some b unfolding list_all_iff lags_def by metis
    then have "c = take (length c) (pre @ frame_bytes ?p @ post)" by simp
    with Some show ?thesis by blast
  qed simp
  have c: "Some (pre @ frame_bytes ?p @ post) \<in> set ?files" if "J'' \<in> set views"
    using b that by force
  have r: "read_record views ref = read_attempts ?files (length pre) (length ?p)
      (checksum_prefix (frame_checksum ?p))"
    by (simp add: read_record_def f(3))
  show ?thesis
    using read_attempts_lagging [where views = ?files, OF assms(2) f(2) v] c
    unfolding r Let_def by blast
qed

theorem read_record_visibility_witness:
  "\<exists>ref w' J'. append_record (fst example_store) [(''kind'', JStr ''ready''), (''state_generation'', JInt 1)]
       (snd example_store) = (Inr ref, w', J') \<and>
     read_record [snd example_store, J'] ref
       = Inr (stored [(''kind'', JStr ''ready''), (''state_generation'', JInt 1)])"
proof -
  let ?r = "[(''kind'', JStr ''ready''), (''state_generation'', JInt 1)]"
  have i: "writer_inv (fst example_store) (snd example_store)"
    using example_store_inv by (simp add: store_inv_def)
  have u: "utf8_valid False (json_bytes (JObj ?r))" by code_simp
  obtain ref w' J' where a: "append_record (fst example_store) ?r (snd example_store) = (Inr ref, w', J')"
    using example_append [OF u] by blast
  have e: "journal_extends (snd example_store) J'" by (rule append_extends [OF i a])
  then have "list_all (\<lambda>V. lags V J') [snd example_store, J']"
    by (simp add: lags_def journal_extends_def)
  from read_record_visibility [OF i example_record_storable a journal_extends_refl this] a
  show ?thesis by auto
qed

text \<open>
  Segment rotation: after a successful append the current segment is no longer than the
  configured maximum, or it holds just the header and this one frame, and a frame is never
  split: the returned reference names the bytes at the end of the segment.
\<close>

theorem append_rotation_bound:
  assumes "writer_inv w J" and "append_record w r J = (Inr ref, w', J')"
  shows "\<exists>b. segment_bytes J' (jw_writer_id w) (jw_segment_number w') = Some b \<and>
     drop (length b - length (frame_bytes (json_bytes (JObj r)))) b = frame_bytes (json_bytes (JObj r)) \<and>
     (length b \<le> jw_maximum_segment_bytes w \<or>
      b = SEGMENT_HEADER @ frame_bytes (json_bytes (JObj r)))"
proof -
  let ?p = "json_bytes (JObj r)"
  obtain pre where f: "segment_bytes J' (jw_writer_id w) (jw_segment_number w') = Some (pre @ frame_bytes ?p)"
    "take 12 pre = SEGMENT_HEADER"
    "length pre = 12 \<or> length pre + length (frame_bytes ?p) \<le> jw_maximum_segment_bytes w"
    using append_facts [OF assms] by blast
  then have "pre = SEGMENT_HEADER \<or> length (pre @ frame_bytes ?p) \<le> jw_maximum_segment_bytes w"
    by auto
  with f(1) show ?thesis by (intro exI [of _ "pre @ frame_bytes ?p"]) auto
qed

theorem append_rotation_bound_witness:
  "\<exists>ref w' J' b. append_record (fst example_store) [] (snd example_store) = (Inr ref, w', J') \<and>
     segment_bytes J' example_writer (jw_segment_number w') = Some b \<and> length b \<le> 8192"
proof -
  have i: "writer_inv (fst example_store) (snd example_store)"
    using example_store_inv by (simp add: store_inv_def)
  have u: "utf8_valid False (json_bytes (JObj []))" by code_simp
  obtain ref w' J' where a: "append_record (fst example_store) [] (snd example_store) = (Inr ref, w', J')"
    using example_append [OF u] by blast
  have "length (SEGMENT_HEADER @ frame_bytes (json_bytes (JObj []))) \<le> 8192"
    by (simp add: json_bytes.simps)
  with append_rotation_bound [OF i a] a show ?thesis by (auto simp: example_writer_state)
qed

text \<open>
  C32. The segment walk is exact: from a segment that holds the frames of given payloads (each
  within the frame bound) and a torn tail, \<open>iter_segment_frames\<close> yields exactly the frames of
  the payloads that decode to objects, in order, with the offset and the reference under
  which the writer published them; the torn tail yields nothing.
\<close>

theorem segment_walk_exact:
  assumes "list_all (\<lambda>p. length p \<le> MAXIMUM_FRAME_BYTES) ps"
    and "n < length (frame_bytes q)" and "length q < 2 ^ 64"
  shows "iter_segment_frames
      (Some (SEGMENT_HEADER @ concat (map frame_bytes ps) @ take n (frame_bytes q))) w sg
    = written_frames w sg (length SEGMENT_HEADER) ps"
  using segment_walk_written [OF assms(1)] segment_walk_torn [OF assms(2,3)]
  by (simp add: iter_segment_frames_def)

theorem segment_walk_exact_witness:
  "iter_segment_frames
     (Some (SEGMENT_HEADER @ concat (map frame_bytes [''{}'', ''[]'']) @ take 5 (frame_bytes ''{}''))) example_writer 0
   = written_frames example_writer 0 (length SEGMENT_HEADER) [''{}'', ''[]'']"
  by (rule segment_walk_exact) (simp_all add: MAXIMUM_FRAME_BYTES_def)

lemma chain_walk_cases:
  obtains "chain_walk views visited c = []" "c = ''init'' \<or> c \<in> set visited"
  | e where "chain_walk views visited c = [(c, None)]" "c \<noteq> ''init''" "c \<notin> set visited"
      "read_record (views c) c = Inl e"
  | f where "chain_walk views visited c = [(c, Some f)]" "c \<noteq> ''init''" "c \<notin> set visited"
      "read_record (views c) c = Inr f"
      "\<forall>p. get f ''previous_record_ref'' = JStr p \<longrightarrow> p = ''init''"
  | f p where "chain_walk views visited c = (c, Some f) # chain_walk views (c # visited) p"
      "c \<noteq> ''init''" "c \<notin> set visited" "read_record (views c) c = Inr f"
      "get f ''previous_record_ref'' = JStr p" "p \<noteq> ''init''"
proof (cases "c = ''init'' \<or> c \<in> set visited")
  case True
  then show ?thesis using that(1) by (simp add: chain_walk.simps)
next
  case False
  show ?thesis
  proof (cases "read_record (views c) c")
    case (Inl e)
    then show ?thesis using that(2) False by (simp add: chain_walk.simps)
  next
    case (Inr f)
    show ?thesis
    proof (cases "\<exists>p. get f ''previous_record_ref'' = JStr p \<and> p \<noteq> ''init''")
      case True
      then show ?thesis using that(4) False Inr by (auto simp: chain_walk.simps [of views visited c])
    next
      case no: False
      then have "chain_walk views visited c = [(c, Some f)]"
        using False Inr
        by (cases "get f ''previous_record_ref''") (simp_all add: chain_walk.simps [of views visited c])
      then show ?thesis using False Inr no by (intro that(3)) auto
    qed
  qed
qed

lemma chain_walk_induct [case_names walk]:
  assumes "\<And>views visited c. (\<And>f p. c \<noteq> ''init'' \<Longrightarrow> c \<notin> set visited \<Longrightarrow>
      read_record (views c) c = Inr f \<Longrightarrow> P views (c # visited) p) \<Longrightarrow> P views visited c"
  shows "P views visited c"
proof (induction "card (canonical_refs - set visited)" arbitrary: visited c rule: less_induct)
  case (less visited c)
  have "P views (c # visited) p"
    if "c \<noteq> ''init''" "c \<notin> set visited" "read_record (views c) c = Inr f" for f p
  proof (rule less)
    have "canonical_refs - set (c # visited) \<subset> canonical_refs - set visited"
      using that read_record_canonical by auto
    then show "card (canonical_refs - set (c # visited)) < card (canonical_refs - set visited)"
      by (simp add: psubset_card_mono finite_canonical_refs)
  qed
  then show ?case by (rule assms)
qed

lemma chain_walk_visited: "x \<in> set visited \<Longrightarrow> x \<notin> fst ` set (chain_walk views visited c)"
proof (induction views visited c rule: chain_walk_induct)
  case (walk views visited c)
  show ?case
    by (rule chain_walk_cases [of views visited c]) (use walk in auto)
qed

lemma chain_walk_distinct: "distinct (map fst (chain_walk views visited c))"
proof (induction views visited c rule: chain_walk_induct)
  case (walk views visited c)
  show ?case
    by (rule chain_walk_cases [of views visited c])
      (use walk chain_walk_visited [of c "c # visited" views] in auto)
qed

text \<open>A walk is linked when every frame but the last is readable and names the next reference.\<close>

fun chain_linked :: "(string \<times> obj option) list \<Rightarrow> bool" where
  "chain_linked ((r, f) # (r', f') # ps) =
     (map_option (\<lambda>m. get m ''previous_record_ref'') f = Some (JStr r') \<and>
      chain_linked ((r', f') # ps))"
| "chain_linked _ = True"

lemma chain_walk_hd: "chain_walk views visited c = q # ps \<Longrightarrow> fst q = c"
  by (rule chain_walk_cases [of views visited c]) auto

lemma chain_walk_linked: "chain_linked (chain_walk views visited c)"
proof (induction views visited c rule: chain_walk_induct)
  case (walk views visited c)
  show ?case
  proof (rule chain_walk_cases [of views visited c])
    fix f p
    assume w: "chain_walk views visited c = (c, Some f) # chain_walk views (c # visited) p"
      and f: "c \<noteq> ''init''" "c \<notin> set visited" "read_record (views c) c = Inr f"
      and p: "get f ''previous_record_ref'' = JStr p"
    show ?thesis
    proof (cases "chain_walk views (c # visited) p")
      case (Cons q qs)
      then show ?thesis
        using w p walk [OF f, of p] chain_walk_hd [OF Cons] by (cases q) auto
    qed (simp add: w)
  qed auto
qed

lemma chain_walk_last:
  "(r, None) \<in> set (chain_walk views visited c) \<Longrightarrow> last (chain_walk views visited c) = (r, None)"
proof (induction views visited c rule: chain_walk_induct)
  case (walk views visited c)
  show ?case
    by (rule chain_walk_cases [of views visited c]) (use walk in auto)
qed

lemma chain_walk_reads:
  "(r, f) \<in> set (chain_walk views visited c) \<Longrightarrow>
     f = (case read_record (views r) r of Inl _ \<Rightarrow> None | Inr m \<Rightarrow> Some m)"
proof (induction views visited c rule: chain_walk_induct)
  case (walk views visited c)
  show ?case
    by (rule chain_walk_cases [of views visited c]) (use walk in auto)
qed

text \<open>
  C33. Walking history backwards always ends and is sound: no reference is visited twice, even
  when damaged frames form a cycle; every entry is what reading its reference gives; each
  frame but the last is readable and names the reference of the next; and an unreadable
  frame ends the walk.
\<close>

theorem record_chain_sound:
  "distinct (map fst (iter_record_chain views ref)) \<and>
   chain_linked (iter_record_chain views ref) \<and>
   list_all (\<lambda>(r, f). f = (case read_record (views r) r of Inl _ \<Rightarrow> None | Inr m \<Rightarrow> Some m))
     (iter_record_chain views ref) \<and>
   list_all (\<lambda>(r, f). case f of None \<Rightarrow> last (iter_record_chain views ref) = (r, None) | Some _ \<Rightarrow> True)
     (iter_record_chain views ref)"
proof -
  have "list_all (\<lambda>(r, f). f = (case read_record (views r) r of Inl _ \<Rightarrow> None | Inr m \<Rightarrow> Some m))
      (iter_record_chain views ref)"
    unfolding list_all_iff iter_record_chain_def
    by (auto dest: chain_walk_reads)
  moreover have "list_all (\<lambda>(r, f). case f of None \<Rightarrow> last (iter_record_chain views ref) = (r, None) | Some _ \<Rightarrow> True)
      (iter_record_chain views ref)"
    unfolding list_all_iff iter_record_chain_def
    using chain_walk_last [of _ views "[]" ref] by (auto split: option.splits)
  ultimately show ?thesis
    using chain_walk_distinct chain_walk_linked by (simp add: iter_record_chain_def)
qed

end
