(* ===== verification/Job_Definition.thy ===== *)
theory Job_Definition
  imports Documents Sha256 Json_Roundtrip Markers
begin

text \<open>
  The immutable job document (\<open>JobDefinition\<close> of \<open>src/src/httk/workflow/models.py\<close>): the
  whole of \<open>from_mapping\<close> with its checks in source order, the digest over the stored
  bytes, and the readers of stored documents.
\<close>

record job_definition =
  jd_id :: string
  jd_tag :: "string option"
  jd_name :: string
  jd_workflow :: string
  jd_runner_executor :: string
  jd_runner_source :: string
  jd_runner_path :: "string list"
  jd_runner_sha256 :: "string option"
  jd_runner_arguments :: "string list"
  jd_workdir_mode :: string
  jd_workdir_path :: "string list"
  jd_data_mode :: string
  jd_initial_step :: string
  jd_priority :: int
  jd_claim_pool :: string
  jd_required_capabilities :: "string list"
  jd_retry_policy :: retry_policy
  jd_resources :: requirement
  jd_step_resources :: "requirement dict"
  jd_parameters :: obj
  jd_environment :: obj
  jd_declarations :: obj
  jd_declared :: obj
  jd_parent :: "obj option"
  jd_raw :: obj
  jd_stored_digest :: "string option"

definition RUNNER_SOURCES :: "string list" where
  "RUNNER_SOURCES = [''payload'', ''workspace'', ''installed'']"

section \<open>The sections of the document\<close>

text \<open>The runner section: executor, source, path, digest and arguments, in the order of the checks.\<close>

definition job_runner ::
  "obj \<Rightarrow> (string \<times> string \<times> string list \<times> string option \<times> string list) res" where
  "job_runner runner =
     bindr (validate_label (get_default runner ''executor'' (JStr ''path''))) (\<lambda>executor.
     bindr (require_array (get_default runner ''arguments'' (JArr []))) (\<lambda>raw.
     bindr (mapr require_string raw) (\<lambda>arguments.
     bindr (require_string (get_default runner ''source'' (JStr ''payload''))) (\<lambda>source.
     bindr (guardr (source \<in> set RUNNER_SOURCES) FormatError) (\<lambda>_.
     bindr (validate_runner_path (get runner ''path'') source) (\<lambda>path.
     bindr (if source = ''payload'' then
              (if get runner ''sha256'' \<noteq> JNull then Inl FormatError else Inr None)
            else bindr (validate_sha256 (get runner ''sha256'')) (\<lambda>d. Inr (Some d))) (\<lambda>sha256.
     Inr (executor, source, path, sha256, arguments))))))))"

definition job_workdir :: "obj \<Rightarrow> (string \<times> string list) res" where
  "job_workdir workdir =
     bindr (require_string (get workdir ''mode'')) (\<lambda>mode.
     bindr (guardr (mode \<in> set [''persistent'', ''isolated'']) FormatError) (\<lambda>_.
     bindr (require_string (get_default workdir ''path'' (JStr ''run''))) (\<lambda>p.
     let path = pure_posix_path p
     in if absolute path \<or> ''..'' \<in> set (parts path) \<or> parts path = [] then Inl FormatError
        else Inr (mode, parts path))))"

definition job_data :: "obj \<Rightarrow> string res" where
  "job_data data =
     bindr (require_string (get data ''mode'')) (\<lambda>mode.
     bindr (guardr (mode \<in> set [''none'', ''transactional'']) FormatError) (\<lambda>_. Inr mode))"

text \<open>The capabilities are a \<open>frozenset\<close>: a list of its elements without repetition.\<close>

definition job_capabilities :: "obj \<Rightarrow> string list res" where
  "job_capabilities claim =
     bindr (require_array (get_default claim ''required_capabilities'' (JArr []))) (\<lambda>raw.
     bindr (mapr validate_label raw) (\<lambda>cs. Inr (remdups cs)))"

section \<open>The document\<close>

definition job_from_mapping :: "obj \<Rightarrow> job_definition res" where
  "job_from_mapping value =
     (if \<not> eq_str (get value ''format'') ''httk-workflow-job'' \<or> \<not> eq_int (get value ''format_version'') 2
      then Inl FormatError
      else
     bindr (canonical_uuid (get value ''id'')) (\<lambda>i.
     bindr (opt_member (get value ''tag'') None (\<lambda>t. bindr (validate_label t) (\<lambda>l. Inr (Some l)))) (\<lambda>tag.
     bindr (require_mapping (get value ''runner'')) (\<lambda>runner.
     bindr (job_runner runner) (\<lambda>(executor, source, rpath, sha256, arguments).
     bindr (require_mapping (get value ''workdir'')) (\<lambda>workdir.
     bindr (job_workdir workdir) (\<lambda>(wmode, wpath).
     bindr (require_mapping (get value ''data'')) (\<lambda>data.
     bindr (job_data data) (\<lambda>data_mode.
     bindr (require_mapping (get value ''claim'')) (\<lambda>claim.
     bindr (job_capabilities claim) (\<lambda>capabilities.
     bindr (validate_resources (get_default value ''resources'' (JObj []))) (\<lambda>resources.
     bindr (validate_step_resources (get_default value ''step_resources'' (JObj []))) (\<lambda>step_resources.
     bindr (opt_member (get value ''parameters'') [] validate_parameters) (\<lambda>parameters.
     bindr (opt_member (get value ''environment'') [] validate_environment) (\<lambda>environment.
     bindr (opt_member (get value ''declarations'') [] validate_declarations) (\<lambda>declarations.
     bindr (opt_member (get value ''declared'') [] validate_declared) (\<lambda>declared.
     bindr (opt_member (get value ''parent'') None
       (\<lambda>p. bindr (require_mapping p) (\<lambda>m. Inr (Some m)))) (\<lambda>parent.
     bindr (require_string (get value ''name'')) (\<lambda>name.
     bindr (require_string (get value ''workflow'')) (\<lambda>workflow.
     bindr (validate_step (get value ''initial_step'')) (\<lambda>initial_step.
     bindr (require_int (get value ''priority'') 0 (Some 999)) (\<lambda>prio.
     bindr (validate_label (get claim ''pool'')) (\<lambda>pool.
     bindr (retry_from_mapping (get_default value ''retry_policy'' (JObj []))) (\<lambda>retry.
     Inr \<lparr>jd_id = i, jd_tag = tag, jd_name = name, jd_workflow = workflow,
          jd_runner_executor = executor, jd_runner_source = source, jd_runner_path = rpath,
          jd_runner_sha256 = sha256, jd_runner_arguments = arguments, jd_workdir_mode = wmode,
          jd_workdir_path = wpath, jd_data_mode = data_mode, jd_initial_step = initial_step,
          jd_priority = prio, jd_claim_pool = pool, jd_required_capabilities = capabilities,
          jd_retry_policy = retry, jd_resources = resources, jd_step_resources = step_resources,
          jd_parameters = parameters, jd_environment = environment,
          jd_declarations = declarations, jd_declared = declared, jd_parent = parent,
          jd_raw = value, jd_stored_digest = None\<rparr>))))))))))))))))))))))))"

text \<open>\<open>models.job_digest\<close>, \<open>JobDefinition.job_key\<close> and \<open>JobDefinition.digest\<close>.\<close>

definition job_digest :: "string \<Rightarrow> string" where
  "job_digest data = hex_text (sha256 data)"

definition jd_job_key :: "job_definition \<Rightarrow> string" where
  "jd_job_key job = make_job_key (jd_id job) (jd_tag job)"

definition jd_digest :: "job_definition \<Rightarrow> string" where
  "jd_digest job =
     (case jd_stored_digest job of
        Some d \<Rightarrow> d
      | None \<Rightarrow> job_digest (json_bytes (JObj (jd_raw job))))"

definition job_from_bytes :: "string \<Rightarrow> job_definition res" where
  "job_from_bytes data =
     (case json_decode False data of
        Some (JObj value) \<Rightarrow>
          bindr (job_from_mapping value) (\<lambda>job. Inr (job\<lparr>jd_stored_digest := Some (job_digest data)\<rparr>))
      | _ \<Rightarrow> Inl FormatError)"

text \<open>\<open>from_path\<close>: \<open>None\<close> is a file that cannot be read.\<close>

definition job_from_path :: "string option \<Rightarrow> job_definition res" where
  "job_from_path content = (case content of None \<Rightarrow> Inl FormatError | Some data \<Rightarrow> job_from_bytes data)"

section \<open>What an accepted document satisfies\<close>

definition wf_job :: "job_definition \<Rightarrow> bool" where
  "wf_job job \<longleftrightarrow>
     uuid_pattern (jd_id job) \<and>
     (case jd_tag job of None \<Rightarrow> True | Some t \<Rightarrow> is_label t) \<and>
     jd_runner_source job \<in> set RUNNER_SOURCES \<and>
     (jd_runner_sha256 job = None \<longleftrightarrow> jd_runner_source job = ''payload'') \<and>
     jd_workdir_mode job \<in> set [''persistent'', ''isolated''] \<and>
     jd_workdir_path job \<noteq> [] \<and> ''..'' \<notin> set (jd_workdir_path job) \<and>
     jd_data_mode job \<in> set [''none'', ''transactional''] \<and>
     0 \<le> jd_priority job \<and> jd_priority job \<le> 999 \<and>
     distinct (jd_required_capabilities job)"

lemma job_runner_Inr:
  "job_runner m = Inr (ex, src, p, sha, args) \<Longrightarrow>
     src \<in> set RUNNER_SOURCES \<and> (sha = None \<longleftrightarrow> src = ''payload'') \<and>
     validate_runner_path (get m ''path'') src = Inr p"
  by (auto simp: job_runner_def res_simps split: if_splits)

lemma job_workdir_Inr:
  "job_workdir m = Inr (mode, p) \<Longrightarrow>
     mode \<in> set [''persistent'', ''isolated''] \<and> p \<noteq> [] \<and> ''..'' \<notin> set p"
  by (auto simp: job_workdir_def res_simps Let_def split: if_splits)

lemma job_data_Inr: "job_data m = Inr mode \<Longrightarrow> mode \<in> set [''none'', ''transactional'']"
  by (auto simp: job_data_def res_simps split: if_splits)

lemma job_capabilities_Inr: "job_capabilities m = Inr cs \<Longrightarrow> distinct cs \<and> (\<forall>c\<in>set cs. is_label c)"
  by (auto simp: job_capabilities_def res_simps dest: mapr_set)

lemma job_from_mapping_parts:
  assumes "job_from_mapping value = Inr job"
  shows "canonical_uuid (get value ''id'') = Inr (jd_id job)"
    and "opt_member (get value ''tag'') None (\<lambda>t. bindr (validate_label t) (\<lambda>l. Inr (Some l)))
           = Inr (jd_tag job)"
    and "\<exists>m. job_runner m = Inr (jd_runner_executor job, jd_runner_source job, jd_runner_path job,
           jd_runner_sha256 job, jd_runner_arguments job)"
    and "\<exists>m. job_workdir m = Inr (jd_workdir_mode job, jd_workdir_path job)"
    and "\<exists>m. job_data m = Inr (jd_data_mode job)"
    and "\<exists>m. job_capabilities m = Inr (jd_required_capabilities job)"
    and "require_int (get value ''priority'') 0 (Some 999) = Inr (jd_priority job)"
    and "jd_raw job = value" and "jd_stored_digest job = None"
  using assms
  by (auto simp only: job_from_mapping_def bindr_Inr_iff split_beta Inr_Inl_False sum.inject
      if_split_eq1 if_split_eq2 job_definition.select_convs prod.collapse
      split: if_split_asm prod.splits)

lemma job_from_mapping_wf: "job_from_mapping value = Inr job \<Longrightarrow> wf_job job"
proof -
  assume h: "job_from_mapping value = Inr job"
  note p = job_from_mapping_parts [OF h]
  have "uuid_pattern (jd_id job)" using p(1) by (simp add: canonical_uuid_Inr)
  moreover have "case jd_tag job of None \<Rightarrow> True | Some t \<Rightarrow> is_label t"
    using p(2) by (cases "get value ''tag''") (auto simp: res_simps split: option.splits)
  ultimately show ?thesis
    using p(3-7) unfolding wf_job_def
    by (auto dest!: job_runner_Inr job_workdir_Inr job_data_Inr job_capabilities_Inr)
qed

lemma jd_job_key_parses: "wf_job job \<Longrightarrow> parse_job_key (jd_job_key job) = Inr (jd_tag job, jd_id job)"
  unfolding jd_job_key_def
  by (intro parse_make_job_key) (auto simp: wf_job_def split: option.splits)

section \<open>Properties\<close>

text \<open>
  C35. A stored job document that \<open>JobDefinition.from_bytes\<close> accepts is well-formed: canonical
  identity, a valid tag, priority within 0 to 999, a known runner source that carries a
  digest exactly when it lies outside the payload, a work directory that stays below the
  job; its digest is the 64 digit SHA-256 of exactly the stored bytes, and its job key
  parses back to its tag and identity.
\<close>

theorem job_document_sound:
  assumes "job_from_bytes data = Inr job"
  shows "wf_job job \<and> jd_digest job = hex_text (sha256 data) \<and> length (jd_digest job) = 64 \<and>
         parse_job_key (jd_job_key job) = Inr (jd_tag job, jd_id job) \<and>
         json_decode False data = Some (JObj (jd_raw job))"
proof -
  obtain m job0 where v: "json_decode False data = Some (JObj m)"
    and j: "job_from_mapping m = Inr job0"
    and job: "job = job0\<lparr>jd_stored_digest := Some (job_digest data)\<rparr>"
    using assms by (auto simp: job_from_bytes_def res_simps split: option.splits json.splits)
  have "wf_job job" using job_from_mapping_wf [OF j] by (simp add: job wf_job_def)
  moreover have "jd_digest job = hex_text (sha256 data)"
    by (simp add: job jd_digest_def job_digest_def)
  ultimately show ?thesis
    using v job_from_mapping_parts(8) [OF j] jd_job_key_parses [of job] by (simp add: job)
qed

definition example_document :: obj where
  "example_document =
     [(''claim'', JObj [(''pool'', JStr ''cpu'')]),
      (''data'', JObj [(''mode'', JStr ''none'')]),
      (''format'', JStr ''httk-workflow-job''),
      (''format_version'', JInt 2),
      (''id'', JStr example_id),
      (''initial_step'', JStr ''relax''),
      (''name'', JStr ''n''),
      (''priority'', JInt 500),
      (''runner'', JObj [(''path'', JStr ''run'')]),
      (''tag'', JStr ''t''),
      (''workdir'', JObj [(''mode'', JStr ''isolated'')]),
      (''workflow'', JStr ''w'')]"

lemma example_document_ok: "json_ok (JObj example_document)"
  "canon (JObj example_document) = JObj example_document"
  by code_simp+

definition example_job :: job_definition where
  "example_job =
     \<lparr>jd_id = example_id, jd_tag = Some ''t'', jd_name = ''n'', jd_workflow = ''w'',
      jd_runner_executor = ''path'', jd_runner_source = ''payload'', jd_runner_path = [''run''],
      jd_runner_sha256 = None, jd_runner_arguments = [], jd_workdir_mode = ''isolated'',
      jd_workdir_path = [''run''], jd_data_mode = ''none'', jd_initial_step = ''relax'',
      jd_priority = 500, jd_claim_pool = ''cpu'', jd_required_capabilities = [],
      jd_retry_policy = \<lparr>maximum_attempts_per_activation = None, maximum_total_attempts = None,
        maximum_activations = None, retry_on = []\<rparr>,
      jd_resources = [], jd_step_resources = [], jd_parameters = [], jd_environment = [],
      jd_declarations = [], jd_declared = [], jd_parent = None, jd_raw = example_document,
      jd_stored_digest = None\<rparr>"

lemma example_job_parts:
  "canonical_uuid (JStr example_id) = Inr example_id"
  "is_label ''t''" "is_label ''cpu''"
  "job_runner [(''path'', JStr ''run'')] = Inr (''path'', ''payload'', [''run''], None, [])"
  "job_workdir [(''mode'', JStr ''isolated'')] = Inr (''isolated'', [''run''])"
  "job_data [(''mode'', JStr ''none'')] = Inr ''none''"
  "job_capabilities [(''pool'', JStr ''cpu'')] = Inr []"
  "validate_step (JStr ''relax'') = Inr ''relax''"
  by (simp add: canonical_uuid_Inr example_ids) code_simp+

lemma example_job_read: "job_from_mapping example_document = Inr example_job"
proof -
  have l: "validate_label (JStr ''t'') = Inr ''t''" "validate_label (JStr ''cpu'') = Inr ''cpu''"
    using example_job_parts(2,3) by simp_all
  have r: "validate_resources (JObj []) = Inr []" "validate_step_resources (JObj []) = Inr []"
    "retry_from_mapping (JObj []) = Inr (jd_retry_policy example_job)"
    "require_int (JInt 500) 0 (Some 999) = Inr 500"
    by code_simp+
  show ?thesis
    unfolding job_from_mapping_def example_document_def example_job_def
    using example_job_parts(1,4-) r by (simp add: get_default_def example_job_def l del: validate_label_Inr)
qed

lemma example_job_bytes:
  "job_from_bytes (json_bytes (JObj example_document))
     = Inr (example_job\<lparr>jd_stored_digest := Some (job_digest (json_bytes (JObj example_document)))\<rparr>)"
  unfolding job_from_bytes_def json_decode_bytes [OF example_document_ok(1)] example_document_ok(2)
  by (simp add: example_job_read del: json_bytes.simps)

theorem job_document_sound_witness:
  "\<exists>job. job_from_bytes (json_bytes (JObj example_document)) = Inr job \<and> wf_job job \<and>
     jd_digest job = hex_text (sha256 (json_bytes (JObj example_document))) \<and>
     parse_job_key (jd_job_key job) = Inr (Some ''t'', example_id)"
  using job_document_sound [OF example_job_bytes] example_job_bytes
  by (simp add: example_job_def del: json_bytes.simps)

end
