(* ===== verification/State_Frame.thy ===== *)
theory State_Frame
  imports Documents
begin

text \<open>
  The state frame (\<open>StateFrame\<close> of \<open>src/src/httk/workflow/models.py\<close>): the members of one
  journal record that belong to the manager. A frame is held exactly as it is on disk, as
  a JSON object; \<open>replace\<close> sets declared members and keeps all others, \<open>carried\<close> keeps the
  members that every transition of one activation repeats.
\<close>

type_synonym frame = obj

definition CARRIED_STATE_MEMBERS :: "string list" where
  "CARRIED_STATE_MEMBERS =
     [''step'', ''activation_id'', ''activation_ordinal'', ''attempt_id'', ''attempt_ordinal'',
      ''total_attempts'', ''data_generation'', ''resources'', ''join_summary'',
      ''pause_requested'', ''runner_steps'']"

text \<open>The keywords of \<open>StateFrame.replace\<close>, in the order in which it writes them.\<close>

definition FRAME_MEMBERS :: "string list" where
  "FRAME_MEMBERS =
     [''step'', ''activation_id'', ''activation_ordinal'', ''attempt_id'', ''attempt_ordinal'',
      ''total_attempts'', ''data_generation'', ''resources'', ''join_summary'', ''runner_steps'',
      ''manager_id'', ''writer_id'', ''claim_id'', ''attempt_control'', ''lease_seconds'',
      ''matched_pool'', ''matched_capabilities'', ''process'', ''started_at'', ''workdir'',
      ''outcome_action'', ''child_digests'', ''child_labels'', ''next_step'', ''join'', ''pause'',
      ''pause_requested'', ''failure'', ''job_digest'', ''join_unresolved'', ''unclean_restart'',
      ''unsafe_persistent_takeover'', ''takeover_evidence'', ''cancellation'',
      ''previous_attempt_id'', ''operator'', ''operator_key'', ''operator_reason'',
      ''request_id'', ''revival_hazard'', ''reason'']"

text \<open>
  \<open>StateFrame.replace\<close>: the keyword arguments of a call are the association list \<open>written\<close>;
  a keyword that is not given stays untouched.
\<close>

definition replace :: "frame \<Rightarrow> obj \<Rightarrow> frame" where
  "replace base written =
     foldl (\<lambda>members name.
       case map_of written name of None \<Rightarrow> members | Some value \<Rightarrow> dict_set name value members)
       base FRAME_MEMBERS"

definition select :: "string list \<Rightarrow> frame \<Rightarrow> frame" where
  "select names f = dict_select names f"

definition carried :: "frame \<Rightarrow> frame" where
  "carried f = dict_select CARRIED_STATE_MEMBERS f"

section \<open>Typed reads\<close>

definition frame_string :: "frame \<Rightarrow> string \<Rightarrow> string option" where
  "frame_string f name = (case get f name of JStr s \<Rightarrow> if s = [] then None else Some s | _ \<Rightarrow> None)"

definition frame_integer :: "frame \<Rightarrow> string \<Rightarrow> int option" where
  "frame_integer f name = (case get f name of JInt i \<Rightarrow> Some i | _ \<Rightarrow> None)"

definition frame_mapping :: "frame \<Rightarrow> string \<Rightarrow> obj option" where
  "frame_mapping f name = (case get f name of JObj m \<Rightarrow> Some m | _ \<Rightarrow> None)"

definition frame_flag :: "frame \<Rightarrow> string \<Rightarrow> bool" where
  "frame_flag f name = (get f name = JBool True)"

definition frame_step :: "frame \<Rightarrow> string option" where
  "frame_step f = frame_string f ''step''"

definition frame_activation_id :: "frame \<Rightarrow> string option" where
  "frame_activation_id f = frame_string f ''activation_id''"

definition frame_activation_ordinal :: "frame \<Rightarrow> int option" where
  "frame_activation_ordinal f = frame_integer f ''activation_ordinal''"

definition frame_attempt_id :: "frame \<Rightarrow> string option" where
  "frame_attempt_id f = frame_string f ''attempt_id''"

definition frame_attempt_ordinal :: "frame \<Rightarrow> int option" where
  "frame_attempt_ordinal f = frame_integer f ''attempt_ordinal''"

definition frame_total_attempts :: "frame \<Rightarrow> int option" where
  "frame_total_attempts f = frame_integer f ''total_attempts''"

definition frame_data_generation :: "frame \<Rightarrow> int option" where
  "frame_data_generation f = frame_integer f ''data_generation''"

definition frame_resources :: "frame \<Rightarrow> requirement option res" where
  "frame_resources f =
     (case get f ''resources'' of
        JNull \<Rightarrow> Inr None
      | v \<Rightarrow> bindr (validate_resources v) (\<lambda>r. Inr (Some r)))"

definition frame_join_unresolved :: "frame \<Rightarrow> obj option" where
  "frame_join_unresolved f = frame_mapping f ''join_unresolved''"

definition frame_manager_id :: "frame \<Rightarrow> string option res" where
  "frame_manager_id f =
     (case frame_string f ''manager_id'' of
        None \<Rightarrow> Inr None
      | Some value \<Rightarrow> bindr (canonical_uuid (JStr value)) (\<lambda>i. Inr (Some i)))"

definition frame_attempt_control :: "frame \<Rightarrow> string option res" where
  "frame_attempt_control f =
     (case frame_string f ''attempt_control'' of
        None \<Rightarrow> Inr None
      | Some value \<Rightarrow> bindr (validate_attempt_control (JStr value)) (\<lambda>c. Inr (Some c)))"

definition frame_lease_seconds :: "frame \<Rightarrow> pyfloat option res" where
  "frame_lease_seconds f =
     (case get f ''lease_seconds'' of
        JInt i \<Rightarrow> bindr (float_of_int i) (\<lambda>x. Inr (Some x))
      | JFloat x \<Rightarrow> Inr (Some x)
      | _ \<Rightarrow> Inr None)"

definition frame_started_at :: "frame \<Rightarrow> string option" where
  "frame_started_at f = frame_string f ''started_at''"

definition frame_workdir :: "frame \<Rightarrow> string option" where
  "frame_workdir f = frame_string f ''workdir''"

definition frame_next_step :: "frame \<Rightarrow> string option" where
  "frame_next_step f = frame_string f ''next_step''"

definition frame_join :: "frame \<Rightarrow> obj option" where
  "frame_join f = frame_mapping f ''join''"

definition frame_failure :: "frame \<Rightarrow> obj option" where
  "frame_failure f = frame_mapping f ''failure''"

definition frame_pause_requested :: "frame \<Rightarrow> obj option" where
  "frame_pause_requested f = frame_mapping f ''pause_requested''"

definition frame_cancellation :: "frame \<Rightarrow> obj option" where
  "frame_cancellation f = frame_mapping f ''cancellation''"

definition frame_child_digests :: "frame \<Rightarrow> obj option" where
  "frame_child_digests f = frame_mapping f ''child_digests''"

definition frame_previous_attempt_id :: "frame \<Rightarrow> string option" where
  "frame_previous_attempt_id f = frame_string f ''previous_attempt_id''"

definition frame_unclean_restart :: "frame \<Rightarrow> bool" where
  "frame_unclean_restart f = frame_flag f ''unclean_restart''"

definition frame_unsafe_persistent_takeover :: "frame \<Rightarrow> bool" where
  "frame_unsafe_persistent_takeover f = frame_flag f ''unsafe_persistent_takeover''"

definition frame_reason :: "frame \<Rightarrow> string option" where
  "frame_reason f = frame_string f ''reason''"

lemmas frame_reads = frame_step_def frame_activation_id_def frame_activation_ordinal_def
  frame_attempt_id_def frame_attempt_ordinal_def frame_total_attempts_def
  frame_data_generation_def frame_join_unresolved_def frame_started_at_def frame_workdir_def
  frame_next_step_def frame_join_def frame_failure_def frame_pause_requested_def
  frame_cancellation_def frame_child_digests_def frame_previous_attempt_id_def
  frame_unclean_restart_def frame_unsafe_persistent_takeover_def frame_reason_def
  frame_string_def frame_integer_def frame_mapping_def frame_flag_def

section \<open>Members after an update\<close>

lemma distinct_members: "distinct FRAME_MEMBERS" "distinct CARRIED_STATE_MEMBERS"
  by code_simp+

lemma carried_members_declared: "set CARRIED_STATE_MEMBERS \<subseteq> set FRAME_MEMBERS"
  by code_simp

lemma map_of_foldl_written:
  "map_of (foldl (\<lambda>members name.
       case map_of written name of None \<Rightarrow> members | Some value \<Rightarrow> dict_set name value members)
       base names) k
   = (if k \<in> set names \<and> map_of written k \<noteq> None then map_of written k else map_of base k)"
proof (induction names arbitrary: base)
  case (Cons n ns)
  then show ?case by (cases "map_of written n") auto
qed simp

lemma map_of_replace:
  "map_of (replace base written) k
   = (if k \<in> set FRAME_MEMBERS \<and> map_of written k \<noteq> None then map_of written k
      else map_of base k)"
  unfolding replace_def by (rule map_of_foldl_written)

lemma get_replace [frame_simps]:
  "get (replace base written) k
   = (if k \<in> set FRAME_MEMBERS \<and> has_key written k then get written k else get base k)"
  by (auto simp: get_def map_of_replace has_key_iff map_of_eq_None_iff)

lemma has_key_replace [frame_simps]:
  "has_key (replace base written) k \<longleftrightarrow>
     has_key base k \<or> (k \<in> set FRAME_MEMBERS \<and> has_key written k)"
proof -
  have "has_key d k \<longleftrightarrow> map_of d k \<noteq> None" for d :: obj
    by (simp add: has_key_iff map_of_eq_None_iff)
  then show ?thesis by (auto simp: map_of_replace)
qed

lemma get_carried [frame_simps]:
  "get (carried f) k = (if k \<in> set CARRIED_STATE_MEMBERS then get f k else JNull)"
  by (auto simp: get_def carried_def)

lemma get_select [frame_simps]:
  "get (select ns f) k = (if k \<in> set ns then get f k else JNull)"
  by (auto simp: get_def select_def)

lemma replace_distinct [simp]:
  "distinct (map fst base) \<Longrightarrow> distinct (map fst (replace base written))"
proof -
  have "distinct (map fst base) \<Longrightarrow> distinct (map fst (foldl (\<lambda>members name.
       case map_of written name of None \<Rightarrow> members | Some value \<Rightarrow> dict_set name value members)
       base ns))" for ns
    by (induction ns arbitrary: base) (auto split: option.splits)
  then show "distinct (map fst base) \<Longrightarrow> distinct (map fst (replace base written))"
    unfolding replace_def .
qed

lemma carried_distinct [simp]: "distinct (map fst (carried f))"
  by (simp add: carried_def distinct_members)

lemma carried_carried [simp]: "get (carried (carried f)) k = get (carried f) k"
  by (simp add: get_carried)

end
