(* ===== verification/Workspace_State.thy ===== *)
theory Workspace_State
  imports Marker_Index Journal_Correct Job_Definition State_Frame
begin

text \<open>
  The workspace (\<open>Workspace\<close> of \<open>src/src/httk/workflow/workspace.py\<close>): the state tree, the
  journal, the stored job documents and the lookup cache of one instance. A state change
  appends a frame to the journal and then renames the marker of the job; the rename is the
  only commit point, and of several actors that hold the same marker at most one succeeds.

  Seals are read as predicates: whether the workspace or its project is sealed, and which
  jobs are. The retried rename takes, per attempt, what other actors did to the state tree
  before it and whether the server performed the rename; an \<open>OSError\<close> of the call itself
  changes nothing, because the code looks at the outcome.
\<close>

record workspace =
  ws_id :: string
  ws_tree :: state_tree
  ws_documents :: "string list \<Rightarrow> string option"
  ws_journal :: journal
  ws_index :: index_state
  ws_sealed :: bool
  ws_sealed_jobs :: "string list"

definition require_unsealed :: "workspace \<Rightarrow> string option \<Rightarrow> unit res" where
  "require_unsealed ws key =
     (if ws_sealed ws then Inl SealedError
      else case key of
        None \<Rightarrow> Inr ()
      | Some k \<Rightarrow> if k \<in> set (ws_sealed_jobs ws) then Inl SealedError else Inr ())"

section \<open>Reading\<close>

text \<open>\<open>payload_path\<close>, relative to the workspace root.\<close>

definition payload_path :: "string list \<Rightarrow> string \<Rightarrow> string list" where
  "payload_path pl key = pl @ [key]"

definition load_job :: "workspace \<Rightarrow> marker \<Rightarrow> job_definition res" where
  "load_job ws m =
     bindr (job_from_path (ws_documents ws (payload_path (placement m) (job_key m)))) (\<lambda>job.
       if jd_job_key job \<noteq> job_key m then Inl FormatError
       else if jd_priority job \<noteq> int (priority m) \<and> generation m = 0 then Inl FormatError
       else Inr job)"

definition validate_job_payload :: "workspace \<Rightarrow> marker \<Rightarrow> job_definition res" where
  "validate_job_payload ws m = load_job ws m"

definition initial_state :: "workspace \<Rightarrow> marker \<Rightarrow> obj" where
  "initial_state ws m =
     [(''format'', JStr ''httk-workflow-state''), (''format_version'', JInt 2),
      (''workspace_id'', JStr (ws_id ws)), (''job_id'', JStr (job_id m)),
      (''job_key'', JStr (job_key m)), (''placement'', JStr (as_posix (placement m))),
      (''state_generation'', JInt 0), (''kind'', JStr ''submitted''),
      (''previous_record_ref'', JNull), (''created_at'', JNull),
      (''priority'', JInt (int (priority m)))]"

definition frame_agrees :: "workspace \<Rightarrow> marker \<Rightarrow> obj \<Rightarrow> bool" where
  "frame_agrees ws m f \<longleftrightarrow>
     eq_str (get f ''format'') ''httk-workflow-state'' \<and> eq_int (get f ''format_version'') 2 \<and>
     eq_str (get f ''workspace_id'') (ws_id ws) \<and> eq_str (get f ''job_key'') (job_key m) \<and>
     eq_int (get f ''state_generation'') (int (generation m)) \<and>
     eq_str (get f ''kind'') (kind_name (kind m))"

definition read_state :: "workspace \<Rightarrow> marker \<Rightarrow> obj res" where
  "read_state ws m =
     (if record_ref m = ''init'' then Inr (initial_state ws m)
      else bindr (read_record [ws_journal ws] (record_ref m)) (\<lambda>f.
        if frame_agrees ws m f then Inr f else Inl WorkspaceCorruptionError))"

section \<open>Moving a marker\<close>

type_synonym rename_env = "((state_tree \<Rightarrow> state_tree) \<times> bool) list"

definition rename_path :: "string list \<Rightarrow> string list \<Rightarrow> state_tree \<Rightarrow> state_tree" where
  "rename_path src dst T =
     (if src \<in> set T then dst # filter (\<lambda>p. p \<noteq> src \<and> p \<noteq> dst) T else T)"

text \<open>\<open>_verified_marker_rename\<close>.\<close>

fun verified_marker_rename ::
  "rename_env \<Rightarrow> marker \<Rightarrow> string list \<Rightarrow> workspace \<Rightarrow> marker res \<times> workspace" where
  "verified_marker_rename [] m dst ws = (Inl WorkspaceUnavailableError, ws)"
| "verified_marker_rename ((others, performed) # env) m dst ws =
     (let T1 = others (ws_tree ws);
          T2 = (if performed then rename_path (path m) dst T1 else T1);
          ws2 = ws\<lparr>ws_tree := T2\<rparr>
      in if dst \<in> set T2 then
           (case marker_from_path dst of
              Inl e \<Rightarrow> (Inl e, ws2)
            | Inr moved \<Rightarrow> (Inr moved, ws2\<lparr>ws_index := index_note moved (ws_index ws2)\<rparr>))
         else if path m \<in> set T2 then verified_marker_rename env m dst ws2
         else case find_markers T2 (job_key m) CORE_STATE_KINDS (ws_index ws2) of
           (Inl e, idx) \<Rightarrow> (Inl e, ws2\<lparr>ws_index := idx\<rparr>)
         | (Inr [], idx) \<Rightarrow> verified_marker_rename env m dst (ws2\<lparr>ws_index := idx\<rparr>)
         | (Inr [c], idx) \<Rightarrow> (Inl TransitionLostError, ws2\<lparr>ws_index := idx\<rparr>)
         | (Inr _, idx) \<Rightarrow> (Inl WorkspaceCorruptionError, ws2\<lparr>ws_index := idx\<rparr>))"

text \<open>The envelope of a new frame: the members a transition supplies itself.\<close>

definition transition_envelope ::
  "workspace \<Rightarrow> marker \<Rightarrow> kind \<Rightarrow> int \<Rightarrow> string \<Rightarrow> obj" where
  "transition_envelope ws m k prio now =
     [(''format'', JStr ''httk-workflow-state''), (''format_version'', JInt 2),
      (''workspace_id'', JStr (ws_id ws)), (''job_id'', JStr (job_id m)),
      (''job_key'', JStr (job_key m)), (''placement'', JStr (as_posix (placement m))),
      (''state_generation'', JInt (int (generation m) + 1)), (''kind'', JStr (kind_name k)),
      (''previous_record_ref'',
         if record_ref m = ''init'' then JNull else JStr (record_ref m)),
      (''created_at'', JStr now), (''priority'', JInt prio)]"

definition transition ::
  "rename_env \<Rightarrow> string \<Rightarrow> marker \<Rightarrow> kind \<Rightarrow> obj \<Rightarrow> int option \<Rightarrow> bool \<Rightarrow>
     journal_writer \<Rightarrow> workspace \<Rightarrow> marker res \<times> journal_writer \<times> workspace" where
  "transition env now m k updates prio allow_sealed w ws =
     (case require_unsealed ws (if allow_sealed then None else Some (job_key m)) of
        Inl e \<Rightarrow> (Inl e, w, ws)
      | Inr _ \<Rightarrow>
          let next_priority = (case prio of None \<Rightarrow> int (priority m) | Some p \<Rightarrow> p);
              gen = int (generation m) + 1
          in if gen > 2 ^ 64 - 1 then (Inl WorkspaceCorruptionError, w, ws)
             else
               case append_record w (dict_update (transition_envelope ws m k next_priority now) updates)
                      (ws_journal ws) of
                 (Inl e, w', J) \<Rightarrow> (Inl e, w', ws\<lparr>ws_journal := J\<rparr>)
               | (Inr ref, w', J) \<Rightarrow>
                   (case marker_path k (placement m) (job_key m) next_priority gen ref of
                      Inl e \<Rightarrow> (Inl e, w', ws\<lparr>ws_journal := J\<rparr>)
                    | Inr dst \<Rightarrow>
                        (case verified_marker_rename env m dst (ws\<lparr>ws_journal := J\<rparr>) of
                           (r, ws') \<Rightarrow> (r, w', ws'))))"

text \<open>\<open>repoint_marker\<close>: the repair counterpart, which keeps identity and kind.\<close>

definition repoint_marker ::
  "rename_env \<Rightarrow> marker \<Rightarrow> obj \<Rightarrow> journal_writer \<Rightarrow> workspace \<Rightarrow>
     marker res \<times> journal_writer \<times> workspace" where
  "repoint_marker env m f w ws =
     (let gen = int (generation m) + 1
      in if \<not> (eq_str (get f ''workspace_id'') (ws_id ws) \<and> eq_str (get f ''job_id'') (job_id m) \<and>
               eq_str (get f ''job_key'') (job_key m) \<and> eq_str (get f ''kind'') (kind_name (kind m)) \<and>
               eq_int (get f ''state_generation'') gen)
         then (Inl FormatError, w, ws)
         else
           case append_record w f (ws_journal ws) of
             (Inl e, w', J) \<Rightarrow> (Inl e, w', ws\<lparr>ws_journal := J\<rparr>)
           | (Inr ref, w', J) \<Rightarrow>
               (case marker_path (kind m) (placement m) (job_key m) (int (priority m)) gen ref of
                  Inl e \<Rightarrow> (Inl e, w', ws\<lparr>ws_journal := J\<rparr>)
                | Inr dst \<Rightarrow>
                    (case verified_marker_rename env m dst (ws\<lparr>ws_journal := J\<rparr>) of
                       (r, ws') \<Rightarrow> (r, w', ws'))))"

section \<open>Publishing\<close>

text \<open>
  \<open>_publish_path\<close> for a freshly created temporary file: per attempt, whether the server
  performed the rename. While the source remains, an existing destination is a conflict.
\<close>

fun publish_path :: "bool list \<Rightarrow> string list \<Rightarrow> state_tree \<Rightarrow> unit res \<times> state_tree" where
  "publish_path [] dst T = (Inl WorkspaceUnavailableError, T)"
| "publish_path (performed # env) dst T =
     (if performed then (Inr (), dst # filter (\<lambda>p. p \<noteq> dst) T)
      else if dst \<in> set T then (Inl FileExistsError, T)
      else publish_path env dst T)"

text \<open>
  \<open>submit\<close>: \<open>document\<close> is the content of the source's \<open>job.json\<close>, \<open>None\<close> when it cannot be read.
\<close>

definition submit ::
  "bool list \<Rightarrow> string option \<Rightarrow> string \<Rightarrow> workspace \<Rightarrow> marker res \<times> workspace" where
  "submit env document pl_text ws =
     (case require_unsealed ws None of
        Inl e \<Rightarrow> (Inl e, ws)
      | Inr _ \<Rightarrow>
      (case job_from_path document of
        Inl e \<Rightarrow> (Inl e, ws)
      | Inr job \<Rightarrow>
      (case normalize_placement pl_text of
        Inl e \<Rightarrow> (Inl e, ws)
      | Inr pl \<Rightarrow>
          let target = payload_path pl (jd_job_key job)
          in if ws_documents ws target \<noteq> None then (Inl FileExistsError, ws)
             else
               let ws1 = ws\<lparr>ws_documents := (ws_documents ws)(target := document)\<rparr>
               in case marker_path Submitted pl (jd_job_key job) (jd_priority job) 0 ''init'' of
                    Inl e \<Rightarrow> (Inl e, ws1)
                  | Inr dst \<Rightarrow>
                      (case publish_path env dst (ws_tree ws1) of
                         (Inl e, T) \<Rightarrow> (Inl e, ws1\<lparr>ws_tree := T\<rparr>)
                       | (Inr _, T) \<Rightarrow>
                           (marker_from_path dst,
                            ws1\<lparr>ws_tree := T, ws_index := index_note_path dst (ws_index ws1)\<rparr>)))))"

text \<open>\<open>quarantine\<close> of a state entry: it leaves the state tree and the cache forgets its job.\<close>

definition quarantine :: "string list \<Rightarrow> workspace \<Rightarrow> unit res \<times> workspace" where
  "quarantine p ws =
     (if p \<notin> set (ws_tree ws) then (Inl OSError, ws)
      else (Inr (), ws\<lparr>ws_tree := filter (\<lambda>q. q \<noteq> p) (ws_tree ws),
             ws_index := (case marker_from_path p of
                            Inr m \<Rightarrow> index_forget (job_id m) (ws_index ws) | Inl _ \<Rightarrow> ws_index ws)\<rparr>))"

end
