(* ===== verification/Workspace_Correct.thy ===== *)
theory Workspace_Correct
  imports Workspace_State
begin

text \<open>
  Correctness of state changes. A transition that commits leaves exactly one marker for the
  job, at the next generation, whose frame reads back with the members that were written; a
  second actor that still holds the old marker loses and changes nothing but the journal;
  and over every sequence of submissions and transitions the state tree stays coherent:
  one marker per job, each with a readable frame that agrees with it.
\<close>

section \<open>Markers in the tree\<close>

definition live :: "workspace \<Rightarrow> marker \<Rightarrow> bool" where
  "live ws m \<longleftrightarrow>
     path m \<in> set (ws_tree ws) \<and> marker_from_path (path m) = Inr m \<and> kind m \<in> set CORE_STATE_KINDS"

definition one_marker :: "state_tree \<Rightarrow> bool" where
  "one_marker T \<longleftrightarrow>
     (\<forall>p\<in>set T. \<forall>q\<in>set T. \<forall>m n.
        marker_from_path p = Inr m \<longrightarrow> marker_from_path q = Inr n \<longrightarrow>
        kind m \<in> set CORE_STATE_KINDS \<longrightarrow> kind n \<in> set CORE_STATE_KINDS \<longrightarrow>
        job_id m = job_id n \<longrightarrow> p = q)"

lemma distinct_singleton: "distinct xs \<Longrightarrow> set xs = {x} \<Longrightarrow> xs = [x]"
  by (cases xs; cases "tl xs") auto

lemma kind_files_distinct: "distinct T \<Longrightarrow> distinct (kind_files T k)"
  by (simp add: kind_files_def)

lemma scan_markers_distinct:
  assumes "distinct T" and "distinct kinds"
  shows "distinct (scan_markers T kinds)"
proof -
  have "distinct (concat (map (kind_files T) ks))" if "distinct ks" for ks
    using that
  proof (induction ks)
    case (Cons k ks)
    have "set (kind_files T k) \<inter> set (concat (map (kind_files T) ks)) = {}"
      using Cons.prems by (auto simp: kind_files_set)
    with Cons kind_files_distinct [OF assms(1)] show ?case by simp
  qed simp
  then show ?thesis
    unfolding scan_markers_concat using assms(2)
    by (intro map_filter_distinct) (auto simp: found_read_entry dest: marker_from_path_inj)
qed

lemma distinct_core: "distinct CORE_STATE_KINDS"
  by code_simp

lemma live_current: "live ws m \<Longrightarrow> m \<in> set (current_markers (ws_tree ws) (job_id m))"
  by (auto simp: live_def current_markers_set)

lemma current_live: "m \<in> set (current_markers (ws_tree ws) i) \<Longrightarrow> live ws m \<and> job_id m = i"
  using marker_from_path_parts(5) by (auto simp: live_def current_markers_set)

lemma current_markers_single:
  assumes "distinct (ws_tree ws)" and "one_marker (ws_tree ws)" and "live ws m"
  shows "current_markers (ws_tree ws) (job_id m) = [m]"
proof -
  let ?ms = "current_markers (ws_tree ws) (job_id m)"
  have d: "distinct ?ms"
    using scan_markers_distinct [OF assms(1) distinct_core] by (simp add: current_markers_def)
  have "n = m" if "n \<in> set ?ms" for n
  proof -
    have "live ws n" "job_id n = job_id m" using current_live [OF that] by auto
    then have "path n = path m" using assms(2,3) unfolding one_marker_def live_def by metis
    then show ?thesis using \<open>live ws n\<close> assms(3) by (simp add: live_def)
  qed
  then have "set ?ms = {m}" using live_current [OF assms(3)] by blast
  with d show ?thesis by (rule distinct_singleton)
qed

lemma marker_from_path_placement:
  "marker_from_path p = Inr m \<Longrightarrow>
     normalize_parts \<lparr>absolute = False, parts = placement m\<rparr> = Inr (placement m)"
  by (auto simp: marker_from_path_def res_simps normalize_parts_def split: if_splits option.splits)

section \<open>The frame of a transition\<close>

definition envelope_members :: "string list" where
  "envelope_members =
     [''format'', ''format_version'', ''workspace_id'', ''job_id'', ''job_key'', ''placement'',
      ''state_generation'', ''kind'', ''previous_record_ref'', ''created_at'', ''priority'']"

text \<open>The updates of a manager: members outside the envelope, each once.\<close>

definition declared_updates :: "obj \<Rightarrow> bool" where
  "declared_updates u \<longleftrightarrow> distinct (map fst u) \<and> list_all (\<lambda>p. fst p \<notin> set envelope_members) u"

lemma envelope_keys: "map fst (transition_envelope ws m k prio now) = envelope_members"
  by (simp add: transition_envelope_def envelope_members_def)

lemma declared_lookup:
  assumes "declared_updates u"
  shows "map_of (dict_update e u) k = (if k \<in> fst ` set u then map_of u k else map_of e k)"
proof -
  have "map_of (rev u) = map_of u"
    using assms by (intro map_of_inject_set [THEN iffD2]) (simp_all add: declared_updates_def rev_map [symmetric])
  moreover have "map_of u k = None \<longleftrightarrow> k \<notin> fst ` set u" by (simp add: map_of_eq_None_iff)
  ultimately show ?thesis by (cases "map_of u k") (auto simp: map_add_def)
qed

lemma transition_frame_members:
  assumes "declared_updates u"
    and f_def: "f = dict_update (transition_envelope ws m k prio now) u"
  shows "x \<in> set envelope_members \<Longrightarrow> get f x = get (transition_envelope ws m k prio now) x"
    and "x \<notin> set envelope_members \<Longrightarrow> get f x = get u x"
    and "distinct (map fst f)"
proof -
  let ?e = "transition_envelope ws m k prio now"
  have l: "map_of f x = (if x \<in> fst ` set u then map_of u x else map_of ?e x)"
    unfolding f_def by (rule declared_lookup [OF assms(1)])
  have u: "x \<notin> set envelope_members" if "x \<in> fst ` set u"
    using assms(1) that by (auto simp: declared_updates_def list_all_iff)
  show "get f x = get ?e x" if "x \<in> set envelope_members"
    using l u that by (auto simp: get_def)
  show "get f x = get u x" if "x \<notin> set envelope_members"
  proof -
    have "map_of ?e x = None" using that envelope_keys [of ws m k prio now]
      by (metis map_of_eq_None_iff set_map)
    then show ?thesis using l by (auto simp: get_def map_of_eq_None_iff [symmetric] split: option.splits)
  qed
  have "distinct envelope_members" by code_simp
  then show "distinct (map fst f)" unfolding f_def
    by (intro dict_update_distinct) (simp add: envelope_keys)
qed

lemma stored_get: "distinct (map fst f) \<Longrightarrow> get (stored f) x = canon (get f x)"
  using canon_obj_members(1) [of f "stored f" x] stored_canon by blast

lemma transition_frame_agrees:
  assumes "declared_updates u" and "job_key n = job_key m" and "generation n = generation m + 1"
    and "kind n = k" and "ws_id ws' = ws_id ws"
  shows "frame_agrees ws' n (stored (dict_update (transition_envelope ws m k prio now) u))"
proof -
  let ?f = "dict_update (transition_envelope ws m k prio now) u"
  have g: "get (stored ?f) x = canon (get (transition_envelope ws m k prio now) x)"
    if "x \<in> set envelope_members" for x
    using stored_get [OF transition_frame_members(3) [OF assms(1) refl]]
      transition_frame_members(1) [OF assms(1) refl that] by simp
  have e: "list_all (\<lambda>x. x \<in> set envelope_members)
      [''format'', ''format_version'', ''workspace_id'', ''job_key'', ''state_generation'', ''kind'']"
    by code_simp
  show ?thesis
    using e assms(2-5) unfolding frame_agrees_def
    by (simp add: g) (simp add: transition_envelope_def)
qed

section \<open>A transition that commits\<close>

definition transition_frame ::
  "workspace \<Rightarrow> marker \<Rightarrow> kind \<Rightarrow> int option \<Rightarrow> string \<Rightarrow> obj \<Rightarrow> obj" where
  "transition_frame ws m k prio now u =
     dict_update (transition_envelope ws m k (case prio of None \<Rightarrow> int (priority m) | Some p \<Rightarrow> p) now) u"

text \<open>What a caller supplies: updates that can be stored, and a legal priority.\<close>

definition transition_args ::
  "workspace \<Rightarrow> marker \<Rightarrow> kind \<Rightarrow> int option \<Rightarrow> string \<Rightarrow> obj \<Rightarrow> bool" where
  "transition_args ws m k prio now u \<longleftrightarrow>
     declared_updates u \<and> storable (transition_frame ws m k prio now u) \<and>
     (case prio of None \<Rightarrow> True | Some p \<Rightarrow> 0 \<le> p \<and> p \<le> 999)"

lemma init_not_ref: "parse_record_ref ''init'' = Inl FormatError"
  by code_simp

lemma parsed_ref_pattern: "parse_record_ref ref = Inr x \<Longrightarrow> marker_ref_pattern ref \<and> ref \<noteq> ''init''"
  using init_not_ref by (auto simp: parse_record_ref_def marker_ref_pattern_def split: option.splits)

text \<open>The destination of a transition after its frame was appended.\<close>

lemma transition_destination:
  assumes "store_inv (w, J)" and "marker_from_path (path m) = Inr m"
    and "transition_args ws m k prio now u" and "generation m < 2 ^ 64 - 1"
    and "append_record w (transition_frame ws m k prio now u) J = (Inr ref, w', J')"
  defines "p \<equiv> (case prio of None \<Rightarrow> int (priority m) | Some p \<Rightarrow> p)"
  shows "\<exists>dst. marker_path k (placement m) (job_key m) p (int (generation m) + 1) ref = Inr dst \<and>
    marker_from_path dst = Inr \<lparr>kind = k, placement = placement m, job_key = job_key m, priority = nat p,
      generation = generation m + 1, record_ref = ref, path = dst\<rparr> \<and> ref \<noteq> ''init''"
proof -
  have wf: "wf_marker m" using marker_from_path_wf [OF assms(2)] by simp
  obtain t where key: "parse_job_key (job_key m) = Inr (t, job_id m)"
    using wf by (auto simp: wf_marker_def)
  have p: "0 \<le> p" "p \<le> 999"
    using assms(3) wf by (auto simp: p_def transition_args_def wf_marker_def split: option.splits)
  obtain y where ref: "parse_record_ref ref = Inr y"
    using append_ref [of w J "transition_frame ws m k prio now u" ref w' J'] assms(1,3,5)
    by (auto simp: store_inv_def transition_args_def)
  have g: "0 \<le> int (generation m) + 1" "int (generation m) + 1 < 2 ^ 64"
    using assms(4) by auto
  obtain name where n: "marker_basename (job_key m) p (int (generation m) + 1) ref = Inr name"
    using marker_basename_ok [OF key p g ref] by blast
  let ?dst = "state_directory k (placement m) @ [name]"
  have d: "marker_path k (placement m) (job_key m) p (int (generation m) + 1) ref = Inr ?dst"
    by (simp add: marker_path_def n)
  from marker_path_read [OF d marker_from_path_placement [OF assms(2)]] parsed_ref_pattern [OF ref]
  show ?thesis using d by (simp add: nat_add_distrib)
qed

lemma unsealed_cases:
  "require_unsealed ws key = Inr u \<or> require_unsealed ws key = Inl SealedError"
  by (simp add: require_unsealed_def split: option.splits)

lemma read_state_extends:
  assumes "read_state ws n = Inr f" and "journal_extends (ws_journal ws) (ws_journal ws')"
    and "ws_id ws' = ws_id ws"
  shows "read_state ws' n = Inr f"
proof (cases "record_ref n = ''init''")
  case True
  with assms show ?thesis by (simp add: read_state_def initial_state_def)
next
  case False
  with assms(1) have "read_record [ws_journal ws] (record_ref n) = Inr f" "frame_agrees ws n f"
    by (auto simp: read_state_def res_simps split: if_splits)
  with False read_record_extends [OF assms(2)] assms(3) show ?thesis
    by (simp add: read_state_def frame_agrees_def)
qed

lemma transition_frame_read:
  assumes "store_inv (w, ws_journal ws)" and "transition_args ws m k prio now u"
    and "append_record w (transition_frame ws m k prio now u) (ws_journal ws) = (Inr ref, w', J')"
    and "ws_journal ws' = J'" and "ws_id ws' = ws_id ws" and "ref \<noteq> ''init''"
    and "kind n = k" and "job_key n = job_key m" and "generation n = generation m + 1"
    and "record_ref n = ref"
  shows "read_state ws' n = Inr (stored (transition_frame ws m k prio now u))"
proof -
  have "store_append (w, ws_journal ws) (transition_frame ws m k prio now u) = (Inr ref, (w', J'))"
    using assms(3) by (simp add: store_append_def)
  then have "store_read (w', J') ref = Inr (stored (transition_frame ws m k prio now u))"
    using js.app_read [OF assms(1)] assms(2) by (simp add: transition_args_def)
  moreover have "frame_agrees ws' n (stored (transition_frame ws m k prio now u))"
    unfolding transition_frame_def using assms
    by (intro transition_frame_agrees) (simp_all add: transition_args_def)
  ultimately show ?thesis
    using assms by (simp add: read_state_def store_read_def)
qed

lemma find_markers_inv:
  assumes "distinct T" and "index_inv st" and "find_markers T key kinds st = (r, st')"
  shows "index_inv st'"
proof (cases "parse_job_key key")
  case (Inr x)
  obtain t i where x: "x = (t, i)" by (cases x)
  obtain r1 st1 where f: "find_marker_by_id T i st = (r1, st1)" by (cases "find_marker_by_id T i st")
  have "index_inv st1" using find_marker_by_id_cases [OF assms(1,2) f] by simp
  with assms(2,3) Inr x f show ?thesis
    by (auto simp: find_markers_def split: if_splits sum.splits option.splits)
qed (use assms in \<open>simp add: find_markers_def\<close>)

section \<open>Coherence of the state tree\<close>

text \<open>
  The invariant: paths are distinct, each job has at most one marker, every marker has a
  readable frame that agrees with it, and the cache is within its bounds.
\<close>

definition readable :: "workspace \<Rightarrow> marker \<Rightarrow> bool" where
  "readable ws m \<longleftrightarrow> (\<exists>f. read_state ws m = Inr f \<and> frame_agrees ws m f)"

lemma readable_extends:
  assumes "readable ws m" and "journal_extends (ws_journal ws) (ws_journal ws')" and "ws_id ws' = ws_id ws"
  shows "readable ws' m"
  using assms read_state_extends [OF _ assms(2,3)] by (auto simp: readable_def frame_agrees_def)

lemma read_agrees: "read_state ws m = Inr f \<Longrightarrow> record_ref m \<noteq> ''init'' \<Longrightarrow> frame_agrees ws m f"
  by (auto simp: read_state_def res_simps split: if_splits)

definition coherent :: "workspace \<Rightarrow> bool" where
  "coherent ws \<longleftrightarrow>
     distinct (ws_tree ws) \<and> one_marker (ws_tree ws) \<and> index_inv (ws_index ws) \<and>
     (\<forall>m. live ws m \<longrightarrow> readable ws m)"

lemma coherent_readable: "coherent ws \<Longrightarrow> live ws m \<Longrightarrow> \<exists>f. read_state ws m = Inr f"
  by (auto simp: coherent_def readable_def)

lemma coherent_same_tree:
  assumes "coherent ws" and "ws_tree ws' = ws_tree ws" and "ws_id ws' = ws_id ws"
    and "journal_extends (ws_journal ws) (ws_journal ws')" and "index_inv (ws_index ws')"
  shows "coherent ws'"
proof -
  have "readable ws' m" if "live ws' m" for m
  proof -
    have "live ws m" using that assms(2) by (simp add: live_def)
    then have "readable ws m" using assms(1) by (simp add: coherent_def)
    then show ?thesis by (rule readable_extends [OF _ assms(4,3)])
  qed
  with assms show ?thesis by (simp add: coherent_def)
qed

lemma rename_path_facts:
  assumes "distinct T" and "src \<in> set T"
  shows "distinct (rename_path src dst T)"
    and "set (rename_path src dst T) = insert dst (set T - {src})"
  using assms by (auto simp: rename_path_def)

lemma one_marker_rename:
  assumes "one_marker T" and "src \<in> set T" and "marker_from_path src = Inr m"
    and "kind m \<in> set CORE_STATE_KINDS" and "marker_from_path dst = Inr n" and "job_id n = job_id m"
    and "distinct T"
  shows "one_marker (rename_path src dst T)"
  unfolding one_marker_def rename_path_facts(2) [OF assms(7,2)]
proof (intro ballI allI impI)
  fix p q x y
  assume p: "p \<in> insert dst (set T - {src})" and q: "q \<in> insert dst (set T - {src})"
    and x: "marker_from_path p = Inr x" and y: "marker_from_path q = Inr y"
    and kx: "kind x \<in> set CORE_STATE_KINDS" and ky: "kind y \<in> set CORE_STATE_KINDS"
    and i: "job_id x = job_id y"
  have other: "z = dst" if "z \<in> insert dst (set T - {src})" "marker_from_path z = Inr v"
    "kind v \<in> set CORE_STATE_KINDS" "job_id v = job_id m" for z v
    using that assms(1-4) unfolding one_marker_def by blast
  show "p = q"
  proof (cases "job_id x = job_id m")
    case True
    with other [OF p x kx] other [OF q y ky] i show ?thesis by simp
  next
    case False
    then have "p \<noteq> dst" "q \<noteq> dst" using x y i assms(5,6) by auto
    then show ?thesis using p q x y kx ky i assms(1) unfolding one_marker_def by blast
  qed
qed

text \<open>
  Renames without interference within the call: the tree changes exactly when the marker
  was still there and the server performed one of the attempts.
\<close>

definition quiet :: "bool list \<Rightarrow> rename_env" where
  "quiet bs = map (\<lambda>b. (\<lambda>T. T, b)) bs"

lemma rename_outcome:
  assumes "verified_marker_rename (quiet bs) m dst ws = (r, ws')"
    and "marker_from_path dst = Inr n" and "dst \<notin> set (ws_tree ws)" and "path m \<noteq> dst"
    and "distinct (ws_tree ws)" and "index_inv (ws_index ws)"
  shows "\<exists>idx. index_inv idx \<and>
    (if True \<in> set bs \<and> path m \<in> set (ws_tree ws)
     then r = Inr n \<and> ws' = ws\<lparr>ws_tree := rename_path (path m) dst (ws_tree ws), ws_index := idx\<rparr>
     else (\<exists>e. r = Inl e) \<and> ws' = ws\<lparr>ws_index := idx\<rparr>)"
  using assms(1,3,5,6)
proof (induction bs arbitrary: ws)
  case Nil
  then show ?case by (auto simp: quiet_def intro!: exI [of _ "ws_index ws"])
next
  case (Cons b bs)
  show ?case
  proof (cases "path m \<in> set (ws_tree ws)")
    case True
    show ?thesis
    proof (cases b)
      case True
      let ?ws = "ws\<lparr>ws_tree := rename_path (path m) dst (ws_tree ws), ws_index := index_note n (ws_index ws)\<rparr>"
      have "r = Inr n \<and> ws' = ?ws"
        using Cons.prems(1) \<open>path m \<in> _\<close> True assms(2) by (simp add: quiet_def rename_path_def)
      then show ?thesis
        using True \<open>path m \<in> _\<close> index_note_inv [OF Cons.prems(4)] by auto
    next
      case False
      then have "verified_marker_rename (quiet bs) m dst ws = (r, ws')"
        using Cons.prems(1,2) True by (simp add: quiet_def)
      from Cons.IH [OF this Cons.prems(2-4)] show ?thesis using False by simp
    qed
  next
    case False
    then have T: "rename_path (path m) dst (ws_tree ws) = ws_tree ws" by (simp add: rename_path_def)
    obtain x idx where f: "find_markers (ws_tree ws) (job_key m) CORE_STATE_KINDS (ws_index ws) = (x, idx)"
      by (cases "find_markers (ws_tree ws) (job_key m) CORE_STATE_KINDS (ws_index ws)")
    have i: "index_inv idx" using find_markers_inv [OF Cons.prems(3,4) f] .
    show ?thesis
    proof (cases "x = Inr []")
      case True
      then have "verified_marker_rename (quiet bs) m dst (ws\<lparr>ws_index := idx\<rparr>) = (r, ws')"
        using Cons.prems(1,2) False T f by (cases b) (simp_all add: quiet_def Let_def)
      from Cons.IH [OF this] Cons.prems(2,3) i False show ?thesis by simp
    next
      case no: False
      have "(\<exists>e. r = Inl e) \<and> ws' = ws\<lparr>ws_index := idx\<rparr>"
        using Cons.prems(1,2) False T f no
        by (cases b) (auto simp: quiet_def Let_def split: sum.splits list.splits)
      with False i show ?thesis by auto
    qed
  qed
qed

text \<open>A fresh reference names no marker of a coherent tree.\<close>

lemma fresh_destination:
  assumes "coherent ws" and "store_inv (w, ws_journal ws)" and "storable f"
    and "append_record w f (ws_journal ws) = (Inr ref, w', J')"
    and "marker_from_path dst = Inr n" and "path n = dst" and "record_ref n = ref"
    and "kind n \<in> set CORE_STATE_KINDS" and "ref \<noteq> ''init''"
  shows "dst \<notin> set (ws_tree ws)"
proof
  assume "dst \<in> set (ws_tree ws)"
  then have "live ws n" using assms(5,6,8) by (simp add: live_def)
  then obtain g where "read_state ws n = Inr g" using coherent_readable [OF assms(1)] by blast
  then have "store_read (w, ws_journal ws) ref = Inr g"
    using assms(7,9) by (auto simp: read_state_def store_read_def res_simps split: if_splits)
  moreover have "store_append (w, ws_journal ws) f = (Inr ref, (w', J'))"
    using assms(4) by (simp add: store_append_def)
  ultimately show False using js.app_fresh [OF assms(2,3)] by blast
qed

text \<open>
  The outcome of a transition on a marker that was once read, current or stale: the tree is
  renamed exactly when the call returns the new marker.
\<close>

definition moved_marker :: "marker \<Rightarrow> kind \<Rightarrow> int option \<Rightarrow> marker \<Rightarrow> bool" where
  "moved_marker m k prio n \<longleftrightarrow>
     kind n = k \<and> placement n = placement m \<and> job_key n = job_key m \<and>
     priority n = nat (case prio of None \<Rightarrow> int (priority m) | Some p \<Rightarrow> p) \<and>
     generation n = generation m + 1 \<and> record_ref n \<noteq> ''init'' \<and>
     marker_from_path (path n) = Inr n"

lemma transition_started:
  assumes "transition env now m k u prio a w ws = (r, w', ws')"
  obtains e where "r = Inl e" "w' = w" "ws' = ws"
    "ws_sealed ws \<or> job_key m \<in> set (ws_sealed_jobs ws) \<or> generation m \<ge> 2 ^ 64 - 1"
  | e J' where "r = Inl e" "ws' = ws\<lparr>ws_journal := J'\<rparr>"
    "append_record w (transition_frame ws m k prio now u) (ws_journal ws) = (Inl e, w', J')"
  | ref J' where "generation m < 2 ^ 64 - 1"
    "append_record w (transition_frame ws m k prio now u) (ws_journal ws) = (Inr ref, w', J')"
    "(r, ws') = (case marker_path k (placement m) (job_key m)
        (case prio of None \<Rightarrow> int (priority m) | Some p \<Rightarrow> p) (int (generation m) + 1) ref of
          Inl e \<Rightarrow> (Inl e, ws\<lparr>ws_journal := J'\<rparr>)
        | Inr dst \<Rightarrow> verified_marker_rename env m dst (ws\<lparr>ws_journal := J'\<rparr>))"
proof (cases "require_unsealed ws (if a then None else Some (job_key m))")
  case (Inl e)
  then have "ws_sealed ws \<or> job_key m \<in> set (ws_sealed_jobs ws)"
    by (auto simp: require_unsealed_def split: if_splits)
  with assms Inl show ?thesis by (intro that(1)) (auto simp: transition_def)
next
  case (Inr x)
  let ?A = "append_record w (transition_frame ws m k prio now u) (ws_journal ws)"
  show ?thesis
  proof (cases "int (generation m) + 1 > 2 ^ 64 - 1")
    case True
    then have "generation m \<ge> 2 ^ 64 - 1" by auto
    with assms Inr True show ?thesis by (intro that(1)) (auto simp: transition_def Let_def)
  next
    case False
    then have g: "generation m < 2 ^ 64 - 1" by auto
    obtain y w1 J1 where app: "?A = (y, w1, J1)" by (cases ?A)
    from assms Inr False app show ?thesis
      by (cases y)
        (auto simp: transition_def Let_def transition_frame_def
          intro: that(2) that(3) [OF g] split: sum.splits prod.splits)
  qed
qed

lemma transition_outcome:
  assumes "coherent ws" and "store_inv (w, ws_journal ws)" and "marker_from_path (path m) = Inr m"
    and "transition_args ws m k prio now u" and "k \<in> set CORE_STATE_KINDS"
    and t: "transition (quiet bs) now m k u prio a w ws = (r, w', ws')"
  shows "store_inv (w', ws_journal ws') \<and> ws_id ws' = ws_id ws \<and>
    journal_extends (ws_journal ws) (ws_journal ws') \<and> index_inv (ws_index ws') \<and>
    ws_documents ws' = ws_documents ws \<and>
    ws_sealed ws' = ws_sealed ws \<and> ws_sealed_jobs ws' = ws_sealed_jobs ws \<and>
    (case r of
       Inl _ \<Rightarrow> ws_tree ws' = ws_tree ws
     | Inr n \<Rightarrow> moved_marker m k prio n \<and> path m \<in> set (ws_tree ws) \<and> path n \<notin> set (ws_tree ws) \<and>
         ws_tree ws' = rename_path (path m) (path n) (ws_tree ws) \<and>
         append_record w (transition_frame ws m k prio now u) (ws_journal ws)
           = (Inr (record_ref n), w', ws_journal ws') \<and>
         read_state ws' n = Inr (stored (transition_frame ws m k prio now u)))"
proof -
  let ?f = "transition_frame ws m k prio now u"
  have st: "storable ?f" using assms(4) by (simp add: transition_args_def)
  have idx: "index_inv (ws_index ws)" "distinct (ws_tree ws)" using assms(1) by (auto simp: coherent_def)
  have wi: "writer_inv w (ws_journal ws)" using assms(2) by (simp add: store_inv_def)
  from t show ?thesis
  proof (cases rule: transition_started)
    case (1 e)
    with assms(2) idx show ?thesis by simp
  next
    case (2 e J')
    with append_inv [OF wi st] append_extends [OF wi] idx show ?thesis
      by (simp add: store_inv_def)
  next
    case (3 ref J')
    have inv1: "store_inv (w', J')" and ext: "journal_extends (ws_journal ws) J'"
      using append_inv [OF wi st 3(2)] append_extends [OF wi 3(2)] by (simp_all add: store_inv_def)
    obtain dst n where d: "marker_path k (placement m) (job_key m)
        (case prio of None \<Rightarrow> int (priority m) | Some p \<Rightarrow> p) (int (generation m) + 1) ref = Inr dst"
      and n: "marker_from_path dst = Inr n" "path n = dst" "record_ref n = ref" "moved_marker m k prio n"
      and ref: "ref \<noteq> ''init''"
      using transition_destination [OF assms(2,3,4) 3(1,2)] by (fastforce simp: moved_marker_def)
    have kn: "kind n = k" "job_key n = job_key m" "generation n = generation m + 1"
      using n(4) by (auto simp: moved_marker_def)
    have fresh: "dst \<notin> set (ws_tree ws)"
      using fresh_destination [OF assms(1,2) st 3(2) n(1,2,3)] kn assms(5) ref by simp
    have ne: "path m \<noteq> dst" using assms(3) n(1) kn(3) by auto
    have rn: "verified_marker_rename (quiet bs) m dst (ws\<lparr>ws_journal := J'\<rparr>) = (r, ws')"
      using 3(3) d by simp
    obtain idx' where o: "index_inv idx'"
      "if True \<in> set bs \<and> path m \<in> set (ws_tree ws)
       then r = Inr n \<and> ws' = ws\<lparr>ws_journal := J', ws_tree := rename_path (path m) dst (ws_tree ws), ws_index := idx'\<rparr>
       else (\<exists>e. r = Inl e) \<and> ws' = ws\<lparr>ws_journal := J', ws_index := idx'\<rparr>"
      using rename_outcome [OF rn n(1)] fresh ne idx by auto
    have "read_state ws' n = Inr (stored ?f)" if "r = Inr n"
      using transition_frame_read [OF assms(2,4) 3(2) _ _ ref kn(1-3) n(3), of ws'] o(2) that
      by (auto split: if_splits)
    with o inv1 ext n(2,3,4) 3(2) fresh show ?thesis by (auto split: if_splits)
  qed
qed

lemma transition_coherent:
  assumes "coherent ws" and "store_inv (w, ws_journal ws)" and "marker_from_path (path m) = Inr m"
    and "kind m \<in> set CORE_STATE_KINDS"
    and "transition_args ws m k prio now u" and "k \<in> set CORE_STATE_KINDS"
    and t: "transition (quiet bs) now m k u prio a w ws = (r, w', ws')"
  shows "coherent ws'"
proof -
  note out = transition_outcome [OF assms(1-3,5-7)]
  show ?thesis
  proof (cases r)
    case (Inl e)
    with out coherent_same_tree [OF assms(1)] show ?thesis by simp
  next
    case (Inr n)
    with out have n: "moved_marker m k prio n" and p: "path m \<in> set (ws_tree ws)"
      and tree: "ws_tree ws' = rename_path (path m) (path n) (ws_tree ws)"
      and rd: "read_state ws' n = Inr (stored (transition_frame ws m k prio now u))" by auto
    have nm: "marker_from_path (path n) = Inr n" "job_id n = job_id m"
      using n by (auto simp: moved_marker_def job_id_def)
    have d: "distinct (ws_tree ws)" "one_marker (ws_tree ws)" using assms(1) by (auto simp: coherent_def)
    have "readable ws' v" if v: "live ws' v" for v
    proof (cases "path v = path n")
      case True
      then have "v = n" using v nm(1) unfolding live_def by (metis sum.inject(2))
      moreover have "record_ref n \<noteq> ''init''" using n by (simp add: moved_marker_def)
      ultimately show ?thesis using rd read_agrees [OF rd] by (auto simp: readable_def)
    next
      case False
      then have "live ws v"
        using v tree rename_path_facts(2) [OF d(1) p] by (simp add: live_def)
      then have "readable ws v" using assms(1) by (simp add: coherent_def)
      moreover have "journal_extends (ws_journal ws) (ws_journal ws')" "ws_id ws' = ws_id ws"
        using out by simp_all
      ultimately show ?thesis by (rule readable_extends)
    qed
    moreover have "distinct (ws_tree ws')" "one_marker (ws_tree ws')"
      using rename_path_facts(1) [OF d(1) p] one_marker_rename [OF d(2) p assms(3,4) nm d(1)]
      by (simp_all add: tree)
    ultimately show ?thesis using out by (simp add: coherent_def)
  qed
qed


section \<open>Properties of one transition\<close>

lemma transition_succeeds:
  assumes "coherent ws" and "store_inv (w, ws_journal ws)" and "live ws m"
    and "transition_args ws m k prio now u" and "k \<in> set CORE_STATE_KINDS"
    and "generation m < 2 ^ 64 - 1" and "True \<in> set bs"
    and "require_unsealed ws (if a then None else Some (job_key m)) = Inr x"
    and "append_record w (transition_frame ws m k prio now u) (ws_journal ws) = (Inr ref, w', J')"
  shows "\<exists>n ws'. transition (quiet bs) now m k u prio a w ws = (Inr n, w', ws')"
proof -
  have m: "marker_from_path (path m) = Inr m" "path m \<in> set (ws_tree ws)"
    using assms(3) by (auto simp: live_def)
  obtain dst n where d: "marker_path k (placement m) (job_key m)
      (case prio of None \<Rightarrow> int (priority m) | Some p \<Rightarrow> p) (int (generation m) + 1) ref = Inr dst"
    and n: "marker_from_path dst = Inr n" "generation n = generation m + 1" "kind n = k"
      "record_ref n = ref" "path n = dst" "ref \<noteq> ''init''"
    using transition_destination [OF assms(2) m(1) assms(4,6,9)] by fastforce
  have st: "storable (transition_frame ws m k prio now u)"
    using assms(4) by (simp add: transition_args_def)
  have fresh: "dst \<notin> set (ws_tree ws)"
    using fresh_destination [OF assms(1,2) st assms(9) n(1,5,4)] n(3,6) assms(5) by simp
  have ne: "path m \<noteq> dst" using m(1) n(1,2) by auto
  have idx: "index_inv (ws_index ws)" "distinct (ws_tree ws)" using assms(1) by (auto simp: coherent_def)
  obtain r ws' where rn: "verified_marker_rename (quiet bs) m dst (ws\<lparr>ws_journal := J'\<rparr>) = (r, ws')"
    by (cases "verified_marker_rename (quiet bs) m dst (ws\<lparr>ws_journal := J'\<rparr>)")
  have "r = Inr n" using rename_outcome [OF rn n(1)] fresh ne idx m(2) assms(7) by auto
  moreover have "\<not> int (generation m) + 1 > 2 ^ 64 - 1" using assms(6) by auto
  ultimately show ?thesis
    using assms(8,9) d rn by (simp add: transition_def Let_def transition_frame_def)
qed

text \<open>
  C10. A state change commits as a whole. In a coherent workspace, a manager that holds the
  current marker of an unsealed job, whose frame reached the journal and one of whose rename
  attempts the server performed, gets the marker of the next generation with the requested
  kind. The old path is gone and the new one is the only change of the state tree; the new
  state reads back with the members that were supplied and the link to the previous record;
  every other job still has its marker and its state; and the workspace stays coherent.
\<close>

theorem transition_commits:
  assumes "coherent ws" and "store_inv (w, ws_journal ws)" and "live ws m"
    and "transition_args ws m k prio now u" and "k \<in> set CORE_STATE_KINDS"
    and "generation m < 2 ^ 64 - 1" and "True \<in> set bs"
    and "require_unsealed ws (if a then None else Some (job_key m)) = Inr x"
    and "append_record w (transition_frame ws m k prio now u) (ws_journal ws) = (Inr ref, w', J')"
  shows "\<exists>n ws' f. transition (quiet bs) now m k u prio a w ws = (Inr n, w', ws') \<and>
    moved_marker m k prio n \<and> coherent ws' \<and>
    set (ws_tree ws') = insert (path n) (set (ws_tree ws) - {path m}) \<and>
    read_state ws' n = Inr f \<and>
    get f ''previous_record_ref'' = (if record_ref m = ''init'' then JNull else JStr (record_ref m)) \<and>
    (\<forall>x. x \<notin> set envelope_members \<longrightarrow> get f x = canon (get u x)) \<and>
    (\<forall>v g. live ws v \<longrightarrow> job_id v \<noteq> job_id m \<longrightarrow> read_state ws v = Inr g \<longrightarrow>
       live ws' v \<and> read_state ws' v = Inr g)"
proof -
  have m: "marker_from_path (path m) = Inr m" "path m \<in> set (ws_tree ws)" "kind m \<in> set CORE_STATE_KINDS"
    using assms(3) by (auto simp: live_def)
  obtain n ws' where t: "transition (quiet bs) now m k u prio a w ws = (Inr n, w', ws')"
    using transition_succeeds [OF assms] by blast
  note out = transition_outcome [OF assms(1,2) m(1) assms(4,5) t, simplified]
  have co: "coherent ws'" by (rule transition_coherent [OF assms(1,2) m(1,3) assms(4,5) t])
  have d: "distinct (ws_tree ws)" using assms(1) by (simp add: coherent_def)
  have tree: "set (ws_tree ws') = insert (path n) (set (ws_tree ws) - {path m})"
    using out rename_path_facts(2) [OF d m(2)] by simp
  let ?f = "stored (transition_frame ws m k prio now u)"
  have du: "declared_updates u" using assms(4) by (simp add: transition_args_def)
  note fm = transition_frame_members [OF du transition_frame_def]
  have "''previous_record_ref'' \<in> set envelope_members" by code_simp
  then have prev: "get ?f ''previous_record_ref'' = (if record_ref m = ''init'' then JNull else JStr (record_ref m))"
    using stored_get [OF fm(3)] fm(1) by (simp add: transition_envelope_def)
  have mem: "\<forall>x. x \<notin> set envelope_members \<longrightarrow> get ?f x = canon (get u x)"
    using stored_get [OF fm(3)] fm(2) by simp
  have "live ws' v \<and> read_state ws' v = Inr g"
    if "live ws v" "job_id v \<noteq> job_id m" "read_state ws v = Inr g" for v g
  proof -
    have "path v \<noteq> path m" using that(1,2) m(1) unfolding live_def by (metis sum.inject(2))
    then show ?thesis
      using that tree read_state_extends [OF that(3)] out by (simp add: live_def)
  qed
  with t out co tree prev mem show ?thesis by auto
qed

lemma find_markers_single:
  assumes "distinct (ws_tree ws)" and "one_marker (ws_tree ws)" and "index_inv (ws_index ws)"
    and "live ws n" and "find_markers (ws_tree ws) (job_key n) CORE_STATE_KINDS (ws_index ws) = (x, idx)"
  shows "x = Inr [n]"
proof -
  obtain t where key: "parse_job_key (job_key n) = Inr (t, job_id n)"
    using marker_from_path_wf [of "path n" n] assms(4) by (auto simp: wf_marker_def live_def)
  obtain r st where f: "find_marker_by_id (ws_tree ws) (job_id n) (ws_index ws) = (r, st)"
    by (cases "find_marker_by_id (ws_tree ws) (job_id n) (ws_index ws)")
  have "r = Inr (Some n)"
    using find_marker_by_id_cases [OF assms(1,3) f] current_markers_single [OF assms(1,2,4)] by simp
  with f key assms(4,5) show ?thesis by (simp add: find_markers_def live_def)
qed

text \<open>
  C11. Of two actors that hold the same marker, at most one changes the job. Once the first has
  moved it, a transition of the second from the marker it still holds is refused with
  \<open>TransitionLostError\<close>, whatever the second asked for and however often its renames are
  performed: the state tree and the first actor's new state stay exactly as they are.
\<close>

theorem transition_race:
  assumes "coherent ws" and "store_inv (w, ws_journal ws)" and "live ws m"
    and "transition_args ws m k prio now u" and "k \<in> set CORE_STATE_KINDS"
    and "transition (quiet bs) now m k u prio a w ws = (Inr n, w1, ws1)"
    and "store_inv (v, ws_journal ws1)"
    and "transition_args ws1 m k2 prio2 now2 u2" and "k2 \<in> set CORE_STATE_KINDS"
    and "require_unsealed ws1 (if a2 then None else Some (job_key m)) = Inr x"
    and "append_record v (transition_frame ws1 m k2 prio2 now2 u2) (ws_journal ws1) = (Inr ref, v', J')"
  shows "\<exists>ws2. transition (quiet (b # bs2)) now2 m k2 u2 prio2 a2 v ws1 = (Inl TransitionLostError, v', ws2) \<and>
    ws_tree ws2 = ws_tree ws1 \<and> live ws2 n \<and> read_state ws2 n = read_state ws1 n \<and> coherent ws2"
proof -
  have m: "marker_from_path (path m) = Inr m" "path m \<in> set (ws_tree ws)" "kind m \<in> set CORE_STATE_KINDS"
    using assms(3) by (auto simp: live_def)
  note out = transition_outcome [OF assms(1,2) m(1) assms(4-6), simplified]
  have co: "coherent ws1" by (rule transition_coherent [OF assms(1,2) m(1,3) assms(4-6)])
  then have c1: "distinct (ws_tree ws1)" "one_marker (ws_tree ws1)" "index_inv (ws_index ws1)"
    by (auto simp: coherent_def)
  have d: "distinct (ws_tree ws)" using assms(1) by (simp add: coherent_def)
  have tree: "set (ws_tree ws1) = insert (path n) (set (ws_tree ws) - {path m})"
    using out rename_path_facts(2) [OF d m(2)] by simp
  have n: "job_key n = job_key m" "marker_from_path (path n) = Inr n" "kind n = k"
    "generation n = generation m + 1" using out by (auto simp: moved_marker_def)
  have gone: "path m \<notin> set (ws_tree ws1)" using tree n(2,4) m(1) by auto
  have ln: "live ws1 n" using tree n assms(5) by (simp add: live_def)
  from transition_started [OF assms(6)] have g: "generation m < 2 ^ 64 - 1" by cases auto
  obtain dst y where dst: "marker_path k2 (placement m) (job_key m)
      (case prio2 of None \<Rightarrow> int (priority m) | Some p \<Rightarrow> p) (int (generation m) + 1) ref = Inr dst"
    and y: "marker_from_path dst = Inr y" "record_ref y = ref" "kind y = k2" "path y = dst" "ref \<noteq> ''init''"
    using transition_destination [OF assms(7) m(1) assms(8) g assms(11)] by fastforce
  obtain r ws2 where r2: "verified_marker_rename (quiet (b # bs2)) m dst (ws1\<lparr>ws_journal := J'\<rparr>) = (r, ws2)"
    by (cases "verified_marker_rename (quiet (b # bs2)) m dst (ws1\<lparr>ws_journal := J'\<rparr>)")
  have "\<not> int (generation m) + 1 > 2 ^ 64 - 1" using g by auto
  then have t2: "transition (quiet (b # bs2)) now2 m k2 u2 prio2 a2 v ws1 = (r, v', ws2)"
    using assms(10,11) dst r2 by (simp add: transition_def Let_def transition_frame_def)
  note out2 = transition_outcome [OF co assms(7) m(1) assms(8,9) t2]
  have fresh: "dst \<notin> set (ws_tree ws1)"
    using fresh_destination [OF co assms(7) _ assms(11) y(1,4,2)] y(3,5) assms(8,9)
    by (simp add: transition_args_def)
  obtain z idx where f: "find_markers (ws_tree ws1) (job_key m) CORE_STATE_KINDS (ws_index ws1) = (z, idx)"
    by (cases "find_markers (ws_tree ws1) (job_key m) CORE_STATE_KINDS (ws_index ws1)")
  have z: "z = Inr [n]" using find_markers_single [OF c1 ln] f n(1) by simp
  have ren: "rename_path (path m) dst (ws_tree ws1) = ws_tree ws1" using gone by (simp add: rename_path_def)
  have r: "r = Inl TransitionLostError"
    using r2 fresh gone f z ren by (cases b) (simp_all add: quiet_def Let_def)
  then have tr: "ws_tree ws2 = ws_tree ws1" using out2 by simp
  have "coherent ws2" by (rule transition_coherent [OF co assms(7) m(1,3) assms(8,9) t2])
  moreover have "read_state ws2 n = read_state ws1 n"
  proof -
    obtain q where "read_state ws1 n = Inr q" using coherent_readable [OF co ln] by blast
    then show ?thesis using read_state_extends [of ws1 n q ws2] out2 by simp
  qed
  ultimately show ?thesis using t2 r tr ln by (auto simp: live_def)
qed


section \<open>A concrete workspace\<close>

definition example_key :: string where
  "example_key = ''t--'' @ example_id"

definition example_marker :: marker where
  "example_marker =
     \<lparr>kind = Submitted, placement = [''proj''], job_key = example_key, priority = 500, generation = 0,
      record_ref = ''init'', path = [''submitted'', ''proj'', example_key @ ''.p500.g0.init'']\<rparr>"

definition example_workspace :: workspace where
  "example_workspace =
     \<lparr>ws_id = example_id, ws_tree = [path example_marker], ws_documents = Map.empty,
      ws_journal = snd example_store, ws_index = example_index,
      ws_sealed = False, ws_sealed_jobs = []\<rparr>"

definition example_updates :: obj where
  "example_updates = [(''next_step'', JStr ''relax'')]"

lemma example_marker_read: "marker_from_path (path example_marker) = Inr example_marker"
proof -
  have "marker_path Submitted [''proj''] example_key 500 0 ''init'' = Inr (path example_marker)"
    "normalize_parts \<lparr>absolute = False, parts = [''proj'']\<rparr> = Inr [''proj'']" "marker_ref_pattern ''init''"
    by code_simp+
  from marker_path_read [OF this] show ?thesis by (simp add: example_marker_def)
qed

lemma example_live: "live example_workspace example_marker"
  using example_marker_read
  by (simp add: live_def example_workspace_def example_marker_def CORE_STATE_KINDS_def STATE_KINDS_def)

lemma example_coherent: "coherent example_workspace"
proof -
  have "readable example_workspace m" if "live example_workspace m" for m
  proof -
    have "path m = path example_marker" "marker_from_path (path m) = Inr m"
      using that unfolding live_def example_workspace_def by auto
    then have "m = example_marker" using example_marker_read by simp
    then show ?thesis
      by (simp add: readable_def read_state_def frame_agrees_def initial_state_def example_marker_def)
  qed
  moreover have "index_inv example_index" by code_simp
  ultimately show ?thesis by (auto simp: coherent_def one_marker_def example_workspace_def)
qed

lemma example_key_parse: "parse_job_key example_key = Inr (Some ''t'', example_id)"
  by code_simp

lemma example_frame:
  "transition_frame example_workspace example_marker k prio now u = dict_update
     [(''format'', JStr ''httk-workflow-state''), (''format_version'', JInt 2),
      (''workspace_id'', JStr example_id), (''job_id'', JStr example_id),
      (''job_key'', JStr example_key), (''placement'', JStr ''proj''),
      (''state_generation'', JInt 1), (''kind'', JStr (kind_name k)),
      (''previous_record_ref'', JNull), (''created_at'', JStr now),
      (''priority'', JInt (case prio of None \<Rightarrow> 500 | Some p \<Rightarrow> p))] u"
  by (simp add: transition_frame_def transition_envelope_def example_workspace_def example_marker_def
      job_id_def example_key_parse as_posix_def join_with.simps split: option.splits)

lemma example_lengths:
  "length (json_bytes (JObj (transition_frame example_workspace example_marker Ready None ''now'' example_updates))) = 341"
  "length (json_bytes (JObj (transition_frame example_workspace example_marker Cancelling (Some 7) ''now'' []))) = 324"
  unfolding example_frame by code_simp+

lemma example_args:
  "transition_args example_workspace example_marker Ready None ''now'' example_updates"
  "transition_args example_workspace example_marker Cancelling (Some 7) ''now'' []"
  "utf8_valid False (json_bytes (JObj (transition_frame example_workspace example_marker Ready None ''now'' example_updates)))"
  "utf8_valid False (json_bytes (JObj (transition_frame example_workspace example_marker Cancelling (Some 7) ''now'' [])))"
proof -
  let ?f = "transition_frame example_workspace example_marker Ready None ''now'' example_updates"
  let ?g = "transition_frame example_workspace example_marker Cancelling (Some 7) ''now'' []"
  have f: "json_ok (JObj ?f)" unfolding example_frame by code_simp+
  have g: "json_ok (JObj ?g)" unfolding example_frame by code_simp+
  have u: "declared_updates example_updates" "declared_updates []" by code_simp+
  show "transition_args example_workspace example_marker Ready None ''now'' example_updates"
    "transition_args example_workspace example_marker Cancelling (Some 7) ''now'' []"
    using f g u example_lengths by (simp_all add: transition_args_def storable_def)
  show "utf8_valid False (json_bytes (JObj ?f))" "utf8_valid False (json_bytes (JObj ?g))"
    unfolding example_frame by code_simp+
qed

lemma example_state:
  "store_inv (fst example_store, ws_journal example_workspace)"
  "require_unsealed example_workspace key = Inr ()"
  "generation example_marker < 2 ^ 64 - 1"
  "Ready \<in> set CORE_STATE_KINDS" "Cancelling \<in> set CORE_STATE_KINDS"
  using example_store_inv
  by (simp_all add: example_workspace_def require_unsealed_def example_marker_def
      CORE_STATE_KINDS_def STATE_KINDS_def split: option.splits)

lemma example_frame_append:
  obtains ref w J where "append_record (fst example_store)
      (transition_frame example_workspace example_marker Ready None ''now'' example_updates)
      (ws_journal example_workspace) = (Inr ref, w, J)"
  using example_append [OF example_args(3)] that by (auto simp: example_workspace_def)

theorem transition_commits_witness:
  "\<exists>n w ws f. transition (quiet [False, True]) ''now'' example_marker Ready example_updates None False
      (fst example_store) example_workspace = (Inr n, w, ws) \<and>
    kind n = Ready \<and> generation n = 1 \<and> ws_tree ws = [path n] \<and>
    read_state ws n = Inr f \<and> get f ''next_step'' = JStr ''relax''"
proof -
  obtain ref w J where a: "append_record (fst example_store)
      (transition_frame example_workspace example_marker Ready None ''now'' example_updates)
      (ws_journal example_workspace) = (Inr ref, w, J)" by (rule example_frame_append)
  obtain n ws f where t: "transition (quiet [False, True]) ''now'' example_marker Ready example_updates None False
      (fst example_store) example_workspace = (Inr n, w, ws)"
    and n: "moved_marker example_marker Ready None n" "coherent ws"
      "set (ws_tree ws) = insert (path n) (set (ws_tree example_workspace) - {path example_marker})"
    and f: "read_state ws n = Inr f"
      "\<forall>x. x \<notin> set envelope_members \<longrightarrow> get f x = canon (get example_updates x)"
    using transition_commits [OF example_coherent example_state(1) example_live example_args(1)
        example_state(4,3) _ example_state(2) a, of "[False, True]" False]
    by auto
  have "''next_step'' \<notin> set envelope_members" by code_simp
  then have "get f ''next_step'' = JStr ''relax''" using f(2) by (simp add: example_updates_def)
  moreover have "ws_tree ws = [path n]"
    using n(2,3) by (intro distinct_singleton) (auto simp: coherent_def example_workspace_def)
  moreover have "kind n = Ready" "generation n = 1"
    using n(1) by (auto simp: moved_marker_def example_marker_def)
  ultimately show ?thesis using t f(1) by blast
qed

lemma example_append_again:
  assumes "append_record (fst example_store) r (snd example_store) = (Inr ref, w, J)"
    and "utf8_valid False (json_bytes (JObj q))"
    and "length (frame_bytes (json_bytes (JObj r))) + length (frame_bytes (json_bytes (JObj q))) \<le> 8000"
  shows "\<exists>ref' w' J'. append_record w q J = (Inr ref', w', J')"
proof -
  have "rotate_if_needed (fst example_store) n (snd example_store)
      = (Inr (), fst example_store, snd example_store)" for n
    by (simp add: rotate_if_needed_def example_writer_state)
  then have "w = (fst example_store)\<lparr>jw_handle := Some (12 + length (frame_bytes (json_bytes (JObj r))))\<rparr>"
    using assms(1) by (auto simp: append_record_def Let_def example_writer_state split: if_splits)
  then have "rotate_if_needed w (length (frame_bytes (json_bytes (JObj q)))) J = (Inr (), w, J)"
    using assms(3) by (simp add: rotate_if_needed_def example_writer_state)
  then show ?thesis using assms(2) by (auto simp: append_record_def Let_def split: prod.splits)
qed

lemma transition_frame_ws: "ws_id ws = ws_id ws' \<Longrightarrow> transition_frame ws m k prio now u = transition_frame ws' m k prio now u"
  by (simp add: transition_frame_def transition_envelope_def)

theorem transition_race_witness:
  "\<exists>n w ws v ws2. transition (quiet [True]) ''now'' example_marker Ready example_updates None False
      (fst example_store) example_workspace = (Inr n, w, ws) \<and>
    transition (quiet [True]) ''now'' example_marker Cancelling [] (Some 7) True w ws
      = (Inl TransitionLostError, v, ws2) \<and> ws_tree ws2 = ws_tree ws \<and> live ws2 n"
proof -
  obtain ref w J where a: "append_record (fst example_store)
      (transition_frame example_workspace example_marker Ready None ''now'' example_updates)
      (ws_journal example_workspace) = (Inr ref, w, J)" by (rule example_frame_append)
  obtain n ws where t: "transition (quiet [True]) ''now'' example_marker Ready example_updates None False
      (fst example_store) example_workspace = (Inr n, w, ws)"
    using transition_succeeds [OF example_coherent example_state(1) example_live example_args(1)
        example_state(4,3) _ example_state(2) a, of "[True]" False] by auto
  note out = transition_outcome [OF example_coherent example_state(1) example_marker_read example_args(1)
      example_state(4) t]
  have J: "ws_journal ws = J" using a out by simp
  have same: "transition_frame ws example_marker Cancelling (Some 7) ''now'' []
      = transition_frame example_workspace example_marker Cancelling (Some 7) ''now'' []"
    using out by (intro transition_frame_ws) simp
  have args: "transition_args ws example_marker Cancelling (Some 7) ''now'' []"
    using example_args(2) by (simp add: transition_args_def same)
  have "append_record (fst example_store)
      (transition_frame example_workspace example_marker Ready None ''now'' example_updates)
      (snd example_store) = (Inr ref, w, J)" using a by (simp add: example_workspace_def)
  from example_append_again [OF this example_args(4)] example_lengths
  obtain ref2 v J2 where b: "append_record w (transition_frame ws example_marker Cancelling (Some 7) ''now'' [])
      (ws_journal ws) = (Inr ref2, v, J2)"
    by (auto simp: same J)
  have un: "require_unsealed ws (if True then None else Some (job_key example_marker)) = Inr ()"
    using out by (simp add: require_unsealed_def example_workspace_def)
  show ?thesis
    using transition_race [OF example_coherent example_state(1) example_live example_args(1)
        example_state(4) t _ args example_state(5) un b, of True "[]"] t out by auto
qed

end
