(* ===== verification/Workspace_Protocol.thy ===== *)
theory Workspace_Protocol
  imports Workspace_Correct
begin

text \<open>
  The workspace as a shared object: submissions, transitions of any number of managers (each
  with its own journal writer and possibly with a stale marker), lookups, quarantines and
  seals as steps of one relation, and the coherence of every state it can reach.
\<close>

declare json_bytes.simps [simp del]

section \<open>Submission\<close>

lemma publish_path_cases:
  assumes "publish_path env dst T = (r, T')" and "dst \<notin> set T"
  obtains "r = Inl WorkspaceUnavailableError" "T' = T" | "r = Inr ()" "T' = dst # T"
proof -
  have "filter (\<lambda>p. p \<noteq> dst) T = T" using assms(2) by (auto simp: filter_id_conv)
  then have "(r = Inl WorkspaceUnavailableError \<and> T' = T) \<or> (r = Inr () \<and> T' = dst # T)"
    using assms by (induction env) (auto split: if_splits)
  with that show ?thesis by blast
qed

text \<open>
  What a submission relies on and the code does not look at: no marker of the same job
  identifier anywhere in the state tree.
\<close>

definition fresh_submission :: "workspace \<Rightarrow> string option \<Rightarrow> bool" where
  "fresh_submission ws document =
     (case job_from_path document of
        Inl _ \<Rightarrow> True
      | Inr job \<Rightarrow> current_markers (ws_tree ws) (jd_id job) = [])"

lemma one_marker_insert:
  assumes "one_marker T" and "current_markers T (job_id n) = []" and "marker_from_path dst = Inr n"
  shows "one_marker (dst # T)"
proof -
  have no: "job_id m \<noteq> job_id n"
    if "p \<in> set T" "marker_from_path p = Inr m" "kind m \<in> set CORE_STATE_KINDS" for p m
  proof
    assume "job_id m = job_id n"
    moreover have "path m = p" using marker_from_path_parts(5) [OF that(2)] by simp
    ultimately have "m \<in> set (current_markers T (job_id n))"
      using that by (auto simp: current_markers_set)
    with assms(2) show False by simp
  qed
  show ?thesis
    unfolding one_marker_def
  proof (intro ballI allI impI)
    fix p q x y
    assume h: "p \<in> set (dst # T)" "q \<in> set (dst # T)" "marker_from_path p = Inr x" "marker_from_path q = Inr y"
      "kind x \<in> set CORE_STATE_KINDS" "kind y \<in> set CORE_STATE_KINDS" "job_id x = job_id y"
    show "p = q"
      using h no [of p x] no [of q y] assms(1,3) unfolding one_marker_def by (metis set_ConsD sum.inject(2))
  qed
qed

lemma job_from_path_key:
  "job_from_path document = Inr job \<Longrightarrow> parse_job_key (jd_job_key job) = Inr (jd_tag job, jd_id job)"
  by (cases document)
    (auto simp: job_from_path_def job_from_bytes_def jd_job_key_def res_simps
      dest!: job_from_mapping_wf jd_job_key_parses split: option.splits json.splits)

lemma job_from_path_priority: "job_from_path document = Inr job \<Longrightarrow> 0 \<le> jd_priority job"
  by (cases document)
    (auto simp: job_from_path_def job_from_bytes_def res_simps wf_job_def
      dest!: job_from_mapping_wf split: option.splits json.splits)

lemma submit_cases:
  assumes "submit env document pl_text ws = (r, ws')" and "fresh_submission ws document"
    and "coherent ws"
  obtains (failed) e D where "r = Inl e" "ws' = ws\<lparr>ws_documents := D\<rparr>"
  | (submitted) job pl m idx where "job_from_path document = Inr job" "normalize_placement pl_text = Inr pl"
      "ws_documents ws (payload_path pl (jd_job_key job)) = None"
      "r = Inr m" "m = \<lparr>kind = Submitted, placement = pl, job_key = jd_job_key job,
         priority = nat (jd_priority job), generation = 0, record_ref = ''init'', path = path m\<rparr>"
      "marker_from_path (path m) = Inr m" "path m \<notin> set (ws_tree ws)" "index_inv idx"
      "ws' = ws\<lparr>ws_documents := (ws_documents ws)(payload_path pl (jd_job_key job) := document),
         ws_tree := path m # ws_tree ws, ws_index := idx\<rparr>"
proof (cases "\<exists>e D. r = Inl e \<and> ws' = ws\<lparr>ws_documents := D\<rparr>")
  case True
  then show ?thesis using failed by blast
next
  case False
  then have no: "r = Inl e \<Longrightarrow> ws' \<noteq> ws\<lparr>ws_documents := D\<rparr>" for e D by blast
  have id: "r = Inl e \<Longrightarrow> ws' \<noteq> ws" for e using no [of e "ws_documents ws"] by simp
  obtain job where job: "job_from_path document = Inr job"
    using assms(1) id by (cases "job_from_path document") (auto simp: submit_def split: sum.splits)
  obtain pl where pl: "normalize_placement pl_text = Inr pl"
    using assms(1) id job
    by (cases "normalize_placement pl_text") (auto simp: submit_def split: sum.splits)
  have un: "require_unsealed ws None = Inr ()"
    using assms(1) id by (cases "require_unsealed ws None") (auto simp: submit_def)
  let ?target = "payload_path pl (jd_job_key job)"
  have doc: "ws_documents ws ?target = None"
    using assms(1) id job pl un by (cases "ws_documents ws ?target") (auto simp: submit_def)
  let ?ws1 = "ws\<lparr>ws_documents := (ws_documents ws)(?target := document)\<rparr>"
  obtain dst where dst: "marker_path Submitted pl (jd_job_key job) (jd_priority job) 0 ''init'' = Inr dst"
    using assms(1) no job pl un doc
    by (cases "marker_path Submitted pl (jd_job_key job) (jd_priority job) 0 ''init''")
      (auto simp: submit_def Let_def)
  obtain x T where pub: "publish_path env dst (ws_tree ws) = (x, T)"
    by (cases "publish_path env dst (ws_tree ws)")
  have norm: "normalize_parts \<lparr>absolute = False, parts = pl\<rparr> = Inr pl"
    using pl by (auto simp: normalize_placement_def normalize_parts_def split: if_splits)
  have ref: "marker_ref_pattern ''init''" by code_simp
  define m where "m = \<lparr>kind = Submitted, placement = pl, job_key = jd_job_key job,
    priority = nat (jd_priority job), generation = 0, record_ref = ''init'', path = dst\<rparr>"
  have m: "marker_from_path dst = Inr m" using marker_path_read [OF dst norm ref] by (simp add: m_def)
  have ji: "job_id m = jd_id job" using job_from_path_key [OF job]
    by (simp add: m_def job_id_def)
  have fresh: "dst \<notin> set (ws_tree ws)"
  proof
    assume "dst \<in> set (ws_tree ws)"
    then have "m \<in> set (current_markers (ws_tree ws) (jd_id job))"
      using m ji by (auto simp: current_markers_set m_def CORE_STATE_KINDS_def STATE_KINDS_def)
    with assms(2) job show False by (simp add: fresh_submission_def)
  qed
  from pub fresh show ?thesis
  proof (cases rule: publish_path_cases)
    case 1
    then have "r = Inl WorkspaceUnavailableError \<and> ws' = ?ws1"
      using assms(1) job pl un doc dst pub by (simp add: submit_def Let_def)
    then show ?thesis using failed by blast
  next
    case 2
    have "index_inv (index_note_path dst (ws_index ws))"
      using assms(3) index_note_inv by (auto simp: index_note_path_def coherent_def split: sum.splits)
    moreover have "r = Inr m" "ws' = ?ws1\<lparr>ws_tree := dst # ws_tree ws,
        ws_index := index_note_path dst (ws_index ws)\<rparr>"
      using assms(1) job pl un doc dst pub 2 m by (simp_all add: submit_def Let_def)
    ultimately show ?thesis
      using submitted [OF job pl doc, of m "index_note_path dst (ws_index ws)"] m fresh by (simp add: m_def)
  qed
qed

lemma submit_coherent:
  assumes "submit env document pl_text ws = (r, ws')" and "fresh_submission ws document" and "coherent ws"
  shows "coherent ws' \<and> ws_journal ws' = ws_journal ws"
  using assms
proof (cases rule: submit_cases)
  case (failed e D)
  with coherent_same_tree [OF assms(3), of ws'] assms(3) show ?thesis by (simp add: coherent_def)
next
  case (submitted job pl m idx)
  have ji: "job_id m = jd_id job"
    using job_from_path_key [OF submitted(1)] submitted(5) by (metis job_id_def marker.select_convs(3) old.prod.case sum.case(2))
  have one: "one_marker (path m # ws_tree ws)"
    using one_marker_insert [OF _ _ submitted(6)] assms(2,3) submitted(1) ji
    by (simp add: coherent_def fresh_submission_def)
  have "readable ws' v" if "live ws' v" for v
  proof (cases "path v = path m")
    case True
    then have "v = m" using that submitted(6) unfolding live_def by (metis sum.inject(2))
    moreover have "record_ref m = ''init''" "kind m = Submitted" "generation m = 0"
      using submitted(5) by (metis marker.select_convs)+
    ultimately show ?thesis by (simp add: readable_def read_state_def frame_agrees_def initial_state_def)
  next
    case False
    with that have "live ws v" by (simp add: live_def submitted(9))
    then have "readable ws v" using assms(3) by (simp add: coherent_def)
    then show ?thesis using readable_extends [of ws v ws'] by (simp add: submitted(9))
  qed
  with one submitted(7,8) assms(3) show ?thesis by (simp add: coherent_def submitted(9))
qed

text \<open>
  C13. A submission that succeeds publishes the job. The new marker is the only change of the
  state tree: generation zero of the submitted state, with the key and priority of the
  document. The document now stored under the payload reads back as the job that was given,
  the reserved initial frame is its state, and every other job keeps its marker and state.
\<close>

theorem submit_sound:
  assumes "submit env document pl_text ws = (Inr m, ws')" and "fresh_submission ws document"
    and "coherent ws"
  shows "coherent ws' \<and> kind m = Submitted \<and> generation m = 0 \<and>
    set (ws_tree ws') = insert (path m) (set (ws_tree ws)) \<and> path m \<notin> set (ws_tree ws) \<and>
    (\<exists>job. job_from_path document = Inr job \<and> load_job ws' m = Inr job \<and>
       job_key m = jd_job_key job \<and> int (priority m) = jd_priority job) \<and>
    live ws' m \<and> read_state ws' m = Inr (initial_state ws' m) \<and>
    (\<forall>v f. live ws v \<longrightarrow> read_state ws v = Inr f \<longrightarrow> live ws' v \<and> read_state ws' v = Inr f)"
  using assms
proof (cases rule: submit_cases)
  case (submitted job pl n idx)
  have n: "n = m" using submitted(4) by simp
  have parts: "kind m = Submitted" "placement m = pl" "job_key m = jd_job_key job" "generation m = 0"
    "priority m = nat (jd_priority job)" "record_ref m = ''init''"
    using submitted(5) n by (metis marker.select_convs)+
  have prio: "0 \<le> jd_priority job" using job_from_path_priority [OF submitted(1)] .
  have "load_job ws' m = Inr job"
    using submitted(1) prio by (simp add: load_job_def parts submitted(9) n)
  moreover have "live ws' m"
    using submitted(6) parts(1) by (simp add: live_def submitted(9) n CORE_STATE_KINDS_def STATE_KINDS_def)
  moreover have "\<forall>v f. live ws v \<longrightarrow> read_state ws v = Inr f \<longrightarrow> live ws' v \<and> read_state ws' v = Inr f"
    using read_state_extends [of ws _ _ ws'] by (auto simp: live_def submitted(9))
  ultimately show ?thesis
    using submit_coherent [OF assms] parts prio submitted(1,7)
    by (simp add: submitted(9) n read_state_def)
qed simp

definition fresh_workspace :: "string \<Rightarrow> nat \<Rightarrow> workspace" where
  "fresh_workspace i cap =
     \<lparr>ws_id = i, ws_tree = [], ws_documents = Map.empty, ws_journal = Map.empty,
      ws_index = \<lparr>marker_index = None, marker_duplicates = [], marker_index_capacity = cap\<rparr>,
      ws_sealed = False, ws_sealed_jobs = []\<rparr>"

lemma fresh_workspace_coherent: "coherent (fresh_workspace i cap)"
  by (simp add: coherent_def fresh_workspace_def one_marker_def live_def index_inv_def)

lemma example_marker_path: "marker_path Submitted [''proj''] example_key 500 0 ''init'' = Inr (path example_marker)"
  by code_simp

lemma example_submit:
  "\<exists>ws. submit [False, True] (Some (json_bytes (JObj example_document))) ''proj'' (fresh_workspace i cap)
     = (Inr example_marker, ws)"
proof -
  let ?job = "example_job\<lparr>jd_stored_digest := Some (job_digest (json_bytes (JObj example_document)))\<rparr>"
  have j: "job_from_path (Some (json_bytes (JObj example_document))) = Inr ?job"
    using example_job_bytes by (simp add: job_from_path_def)
  have k: "jd_job_key ?job = example_key" "jd_priority ?job = 500"
    by (simp_all add: jd_job_key_def example_job_def make_job_key_def example_key_def)
  have pl: "normalize_placement ''proj'' = Inr [''proj'']" by code_simp
  show ?thesis
    using example_marker_read
    by (simp add: submit_def Let_def j k pl example_marker_path fresh_workspace_def require_unsealed_def)
qed

lemma example_submission_fresh: "fresh_submission (fresh_workspace i cap) document"
proof -
  have "current_markers [] x = []" for x
    using current_markers_set [of _ "[]" x] by (cases "current_markers [] x") auto
  then show ?thesis by (simp add: fresh_submission_def fresh_workspace_def split: sum.splits)
qed

theorem submit_sound_witness:
  "\<exists>ws. submit [False, True] (Some (json_bytes (JObj example_document))) ''proj''
       (fresh_workspace example_id 4) = (Inr example_marker, ws) \<and>
     coherent ws \<and> ws_tree ws = [path example_marker] \<and>
     (\<exists>job. load_job ws example_marker = Inr job \<and> jd_job_key job = example_key) \<and>
     read_state ws example_marker = Inr (initial_state ws example_marker)"
proof -
  obtain ws where s: "submit [False, True] (Some (json_bytes (JObj example_document))) ''proj''
       (fresh_workspace example_id 4) = (Inr example_marker, ws)" using example_submit by blast
  note r = submit_sound [OF s example_submission_fresh fresh_workspace_coherent]
  then have "ws_tree ws = [path example_marker]"
    by (intro distinct_singleton) (auto simp: coherent_def fresh_workspace_def)
  with s r show ?thesis by (auto simp: example_marker_def)
qed

section \<open>The step relation\<close>

text \<open>
  A state is the journal writers of the attached managers and the workspace they share. Each
  step is one call: opening a writer, submitting, a transition by some manager from a marker
  it read at any time before, a lookup through the cache, dropping the cache, moving a damaged
  entry to quarantine, sealing or unsealing.
\<close>

type_synonym shared = "journal_writer list \<times> workspace"

inductive ws_step :: "shared \<Rightarrow> shared \<Rightarrow> bool" where
  attach: "journal_writer_init i maximum (ws_journal ws) = (Inr (), w, J) \<Longrightarrow> maximum < 2 ^ 63 \<Longrightarrow>
     ws_step (W, ws) (w # W, ws\<lparr>ws_journal := J\<rparr>)"
| submission: "submit env document pl ws = (r, ws') \<Longrightarrow> fresh_submission ws document \<Longrightarrow>
     ws_step (W, ws) (W, ws')"
| move: "i < length W \<Longrightarrow> marker_from_path (path m) = Inr m \<Longrightarrow> kind m \<in> set CORE_STATE_KINDS \<Longrightarrow>
     transition_args ws m k prio now u \<Longrightarrow> k \<in> set CORE_STATE_KINDS \<Longrightarrow>
     transition (quiet bs) now m k u prio a (W ! i) ws = (r, w, ws') \<Longrightarrow>
     ws_step (W, ws) (W[i := w], ws')"
| look: "find_marker_by_id (ws_tree ws) i (ws_index ws) = (r, idx) \<Longrightarrow>
     ws_step (W, ws) (W, ws\<lparr>ws_index := idx\<rparr>)"
| invalidate: "ws_step (W, ws) (W, ws\<lparr>ws_index := invalidate_marker_index (ws_index ws)\<rparr>)"
| move_aside: "quarantine p ws = (r, ws') \<Longrightarrow> ws_step (W, ws) (W, ws')"
| seal: "ws_step (W, ws) (W, ws\<lparr>ws_sealed := b, ws_sealed_jobs := ks\<rparr>)"

inductive_cases ws_stepE: "ws_step (W, ws) s'"

definition shared_inv :: "shared \<Rightarrow> bool" where
  "shared_inv s = (case s of (W, ws) \<Rightarrow>
     coherent ws \<and> distinct (map jw_writer_id W) \<and>
     list_all (\<lambda>w. store_inv (w, ws_journal ws) \<and> ws_journal ws (jw_writer_id w) \<noteq> None) W)"

text \<open>A writer touches only its own directory.\<close>

lemma open_segment_other:
  "open_segment w n J = (x, w', J') \<Longrightarrow>
     jw_writer_id w' = jw_writer_id w \<and> (i \<noteq> jw_writer_id w \<longrightarrow> J' i = J i) \<and> (J i \<noteq> None \<longrightarrow> J' i \<noteq> None)"
  by (auto simp: open_segment_def set_segment_def split: if_splits option.splits)

lemma append_other:
  "append_record w r J = (x, w', J') \<Longrightarrow>
     jw_writer_id w' = jw_writer_id w \<and> (i \<noteq> jw_writer_id w \<longrightarrow> J' i = J i) \<and> (J i \<noteq> None \<longrightarrow> J' i \<noteq> None)"
proof -
  assume a: "append_record w r J = (x, w', J')"
  obtain y w1 J1 where r: "rotate_if_needed w (length (frame_bytes (json_bytes (JObj r)))) J = (y, w1, J1)"
    by (cases "rotate_if_needed w (length (frame_bytes (json_bytes (JObj r)))) J")
  have "jw_writer_id w1 = jw_writer_id w \<and> (i \<noteq> jw_writer_id w \<longrightarrow> J1 i = J i) \<and> (J i \<noteq> None \<longrightarrow> J1 i \<noteq> None)"
    using r open_segment_other [of "w\<lparr>jw_handle := None, jw_segment_number := jw_segment_number w + 1\<rparr>"]
    by (auto simp: rotate_if_needed_def Let_def split: option.splits if_splits)
  with a r show ?thesis
    by (cases y) (auto simp: append_record_def Let_def set_segment_def
        simp del: frame_bytes_length split: if_splits)
qed

lemma writer_inv_own:
  "J' (jw_writer_id v) = J (jw_writer_id v) \<Longrightarrow> writer_inv v J' = writer_inv v J"
  by (simp add: writer_inv_def segment_bytes_def split: option.splits)

lemma rename_journal: "ws_journal (snd (verified_marker_rename env m dst ws)) = ws_journal ws"
  by (induction env m dst ws rule: verified_marker_rename.induct)
    (auto simp: Let_def split: sum.splits prod.splits list.splits)

lemma transition_journal:
  assumes "transition env now m k u prio a w ws = (r, w', ws')"
  shows "(w' = w \<and> ws_journal ws' = ws_journal ws) \<or>
    (\<exists>x. append_record w (transition_frame ws m k prio now u) (ws_journal ws) = (x, w', ws_journal ws'))"
  using assms
proof (cases rule: transition_started)
  case (3 ref J')
  have "ws_journal (snd (r, ws')) = J'"
    unfolding 3(3) using rename_journal [of env m _ "ws\<lparr>ws_journal := J'\<rparr>"] by (simp split: sum.splits)
  with 3(2) show ?thesis by auto
qed auto

lemma writers_step:
  assumes "distinct (map jw_writer_id W)" and "i < length W"
    and "list_all (\<lambda>w. store_inv (w, J) \<and> J (jw_writer_id w) \<noteq> None) W"
    and "store_inv (w', J')"
    and "(w' = W ! i \<and> J' = J) \<or> (\<exists>x. append_record (W ! i) f J = (x, w', J'))"
  shows "distinct (map jw_writer_id (W[i := w']))"
    and "list_all (\<lambda>w. store_inv (w, J') \<and> J' (jw_writer_id w) \<noteq> None) (W[i := w'])"
proof -
  let ?id = "jw_writer_id (W ! i)"
  have own: "jw_writer_id w' = ?id" "\<And>j. j \<noteq> ?id \<Longrightarrow> J' j = J j" "\<And>j. J j \<noteq> None \<Longrightarrow> J' j \<noteq> None"
    using assms(5) append_other [of "W ! i" f J _ w' J'] by auto
  have "map jw_writer_id (W[i := w']) = map jw_writer_id W"
    using own(1) assms(2) by (simp add: map_update list_update_same_conv)
  then show "distinct (map jw_writer_id (W[i := w']))" using assms(1) by simp
  have "store_inv (v, J') \<and> J' (jw_writer_id v) \<noteq> None" if v: "v \<in> set (W[i := w'])" for v
  proof -
    obtain j where j: "j < length W" "v = W[i := w'] ! j" using v by (metis in_set_conv_nth length_list_update)
    have wi: "store_inv (W ! j, J)" "J (jw_writer_id (W ! j)) \<noteq> None" for j'
      using assms(3) j(1) by (auto simp: list_all_length)
    show ?thesis
    proof (cases "j = i")
      case True
      then show ?thesis using j assms(2-4) own by (auto simp: list_all_length)
    next
      case False
      then have "jw_writer_id (W ! j) \<noteq> ?id" using assms(1,2) j(1) by (auto simp: distinct_conv_nth)
      then have "J' (jw_writer_id (W ! j)) = J (jw_writer_id (W ! j))" by (rule own(2))
      with False j wi writer_inv_own [of J' "W ! j" J] show ?thesis by (simp add: store_inv_def)
    qed
  qed
  then show "list_all (\<lambda>w. store_inv (w, J') \<and> J' (jw_writer_id w) \<noteq> None) (W[i := w'])"
    by (simp add: list_all_iff)
qed

lemma one_marker_subset: "one_marker T \<Longrightarrow> set T' \<subseteq> set T \<Longrightarrow> one_marker T'"
  unfolding one_marker_def by blast

lemma quarantine_coherent: "coherent ws \<Longrightarrow> quarantine p ws = (r, ws') \<Longrightarrow> coherent ws' \<and> ws_journal ws' = ws_journal ws"
proof -
  assume c: "coherent ws" and q: "quarantine p ws = (r, ws')"
  show ?thesis
  proof (cases "p \<in> set (ws_tree ws)")
    case True
    have ws': "ws_tree ws' = filter (\<lambda>q. q \<noteq> p) (ws_tree ws)" "ws_journal ws' = ws_journal ws"
      "ws_id ws' = ws_id ws" "index_inv (ws_index ws')"
      using True q c index_forget_inv by (auto simp: quarantine_def coherent_def split: sum.splits)
    have "readable ws' v" if "live ws' v" for v
    proof -
      have "live ws v" using that by (simp add: live_def ws')
      then have "readable ws v" using c by (simp add: coherent_def)
      then show ?thesis using readable_extends [of ws v ws'] ws' by simp
    qed
    moreover have "one_marker (ws_tree ws')"
      using c one_marker_subset [of "ws_tree ws" "ws_tree ws'"] by (auto simp: coherent_def ws')
    ultimately show ?thesis using c ws' by (simp add: coherent_def)
  qed (use q c in \<open>simp add: quarantine_def\<close>)
qed

lemma attach_inv:
  assumes "shared_inv (W, ws)" and "journal_writer_init i maximum (ws_journal ws) = (Inr (), w, J)"
    and "maximum < 2 ^ 63"
  shows "shared_inv (w # W, ws\<lparr>ws_journal := J\<rparr>)"
proof -
  have co: "coherent ws" and di: "distinct (map jw_writer_id W)"
    and al: "list_all (\<lambda>w. store_inv (w, ws_journal ws) \<and> ws_journal ws (jw_writer_id w) \<noteq> None) W"
    using assms(1) by (auto simp: shared_inv_def)
  have w: "jw_writer_id w = i" "ws_journal ws i = None" "J i \<noteq> None" "\<And>j. j \<noteq> i \<Longrightarrow> J j = ws_journal ws j"
    using assms(2)
    by (auto simp: journal_writer_init_def Let_def open_segment_def set_segment_def segment_bytes_def
        split: if_splits)
  have inv: "store_inv (w, J)" using journal_writer_init_inv [OF assms(2,3)] by (simp add: store_inv_def)
  have old: "store_inv (v, J) \<and> J (jw_writer_id v) \<noteq> None \<and> jw_writer_id v \<noteq> i" if "v \<in> set W" for v
  proof -
    have "ws_journal ws (jw_writer_id v) \<noteq> None" "store_inv (v, ws_journal ws)"
      using that al by (auto simp: list_all_iff)
    moreover from this have "jw_writer_id v \<noteq> i" using w(2) by metis
    ultimately show ?thesis using w(4) writer_inv_own [of J v "ws_journal ws"] by (simp add: store_inv_def)
  qed
  have "journal_extends (ws_journal ws) J"
    unfolding journal_extends_def segment_bytes_def using w(2,4)
    by (metis append_Nil2 option.case_eq_if option.distinct(1))
  then have "coherent (ws\<lparr>ws_journal := J\<rparr>)"
    using coherent_same_tree [OF co, of "ws\<lparr>ws_journal := J\<rparr>"] co by (simp add: coherent_def)
  moreover have "jw_writer_id w \<notin> set (map jw_writer_id W)" using old w(1) by fastforce
  ultimately show ?thesis using inv old w(1,3) di by (simp add: shared_inv_def list_all_iff)
qed

lemma shared_inv_index:
  assumes "shared_inv (W, ws)" and "index_inv idx"
  shows "shared_inv (W, ws\<lparr>ws_index := idx\<rparr>)"
  using assms coherent_same_tree [of ws "ws\<lparr>ws_index := idx\<rparr>"] by (simp add: shared_inv_def)

lemma ws_step_inv: "ws_step s s' \<Longrightarrow> shared_inv s \<Longrightarrow> shared_inv s'"
proof (induction rule: ws_step.induct)
  case (attach i maximum ws w J W)
  then show ?case by (intro attach_inv)
next
  case (submission env document pl ws r ws' W)
  with submit_coherent [OF submission(1,2)] show ?case by (simp add: shared_inv_def)
next
  case (move i W m ws k prio now u bs a r w ws')
  have co: "coherent ws" and al: "distinct (map jw_writer_id W)"
    "list_all (\<lambda>w. store_inv (w, ws_journal ws) \<and> ws_journal ws (jw_writer_id w) \<noteq> None) W"
    using move.prems by (auto simp: shared_inv_def)
  have st: "store_inv (W ! i, ws_journal ws)" using al(2) move.hyps(1) by (simp add: list_all_length)
  have "coherent ws'" using transition_coherent [OF co st move.hyps(2-6)] .
  moreover have "store_inv (w, ws_journal ws')"
    using transition_outcome [OF co st move.hyps(2,4-6)] by simp
  ultimately show ?case
    using writers_step [OF al(1) move.hyps(1) al(2) _ transition_journal [OF move.hyps(6)]]
    by (simp add: shared_inv_def)
next
  case (look ws i r idx W)
  then have "index_inv idx"
    using find_marker_by_id_cases [of "ws_tree ws" "ws_index ws" i r idx] by (simp add: shared_inv_def coherent_def)
  with look shared_inv_index show ?case by blast
next
  case (invalidate W ws)
  then show ?case
    by (intro shared_inv_index) (simp_all add: invalidate_marker_index_def index_inv_def)
next
  case (move_aside p ws r ws' W)
  with quarantine_coherent [of ws p r ws'] show ?case by (simp add: shared_inv_def)
next
  case (seal W ws ks b)
  with coherent_same_tree [of ws "ws\<lparr>ws_sealed := b, ws_sealed_jobs := ks\<rparr>"] show ?case
    by (simp add: shared_inv_def coherent_def)
qed

definition ws_reachable :: "shared \<Rightarrow> bool" where
  "ws_reachable s \<longleftrightarrow> (\<exists>i cap. ws_step\<^sup>*\<^sup>* ([], fresh_workspace i cap) s)"

lemma reachable_inv: "ws_reachable s \<Longrightarrow> shared_inv s"
proof -
  assume "ws_reachable s"
  then obtain i cap where "ws_step\<^sup>*\<^sup>* ([], fresh_workspace i cap) s" by (auto simp: ws_reachable_def)
  moreover have "shared_inv ([], fresh_workspace i cap)"
    by (simp add: shared_inv_def fresh_workspace_coherent)
  ultimately show ?thesis by (induction rule: rtranclp_induct) (blast intro: ws_step_inv)+
qed



end
