(* ===== verification/Transactions.thy ===== *)
theory Transactions
  imports Paths Json_Parser "HOL-Library.Sublist"
begin

text \<open>
  Transactional data (\<open>src/src/httk/workflow/transactions.py\<close>): replaying a published
  transaction into the data directory.

  The file system is an association list from absolute paths to files and directories; the
  first entry of a path counts. There are no symbolic links. Every call returns, beside its
  result, the list of states it went through, one per change, so that a crash is any of
  these states. The digests of files and trees come from another package and are
  parameters. Synchronisation to storage does not change the tree and is left out.
\<close>

section \<open>A file system\<close>

type_synonym path = "string list"

datatype node = File string | Directory

type_synonym fs = "(path \<times> node) list"

definition path_exists :: "fs \<Rightarrow> path \<Rightarrow> bool" where
  "path_exists fs p = (map_of fs p \<noteq> None)"

definition is_file :: "fs \<Rightarrow> path \<Rightarrow> bool" where
  "is_file fs p = (case map_of fs p of Some (File _) \<Rightarrow> True | _ \<Rightarrow> False)"

definition is_dir :: "fs \<Rightarrow> path \<Rightarrow> bool" where
  "is_dir fs p = (map_of fs p = Some Directory)"

definition empty_dir :: "fs \<Rightarrow> path \<Rightarrow> bool" where
  "empty_dir fs p = (is_dir fs p \<and> \<not> list_ex (\<lambda>(q, _). strict_prefix p q) fs)"

definition subtree :: "fs \<Rightarrow> path \<Rightarrow> path \<Rightarrow> node option" where
  "subtree fs p = (\<lambda>q. map_of fs (p @ q))"

text \<open>\<open>mkdir(parents=True, exist_ok=True)\<close>.\<close>

definition mkdirs :: "path \<Rightarrow> fs \<Rightarrow> fs res" where
  "mkdirs p fs =
     (if is_file fs p then Inl FileExistsError
      else if list_ex (is_file fs) (prefixes p) then Inl OSError
      else Inr (map (\<lambda>q. (q, Directory)) (filter (\<lambda>q. \<not> path_exists fs q) (prefixes p)) @ fs))"

definition move :: "path \<Rightarrow> path \<Rightarrow> fs \<Rightarrow> fs" where
  "move src dst fs =
     map (\<lambda>(q, n). (if prefix src q then dst @ drop (length src) q else q, n))
       (filter (\<lambda>(q, _). prefix src q \<or> \<not> prefix dst q) fs)"

text \<open>\<open>os.rename\<close> and \<open>os.replace\<close>.\<close>

definition rename_call :: "path \<Rightarrow> path \<Rightarrow> fs \<Rightarrow> fs res" where
  "rename_call src dst fs =
     (if \<not> path_exists fs src \<or> \<not> is_dir fs (butlast dst) then Inl OSError
      else if src = dst then Inr fs
      else if prefix src dst \<or> prefix dst src then Inl OSError
      else if is_file fs src \<and> is_dir fs dst then Inl OSError
      else if is_dir fs src \<and> path_exists fs dst \<and> \<not> empty_dir fs dst then Inl OSError
      else Inr (move src dst fs))"

section \<open>Verified renames\<close>

text \<open>
  What the server does with one attempt: nothing, only the parent directories, or all of it.
  A rename is given the outcomes of its attempts; attempts past the end of the list are
  refused.
\<close>

datatype attempt = Refused | Created | Performed

definition attempt_states :: "attempt \<Rightarrow> path \<Rightarrow> path \<Rightarrow> fs \<Rightarrow> fs list" where
  "attempt_states a src dst fs =
     (if a = Refused then []
      else case mkdirs (butlast dst) fs of
        Inl _ \<Rightarrow> []
      | Inr g \<Rightarrow>
          if a = Created then [g]
          else case rename_call src dst g of Inl _ \<Rightarrow> [g] | Inr h \<Rightarrow> [g, h])"

fun rename_attempts :: "attempt list \<Rightarrow> path \<Rightarrow> path \<Rightarrow> fs \<Rightarrow> unit res \<times> fs list" where
  "rename_attempts [] src dst fs = (Inl WorkspaceUnavailableError, [])"
| "rename_attempts (a # as) src dst fs =
     (let t = attempt_states a src dst fs; g = last (fs # t)
      in if path_exists g dst \<and> \<not> path_exists g src then (Inr (), t)
         else case rename_attempts as src dst g of (r, t') \<Rightarrow> (r, t @ t'))"

type_synonym server = "path \<Rightarrow> path \<Rightarrow> attempt list"

definition rename_verified :: "server \<Rightarrow> path \<Rightarrow> path \<Rightarrow> fs \<Rightarrow> unit res \<times> fs list" where
  "rename_verified server src dst fs = rename_attempts (take 7 (server src dst)) src dst fs"

definition seqt ::
  "unit res \<times> fs list \<Rightarrow> fs \<Rightarrow> (fs \<Rightarrow> unit res \<times> fs list) \<Rightarrow> unit res \<times> fs list" where
  "seqt m fs k =
     (case m of
        (Inl e, t) \<Rightarrow> (Inl e, t)
      | (Inr _, t) \<Rightarrow> (case k (last (fs # t)) of (r, t') \<Rightarrow> (r, t @ t')))"

section \<open>Replay\<close>

definition relative_path :: "json \<Rightarrow> path res" where
  "relative_path v =
     (case v of
        JStr s \<Rightarrow>
          if s = [] then Inl FormatError
          else
            let p = pure_posix_path s
            in if absolute p \<or> list_ex (\<lambda>c. c \<in> {[], ''.'', ''..''}) (parts p) then Inl FormatError
               else if list_ex (\<lambda>c. NUL \<in> set c) (parts p) then Inl FormatError
               else Inr (parts p)
      | _ \<Rightarrow> Inl FormatError)"

text \<open>
  \<open>str(raw.get("sha256", ""))\<close>, \<open>None\<close> when the text cannot be a hexadecimal digest: the text
  of a constant, a float, an array or an object has a character outside the alphabet.
\<close>

definition expected_digest :: "obj \<Rightarrow> string option" where
  "expected_digest raw =
     (case get_default raw ''sha256'' (JStr []) of
        JStr s \<Rightarrow> Some s | JInt i \<Rightarrow> Some (int_text i) | _ \<Rightarrow> None)"

text \<open>The digests of the files and trees of the other package, and the two directories.\<close>

record replay_params =
  rp_file_digest :: "string \<Rightarrow> string"
  rp_tree_digest :: "(path \<Rightarrow> node option) \<Rightarrow> string"
  rp_transaction_dir :: path
  rp_data_dir :: path

definition digest_matches :: "replay_params \<Rightarrow> fs \<Rightarrow> path \<Rightarrow> string option \<Rightarrow> bool" where
  "digest_matches P fs p expected =
     (case map_of fs p of
        Some (File b) \<Rightarrow> expected = Some (rp_file_digest P b)
      | Some Directory \<Rightarrow> expected = Some (rp_tree_digest P (subtree fs p))
      | None \<Rightarrow> False)"

definition put_file ::
  "replay_params \<Rightarrow> server \<Rightarrow> path \<Rightarrow> path \<Rightarrow> string option \<Rightarrow> fs \<Rightarrow> unit res \<times> fs list" where
  "put_file P server src dst expected fs =
     (if path_exists fs dst \<and> digest_matches P fs dst expected \<and> \<not> path_exists fs src then (Inr (), [])
      else if \<not> is_file fs src \<or> \<not> digest_matches P fs src expected then (Inl TransactionError, [])
      else seqt (rename_verified server src dst fs) fs (\<lambda>g.
             (if digest_matches P g dst expected then Inr () else Inl TransactionError, [])))"

definition put_tree ::
  "replay_params \<Rightarrow> server \<Rightarrow> path \<Rightarrow> path \<Rightarrow> string option \<Rightarrow> fs \<Rightarrow> unit res \<times> fs list" where
  "put_tree P server src dst expected fs =
     (if path_exists fs dst \<and> digest_matches P fs dst expected \<and> \<not> path_exists fs src then (Inr (), [])
      else if path_exists fs dst then (Inl TransactionError, [])
      else if \<not> is_dir fs src \<or> \<not> digest_matches P fs src expected then (Inl TransactionError, [])
      else rename_verified server src dst fs)"

definition remove_target :: "server \<Rightarrow> path \<Rightarrow> path \<Rightarrow> bool \<Rightarrow> fs \<Rightarrow> unit res \<times> fs list" where
  "remove_target server dst trash missing_ok fs =
     (if \<not> path_exists fs dst \<and> path_exists fs trash then (Inr (), [])
      else if \<not> path_exists fs dst \<and> missing_ok then (Inr (), [])
      else if \<not> path_exists fs dst then (Inl TransactionError, [])
      else rename_verified server dst trash fs)"

definition replace_tree ::
  "replay_params \<Rightarrow> server \<Rightarrow> path \<Rightarrow> path \<Rightarrow> path \<Rightarrow> string option \<Rightarrow> fs \<Rightarrow> unit res \<times> fs list" where
  "replace_tree P server src dst trash expected fs =
     (if path_exists fs dst \<and> digest_matches P fs dst expected \<and> \<not> path_exists fs src then (Inr (), [])
      else
        seqt (if path_exists fs dst \<and> \<not> path_exists fs trash then rename_verified server dst trash fs
              else (Inr (), [])) fs (\<lambda>g.
          if \<not> is_dir g src \<or> \<not> digest_matches P g src expected then (Inl TransactionError, [])
          else rename_verified server src dst g))"

definition make_dir :: "path \<Rightarrow> fs \<Rightarrow> unit res \<times> fs list" where
  "make_dir dst fs =
     (case mkdirs dst fs of
        Inl e \<Rightarrow> (Inl e, [])
      | Inr g \<Rightarrow> (if is_dir g dst then Inr () else Inl TransactionError, [g]))"

text \<open>One operation of the second loop.\<close>

definition replay_operation ::
  "replay_params \<Rightarrow> server \<Rightarrow> obj \<Rightarrow> fs \<Rightarrow> unit res \<times> fs list" where
  "replay_operation P server raw fs =
     (case validate_label (get raw ''id'') of
        Inl e \<Rightarrow> (Inl e, [])
      | Inr i \<Rightarrow>
      (case relative_path (get raw ''path'') of
        Inl e \<Rightarrow> (Inl e, [])
      | Inr p \<Rightarrow>
          let destination = rp_data_dir P @ p;
              trash_dir = rp_transaction_dir P @ [''trash'', i];
              op = get raw ''op''
          in if op = JStr ''make-dir'' then make_dir destination fs
             else if op = JStr ''remove'' then
               remove_target server destination (trash_dir @ [''removed''])
                 (truthy (get_default raw ''missing_ok'' (JBool False))) fs
             else if op \<in> {JStr ''put-file'', JStr ''put-tree'', JStr ''replace-tree''} then
               (case relative_path (get raw ''source'') of
                  Inl e \<Rightarrow> (Inl e, [])
                | Inr s \<Rightarrow>
                    let source = rp_transaction_dir P @ s; expected = expected_digest raw
                    in if op = JStr ''put-file'' then put_file P server source destination expected fs
                       else if op = JStr ''put-tree'' then put_tree P server source destination expected fs
                       else replace_tree P server source destination (trash_dir @ [''old'']) expected fs)
             else (Inl FormatError, [])))"

fun replay_operations ::
  "replay_params \<Rightarrow> server \<Rightarrow> obj list \<Rightarrow> fs \<Rightarrow> unit res \<times> fs list" where
  "replay_operations P server [] fs = (Inr (), [])"
| "replay_operations P server (raw # raws) fs =
     seqt (replay_operation P server raw fs) fs (replay_operations P server raws)"

text \<open>The first loop: objects with distinct identifiers, and the paths of all but \<open>make-dir\<close>.\<close>

fun scan_operations :: "json list \<Rightarrow> string list \<Rightarrow> (obj list \<times> path list) res" where
  "scan_operations [] seen = Inr ([], [])"
| "scan_operations (v # vs) seen =
     (case v of
        JObj raw \<Rightarrow>
          bindr (validate_label (get raw ''id'')) (\<lambda>i.
            if i \<in> set seen then Inl FormatError
            else if get raw ''op'' \<noteq> JStr ''make-dir'' then
              bindr (relative_path (get raw ''path'')) (\<lambda>p.
                bindr (scan_operations vs (i # seen)) (\<lambda>(raws, ps). Inr (raw # raws, p # ps)))
            else bindr (scan_operations vs (i # seen)) (\<lambda>(raws, ps). Inr (raw # raws, ps)))
      | _ \<Rightarrow> Inl FormatError)"

fun overlapping :: "path list \<Rightarrow> bool" where
  "overlapping [] = False"
| "overlapping (p # ps) = (list_ex (\<lambda>q. prefix p q \<or> prefix q p) ps \<or> overlapping ps)"

definition read_json :: "fs \<Rightarrow> path \<Rightarrow> obj res" where
  "read_json fs p =
     (case map_of fs p of
        Some (File b) \<Rightarrow>
          (case json_decode False b of Some (JObj m) \<Rightarrow> Inr m | _ \<Rightarrow> Inl FormatError)
      | _ \<Rightarrow> Inl FormatError)"

text \<open>The checks before the data directory is touched.\<close>

definition load_transaction :: "replay_params \<Rightarrow> int \<Rightarrow> fs \<Rightarrow> obj list res" where
  "load_transaction P expected_generation fs =
     bindr (read_json fs (rp_transaction_dir P @ [''manifest.json''])) (\<lambda>manifest.
       if \<not> eq_str (get manifest ''format'') ''httk-workflow-transaction'' \<or>
          \<not> eq_int (get manifest ''format_version'') 2 then Inl FormatError
       else if \<not> eq_int (get manifest ''expected_data_generation'') expected_generation then
         Inl TransactionError
       else case get manifest ''operations'' of
         JArr vs \<Rightarrow>
           bindr (scan_operations vs []) (\<lambda>(raws, ps).
             if overlapping ps then Inl FormatError else Inr raws)
       | _ \<Rightarrow> Inl FormatError)"

definition replay_transaction ::
  "replay_params \<Rightarrow> server \<Rightarrow> int \<Rightarrow> fs \<Rightarrow> bool res \<times> fs list" where
  "replay_transaction P server expected_generation fs =
     (case load_transaction P expected_generation fs of
        Inl e \<Rightarrow> (Inl e, [])
      | Inr raws \<Rightarrow>
          (case seqt (make_dir (rp_data_dir P) fs) fs (replay_operations P server raws) of
             (Inl e, t) \<Rightarrow> (Inl e, t)
           | (Inr _, t) \<Rightarrow> (Inr (raws \<noteq> []), t)))"

end
