(* ===== verification/Transactions_Correct.thy ===== *)
theory Transactions_Correct
  imports Transactions Json_Roundtrip
begin

text \<open>
  Replay is idempotent under crashes. An operation that was completed is recognised and
  skipped, an interrupted one is completed to the same result, and operations on separate
  locations do not disturb each other; hence a replay that is cut off anywhere, any number of
  times, and is then allowed to run ends in the same tree as one that was never interrupted.
\<close>

section \<open>Lookups\<close>

definition apart :: "path \<Rightarrow> path \<Rightarrow> bool" where
  "apart p q \<longleftrightarrow> \<not> prefix p q \<and> \<not> prefix q p"

lemma apart_sym: "apart p q \<Longrightarrow> apart q p"
  by (simp add: apart_def)

lemma apart_same_length: "prefix p x \<Longrightarrow> prefix q x \<Longrightarrow> \<not> apart p q"
  using prefix_same_cases unfolding apart_def by blast

lemma move_other [simp]: "\<not> prefix src q \<Longrightarrow> \<not> prefix dst q \<Longrightarrow> map_of (move src dst fs) q = map_of fs q"
  unfolding move_def by (induction fs) auto

lemma move_dst [simp]: "map_of (move src dst fs) (dst @ q) = map_of fs (src @ q)"
proof (induction fs)
  case (Cons e fs)
  obtain k n where e: "e = (k, n)" by (cases e)
  show ?case
  proof (cases "prefix src k")
    case True
    then obtain r where "k = src @ r" by (auto simp: prefix_def)
    with Cons show ?thesis by (simp add: move_def e)
  next
    case False
    then have "k \<noteq> src @ q" by auto
    with Cons False show ?thesis by (auto simp: move_def e)
  qed
qed (simp add: move_def)

lemma move_dst_root [simp]: "map_of (move src dst fs) dst = map_of fs src"
  using move_dst [of src dst fs "[]"] by simp

lemma move_src:
  assumes "apart src dst"
  shows "map_of (move src dst fs) (src @ q) = None"
proof -
  have "\<forall>r. src @ q \<noteq> dst @ r"
    using assms apart_same_length [of src "src @ q" dst] unfolding prefix_def by metis
  then have "src @ q \<notin> fst ` set (move src dst fs)" by (auto simp: move_def split: if_splits)
  then show ?thesis by (simp add: map_of_eq_None_iff)
qed

lemma mkdirs_lookup:
  assumes "mkdirs p fs = Inr g"
  shows "map_of g q = (if map_of fs q = None \<and> prefix q p then Some Directory else map_of fs q)"
proof -
  have "map_of (map (\<lambda>q. (q, Directory)) qs @ fs) q = (if q \<in> set qs then Some Directory else map_of fs q)" for qs
    by (induction qs) auto
  then show ?thesis
    using assms by (auto simp: mkdirs_def path_exists_def split: if_splits)
qed

lemma mkdirs_facts:
  assumes "mkdirs p fs = Inr g"
  shows "is_dir g p" and "mkdirs p g = Inr g" and "map_of fs q \<noteq> None \<Longrightarrow> map_of g q = map_of fs q"
    and "\<not> prefix q p \<Longrightarrow> map_of g q = map_of fs q"
proof -
  note l = mkdirs_lookup [OF assms]
  have f: "is_file g q = is_file fs q" for q by (simp add: is_file_def l split: node.splits option.splits)
  have nf: "\<not> list_ex (is_file fs) (prefixes p)" "\<not> is_file fs p"
    using assms by (auto simp: mkdirs_def split: if_splits)
  then have "map_of fs p = None \<or> map_of fs p = Some Directory"
    by (auto simp: is_file_def split: option.splits node.splits)
  then show "is_dir g p" by (auto simp: is_dir_def l)
  have "filter (\<lambda>q. \<not> path_exists g q) (prefixes p) = []"
    by (auto simp: path_exists_def l filter_empty_conv)
  moreover have "\<not> list_ex (is_file g) (prefixes p)" "\<not> is_file g p" using nf by (simp_all add: f list_ex_iff)
  ultimately show "mkdirs p g = Inr g" unfolding mkdirs_def by simp
  show "map_of fs q \<noteq> None \<Longrightarrow> map_of g q = map_of fs q" "\<not> prefix q p \<Longrightarrow> map_of g q = map_of fs q"
    by (auto simp: l)
qed

section \<open>Renames\<close>

text \<open>A rename that completes leads from one state to another; what it leaves alone.\<close>

definition renames :: "path \<Rightarrow> path \<Rightarrow> fs \<Rightarrow> fs \<Rightarrow> bool" where
  "renames src dst fs h \<longleftrightarrow>
     (\<exists>g. mkdirs (butlast dst) fs = Inr g \<and> rename_call src dst g = Inr h)"

definition willing :: "server \<Rightarrow> bool" where
  "willing server \<longleftrightarrow> (\<forall>src dst. Performed \<in> set (take 7 (server src dst)))"

lemma rename_call_move: "rename_call src dst fs = Inr h \<Longrightarrow> apart src dst \<Longrightarrow> h = move src dst fs"
  by (auto simp: rename_call_def apart_def split: if_splits)

lemma renames_move:
  assumes "renames src dst fs h" and "apart src dst"
  shows "\<exists>g. mkdirs (butlast dst) fs = Inr g \<and> h = move src dst g"
  using assms rename_call_move unfolding renames_def by blast

lemma not_prefix_butlast: "\<not> prefix p q \<Longrightarrow> \<not> prefix p (butlast q)"
  using prefix_order.trans prefixeq_butlast by blast

text \<open>
  Effect of a completed rename: the subtree of the source is at the destination, the source
  is gone, and a location apart from both, or the directories above them, stay.
\<close>

lemma renames_lookup:
  assumes "renames src dst fs h" and "apart src dst"
  shows "map_of h (dst @ q) = map_of fs (src @ q)"
    and "map_of h (src @ q) = None"
    and "\<not> prefix src q \<Longrightarrow> \<not> prefix dst q \<Longrightarrow> map_of fs q \<noteq> None \<Longrightarrow> map_of h q = map_of fs q"
    and "\<not> prefix src q \<Longrightarrow> \<not> prefix dst q \<Longrightarrow> \<not> prefix q dst \<Longrightarrow> map_of h q = map_of fs q"
    and "map_of fs src \<noteq> None"
proof -
  obtain g where g: "mkdirs (butlast dst) fs = Inr g" "h = move src dst g"
    using renames_move [OF assms] by blast
  have ns: "\<not> prefix (src @ q) (butlast dst)" for q
    using assms(2) not_prefix_butlast unfolding apart_def by (meson append_prefixD)
  show "map_of h (dst @ q) = map_of fs (src @ q)"
    using mkdirs_facts(4) [OF g(1) ns] by (simp add: g(2))
  show "map_of h (src @ q) = None" using move_src [OF assms(2)] by (simp add: g(2))
  show "map_of h q = map_of fs q" if "\<not> prefix src q" "\<not> prefix dst q" "map_of fs q \<noteq> None"
    using that mkdirs_facts(3) [OF g(1)] by (simp add: g(2))
  show "map_of h q = map_of fs q" if "\<not> prefix src q" "\<not> prefix dst q" "\<not> prefix q dst"
    using that mkdirs_facts(4) [OF g(1) not_prefix_butlast] by (simp add: g(2))
  have "map_of g src \<noteq> None"
    using assms(1) g(1) by (auto simp: renames_def rename_call_def path_exists_def split: if_splits)
  then show "map_of fs src \<noteq> None" using mkdirs_facts(4) [OF g(1) ns, of "[]"] by simp
qed

lemma renames_after_mkdirs:
  "mkdirs (butlast dst) fs = Inr g \<Longrightarrow> renames src dst g h = renames src dst fs h"
  by (simp add: renames_def mkdirs_facts(2))

lemma renames_unique: "renames src dst fs h \<Longrightarrow> renames src dst fs h' \<Longrightarrow> h = h'"
  by (auto simp: renames_def)

lemma attempt_cases:
  assumes "c \<in> set (fs # attempt_states a src dst fs)"
  shows "c = fs \<or> mkdirs (butlast dst) fs = Inr c \<or> renames src dst fs c"
  using assms by (auto simp: attempt_states_def renames_def split: if_splits sum.splits)

lemma attempt_last_cases:
  "last (fs # attempt_states a src dst fs) \<in> set (fs # attempt_states a src dst fs)"
  by (rule last_in_set) simp

lemma rename_attempts_Cons:
  assumes "u = attempt_states a src dst fs" and "g = last (fs # u)"
  shows "rename_attempts (a # as) src dst fs =
    (if path_exists g dst \<and> \<not> path_exists g src then (Inr (), u)
     else case rename_attempts as src dst g of (r, t') \<Rightarrow> (r, u @ t'))"
  by (simp only: rename_attempts.simps Let_def assms)

text \<open>Every state a rename passes, with any server, is one of three.\<close>

lemma attempts_states:
  assumes "rename_attempts as src dst fs = (r, t)" and "apart src dst" and "path_exists fs src"
    and "c \<in> set (fs # t)"
  shows "c = fs \<or> mkdirs (butlast dst) fs = Inr c \<or> renames src dst fs c"
  using assms
proof (induction as arbitrary: fs t)
  case (Cons a as)
  define u where "u = attempt_states a src dst fs"
  define g where "g = last (fs # u)"
  note step = rename_attempts_Cons [OF u_def g_def]
  show ?case
  proof (cases "path_exists g dst \<and> \<not> path_exists g src")
    case True
    then have "t = u" using Cons.prems(1) unfolding step by simp
    with Cons.prems(4) show ?thesis using attempt_cases [of c fs a src dst] by (simp add: u_def)
  next
    case False
    obtain t' where t': "rename_attempts as src dst g = (r, t')" and t: "t = u @ t'"
      using Cons.prems(1) False unfolding step by (cases "rename_attempts as src dst g") auto
    have g: "g = fs \<or> mkdirs (butlast dst) fs = Inr g \<or> renames src dst fs g"
      unfolding g_def u_def using attempt_cases [OF attempt_last_cases] .
    have ng: "\<not> renames src dst fs g"
    proof
      assume h: "renames src dst fs g"
      have "path_exists g dst" "\<not> path_exists g src"
        using renames_lookup(1,2) [OF h Cons.prems(2), of "[]"] renames_lookup(5) [OF h Cons.prems(2)] by (simp_all add: path_exists_def)
      with False show False by blast
    qed
    then have src: "path_exists g src"
      using g Cons.prems(3) mkdirs_facts(3) [of "butlast dst" fs g src] by (auto simp: path_exists_def)
    show ?thesis
    proof (cases "c \<in> set (fs # u)")
      case True
      then show ?thesis unfolding u_def by (rule attempt_cases)
    next
      case False
      then have "c \<in> set (g # t')" using Cons.prems(4) t by auto
      from Cons.IH [OF t' Cons.prems(2) src this] g ng show ?thesis
        using mkdirs_facts(2) [of "butlast dst" fs g] renames_after_mkdirs [of dst fs g src c] by auto
    qed
  qed
qed auto

lemma attempts_done:
  assumes "rename_attempts as src dst fs = (Inr u, t)" and "apart src dst" and "path_exists fs src"
  shows "renames src dst fs (last (fs # t))"
proof -
  have "last (fs # t) \<in> set (fs # t)" by (rule last_in_set) simp
  from attempts_states [OF assms this]
  have c: "last (fs # t) = fs \<or> mkdirs (butlast dst) fs = Inr (last (fs # t)) \<or> renames src dst fs (last (fs # t))" .
  have "\<not> path_exists (last (fs # t)) src"
    using assms(1)
  proof (induction as arbitrary: fs t)
    case (Cons a as)
    define v where "v = attempt_states a src dst fs"
    define g where "g = last (fs # v)"
    note step = rename_attempts_Cons [OF v_def g_def]
    show ?case
    proof (cases "path_exists g dst \<and> \<not> path_exists g src")
      case True
      then show ?thesis using Cons.prems unfolding step by (auto simp: g_def)
    next
      case False
      obtain t' where t': "rename_attempts as src dst g = (Inr u, t')" and t: "t = v @ t'"
        using Cons.prems False unfolding step by (cases "rename_attempts as src dst g") auto
      have "last (fs # t) = last (g # t')" by (simp add: t g_def)
      with Cons.IH [OF t'] show ?thesis by simp
    qed
  qed simp
  with c show ?thesis
    using assms(3) mkdirs_facts(3) [of "butlast dst" fs "last (fs # t)" src] by (auto simp: path_exists_def)
qed

lemma attempts_willing:
  assumes "renames src dst fs h" and "apart src dst" and "Performed \<in> set as"
  shows "\<exists>t. rename_attempts as src dst fs = (Inr (), t) \<and> last (fs # t) = h"
  using assms(1,3)
proof (induction as arbitrary: fs)
  case (Cons a as)
  define u where "u = attempt_states a src dst fs"
  define g where "g = last (fs # u)"
  note step = rename_attempts_Cons [OF u_def g_def]
  have src: "path_exists fs src" using renames_lookup(5) [OF Cons.prems(1) assms(2)] by (simp add: path_exists_def)
  obtain k where k: "mkdirs (butlast dst) fs = Inr k" "rename_call src dst k = Inr h"
    using Cons.prems(1) by (auto simp: renames_def)
  show ?case
  proof (cases "a = Performed")
    case True
    then have "u = [k, h]" using k by (simp add: u_def attempt_states_def)
    moreover have "path_exists h dst" "\<not> path_exists h src"
      using renames_lookup(1,2) [OF Cons.prems(1) assms(2), of "[]"] renames_lookup(5) [OF Cons.prems(1) assms(2)] by (simp_all add: path_exists_def)
    ultimately show ?thesis unfolding step by (simp add: g_def)
  next
    case False
    have g: "g = fs \<or> g = k" using False k by (cases a) (auto simp: g_def u_def attempt_states_def)
    then have "renames src dst g h" using Cons.prems(1) renames_after_mkdirs [OF k(1)] by auto
    moreover have "path_exists g src"
      using g src mkdirs_facts(3) [OF k(1), of src] by (auto simp: path_exists_def)
    moreover have "Performed \<in> set as" using Cons.prems(2) False by auto
    ultimately obtain t' where "rename_attempts as src dst g = (Inr (), t')" "last (g # t') = h"
      using Cons.IH by blast
    with \<open>path_exists g src\<close> show ?thesis
      unfolding step by (auto simp: g_def last_append)
  qed
qed simp

lemma verified_done:
  "rename_verified server src dst fs = (Inr u, t) \<Longrightarrow> apart src dst \<Longrightarrow> path_exists fs src \<Longrightarrow>
     renames src dst fs (last (fs # t))"
  unfolding rename_verified_def by (rule attempts_done)

lemma verified_states:
  "rename_verified server src dst fs = (r, t) \<Longrightarrow> apart src dst \<Longrightarrow> path_exists fs src \<Longrightarrow>
     c \<in> set (fs # t) \<Longrightarrow> c = fs \<or> mkdirs (butlast dst) fs = Inr c \<or> renames src dst fs c"
  unfolding rename_verified_def by (rule attempts_states)

lemma verified_willing:
  assumes "willing W" and "renames src dst fs h" and "apart src dst"
  shows "\<exists>t. rename_verified W src dst fs = (Inr (), t) \<and> last (fs # t) = h"
  unfolding rename_verified_def using assms
  by (intro attempts_willing) (auto simp: willing_def)

section \<open>Operations\<close>

datatype action =
    Make_dir path
  | Put_file path path "string option"
  | Put_tree path path "string option"
  | Remove path path bool
  | Replace_tree path path path "string option"

fun run_action :: "replay_params \<Rightarrow> server \<Rightarrow> action \<Rightarrow> fs \<Rightarrow> unit res \<times> fs list" where
  "run_action P server (Make_dir d) fs = make_dir d fs"
| "run_action P server (Put_file s d e) fs = put_file P server s d e fs"
| "run_action P server (Put_tree s d e) fs = put_tree P server s d e fs"
| "run_action P server (Remove d t missing_ok) fs = remove_target server d t missing_ok fs"
| "run_action P server (Replace_tree s d t e) fs = replace_tree P server s d t e fs"

text \<open>The locations an operation moves things between, and those it only creates.\<close>

fun locations :: "action \<Rightarrow> path list" where
  "locations (Make_dir d) = []"
| "locations (Put_file s d e) = [s, d]"
| "locations (Put_tree s d e) = [s, d]"
| "locations (Remove d t missing_ok) = [d, t]"
| "locations (Replace_tree s d t e) = [s, d, t]"

fun made :: "action \<Rightarrow> path list" where
  "made (Make_dir d) = [d]"
| "made _ = []"

fun pairwise_apart :: "path list \<Rightarrow> bool" where
  "pairwise_apart [] = True"
| "pairwise_apart (p # ps) = (list_all (apart p) ps \<and> pairwise_apart ps)"

text \<open>What recognising a completed operation looks at.\<close>

fun completed :: "replay_params \<Rightarrow> action \<Rightarrow> fs \<Rightarrow> bool" where
  "completed P (Make_dir d) g = list_all (is_dir g) (prefixes d)"
| "completed P (Put_file s d e) g =
     (path_exists g d \<and> digest_matches P g d e \<and> \<not> path_exists g s)"
| "completed P (Put_tree s d e) g =
     (path_exists g d \<and> digest_matches P g d e \<and> \<not> path_exists g s)"
| "completed P (Remove d t missing_ok) g =
     (\<not> path_exists g d \<and> (path_exists g t \<or> missing_ok))"
| "completed P (Replace_tree s d t e) g =
     (path_exists g d \<and> digest_matches P g d e \<and> \<not> path_exists g s)"

lemma not_file_iff: "\<not> is_file fs q \<longleftrightarrow> map_of fs q = None \<or> map_of fs q = Some Directory"
  by (cases "map_of fs q") (auto simp: is_file_def split: node.splits)

lemma mkdirs_completed:
  shows "mkdirs d fs = Inr g \<Longrightarrow> list_all (is_dir g) (prefixes d)"
    and "list_all (is_dir g) (prefixes d) \<Longrightarrow> mkdirs d g = Inr g"
proof -
  assume m: "mkdirs d fs = Inr g"
  have "\<not> is_file fs q" if "prefix q d" for q
    using m that by (auto simp: mkdirs_def list_ex_iff split: if_splits)
  then have "map_of fs q = None \<or> map_of fs q = Some Directory" if "prefix q d" for q
    using that not_file_iff by blast
  then show "list_all (is_dir g) (prefixes d)"
    by (fastforce simp: list_all_iff is_dir_def mkdirs_lookup [OF m])
next
  assume d: "list_all (is_dir g) (prefixes d)"
  then have "\<not> is_file g q" "path_exists g q" if "prefix q d" for q
    using that by (auto simp: list_all_iff is_dir_def is_file_def path_exists_def)
  then show "mkdirs d g = Inr g" by (auto simp: mkdirs_def list_ex_iff filter_empty_conv)
qed

lemma completed_skips:
  assumes "completed P a g" and "run_action P server a g = (r, t)"
  shows "r = Inr () \<and> set t \<subseteq> {g}"
  using assms mkdirs_completed(2) [of g] mkdirs_facts(1)
  by (cases a)
    (auto simp: make_dir_def put_file_def put_tree_def remove_target_def replace_tree_def
      list_all_iff split: if_splits sum.splits)

section \<open>What an operation leaves alone\<close>

definition keeps :: "action \<Rightarrow> fs \<Rightarrow> fs \<Rightarrow> bool" where
  "keeps a fs c \<longleftrightarrow>
     (\<forall>q. list_all (\<lambda>y. \<not> prefix y q) (locations a) \<longrightarrow>
        (map_of fs q \<noteq> None \<longrightarrow> map_of c q = map_of fs q) \<and>
        (list_all (\<lambda>y. \<not> prefix q y) (locations a @ made a) \<longrightarrow> map_of c q = map_of fs q))"

lemma keeps_refl [simp]: "keeps a fs fs"
  by (simp add: keeps_def)

lemma keeps_trans: "keeps a f g \<Longrightarrow> keeps a g h \<Longrightarrow> keeps a f h"
  unfolding keeps_def by metis

lemma keeps_mkdirs:
  assumes "mkdirs p fs = Inr g" and "y \<in> set (locations a @ made a)" and "prefix p y"
  shows "keeps a fs g"
  unfolding keeps_def
proof (intro allI impI conjI)
  fix q
  show "map_of fs q \<noteq> None \<Longrightarrow> map_of g q = map_of fs q" by (rule mkdirs_facts(3) [OF assms(1)])
  assume "list_all (\<lambda>y. \<not> prefix q y) (locations a @ made a)"
  then have "\<not> prefix q p" using assms(2,3) by (auto simp: list_all_iff dest: prefix_order.trans)
  then show "map_of g q = map_of fs q" by (rule mkdirs_facts(4) [OF assms(1)])
qed

lemma keeps_renames:
  assumes "renames src dst fs h" and "apart src dst" and "src \<in> set (locations a)" and "dst \<in> set (locations a)"
  shows "keeps a fs h"
  unfolding keeps_def
  using renames_lookup(3,4) [OF assms(1,2)] assms(3,4) by (auto simp: list_all_iff)

lemma keeps_verified:
  assumes "rename_verified server src dst fs = (r, t)" and "apart src dst" and "path_exists fs src"
    and "src \<in> set (locations a)" and "dst \<in> set (locations a)" and "c \<in> set (fs # t)"
  shows "keeps a fs c"
  using verified_states [OF assms(1-3,6)]
proof (elim disjE)
  assume "mkdirs (butlast dst) fs = Inr c"
  then show ?thesis by (rule keeps_mkdirs [of _ _ _ dst]) (use assms(5) prefixeq_butlast in auto)
qed (use keeps_renames assms in auto)

lemma seqt_cases:
  assumes "seqt m fs k = (r, t)" and "c \<in> set (fs # t)"
  obtains (first) r1 t1 where "m = (r1, t1)" "c \<in> set (fs # t1)"
  | (second) u t1 r2 t2 where "m = (Inr u, t1)" "k (last (fs # t1)) = (r2, t2)"
      "c \<in> set (last (fs # t1) # t2)"
  using assms by (auto simp: seqt_def split: prod.splits sum.splits)

lemma run_keeps:
  assumes "run_action P server a fs = (r, t)" and "pairwise_apart (locations a)" and "c \<in> set (fs # t)"
  shows "keeps a fs c"
proof (cases a)
  case (Make_dir d)
  then have "c = fs \<or> mkdirs d fs = Inr c"
    using assms by (auto simp: make_dir_def split: sum.splits)
  then show ?thesis using keeps_mkdirs [of d fs c d a] Make_dir by auto
next
  case (Put_file s d e)
  have ap: "apart s d" using assms(2) Put_file by simp
  show ?thesis
  proof (cases "c = fs")
    case False
    then obtain r' t' where v: "rename_verified server s d fs = (r', t')" "c \<in> set (fs # t')" "path_exists fs s"
      using assms(1,3) Put_file
      by (auto simp: put_file_def seqt_def is_file_def path_exists_def split: if_splits prod.splits sum.splits option.splits)
    then show ?thesis using keeps_verified [OF v(1) ap v(3) _ _ v(2)] Put_file by simp
  qed simp
next
  case (Put_tree s d e)
  have ap: "apart s d" using assms(2) Put_tree by simp
  show ?thesis
  proof (cases "c = fs")
    case False
    then have v: "rename_verified server s d fs = (r, t)" "path_exists fs s"
      using assms(1,3) Put_tree
      by (auto simp: put_tree_def is_dir_def path_exists_def split: if_splits)
    then show ?thesis using keeps_verified [OF v(1) ap v(2) _ _ assms(3)] Put_tree by simp
  qed simp
next
  case (Remove d tr mo)
  have ap: "apart d tr" using assms(2) Remove by simp
  show ?thesis
  proof (cases "c = fs")
    case False
    then have v: "rename_verified server d tr fs = (r, t)" "path_exists fs d"
      using assms(1,3) Remove by (auto simp: remove_target_def split: if_splits)
    then show ?thesis using keeps_verified [OF v(1) ap v(2) _ _ assms(3)] Remove by simp
  qed simp
next
  case (Replace_tree s d tr e)
  have ap: "apart s d" "apart d tr" using assms(2) Replace_tree by auto
  show ?thesis
  proof (cases "completed P a fs")
    case True
    then have "c = fs" using completed_skips [OF True assms(1)] assms(3) by auto
    then show ?thesis by simp
  next
    case False
    let ?m = "if path_exists fs d \<and> \<not> path_exists fs tr then rename_verified server d tr fs else (Inr (), [])"
    let ?k = "\<lambda>g. if \<not> is_dir g s \<or> \<not> digest_matches P g s e then (Inl TransactionError, [])
      else rename_verified server s d g"
    have run: "seqt ?m fs ?k = (r, t)" using assms(1) False Replace_tree by (auto simp: replace_tree_def)
    have one: "keeps a fs x" if "?m = (r1, t1)" "x \<in> set (fs # t1)" for r1 t1 x
      using that keeps_verified [of server d tr fs r1 t1 a x] ap Replace_tree by (auto split: if_splits)
    from run assms(3) show ?thesis
    proof (cases rule: seqt_cases)
      case (first r1 t1)
      then show ?thesis by (rule one)
    next
      case (second u t1 r2 t2)
      let ?g = "last (fs # t1)"
      have "keeps a fs ?g" using one [OF second(1)] last_in_set [of "fs # t1"] by blast
      moreover have "keeps a ?g c"
      proof (cases "c = ?g")
        case False
        then have "rename_verified server s d ?g = (r2, t2)" "path_exists ?g s"
          using second(2,3) by (auto simp: is_dir_def path_exists_def split: if_splits)
        then show ?thesis using keeps_verified [OF _ ap(1) _ _ _ second(3)] Replace_tree by simp
      qed simp
      ultimately show ?thesis by (rule keeps_trans)
    qed
  qed
qed

text \<open>Two operations that do not get in each other's way.\<close>

definition compatible :: "action \<Rightarrow> action \<Rightarrow> bool" where
  "compatible a b \<longleftrightarrow>
     list_all (\<lambda>x. list_all (apart x) (locations b) \<and> list_all (\<lambda>m. \<not> prefix x m) (made b)) (locations a) \<and>
     list_all (\<lambda>m. list_all (\<lambda>y. \<not> prefix y m) (locations b)) (made a)"

lemma keeps_subtree:
  assumes "keeps b fs c" and "compatible a b" and "x \<in> set (locations a)"
  shows "map_of c (x @ q) = map_of fs (x @ q)"
proof -
  have ap: "apart x y" if "y \<in> set (locations b)" for y
    using assms(2,3) that by (auto simp: compatible_def list_all_iff)
  have "\<not> prefix y (x @ q)" if "y \<in> set (locations b)" for y
    using ap [OF that] apart_same_length [of x "x @ q" y] by auto
  moreover have "\<not> prefix (x @ q) y" if "y \<in> set (locations b @ made b)" for y
    using ap [of y] that assms(2,3) by (auto simp: compatible_def list_all_iff apart_def dest: append_prefixD)
  ultimately show ?thesis using assms(1) unfolding keeps_def by (auto simp: list_all_iff)
qed

lemma keeps_completed:
  assumes "keeps b fs c" and "compatible a b" and "completed P a fs"
  shows "completed P a c"
proof -
  have sub: "subtree c x = subtree fs x" "map_of c x = map_of fs x" if "x \<in> set (locations a)" for x
    using keeps_subtree [OF assms(1,2) that] keeps_subtree [OF assms(1,2) that, of "[]"]
    by (auto simp: subtree_def)
  have same: "path_exists c x = path_exists fs x" "digest_matches P c x e = digest_matches P fs x e"
    if "x \<in> set (locations a)" for x e
    using sub [OF that] by (simp_all add: path_exists_def digest_matches_def split: option.splits node.splits)
  show ?thesis
  proof (cases a)
    case (Make_dir d)
    have "is_dir c q" if "prefix q d" for q
    proof -
      have "is_dir fs q" using assms(3) Make_dir that by (auto simp: list_all_iff)
      moreover have "\<not> prefix y q" if y: "y \<in> set (locations b)" for y
        using y assms(2) Make_dir \<open>prefix q d\<close> by (auto simp: compatible_def list_all_iff dest: prefix_order.trans)
      ultimately show ?thesis using assms(1) unfolding keeps_def is_dir_def by (auto simp: list_all_iff)
    qed
    then show ?thesis using Make_dir by (simp add: list_all_iff)
  qed (use assms(3) same in auto)
qed

section \<open>Completing an interrupted operation\<close>

text \<open>
  The states a rename can be interrupted in, when it would complete: before it, after the
  parent directories, and after it; and from the first two it completes to the third.
\<close>

lemma rename_interrupted:
  assumes "willing W" and "apart src dst" and "path_exists fs src"
    and "renames src dst fs h"
    and "rename_verified server src dst fs = (r, t)" and "c \<in> set (fs # t)"
  obtains (before) "c = fs \<or> mkdirs (butlast dst) fs = Inr c"
      "map_of c (src @ q) = map_of fs (src @ q)" "path_exists c dst = path_exists fs dst"
      "renames src dst c h"
  | (after) "c = h"
proof -
  have d: "dst \<noteq> []" using assms(2) by (auto simp: apart_def)
  consider "c = fs \<or> mkdirs (butlast dst) fs = Inr c" | "renames src dst fs c"
    using verified_states [OF assms(5,2,3,6)] by blast
  then show thesis
  proof cases
    case 1
    have "\<not> prefix (src @ q) (butlast dst)"
      using assms(2) not_prefix_butlast unfolding apart_def by (meson append_prefixD)
    then have "map_of c (src @ q) = map_of fs (src @ q)" using 1 mkdirs_facts(4) by auto
    moreover have "\<not> prefix dst (butlast dst)"
      using d by (metis append_butlast_last_id not_Cons_self2 prefix_order.antisym prefixI same_append_eq append_Nil2)
    then have "path_exists c dst = path_exists fs dst"
      using 1 mkdirs_facts(4) by (auto simp: path_exists_def)
    moreover have "renames src dst c h" using 1 assms(4) renames_after_mkdirs by auto
    ultimately show thesis using before 1 by blast
  next
    case 2
    then show thesis using after renames_unique [OF assms(4)] by blast
  qed
qed

text \<open>The common second half of the tree operations: check the source, then rename.\<close>

definition install ::
  "replay_params \<Rightarrow> server \<Rightarrow> path \<Rightarrow> path \<Rightarrow> string option \<Rightarrow> fs \<Rightarrow> unit res \<times> fs list" where
  "install P server src dst e fs =
     (if \<not> is_dir fs src \<or> \<not> digest_matches P fs src e then (Inl TransactionError, [])
      else rename_verified server src dst fs)"

lemma digest_subtree:
  assumes "\<And>q. map_of g (p @ q) = map_of fs (p' @ q)"
  shows "digest_matches P g p e = digest_matches P fs p' e" "is_dir g p = is_dir fs p'"
    "is_file g p = is_file fs p'" "path_exists g p = path_exists fs p'"
proof -
  have "map_of g p = map_of fs p'" using assms [of "[]"] by simp
  moreover have "subtree g p = subtree fs p'" using assms by (auto simp: subtree_def)
  ultimately show "digest_matches P g p e = digest_matches P fs p' e" "is_dir g p = is_dir fs p'"
    "is_file g p = is_file fs p'" "path_exists g p = path_exists fs p'"
    by (simp_all add: digest_matches_def is_dir_def is_file_def path_exists_def split: option.splits node.splits)
qed

lemma install_interrupted:
  assumes "willing W" and "apart src dst" and "install P W src dst e fs = (Inr u, t0)"
    and "install P server src dst e fs = (r, t)" and "c \<in> set (fs # t)"
  obtains (before) t' where "path_exists c src" "path_exists c dst = path_exists fs dst"
      "install P W src dst e c = (Inr (), t')" "last (c # t') = last (fs # t0)"
  | (after) "c = last (fs # t0)" "path_exists c dst" "digest_matches P c dst e" "\<not> path_exists c src"
proof -
  let ?h = "last (fs # t0)"
  have src: "is_dir fs src" "digest_matches P fs src e" "rename_verified W src dst fs = (Inr u, t0)"
    "rename_verified server src dst fs = (r, t)"
    using assms(3,4) by (auto simp: install_def split: if_splits)
  have ex: "path_exists fs src" using src(1) by (simp add: is_dir_def path_exists_def)
  have h: "renames src dst fs ?h" by (rule verified_done [OF src(3) assms(2) ex])
  consider "c = ?h" | "\<And>q. map_of c (src @ q) = map_of fs (src @ q)" "path_exists c dst = path_exists fs dst"
      "renames src dst c ?h"
    using rename_interrupted [OF assms(1,2) ex h src(4) assms(5)] by metis
  then show thesis
  proof cases
    case 1
    have l: "map_of ?h (dst @ q) = map_of fs (src @ q)" for q by (rule renames_lookup(1) [OF h assms(2)])
    have "\<not> path_exists ?h src" using renames_lookup(2) [OF h assms(2), of "[]"] by (simp add: path_exists_def)
    with digest_subtree(1) [OF l, of P e] digest_subtree(4) [OF l] src(2) ex show thesis using after 1 by simp
  next
    case 2
    obtain t' where "rename_verified W src dst c = (Inr (), t')" "last (c # t') = ?h"
      using verified_willing [OF assms(1) 2(3) assms(2)] by blast
    with digest_subtree(1) [OF 2(1), of P e] digest_subtree(2,4) [OF 2(1)] src(1,2) ex 2(2) show thesis
      by (intro before) (simp_all add: install_def)
  qed
qed

lemma put_file_rerun:
  assumes "willing W" and "apart s d" and "put_file P W s d e fs = (Inr u, t0)"
    and "put_file P server s d e fs = (r, t)" and "c \<in> set (fs # t)"
  shows "\<exists>t'. put_file P W s d e c = (Inr (), t') \<and> last (c # t') = last (fs # t0)"
proof (cases "completed P (Put_file s d e) fs")
  case True
  then show ?thesis using assms(3-5) by (auto simp: put_file_def)
next
  case False
  let ?h = "last (fs # t0)"
  have src: "is_file fs s" "digest_matches P fs s e" "rename_verified W s d fs = (Inr (), t0)"
    using assms(3) False by (auto simp: put_file_def seqt_def split: if_splits prod.splits sum.splits)
  have ex: "path_exists fs s" using src(1) by (auto simp: is_file_def path_exists_def split: option.splits)
  have h: "renames s d fs ?h" by (rule verified_done [OF src(3) assms(2) ex])
  have "\<exists>r' t1. rename_verified server s d fs = (r', t1) \<and> c \<in> set (fs # t1)"
    using assms(4,5) False src(1,2)
    by (auto simp: put_file_def seqt_def split: prod.splits sum.splits)
  then obtain r' t1 where v: "rename_verified server s d fs = (r', t1)" "c \<in> set (fs # t1)" by blast
  have l: "map_of ?h (d @ q) = map_of fs (s @ q)" for q by (rule renames_lookup(1) [OF h assms(2)])
  have dh: "digest_matches P ?h d e" "path_exists ?h d" "\<not> path_exists ?h s"
    using digest_subtree(1) [OF l, of P e] digest_subtree(4) [OF l] src(2) ex
      renames_lookup(2) [OF h assms(2), of "[]"] by (simp_all add: path_exists_def)
  consider "c = ?h" | "\<And>q. map_of c (s @ q) = map_of fs (s @ q)" "renames s d c ?h"
    using rename_interrupted [OF assms(1,2) ex h v] by metis
  then show ?thesis
  proof cases
    case 1
    then show ?thesis using dh by (simp add: put_file_def)
  next
    case 2
    obtain t' where "rename_verified W s d c = (Inr (), t')" "last (c # t') = ?h"
      using verified_willing [OF assms(1) 2(2) assms(2)] by blast
    with digest_subtree(1) [OF 2(1), of P e] digest_subtree(3,4) [OF 2(1)] src ex dh show ?thesis
      by (simp add: put_file_def seqt_def)
  qed
qed

lemma put_tree_rerun:
  assumes "willing W" and "apart s d" and "put_tree P W s d e fs = (Inr u, t0)"
    and "put_tree P server s d e fs = (r, t)" and "c \<in> set (fs # t)"
  shows "\<exists>t'. put_tree P W s d e c = (Inr (), t') \<and> last (c # t') = last (fs # t0)"
proof (cases "completed P (Put_tree s d e) fs")
  case True
  then show ?thesis using assms(3-5) by (auto simp: put_tree_def)
next
  case False
  have "\<not> path_exists fs d" and w: "install P W s d e fs = (Inr u, t0)"
    using assms(3) False by (auto simp: put_tree_def install_def split: if_splits)
  then have i: "install P server s d e fs = (r, t)"
    using assms(4) False by (auto simp: put_tree_def install_def)
  show ?thesis
  proof (cases rule: install_interrupted [OF assms(1,2) w i assms(5), case_names before after])
    case (before t')
    with \<open>\<not> path_exists fs d\<close> show ?thesis by (auto simp: put_tree_def install_def split: if_splits)
  next
    case after
    then show ?thesis by (simp add: put_tree_def)
  qed
qed

lemma remove_rerun:
  assumes "willing W" and "apart d tr" and "remove_target W d tr mo fs = (Inr u, t0)"
    and "remove_target server d tr mo fs = (r, t)" and "c \<in> set (fs # t)"
  shows "\<exists>t'. remove_target W d tr mo c = (Inr (), t') \<and> last (c # t') = last (fs # t0)"
proof (cases "path_exists fs d")
  case False
  then show ?thesis using assms(3-5) by (auto simp: remove_target_def split: if_splits)
next
  case True
  let ?h = "last (fs # t0)"
  have v: "rename_verified W d tr fs = (Inr u, t0)" "rename_verified server d tr fs = (r, t)"
    using assms(3,4) True by (simp_all add: remove_target_def)
  have h: "renames d tr fs ?h" by (rule verified_done [OF v(1) assms(2) True])
  have gone: "\<not> path_exists ?h d" "path_exists ?h tr"
    using renames_lookup(1,2) [OF h assms(2), of "[]"] True by (simp_all add: path_exists_def)
  consider "c = ?h" | "\<And>q. map_of c (d @ q) = map_of fs (d @ q)" "renames d tr c ?h"
    using rename_interrupted [OF assms(1,2) True h v(2) assms(5)] by metis
  then show ?thesis
  proof cases
    case 1
    then show ?thesis using gone by (simp add: remove_target_def)
  next
    case 2
    obtain t' where "rename_verified W d tr c = (Inr (), t')" "last (c # t') = ?h"
      using verified_willing [OF assms(1) 2(2) assms(2)] by blast
    with digest_subtree(4) [OF 2(1)] True show ?thesis by (simp add: remove_target_def)
  qed
qed

text \<open>Replacing a tree: moving the old one away when needed, then installing the new one.\<close>

definition clear_old :: "server \<Rightarrow> path \<Rightarrow> path \<Rightarrow> fs \<Rightarrow> unit res \<times> fs list" where
  "clear_old server d tr fs =
     (if path_exists fs d \<and> \<not> path_exists fs tr then rename_verified server d tr fs else (Inr (), []))"

lemma replace_tree_parts:
  "replace_tree P server s d tr e fs =
     (if completed P (Replace_tree s d tr e) fs then (Inr (), [])
      else seqt (clear_old server d tr fs) fs (install P server s d e))"
proof -
  have "install P server s d e = (\<lambda>g. if \<not> is_dir g s \<or> \<not> digest_matches P g s e then (Inl TransactionError, [])
      else rename_verified server s d g)" by (auto simp: install_def fun_eq_iff)
  then show ?thesis by (simp only: replace_tree_def clear_old_def completed.simps)
qed

lemma clear_old_interrupted:
  assumes "willing W" and "apart d tr" and "apart s d" and "apart s tr"
    and "clear_old W d tr fs = (Inr u, t0)"
    and "clear_old server d tr fs = (r, t)" and "c \<in> set (fs # t)"
  shows "\<exists>t'. clear_old W d tr c = (Inr (), t') \<and> last (c # t') = last (fs # t0) \<and>
    path_exists c s = path_exists fs s"
proof (cases "path_exists fs d \<and> \<not> path_exists fs tr")
  case False
  then have skip: "clear_old z d tr fs = (Inr (), [])" for z by (auto simp: clear_old_def)
  then have "t0 = []" "c = fs" using assms(5-7) by simp_all
  with skip show ?thesis by simp
next
  case True
  let ?h = "last (fs # t0)"
  have v: "rename_verified W d tr fs = (Inr u, t0)" "rename_verified server d tr fs = (r, t)"
    using assms(5,6) True by (simp_all add: clear_old_def)
  have h: "renames d tr fs ?h" using verified_done [OF v(1) assms(2)] True by simp
  consider "c = ?h" | "c = fs \<or> mkdirs (butlast tr) fs = Inr c" "\<And>q. map_of c (d @ q) = map_of fs (d @ q)"
      "path_exists c tr = path_exists fs tr" "renames d tr c ?h"
    using rename_interrupted [OF assms(1,2) _ h v(2) assms(7)] True by metis
  then show ?thesis
  proof cases
    case 1
    have "\<not> path_exists ?h d" using renames_lookup(2) [OF h assms(2), of "[]"] by (simp add: path_exists_def)
    moreover have "map_of ?h s = map_of fs s"
      using renames_lookup(4) [OF h assms(2), of s] assms(3,4) by (simp add: apart_def)
    ultimately show ?thesis using 1 by (simp add: clear_old_def path_exists_def)
  next
    case 2
    obtain t' where "rename_verified W d tr c = (Inr (), t')" "last (c # t') = ?h"
      using verified_willing [OF assms(1) 2(4) assms(2)] by blast
    moreover have "map_of c s = map_of fs s"
      using 2(1) mkdirs_facts(4) [of "butlast tr" fs c s] not_prefix_butlast [of s tr] assms(4)
      by (auto simp: apart_def)
    ultimately show ?thesis
      using digest_subtree(4) [OF 2(2)] True 2(3) by (simp add: clear_old_def path_exists_def)
  qed
qed

lemma seqt_Inr:
  "seqt m fs k = (Inr u, t) \<Longrightarrow>
     \<exists>v t1 t2. m = (Inr v, t1) \<and> k (last (fs # t1)) = (Inr u, t2) \<and> t = t1 @ t2 \<and>
       last (fs # t) = last (last (fs # t1) # t2)"
proof -
  assume q: "seqt m fs k = (Inr u, t)"
  obtain a t1 where m: "m = (a, t1)" by (cases m)
  obtain r2 t2 where k: "k (last (fs # t1)) = (r2, t2)" by (cases "k (last (fs # t1))")
  show ?thesis
  proof (cases a)
    case (Inl e)
    with q m show ?thesis by (simp add: seqt_def)
  next
    case (Inr v)
    then have "t = t1 @ t2" "r2 = Inr u" using q k unfolding m seqt_def by simp_all
    then show ?thesis using m Inr k by (simp add: last_append)
  qed
qed

lemma replace_rerun:
  assumes "willing W" and "pairwise_apart [s, d, tr]" and "replace_tree P W s d tr e fs = (Inr u, t0)"
    and "replace_tree P server s d tr e fs = (r, t)" and "c \<in> set (fs # t)"
  shows "\<exists>t'. replace_tree P W s d tr e c = (Inr (), t') \<and> last (c # t') = last (fs # t0)"
proof (cases "completed P (Replace_tree s d tr e) fs")
  case True
  then show ?thesis using assms(3-5) by (auto simp: replace_tree_parts)
next
  case False
  have ap: "apart s d" "apart d tr" "apart s tr" using assms(2) by auto
  have w: "seqt (clear_old W d tr fs) fs (install P W s d e) = (Inr u, t0)"
    and v: "seqt (clear_old server d tr fs) fs (install P server s d e) = (r, t)"
    using assms(3,4) unfolding replace_tree_parts if_not_P [OF False] by simp_all
  from seqt_Inr [OF w] obtain x t1 t2 where w1: "clear_old W d tr fs = (Inr x, t1)"
    and w2: "install P W s d e (last (fs # t1)) = (Inr u, t2)" and h: "last (fs # t0) = last (last (fs # t1) # t2)"
    by blast
  let ?k = "last (fs # t1)"
  have k: "?k = fs \<or> renames d tr fs ?k"
    using w1 verified_done [of W d tr fs x t1, OF _ ap(2)] by (auto simp: clear_old_def split: if_splits)
  have "map_of ?k s = map_of fs s"
    using k renames_lookup(4) [OF _ ap(2), of fs ?k s] ap unfolding apart_def by metis
  then have sk: "path_exists fs s = path_exists ?k s" by (simp add: path_exists_def)
  have "path_exists ?k s" using w2 by (auto simp: install_def is_dir_def path_exists_def split: if_splits)
  with sk have ex: "path_exists fs s" by simp
  have finish: "\<exists>t'. replace_tree P W s d tr e c = (Inr (), t') \<and> last (c # t') = last (fs # t0)"
    if "path_exists c s" "clear_old W d tr c = (Inr y, a)" "install P W s d e (last (c # a)) = (Inr z, b)"
      "last (last (c # a) # b) = last (fs # t0)" for y a z b
    using that by (auto simp: replace_tree_parts seqt_def last_append)
  from v assms(5) show ?thesis
  proof (cases rule: seqt_cases)
    case (first r1 u1)
    obtain t' where "clear_old W d tr c = (Inr (), t')" "last (c # t') = ?k" "path_exists c s"
      using clear_old_interrupted [OF assms(1) ap(2,1,3) w1 first] ex by blast
    with finish w2 h show ?thesis by metis
  next
    case (second y u1 r2 u2)
    have "last (fs # u1) = ?k"
    proof (cases "path_exists fs d \<and> \<not> path_exists fs tr")
      case True
      with second(1) w1 have "renames d tr fs (last (fs # u1))" "renames d tr fs ?k"
        using verified_done [OF _ ap(2)] by (simp_all add: clear_old_def)
      then show ?thesis by (rule renames_unique)
    next
      case False
      then show ?thesis using second(1) w1 unfolding clear_old_def if_not_P [OF False] by simp
    qed
    with second have i: "install P server s d e ?k = (r2, u2)" "c \<in> set (?k # u2)" by simp_all
    show ?thesis
    proof (cases rule: install_interrupted [OF assms(1) ap(1) w2 i, case_names before after])
      case (before t')
      have "\<not> (path_exists ?k d \<and> \<not> path_exists ?k tr)"
      proof (cases "path_exists fs d \<and> \<not> path_exists fs tr")
        case True
        then have "renames d tr fs ?k"
          using w1 verified_done [of W d tr fs x t1, OF _ ap(2)] by (simp add: clear_old_def)
        from renames_lookup(2) [OF this ap(2), of "[]"] show ?thesis by (simp add: path_exists_def)
      next
        case False
        then have "?k = fs" using w1 unfolding clear_old_def if_not_P [OF False] by simp
        with False show ?thesis by simp
      qed
      moreover have "path_exists ?k tr \<Longrightarrow> path_exists c tr"
        using keeps_verified [of server s d ?k r2 u2 "Put_tree s d e" c] i ap
        by (auto simp: install_def keeps_def path_exists_def is_dir_def apart_def split: if_splits)
      ultimately have "clear_old W d tr c = (Inr (), [])"
        using before(2) by (auto simp: clear_old_def)
      with finish [of "()" "[]"] before h show ?thesis by auto
    next
      case after
      then show ?thesis using h by (simp add: replace_tree_parts)
    qed
  qed
qed

lemma run_rerun:
  assumes "willing W" and "pairwise_apart (locations a)" and "run_action P W a fs = (Inr u, t0)"
    and "run_action P server a fs = (r, t)" and "c \<in> set (fs # t)"
  shows "\<exists>t'. run_action P W a c = (Inr (), t') \<and> last (c # t') = last (fs # t0)"
proof (cases a)
  case (Make_dir d)
  obtain g where g: "mkdirs d fs = Inr g"
    using assms(3) Make_dir by (cases "mkdirs d fs") (simp_all add: make_dir_def)
  have run: "run_action P z a f = (Inr (), [g])" if "f = fs \<or> f = g" for z f
    using that g mkdirs_facts(1,2) [OF g] Make_dir by (auto simp: make_dir_def)
  have "t0 = [g]" "c = fs \<or> c = g"
    using run [of fs W] run [of fs server] assms(3-5) by auto
  then show ?thesis using run [of c W] by simp
qed (use assms put_file_rerun put_tree_rerun remove_rerun replace_rerun in \<open>simp_all del: last.simps\<close>)

text \<open>An operation that ran is recognised afterwards.\<close>

lemma run_completed:
  assumes "run_action P server a fs = (Inr u, t)" and "pairwise_apart (locations a)"
  shows "completed P a (last (fs # t))"
proof (cases "completed P a fs")
  case True
  then have "set t \<subseteq> {fs}" using completed_skips [OF True assms(1)] by simp
  then have "last (fs # t) = fs" using last_in_set [of "fs # t"] by fastforce
  with True show ?thesis by simp
next
  case False
  have moved: "path_exists h d \<and> digest_matches P h d e \<and> \<not> path_exists h s"
    if "renames s d f h" "apart s d" "digest_matches P f s e" for s d f h e
    using digest_subtree(1,4) [OF renames_lookup(1) [OF that(1,2)]] that(3) renames_lookup(5) [OF that(1,2)]
      renames_lookup(2) [OF that(1,2), of "[]"] by (simp add: path_exists_def)
  have inst: "path_exists h d \<and> digest_matches P h d e \<and> \<not> path_exists h s"
    if "install P server s d e f = (Inr u, t')" "apart s d" "h = last (f # t')" for s d e f t' h
    using that moved [OF verified_done [of server s d f u t', OF _ that(2)] that(2)]
    by (auto simp: install_def is_dir_def path_exists_def split: if_splits)
  show ?thesis
  proof (cases a)
    case (Make_dir d)
    then show ?thesis using assms(1) mkdirs_completed(1) [of d fs]
      by (auto simp: make_dir_def split: sum.splits)
  next
    case (Put_file s d e)
    then have v: "rename_verified server s d fs = (Inr (), t)" "is_file fs s" "digest_matches P fs s e" "apart s d"
      using assms False by (auto simp: put_file_def seqt_def split: if_splits prod.splits sum.splits)
    then have "path_exists fs s" by (auto simp: is_file_def path_exists_def split: option.splits)
    from moved [OF verified_done [OF v(1,4) this] v(4,3)] Put_file show ?thesis by simp
  next
    case (Put_tree s d e)
    then have "install P server s d e fs = (Inr u, t)"
      using assms(1) False by (auto simp: put_tree_def install_def split: if_splits)
    from inst [OF this] assms(2) Put_tree show ?thesis by simp
  next
    case (Remove d tr mo)
    then have v: "rename_verified server d tr fs = (Inr u, t)" "path_exists fs d" "apart d tr"
      using assms False by (auto simp: remove_target_def split: if_splits)
    from renames_lookup(1,2) [OF verified_done [OF v(1,3,2)] v(3), of "[]"] v(2) Remove show ?thesis
      by (simp add: path_exists_def)
  next
    case (Replace_tree s d tr e)
    then have "seqt (clear_old server d tr fs) fs (install P server s d e) = (Inr u, t)"
      using assms(1) False unfolding Replace_tree run_action.simps replace_tree_parts by (simp split: if_splits)
    from seqt_Inr [OF this] inst assms(2) Replace_tree show ?thesis by fastforce
  qed
qed

section \<open>Sequences of operations\<close>

fun run_all :: "replay_params \<Rightarrow> server \<Rightarrow> action list \<Rightarrow> fs \<Rightarrow> unit res \<times> fs list" where
  "run_all P server [] fs = (Inr (), [])"
| "run_all P server (a # as) fs = seqt (run_action P server a fs) fs (run_all P server as)"

fun all_compatible :: "action list \<Rightarrow> bool" where
  "all_compatible [] = True"
| "all_compatible (a # as) = (list_all (compatible a) as \<and> all_compatible as)"

definition placed :: "action list \<Rightarrow> bool" where
  "placed as \<longleftrightarrow> list_all (\<lambda>a. pairwise_apart (locations a)) as"

lemma run_all_states:
  assumes "run_all P server as fs = (r, t)" and "placed as" and "c \<in> set (fs # t)"
    and step: "\<And>a f g. a \<in> set as \<Longrightarrow> Q f \<Longrightarrow> keeps a f g \<Longrightarrow> Q g" and "Q fs"
  shows "Q c"
  using assms(1-4) assms(5)
proof (induction as arbitrary: fs t)
  case (Cons a as)
  have ap: "pairwise_apart (locations a)" "placed as" using Cons.prems(2) by (auto simp: placed_def)
  have one: "Q x" if "run_action P server a fs = (r1, t1)" "x \<in> set (fs # t1)" for r1 t1 x
    using run_keeps [OF that(1) ap(1) that(2)] Cons.prems(4) [of a fs x] Cons.prems(5) by simp
  from Cons.prems(1) have "seqt (run_action P server a fs) fs (run_all P server as) = (r, t)" by simp
  from this Cons.prems(3) show ?case
  proof (cases rule: seqt_cases)
    case (first r1 t1)
    then show ?thesis by (rule one)
  next
    case (second u t1 r2 t2)
    have "r2 = r" using Cons.prems(1) second(1,2) by (simp add: seqt_def)
    moreover have "Q (last (fs # t1))" using one [OF second(1)] last_in_set [of "fs # t1"] by blast
    ultimately show ?thesis
      using Cons.IH [of "last (fs # t1)" t2] second(2,3) ap(2) Cons.prems(4) by auto
  qed
qed auto

lemma run_all_completed:
  assumes "run_all P server as fs = (r, t)" and "placed as" and "c \<in> set (fs # t)"
    and "list_all (compatible a) as" and "completed P a fs"
  shows "completed P a c"
  using run_all_states [OF assms(1-3), of "completed P a"] assms(4,5) keeps_completed
  by (auto simp: list_all_iff)

lemma completed_last:
  assumes "completed P a g" and "run_action P server a g = (r, t)"
  shows "r = Inr () \<and> last (g # t) = g"
  using completed_skips [OF assms] last_in_set [of "g # t"] by fastforce

lemma run_all_rerun:
  assumes "willing W" and "run_all P W as fs = (Inr u, t0)" and "run_all P server as fs = (r, t)"
    and "placed as" and "all_compatible as" and "c \<in> set (fs # t)"
  shows "\<exists>t'. run_all P W as c = (Inr (), t') \<and> last (c # t') = last (fs # t0)"
  using assms(2-6)
proof (induction as arbitrary: fs t t0 c)
  case (Cons a as)
  have ap: "pairwise_apart (locations a)" "placed as" and co: "list_all (compatible a) as" "all_compatible as"
    using Cons.prems(3,4) by (auto simp: placed_def)
  have w: "seqt (run_action P W a fs) fs (run_all P W as) = (Inr u, t0)"
    and v: "seqt (run_action P server a fs) fs (run_all P server as) = (r, t)"
    using Cons.prems(1,2) by simp_all
  from seqt_Inr [OF w] obtain x t1 t2 where w1: "run_action P W a fs = (Inr x, t1)"
    and w2: "run_all P W as (last (fs # t1)) = (Inr u, t2)" and h: "last (fs # t0) = last (last (fs # t1) # t2)"
    by blast
  let ?g = "last (fs # t1)"
  have glue: "\<exists>t'. run_all P W (a # as) c = (Inr (), t') \<and> last (c # t') = last (fs # t0)"
    if "run_action P W a c = (Inr y, b)" "run_all P W as (last (c # b)) = (Inr z, b')"
      "last (last (c # b) # b') = last (fs # t0)" for y b z b'
    using that by (auto simp: seqt_def last_append)
  from v Cons.prems(5) show ?case
  proof (cases rule: seqt_cases)
    case (first r1 u1)
    obtain t' where "run_action P W a c = (Inr (), t')" "last (c # t') = ?g"
      using run_rerun [OF assms(1) ap(1) w1 first] by blast
    with glue w2 h show ?thesis by metis
  next
    case (second y u1 r2 u2)
    let ?k = "last (fs # u1)"
    obtain b where b: "run_action P W a ?k = (Inr (), b)" "last (?k # b) = ?g"
      using run_rerun [OF assms(1) ap(1) w1 second(1)] last_in_set [of "fs # u1"] by blast
    have over: "completed P a ?k" by (rule run_completed [OF second(1) ap(1)])
    have kg: "?k = ?g" using completed_last [OF over b(1)] b(2) by simp
    have r2: "r2 = r" using v second(1,2) by (simp add: seqt_def)
    obtain t' where t': "run_all P W as c = (Inr (), t')" "last (c # t') = last (?g # t2)"
      using Cons.IH [OF w2 _ ap(2) co(2), of u2 c] second(2,3) kg r2 by auto
    have "completed P a c"
      by (rule run_all_completed [OF second(2) ap(2) second(3) co(1) over])
    moreover obtain r3 b3 where "run_action P W a c = (r3, b3)" by (cases "run_action P W a c")
    ultimately show ?thesis using glue t' h completed_last by metis
  qed
qed simp

lemma run_all_effects:
  assumes "run_all P server as fs = (Inr u, t)" and "placed as" and "all_compatible as"
  shows "list_all (\<lambda>a. completed P a (last (fs # t))) as"
  using assms
proof (induction as arbitrary: fs t)
  case (Cons a as)
  have ap: "pairwise_apart (locations a)" "placed as" and co: "list_all (compatible a) as" "all_compatible as"
    using Cons.prems(2,3) by (auto simp: placed_def)
  from seqt_Inr [OF Cons.prems(1) [unfolded run_all.simps]] obtain x t1 t2
    where a: "run_action P server a fs = (Inr x, t1)"
      and r: "run_all P server as (last (fs # t1)) = (Inr u, t2)" and h: "last (fs # t) = last (last (fs # t1) # t2)"
    by blast
  have "completed P a (last (last (fs # t1) # t2))"
    using run_all_completed [OF r ap(2) _ co(1) run_completed [OF a ap(1)]] last_in_set by blast
  with Cons.IH [OF r ap(2) co(2)] h show ?case by simp
qed simp

section \<open>Whole transactions\<close>

definition action_of :: "replay_params \<Rightarrow> obj \<Rightarrow> action res" where
  "action_of P raw =
     bindr (validate_label (get raw ''id'')) (\<lambda>i.
     bindr (relative_path (get raw ''path'')) (\<lambda>p.
       let d = rp_data_dir P @ p; tr = rp_transaction_dir P @ [''trash'', i]; op = get raw ''op''
       in if op = JStr ''make-dir'' then Inr (Make_dir d)
          else if op = JStr ''remove'' then
            Inr (Remove d (tr @ [''removed'']) (truthy (get_default raw ''missing_ok'' (JBool False))))
          else if op \<in> {JStr ''put-file'', JStr ''put-tree'', JStr ''replace-tree''} then
            bindr (relative_path (get raw ''source'')) (\<lambda>s.
              let src = rp_transaction_dir P @ s; e = expected_digest raw
              in Inr (if op = JStr ''put-file'' then Put_file src d e
                      else if op = JStr ''put-tree'' then Put_tree src d e
                      else Replace_tree src d (tr @ [''old'']) e))
          else Inl FormatError))"

lemma replay_operation_action:
  "replay_operation P server raw fs =
     (case action_of P raw of Inl e \<Rightarrow> (Inl e, []) | Inr a \<Rightarrow> run_action P server a fs)"
  unfolding replay_operation_def action_of_def
  by (cases "validate_label (get raw ''id'')"; cases "relative_path (get raw ''path'')";
      cases "relative_path (get raw ''source'')")
    (simp_all add: Let_def del: validate_label_Inr validate_label_Inl)

text \<open>The operations a transaction performs, with the creation of the data directory first.\<close>

definition actions_of :: "replay_params \<Rightarrow> obj list \<Rightarrow> action list res" where
  "actions_of P raws = bindr (mapr (action_of P) raws) (\<lambda>as. Inr (Make_dir (rp_data_dir P) # as))"

lemma replay_operations_run:
  "mapr (action_of P) raws = Inr as \<Longrightarrow> replay_operations P server raws fs = run_all P server as fs"
proof (induction raws arbitrary: as fs)
  case (Cons raw raws)
  then obtain a as' where a: "action_of P raw = Inr a" "mapr (action_of P) raws = Inr as'" "as = a # as'"
    by (auto simp: res_simps)
  have "replay_operations P server raws = run_all P server as'" using Cons.IH [OF a(2)] by blast
  with a show ?case by (simp add: replay_operation_action)
qed simp

lemma replay_transaction_run:
  assumes "load_transaction P gen fs = Inr raws" and "actions_of P raws = Inr as"
  shows "replay_transaction P server gen fs =
    (case run_all P server as fs of (Inl e, t) \<Rightarrow> (Inl e, t) | (Inr _, t) \<Rightarrow> (Inr (raws \<noteq> []), t))"
proof -
  obtain bs where b: "mapr (action_of P) raws = Inr bs" "as = Make_dir (rp_data_dir P) # bs"
    using assms(2) by (auto simp: actions_of_def res_simps)
  have "replay_operations P server raws = run_all P server bs" using replay_operations_run [OF b(1)] by blast
  with assms(1) b(2) show ?thesis by (simp add: replay_transaction_def)
qed

text \<open>
  What replay relies on beyond the checks of the manifest: the locations of an operation lie
  apart from each other and from those of every other one, a directory is not made at or below
  the target of another operation, and no operation moves the manifest or the data directory.
\<close>

definition separated :: "replay_params \<Rightarrow> obj list \<Rightarrow> bool" where
  "separated P raws =
     (case actions_of P raws of
        Inl _ \<Rightarrow> False
      | Inr as \<Rightarrow> placed as \<and> all_compatible as \<and>
          list_all (\<lambda>a. list_all (\<lambda>y. \<not> prefix y (rp_transaction_dir P @ [''manifest.json''])) (locations a)) as)"

text \<open>One interrupted replay, with any behaviour of the server, leads from a state to another.\<close>

definition interrupted :: "replay_params \<Rightarrow> int \<Rightarrow> fs \<Rightarrow> fs \<Rightarrow> bool" where
  "interrupted P gen fs c \<longleftrightarrow>
     (\<exists>server r t. replay_transaction P server gen fs = (r, t) \<and> c \<in> set (fs # t))"

lemma load_same:
  "map_of c (rp_transaction_dir P @ [''manifest.json'']) = map_of fs (rp_transaction_dir P @ [''manifest.json''])
   \<Longrightarrow> load_transaction P gen c = load_transaction P gen fs"
  by (simp add: load_transaction_def read_json_def)

lemma load_manifest_exists:
  "load_transaction P gen fs = Inr raws \<Longrightarrow> map_of fs (rp_transaction_dir P @ [''manifest.json'']) \<noteq> None"
  by (auto simp: load_transaction_def read_json_def res_simps split: option.splits)

lemma replay_interrupted_once:
  assumes "willing W" and "load_transaction P gen fs = Inr raws" and "separated P raws"
    and "replay_transaction P W gen fs = (Inr b, t0)" and "interrupted P gen fs c"
  shows "load_transaction P gen c = Inr raws \<and>
    (\<exists>t'. replay_transaction P W gen c = (Inr b, t') \<and> last (c # t') = last (fs # t0))"
proof -
  let ?m = "rp_transaction_dir P @ [''manifest.json'']"
  obtain as where as: "actions_of P raws = Inr as" "placed as" "all_compatible as"
    and man: "list_all (\<lambda>a. list_all (\<lambda>y. \<not> prefix y ?m) (locations a)) as"
    using assms(3) by (auto simp: separated_def split: sum.splits)
  note run = replay_transaction_run [OF assms(2) as(1)]
  obtain server r t where "replay_transaction P server gen fs = (r, t)" "c \<in> set (fs # t)"
    using assms(5) by (auto simp: interrupted_def)
  then obtain r1 where v: "run_all P server as fs = (r1, t)" and c: "c \<in> set (fs # t)"
    by (auto simp: run split: prod.splits sum.splits)
  have w: "run_all P W as fs = (Inr (), t0)" "b = (raws \<noteq> [])"
    using assms(4) by (auto simp: run split: prod.splits sum.splits)
  have "map_of c ?m = map_of fs ?m"
  proof (rule run_all_states [OF v as(2) c])
    fix a f g
    assume a: "a \<in> set as" and eq: "map_of f ?m = map_of fs ?m" and k: "keeps a f g"
    have "list_all (\<lambda>y. \<not> prefix y ?m) (locations a)" using man a by (auto simp: list_all_iff)
    with k eq load_manifest_exists [OF assms(2)] show "map_of g ?m = map_of fs ?m"
      unfolding keeps_def by metis
  qed simp
  then have l: "load_transaction P gen c = Inr raws" using load_same assms(2) by metis
  obtain t' where "run_all P W as c = (Inr (), t')" "last (c # t') = last (fs # t0)"
    using run_all_rerun [OF assms(1) w(1) v as(2,3) c] by blast
  then show ?thesis using l w(2) by (simp add: replay_transaction_run [OF l as(1)])
qed

text \<open>
  C37. Replaying a transaction is idempotent under crashes. If the transaction can be applied
  to a tree, then after any number of attempts that were cut off at any point, within an
  operation or between two, with renames refused or performed by the server in any way, a
  replay that is allowed to run succeeds, gives the same answer and leaves exactly the tree
  that one uninterrupted replay leaves.
\<close>

theorem replay_crash_idempotent:
  assumes "willing W" and "load_transaction P gen fs = Inr raws" and "separated P raws"
    and "replay_transaction P W gen fs = (Inr b, t0)" and "(interrupted P gen)\<^sup>*\<^sup>* fs c"
  shows "\<exists>t'. replay_transaction P W gen c = (Inr b, t') \<and> last (c # t') = last (fs # t0)"
proof -
  from assms(5)
  have "load_transaction P gen c = Inr raws \<and>
    (\<exists>t'. replay_transaction P W gen c = (Inr b, t') \<and> last (c # t') = last (fs # t0))"
  proof (induction rule: rtranclp_induct)
    case base
    then show ?case using assms(2,4) by blast
  next
    case (step c d)
    then show ?case using replay_interrupted_once [OF assms(1) _ assms(3), of gen c b _ d] by metis
  qed
  then show ?thesis by blast
qed


section \<open>Examples\<close>

declare json_bytes.simps [simp del]

definition example_params :: replay_params where
  "example_params =
     \<lparr>rp_file_digest = (\<lambda>b. b), rp_tree_digest = (\<lambda>_. ''tree''),
      rp_transaction_dir = [''t''], rp_data_dir = [''d'']\<rparr>"

definition example_manifest :: "obj list \<Rightarrow> obj" where
  "example_manifest ops =
     [(''expected_data_generation'', JInt 3), (''format'', JStr ''httk-workflow-transaction''),
      (''format_version'', JInt 2), (''operations'', JArr (map JObj ops))]"

definition example_operations :: "obj list" where
  "example_operations =
     [[(''id'', JStr ''m''), (''op'', JStr ''make-dir''), (''path'', JStr ''out'')],
      [(''id'', JStr ''p''), (''op'', JStr ''put-file''), (''path'', JStr ''out/a''),
       (''sha256'', JStr ''x''), (''source'', JStr ''f'')],
      [(''id'', JStr ''r''), (''op'', JStr ''remove''), (''path'', JStr ''old'')]]"

definition example_files :: "string \<Rightarrow> fs" where
  "example_files manifest =
     [([], Directory), ([''t''], Directory), ([''d''], Directory),
      ([''t'', ''manifest.json''], File manifest),
      ([''t'', ''f''], File ''x''), ([''d'', ''old''], File ''y'')]"

definition example_fs :: "obj list \<Rightarrow> fs" where
  "example_fs ops = example_files (json_bytes (JObj (example_manifest ops)))"

definition prompt :: server where
  "prompt src dst = [Refused, Performed]"

lemma prompt_willing: "willing prompt"
  by (simp add: willing_def prompt_def)

lemma example_load:
  assumes "json_ok (JObj (example_manifest ops))" and "canon (JObj (example_manifest ops)) = JObj (example_manifest ops)"
  shows "load_transaction example_params 3 (example_fs ops) =
    bindr (scan_operations (map JObj ops) []) (\<lambda>(raws, ps). if overlapping ps then Inl FormatError else Inr raws)"
proof -
  have "json_decode False (json_bytes (JObj (example_manifest ops))) = Some (JObj (example_manifest ops))"
    using json_decode_bytes [OF assms(1)] assms(2) by simp
  then have "read_json (example_fs ops) [''t'', ''manifest.json''] = Inr (example_manifest ops)"
    by (simp add: read_json_def example_fs_def example_files_def del: json_bytes.simps)
  then show ?thesis
    by (simp add: load_transaction_def example_params_def) (simp add: example_manifest_def)
qed

lemma example_transaction_load:
  "load_transaction example_params 3 (example_fs example_operations) = Inr example_operations"
proof -
  have "json_ok (JObj (example_manifest example_operations))"
    "canon (JObj (example_manifest example_operations)) = JObj (example_manifest example_operations)"
    "scan_operations (map JObj example_operations) [] = Inr (example_operations, [[''out'', ''a''], [''old'']])"
    "\<not> overlapping [[''out'', ''a''], [''old'']]"
    by code_simp+
  then show ?thesis by (simp add: example_load)
qed

definition example_actions :: "action list" where
  "example_actions =
     [Make_dir [''d''], Make_dir [''d'', ''out''], Put_file [''t'', ''f''] [''d'', ''out'', ''a''] (Some ''x''),
      Remove [''d'', ''old''] [''t'', ''trash'', ''r'', ''removed''] False]"

lemma example_actions_of: "actions_of example_params example_operations = Inr example_actions"
  by code_simp

lemma example_separated: "separated example_params example_operations"
proof -
  have "placed example_actions" "all_compatible example_actions"
    "list_all (\<lambda>a. list_all (\<lambda>y. \<not> prefix y [''t'', ''manifest.json'']) (locations a)) example_actions"
    by code_simp+
  then show ?thesis unfolding separated_def example_actions_of by (simp add: example_params_def)
qed

lemma example_runs:
  "fst (run_all example_params prompt example_actions (example_files b)) = Inr ()"
  "snd (run_all example_params (\<lambda>_ _. [Created]) example_actions (example_files b)) \<noteq> []"
  by code_simp+

lemma example_replay: "\<exists>t. replay_transaction example_params prompt 3 (example_fs example_operations) = (Inr True, t)"
proof -
  obtain t where "run_all example_params prompt example_actions (example_fs example_operations) = (Inr (), t)"
    using example_runs(1) unfolding example_fs_def by (metis prod.exhaust_sel)
  moreover have "example_operations \<noteq> []" by (simp add: example_operations_def)
  ultimately show ?thesis
    by (simp add: replay_transaction_run [OF example_transaction_load example_actions_of])
qed

theorem replay_crash_idempotent_witness:
  "\<exists>c t0 t. interrupted example_params 3 (example_fs example_operations) c \<and>
     c \<in> set (snd (replay_transaction example_params (\<lambda>_ _. [Created]) 3 (example_fs example_operations))) \<and>
     replay_transaction example_params prompt 3 (example_fs example_operations) = (Inr True, t0) \<and>
     replay_transaction example_params prompt 3 c = (Inr True, t) \<and>
     last (c # t) = last (example_fs example_operations # t0)"
proof -
  let ?fs = "example_fs example_operations"
  obtain t0 where t0: "replay_transaction example_params prompt 3 ?fs = (Inr True, t0)"
    using example_replay by blast
  obtain r ts where v: "replay_transaction example_params (\<lambda>_ _. [Created]) 3 ?fs = (r, ts)"
    by (cases "replay_transaction example_params (\<lambda>_ _. [Created]) 3 ?fs")
  have "snd (run_all example_params (\<lambda>_ _. [Created]) example_actions ?fs) \<noteq> []"
    using example_runs(2) by (simp add: example_fs_def)
  then have "ts \<noteq> []"
    using v by (auto simp: replay_transaction_run [OF example_transaction_load example_actions_of]
        split: prod.splits sum.splits)
  then have c: "last ts \<in> set ts" by simp
  then have i: "interrupted example_params 3 ?fs (last ts)"
    using v unfolding interrupted_def by (meson list.set_intros(2))
  then obtain t where "replay_transaction example_params prompt 3 (last ts) = (Inr True, t)"
    "last (last ts # t) = last (?fs # t0)"
    using replay_crash_idempotent [OF prompt_willing example_transaction_load example_separated t0, of "last ts"]
    by blast
  with i c v t0 show ?thesis by (metis snd_conv)
qed


definition overlap_operations :: "obj list" where
  "overlap_operations =
     [[(''id'', JStr ''r''), (''op'', JStr ''remove''), (''path'', JStr ''old'')],
      [(''id'', JStr ''m''), (''op'', JStr ''make-dir''), (''path'', JStr ''old'')]]"

definition overlap_actions :: "action list" where
  "overlap_actions =
     [Make_dir [''d''], Remove [''d'', ''old''] [''t'', ''trash'', ''r'', ''removed''] False, Make_dir [''d'', ''old'']]"

lemma overlap_load:
  "load_transaction example_params 3 (example_fs overlap_operations) = Inr overlap_operations"
  "actions_of example_params overlap_operations = Inr overlap_actions"
proof -
  have "json_ok (JObj (example_manifest overlap_operations))"
    "canon (JObj (example_manifest overlap_operations)) = JObj (example_manifest overlap_operations)"
    "scan_operations (map JObj overlap_operations) [] = Inr (overlap_operations, [[''old'']])"
    "\<not> overlapping [[''old'']]"
    by code_simp+
  then show "load_transaction example_params 3 (example_fs overlap_operations) = Inr overlap_operations"
    by (simp add: example_load)
  show "actions_of example_params overlap_operations = Inr overlap_actions" by code_simp
qed

lemma overlap_runs:
  "let run = run_all example_params prompt overlap_actions (example_files b); c = last (example_files b # snd run)
   in fst run = Inr () \<and> map_of c [''t'', ''manifest.json''] = map_of (example_files b) [''t'', ''manifest.json''] \<and>
      fst (run_all example_params prompt overlap_actions c) = Inl WorkspaceUnavailableError"
  by code_simp

text \<open>
  The check for overlapping paths leaves out \<open>make-dir\<close>, and without it replay is not
  idempotent: a transaction that removes a file and makes a directory in its place passes the
  checks and is applied, but a replay after a crash that follows takes the new directory for
  the file it has already moved to the trash and is refused for ever.
\<close>

theorem make_dir_overlap_not_idempotent:
  "let fs = example_fs overlap_operations; run = replay_transaction example_params prompt 3 fs
   in fst run = Inr True \<and>
      fst (replay_transaction example_params prompt 3 (last (fs # snd run))) = Inl WorkspaceUnavailableError"
proof -
  let ?fs = "example_fs overlap_operations"
  let ?run = "run_all example_params prompt overlap_actions ?fs"
  let ?c = "last (?fs # snd ?run)"
  have r: "fst ?run = Inr ()" "map_of ?c [''t'', ''manifest.json''] = map_of ?fs [''t'', ''manifest.json'']"
    "fst (run_all example_params prompt overlap_actions ?c) = Inl WorkspaceUnavailableError"
    using overlap_runs [of "json_bytes (JObj (example_manifest overlap_operations))"]
    unfolding example_fs_def Let_def by blast+
  have l: "load_transaction example_params 3 ?c = Inr overlap_operations"
    using load_same [of ?c example_params ?fs 3] r(2) overlap_load(1) by (simp add: example_params_def)
  have "replay_transaction example_params prompt 3 ?fs = (Inr True, snd ?run)"
  proof -
    have "overlap_operations \<noteq> []" by (simp add: overlap_operations_def)
    then show ?thesis using r(1) by (cases ?run) (simp add: replay_transaction_run [OF overlap_load])
  qed
  moreover have "fst (replay_transaction example_params prompt 3 ?c) = Inl WorkspaceUnavailableError"
    using r(3) unfolding replay_transaction_run [OF l overlap_load(2)]
    by (cases "run_all example_params prompt overlap_actions ?c") simp
  ultimately show ?thesis by (simp only: Let_def fst_conv snd_conv)
qed

end
