(* ===== verification/Scheduling.thy ===== *)
theory Scheduling
  imports Job_Definition State_Frame Markers "HOL-Library.Product_Lexorder"
begin

text \<open>
  Scheduling decisions (\<open>src/src/httk/workflow/_manager_scheduling.py\<close>): which ready jobs a
  manager may claim, in which order, what each reserves, and when the budget of a job is
  exhausted. Discovery and loading are given as lists of markers with what was loaded for
  them; the decisions are functions of these.
\<close>

section \<open>The manager's own configuration\<close>

text \<open>\<open>TaskManager\<close>: the members that decisions read.\<close>

record manager_config =
  mc_manager_id :: string
  mc_hostname :: string
  mc_pools :: "string list"
  mc_accept_any_pool :: bool
  mc_capabilities :: "string list"
  mc_resources :: requirement
  mc_maximum_workers :: int
  mc_allowed_executors :: "string list"
  mc_executors :: "string list"
  mc_lease_seconds :: rat
  mc_join_grace_seconds :: rat
  mc_cancel_grace_seconds :: rat
  mc_takeover_grace_factor :: rat
  mc_unsafe_persistent_takeover :: bool
  mc_unsafe_isolated_takeover :: bool

text \<open>\<open>_executor_for\<close>: whether the executor of a job is served here.\<close>

definition executor_served :: "manager_config \<Rightarrow> job_definition \<Rightarrow> bool" where
  "executor_served mc job \<longleftrightarrow>
     jd_runner_executor job \<in> set (mc_allowed_executors mc) \<and>
     jd_runner_executor job \<in> set (mc_executors mc)"

text \<open>\<open>RunningAttempt\<close>: one local attempt and what it reserves.\<close>

record running_attempt =
  ra_job_key :: string
  ra_attempt_id :: string
  ra_resources :: requirement
  ra_fenced :: bool
  ra_cancelling :: bool

text \<open>\<open>self._running[attempt_id] = ...\<close>\<close>

definition track :: "running_attempt \<Rightarrow> running_attempt list \<Rightarrow> running_attempt list" where
  "track a running =
     (if list_ex (\<lambda>b. ra_attempt_id b = ra_attempt_id a) running
      then map (\<lambda>b. if ra_attempt_id b = ra_attempt_id a then a else b) running
      else running @ [a])"

section \<open>Requirements\<close>

definition resource_share :: "requirement \<Rightarrow> int \<Rightarrow> string \<Rightarrow> requirement \<Rightarrow> requirement" where
  "resource_share capacity workers name requirement =
     (case map_of capacity name of
        None \<Rightarrow> requirement
      | Some c \<Rightarrow>
          if map_of requirement name \<noteq> None then requirement
          else
            let share = c div workers
            in dict_set name (if share = 0 \<and> c > 0 then c else share) requirement)"

definition effective_requirement ::
  "job_definition \<Rightarrow> frame \<Rightarrow> requirement \<Rightarrow> int \<Rightarrow> requirement res" where
  "effective_requirement job state capacity workers =
     bindr (frame_resources state) (\<lambda>dynamic.
       let requirement =
             (case dynamic of
                Some r \<Rightarrow> r
              | None \<Rightarrow>
                  (case frame_step state of
                     None \<Rightarrow> jd_resources job
                   | Some step \<Rightarrow>
                       (case map_of (jd_step_resources job) step of
                          Some r \<Rightarrow> r | None \<Rightarrow> jd_resources job)))
       in Inr (resource_share capacity workers ''mem''
                (resource_share capacity workers ''procs'' requirement)))"

definition unfits :: "requirement \<Rightarrow> requirement \<Rightarrow> string \<Rightarrow> bool" where
  "unfits requirement capacity name =
     (case (map_of capacity name, map_of requirement name) of
        (Some c, Some v) \<Rightarrow> c \<le> 0 \<or> v > c
      | _ \<Rightarrow> True)"

definition unfit_resource :: "requirement \<Rightarrow> requirement \<Rightarrow> string option" where
  "unfit_resource requirement capacity =
     List.find (unfits requirement capacity) (sort (map fst requirement))"

definition reserve :: "requirement \<Rightarrow> requirement \<Rightarrow> requirement" where
  "reserve available reserved =
     foldl (\<lambda>a (name, value).
       case map_of a name of None \<Rightarrow> a | Some c \<Rightarrow> dict_set name (max 0 (c - value)) a)
       available reserved"

definition available_resources :: "requirement \<Rightarrow> running_attempt list \<Rightarrow> requirement" where
  "available_resources capacity running = foldl (\<lambda>a attempt. reserve a (ra_resources attempt)) capacity running"

section \<open>Eligibility\<close>

text \<open>The tests of \<open>eligible_ready\<close> on one loaded job, with the requirement when all pass.\<close>

definition eligible_requirement :: "manager_config \<Rightarrow> job_definition \<Rightarrow> frame \<Rightarrow> requirement option" where
  "eligible_requirement mc job state =
     (if \<not> executor_served mc job then None
      else if \<not> mc_accept_any_pool mc \<and> jd_claim_pool job \<notin> set (mc_pools mc) then None
      else if \<not> set (jd_required_capabilities job) \<subseteq> set (mc_capabilities mc) then None
      else case effective_requirement job state (mc_resources mc) (mc_maximum_workers mc) of
        Inl _ \<Rightarrow> None
      | Inr requirement \<Rightarrow>
          (case unfit_resource requirement (mc_resources mc) of Some _ \<Rightarrow> None | None \<Rightarrow> Some requirement))"

type_synonym loaded = "(job_definition \<times> frame) option"

definition eligible_ready ::
  "manager_config \<Rightarrow> (marker \<times> loaded) list \<Rightarrow> (marker \<times> requirement) list" where
  "eligible_ready mc window =
     sort_key (\<lambda>(m, _). (priority m, as_posix (path m)))
       (List.map_filter (\<lambda>(m, l).
          case l of
            None \<Rightarrow> None
          | Some (job, state) \<Rightarrow> map_option (Pair m) (eligible_requirement mc job state)) window)"

section \<open>Budgets\<close>

datatype budget_failure = Attempts_per_activation_exceeded | Total_attempts_exceeded

definition attempt_budget_failure :: "job_definition \<Rightarrow> int \<Rightarrow> int \<Rightarrow> budget_failure option" where
  "attempt_budget_failure job attempt_ordinal total_attempts =
     (let p = jd_retry_policy job
      in if (case maximum_attempts_per_activation p of None \<Rightarrow> False | Some n \<Rightarrow> attempt_ordinal > n)
         then Some Attempts_per_activation_exceeded
         else if (case maximum_total_attempts p of None \<Rightarrow> False | Some n \<Rightarrow> total_attempts > n)
         then Some Total_attempts_exceeded
         else None)"

definition retry_budget_available :: "job_definition \<Rightarrow> frame \<Rightarrow> bool" where
  "retry_budget_available job state =
     (let attempts = (case frame_attempt_ordinal state of Some n \<Rightarrow> n | None \<Rightarrow> 1);
          total = (case frame_total_attempts state of Some n \<Rightarrow> n | None \<Rightarrow> attempts);
          p = jd_retry_policy job
      in if (case maximum_attempts_per_activation p of None \<Rightarrow> False | Some n \<Rightarrow> attempts \<ge> n) then False
         else case maximum_total_attempts p of None \<Rightarrow> True | Some n \<Rightarrow> total < n)"

section \<open>The claim loop\<close>

text \<open>Whether \<open>claim_pass\<close> stops before or within its loop.\<close>

definition workers_full :: "manager_config \<Rightarrow> running_attempt list \<Rightarrow> bool" where
  "workers_full mc running \<longleftrightarrow> int (length running) \<ge> mc_maximum_workers mc"

definition exhausted :: "manager_config \<Rightarrow> running_attempt list \<Rightarrow> bool" where
  "exhausted mc running \<longleftrightarrow>
     (let available = available_resources (mc_resources mc) running
      in list_ex (\<lambda>name. map_of (mc_resources mc) name \<noteq> None \<and> map_of available name = Some 0)
           [''procs'', ''mem''])"

definition exceeds_available :: "manager_config \<Rightarrow> running_attempt list \<Rightarrow> requirement \<Rightarrow> bool" where
  "exceeds_available mc running requirement =
     (let available = available_resources (mc_resources mc) running
      in list_ex (\<lambda>(name, value).
           value > (case map_of available name of None \<Rightarrow> 0 | Some a \<Rightarrow> a)) requirement)"

text \<open>
  The loop of \<open>claim_pass\<close> over the eligible jobs. \<open>claim\<close> is \<open>_claim_and_launch\<close>: its result,
  the attempts running afterwards and the rest of the state. A lost race continues without a
  change; a workflow or system error is reported and counts as one.
\<close>

fun claim_loop ::
  "manager_config \<Rightarrow> (marker \<Rightarrow> running_attempt list \<times> 's \<Rightarrow> bool res \<times> running_attempt list \<times> 's) \<Rightarrow>
     (marker \<times> requirement) list \<Rightarrow> bool \<Rightarrow> running_attempt list \<times> 's \<Rightarrow>
     bool res \<times> running_attempt list \<times> 's" where
  "claim_loop mc claim [] changed s = (Inr changed, s)"
| "claim_loop mc claim ((m, requirement) # rest) changed s =
     (if workers_full mc (fst s) then (Inr changed, s)
      else if exhausted mc (fst s) then (Inr changed, s)
      else if exceeds_available mc (fst s) requirement then claim_loop mc claim rest changed s
      else case claim m s of
        (Inr b, s') \<Rightarrow> claim_loop mc claim rest (changed \<or> b) s'
      | (Inl e, s') \<Rightarrow>
          if e = TransitionLostError then claim_loop mc claim rest changed s'
          else if caught e then claim_loop mc claim rest True s'
          else (Inl e, s'))"

definition claim_pass ::
  "manager_config \<Rightarrow> bool \<Rightarrow> bool \<Rightarrow>
     (marker \<Rightarrow> running_attempt list \<times> 's \<Rightarrow> bool res \<times> running_attempt list \<times> 's) \<Rightarrow>
     (marker \<times> requirement) list \<Rightarrow> bool \<Rightarrow> running_attempt list \<times> 's \<Rightarrow>
     bool res \<times> running_attempt list \<times> 's" where
  "claim_pass mc draining maintenance claim candidates changed s =
     (if draining \<or> maintenance \<or> workers_full mc (fst s) \<or> exhausted mc (fst s) then (Inr changed, s)
      else claim_loop mc claim candidates changed s)"

section \<open>The census\<close>

record census =
  ce_blocked_executor :: "string list"
  ce_blocked_pool :: "string list"
  ce_blocked_capability :: "string list"
  ce_blocked_resources :: "string list"

text \<open>
  \<open>_classify_pending\<close>: whether a submitted or ready job is actionable, and what it is blocked
  by otherwise. Loading the job and reading its frame are separate: the frame is read only
  when everything before passes. The counters are the lists of the names counted.
\<close>

definition classify_pending ::
  "manager_config \<Rightarrow> kind \<Rightarrow> job_definition option \<Rightarrow> frame option \<Rightarrow> census \<Rightarrow> bool \<times> census" where
  "classify_pending mc k job state blocked =
     (case job of
        None \<Rightarrow> (k = Submitted, blocked)
      | Some job \<Rightarrow>
          if \<not> executor_served mc job then
            (False, blocked\<lparr>ce_blocked_executor := jd_runner_executor job # ce_blocked_executor blocked\<rparr>)
          else if k = Submitted then (True, blocked)
          else if \<not> mc_accept_any_pool mc \<and> jd_claim_pool job \<notin> set (mc_pools mc) then
            (False, blocked\<lparr>ce_blocked_pool := jd_claim_pool job # ce_blocked_pool blocked\<rparr>)
          else
            let missing = filter (\<lambda>c. c \<notin> set (mc_capabilities mc)) (jd_required_capabilities job)
            in if missing \<noteq> [] then
                 (False, blocked\<lparr>ce_blocked_capability := hd (sort missing) # ce_blocked_capability blocked\<rparr>)
               else case state of
                 None \<Rightarrow> (False, blocked)
               | Some state \<Rightarrow>
                   (case effective_requirement job state (mc_resources mc) (mc_maximum_workers mc) of
                      Inl _ \<Rightarrow> (False, blocked)
                    | Inr requirement \<Rightarrow>
                        (case unfit_resource requirement (mc_resources mc) of
                           Some name \<Rightarrow>
                             (False, blocked\<lparr>ce_blocked_resources := name # ce_blocked_resources blocked\<rparr>)
                         | None \<Rightarrow> (True, blocked))))"

end
