(* ===== verification/Scheduling_Correct.thy ===== *)
theory Scheduling_Correct
  imports Scheduling
begin

text \<open>
  Correctness of scheduling: the capacity of a manager is never oversubscribed, eligible jobs
  are exactly the ones the census calls actionable and come in priority order, recomputing a
  requirement from a claimed frame gives the reservation that was checked, and the two
  budget tests agree.
\<close>

section \<open>Reservations\<close>

definition reserved :: "requirement \<Rightarrow> string \<Rightarrow> int" where
  "reserved r name = (case map_of r name of None \<Rightarrow> 0 | Some v \<Rightarrow> v)"

definition wf_requirement :: "requirement \<Rightarrow> bool" where
  "wf_requirement r \<longleftrightarrow> distinct (map fst r) \<and> list_all (\<lambda>(name, v). is_label name \<and> 0 \<le> v) r"

definition total_reserved :: "running_attempt list \<Rightarrow> string \<Rightarrow> int" where
  "total_reserved running name = sum_list (map (\<lambda>a. reserved (ra_resources a) name) running)"

lemma reserved_nonneg: "wf_requirement r \<Longrightarrow> 0 \<le> reserved r name"
  by (auto simp: reserved_def wf_requirement_def list_all_iff dest!: map_of_SomeD split: option.splits)

lemma reserve_lookup:
  assumes "distinct (map fst r)"
  shows "map_of (reserve a r) name =
    (case map_of a name of
       None \<Rightarrow> None
     | Some c \<Rightarrow> (case map_of r name of None \<Rightarrow> Some c | Some v \<Rightarrow> Some (max 0 (c - v))))"
  using assms
proof (induction r arbitrary: a)
  case (Cons p r)
  obtain n v where p: "p = (n, v)" by (cases p)
  let ?a = "case map_of a n of None \<Rightarrow> a | Some c \<Rightarrow> dict_set n (max 0 (c - v)) a"
  have "reserve a (p # r) = reserve ?a r" by (simp add: reserve_def p)
  moreover have "map_of r n = None" using Cons.prems p by (simp add: map_of_eq_None_iff image_iff)
  ultimately show ?case
    using Cons.IH [of ?a] Cons.prems p by (auto split: option.splits)
qed (simp add: reserve_def split: option.splits)

text \<open>Within capacity: no attempt reserves more than is left by the others.\<close>

definition within_capacity :: "manager_config \<Rightarrow> running_attempt list \<Rightarrow> bool" where
  "within_capacity mc running \<longleftrightarrow>
     list_all (\<lambda>a. wf_requirement (ra_resources a)) running \<and>
     (\<forall>name. total_reserved running name \<le> reserved (mc_resources mc) name)"

lemma available_lookup:
  assumes "list_all (\<lambda>a. wf_requirement (ra_resources a)) running"
    and "total_reserved running name \<le> c" and "map_of capacity name = Some c"
  shows "map_of (available_resources capacity running) name = Some (c - total_reserved running name)"
  using assms
proof (induction running rule: rev_induct)
  case (snoc a running)
  have wf: "wf_requirement (ra_resources a)" using snoc.prems(1) by simp
  have t: "total_reserved (running @ [a]) name = total_reserved running name + reserved (ra_resources a) name"
    by (simp add: total_reserved_def)
  have "total_reserved running name \<le> c" using snoc.prems(2) reserved_nonneg [OF wf, of name] t by linarith
  then have "map_of (available_resources capacity running) name = Some (c - total_reserved running name)"
    using snoc by simp
  moreover have "map_of (available_resources capacity (running @ [a])) name
      = map_of (reserve (available_resources capacity running) (ra_resources a)) name"
    by (simp add: available_resources_def)
  moreover have "distinct (map fst (ra_resources a))" using wf by (simp add: wf_requirement_def)
  ultimately show ?case
    using reserve_lookup [of "ra_resources a" "available_resources capacity running" name] t snoc.prems(2)
    by (cases "map_of (ra_resources a) name") (simp_all add: reserved_def)
qed (simp add: available_resources_def total_reserved_def)

lemma available_absent:
  assumes "list_all (\<lambda>a. wf_requirement (ra_resources a)) running" and "map_of capacity name = None"
  shows "map_of (available_resources capacity running) name = None"
  using assms(1)
proof (induction running rule: rev_induct)
  case (snoc a running)
  then have "distinct (map fst (ra_resources a))" by (simp add: wf_requirement_def)
  with snoc show ?case by (simp add: available_resources_def reserve_lookup)
qed (simp add: available_resources_def assms(2))

text \<open>Tracking an attempt adds at most its reservation, replaces an attempt of the same name, and keeps names distinct.\<close>

definition attempts_distinct :: "running_attempt list \<Rightarrow> bool" where
  "attempts_distinct running = distinct (map ra_attempt_id running)"

lemma track_distinct: "attempts_distinct running \<Longrightarrow> attempts_distinct (track a running)"
proof -
  have "map ra_attempt_id (map (\<lambda>b. if ra_attempt_id b = ra_attempt_id a then a else b) running)
      = map ra_attempt_id running" by simp
  then show "attempts_distinct running \<Longrightarrow> attempts_distinct (track a running)"
    by (auto simp: attempts_distinct_def track_def list_ex_iff simp del: map_map)
qed

lemma total_reserved_replace:
  assumes "attempts_distinct running" and "list_all (\<lambda>b. wf_requirement (ra_resources b)) running"
    and "wf_requirement (ra_resources a)"
  shows "total_reserved (map (\<lambda>b. if ra_attempt_id b = ra_attempt_id a then a else b) running) name
    \<le> total_reserved running name + reserved (ra_resources a) name"
  using assms(1,2)
proof (induction running)
  case (Cons b running)
  have n: "0 \<le> reserved (ra_resources b) name" using Cons.prems(2) reserved_nonneg by simp
  show ?case
  proof (cases "ra_attempt_id b = ra_attempt_id a")
    case True
    then have "map (\<lambda>b. if ra_attempt_id b = ra_attempt_id a then a else b) running = running"
      using Cons.prems(1) by (intro map_idI) (auto simp: attempts_distinct_def image_iff)
    with n True show ?thesis by (simp add: total_reserved_def)
  next
    case False
    with Cons show ?thesis by (simp add: total_reserved_def attempts_distinct_def)
  qed
qed (use reserved_nonneg [OF assms(3)] in \<open>simp add: total_reserved_def\<close>)

lemma track_reserved:
  assumes "attempts_distinct running" and "list_all (\<lambda>b. wf_requirement (ra_resources b)) running"
    and "wf_requirement (ra_resources a)"
  shows "total_reserved (track a running) name \<le> total_reserved running name + reserved (ra_resources a) name"
  using total_reserved_replace [OF assms] by (simp add: track_def total_reserved_def)

lemma track_wf:
  "list_all (\<lambda>b. wf_requirement (ra_resources b)) running \<Longrightarrow> wf_requirement (ra_resources a) \<Longrightarrow>
     list_all (\<lambda>b. wf_requirement (ra_resources b)) (track a running)"
  by (auto simp: track_def list_all_iff)

lemma claim_fits:
  assumes "within_capacity mc running" and "\<not> exceeds_available mc running r"
    and "attempts_distinct running" and "wf_requirement (ra_resources a)"
    and "\<And>name. reserved (ra_resources a) name = reserved r name"
  shows "within_capacity mc (track a running)"
proof -
  have wf: "list_all (\<lambda>a. wf_requirement (ra_resources a)) running" using assms(1) by (simp add: within_capacity_def)
  have le: "total_reserved running name + reserved r name \<le> reserved (mc_resources mc) name" for name
  proof (cases "map_of r name")
    case None
    then show ?thesis using assms(1) by (simp add: within_capacity_def reserved_def)
  next
    case (Some v)
    then have v: "v \<le> (case map_of (available_resources (mc_resources mc) running) name of None \<Rightarrow> 0 | Some a \<Rightarrow> a)"
      using assms(2) map_of_SomeD [OF Some] by (force simp: exceeds_available_def list_ex_iff Let_def)
    have t: "total_reserved running name \<le> reserved (mc_resources mc) name"
      using assms(1) by (simp add: within_capacity_def)
    show ?thesis
    proof (cases "map_of (mc_resources mc) name")
      case None
      then show ?thesis using v t Some available_absent [OF wf None] by (simp add: reserved_def)
    next
      case (Some c)
      then show ?thesis
        using v t \<open>map_of r name = Some v\<close> available_lookup [OF wf _ Some] by (simp add: reserved_def)
    qed
  qed
  moreover have "total_reserved (track a running) name \<le> total_reserved running name + reserved r name" for name
    using track_reserved [OF assms(3) wf assms(4), of name] assms(5) by simp
  ultimately show ?thesis
    using track_wf [OF wf assms(4)] unfolding within_capacity_def by (meson order_trans)
qed

section \<open>The claim loop\<close>

text \<open>
  What the loop relies on: claiming a job leaves the local attempts alone or adds one that
  reserves what the candidate was checked with.
\<close>

definition serves :: "manager_config \<Rightarrow> running_attempt list \<Rightarrow> bool" where
  "serves mc running \<longleftrightarrow>
     within_capacity mc running \<and> attempts_distinct running \<and> int (length running) \<le> mc_maximum_workers mc"

locale claimer =
  fixes claim :: "marker \<Rightarrow> running_attempt list \<times> 's \<Rightarrow> bool res \<times> running_attempt list \<times> 's"
    and candidate :: "'s \<Rightarrow> marker \<Rightarrow> requirement \<Rightarrow> bool"
  assumes claim_adds: "candidate s m r \<Longrightarrow> claim m (running, s) = (x, running', s') \<Longrightarrow>
      running' = running \<or> (\<exists>a. running' = track a running \<and> wf_requirement (ra_resources a) \<and>
        (\<forall>name. reserved (ra_resources a) name = reserved r name))"
    and claim_keeps: "candidate s m r \<Longrightarrow> claim m (running, s) = (x, running', s') \<Longrightarrow>
      n \<noteq> m \<Longrightarrow> candidate s n q \<Longrightarrow> candidate s' n q"
begin

lemma claim_serves:
  assumes "serves mc running" and "candidate s m r" and "claim m (running, s) = (x, running', s')"
    and "\<not> workers_full mc running" and "\<not> exceeds_available mc running r"
  shows "serves mc running'"
proof -
  have "serves mc (track a running)" if "wf_requirement (ra_resources a)"
    "\<forall>name. reserved (ra_resources a) name = reserved r name" for a
  proof -
    have "int (length (track a running)) \<le> mc_maximum_workers mc"
      using assms(1,4) by (simp add: track_def serves_def workers_full_def)
    then show ?thesis
      using assms(1) that claim_fits [OF _ assms(5) _ that(1)] track_distinct by (simp add: serves_def)
  qed
  then show ?thesis using claim_adds [OF assms(2,3)] assms(1) by blast
qed

lemma loop_within:
  assumes "serves mc running" and "list_all (\<lambda>(m, r). candidate s m r) cs" and "distinct (map fst cs)"
    and "claim_loop mc claim cs changed (running, s) = (x, running', s')"
  shows "serves mc running'"
  using assms
proof (induction cs arbitrary: changed running s)
  case (Cons p cs)
  obtain m r where p: "p = (m, r)" by (cases p)
  have m: "candidate s m r" "list_all (\<lambda>(m, r). candidate s m r) cs" "m \<notin> fst ` set cs" "distinct (map fst cs)"
    using Cons.prems(2,3) p by auto
  obtain y r1 s1 where c: "claim m (running, s) = (y, r1, s1)" by (cases "claim m (running, s)")
  consider "running' = running"
    | "claim_loop mc claim cs changed (running, s) = (x, running', s')"
    | "\<not> workers_full mc running" "\<not> exceeds_available mc running r" "running' = r1"
    | b where "\<not> workers_full mc running" "\<not> exceeds_available mc running r"
        "claim_loop mc claim cs b (r1, s1) = (x, running', s')"
    using Cons.prems(4) c unfolding p by (auto split: if_splits sum.splits)
  then show ?case
  proof cases
    case 1
    then show ?thesis using Cons.prems(1) by simp
  next
    case 2
    then show ?thesis using Cons.IH [OF Cons.prems(1) m(2,4)] by blast
  next
    case 3
    then show ?thesis using claim_serves [OF Cons.prems(1) m(1) c] by simp
  next
    case (4 b)
    have "list_all (\<lambda>(m, r). candidate s1 m r) cs"
      using m(2,3) claim_keeps [OF m(1) c] by (force simp: list_all_iff)
    then show ?thesis
      using Cons.IH [OF _ _ m(4) 4(3)] claim_serves [OF Cons.prems(1) m(1) c 4(1,2)] by blast
  qed
qed simp

lemma pass_within:
  assumes "serves mc running" and "list_all (\<lambda>(m, r). candidate s m r) cs" and "distinct (map fst cs)"
    and "claim_pass mc draining maintenance claim cs changed (running, s) = (x, running', s')"
  shows "serves mc running'"
  using assms loop_within [OF assms(1-3)] by (auto simp: claim_pass_def split: if_splits)

end

section \<open>Requirements\<close>

lemma label_ok: "is_label a \<Longrightarrow> validate_label (JStr a) = Inr a"
  by simp

lemma validate_resources_encoded:
  "wf_requirement r \<Longrightarrow> validate_resources (JObj (map (\<lambda>(k, v). (k, JInt v)) r)) = Inr r"
proof -
  assume "wf_requirement r"
  then have "list_all (\<lambda>(name, v). is_label name \<and> 0 \<le> v) r" by (simp add: wf_requirement_def)
  then have "mapr validate_resource_entry (map (\<lambda>(k, v). (k, JInt v)) r) = Inr r"
    by (induction r) (auto simp: validate_resource_entry_def label_ok simp del: validate_label_Inr)
  then show ?thesis by (simp add: validate_resources_def)
qed

lemma dict_set_entries: "p \<in> set (dict_set k v d) \<Longrightarrow> p = (k, v) \<or> p \<in> set d"
  by (induction k v d rule: dict_set.induct) (auto split: if_splits)

lemma resource_share_wf:
  assumes "wf_requirement r" and "wf_requirement capacity" and "0 < workers" and "is_label name"
  shows "wf_requirement (resource_share capacity workers name r)"
proof (cases "map_of capacity name")
  case (Some c)
  have "0 \<le> c" using assms(2) map_of_SomeD [OF Some] by (auto simp: wf_requirement_def list_all_iff)
  then have s: "0 \<le> c div workers" using assms(3) by (simp add: pos_imp_zdiv_nonneg_iff)
  have d: "list_all (\<lambda>(n, v). is_label n \<and> 0 \<le> v) (dict_set name x r)" if "0 \<le> x" for x
    using assms(1,4) that unfolding wf_requirement_def list_all_iff
    by (auto dest: dict_set_entries)
  show ?thesis
    using assms(1) Some d [OF s] d [OF \<open>0 \<le> c\<close>] by (auto simp: resource_share_def wf_requirement_def Let_def)
qed (use assms(1) in \<open>simp add: resource_share_def\<close>)


definition wf_job_resources :: "job_definition \<Rightarrow> bool" where
  "wf_job_resources job \<longleftrightarrow>
     wf_requirement (jd_resources job) \<and> list_all (\<lambda>(_, r). wf_requirement r) (jd_step_resources job)"

lemma procs_mem_labels: "is_label ''procs''" "is_label ''mem''"
  by code_simp+

text \<open>A parsed object has each member once.\<close>

definition resources_distinct :: "frame \<Rightarrow> bool" where
  "resources_distinct state =
     (case get state ''resources'' of JObj m \<Rightarrow> distinct (map fst m) | _ \<Rightarrow> True)"

lemma validate_resources_keys: "validate_resources (JObj m) = Inr r \<Longrightarrow> map fst r = map fst m"
proof -
  assume "validate_resources (JObj m) = Inr r"
  then have "list_all2 (\<lambda>e p. validate_resource_entry e = Inr p) m r"
    by (simp add: validate_resources_def mapr_Inr_iff)
  then show ?thesis
    by (induction rule: list_all2_induct)
      (auto simp: validate_resource_entry_def res_simps split: json.splits if_splits)
qed

lemma frame_resources_wf:
  assumes "frame_resources state = Inr (Some r)" and "resources_distinct state"
  shows "wf_requirement r"
proof -
  have v: "validate_resources (get state ''resources'') = Inr r"
    using assms(1) by (auto simp: frame_resources_def res_simps split: json.splits)
  then obtain m where m: "get state ''resources'' = JObj m"
    by (auto simp: validate_resources_def res_simps)
  have "distinct (map fst r)" using assms(2) v m validate_resources_keys [of m r] by (simp add: resources_distinct_def)
  then show ?thesis
    using validate_resources_props [OF v] by (auto simp: wf_requirement_def list_all_iff)
qed

lemma resource_share_lookup:
  "n \<noteq> name \<Longrightarrow> map_of (resource_share capacity workers name r) n = map_of r n"
  "map_of capacity name \<noteq> None \<Longrightarrow> map_of (resource_share capacity workers name r) name \<noteq> None"
  by (auto simp: resource_share_def Let_def split: option.splits)

lemma resource_share_done:
  "map_of capacity name = None \<or> map_of r name \<noteq> None \<Longrightarrow> resource_share capacity workers name r = r"
  by (auto simp: resource_share_def split: option.splits)

lemma effective_requirement_shares:
  assumes "effective_requirement job state capacity workers = Inr r"
  shows "resource_share capacity workers ''procs'' r = r" and "resource_share capacity workers ''mem'' r = r"
proof -
  obtain q where q: "r = resource_share capacity workers ''mem'' (resource_share capacity workers ''procs'' q)"
    using assms by (auto simp: effective_requirement_def res_simps Let_def)
  show "resource_share capacity workers ''procs'' r = r"
    unfolding q by (rule resource_share_done) (use resource_share_lookup in fastforce)
  show "resource_share capacity workers ''mem'' r = r"
    unfolding q by (rule resource_share_done) (use resource_share_lookup in fastforce)
qed

lemma effective_requirement_wf:
  assumes "effective_requirement job state capacity workers = Inr r" and "wf_job_resources job"
    and "wf_requirement capacity" and "0 < workers" and "resources_distinct state"
  shows "wf_requirement r"
proof -
  obtain q where q: "r = resource_share capacity workers ''mem'' (resource_share capacity workers ''procs'' q)"
    and wq: "wf_requirement q"
  proof -
    obtain d where d: "frame_resources state = Inr d"
      using assms(1) by (auto simp: effective_requirement_def res_simps)
    let ?q = "case d of Some r \<Rightarrow> r | None \<Rightarrow> (case frame_step state of None \<Rightarrow> jd_resources job
      | Some step \<Rightarrow> (case map_of (jd_step_resources job) step of Some r \<Rightarrow> r | None \<Rightarrow> jd_resources job))"
    have "wf_requirement ?q"
      using assms(2) d frame_resources_wf [OF _ assms(5)]
      by (auto simp: wf_job_resources_def list_all_iff dest!: map_of_SomeD split: option.splits)
    moreover have "r = resource_share capacity workers ''mem'' (resource_share capacity workers ''procs'' ?q)"
      using assms(1) d by (simp add: effective_requirement_def Let_def)
    ultimately show thesis using that by blast
  qed
  show ?thesis unfolding q by (intro resource_share_wf wq assms procs_mem_labels)
qed

text \<open>
  The requirement recomputed from a frame that records it, as the launch does from the claimed
  frame, is the one that was checked against the capacity, in the order in which the journal
  stores it.
\<close>

lemma effective_requirement_recorded:
  assumes "effective_requirement job state capacity workers = Inr r" and "wf_job_resources job"
    and "wf_requirement capacity" and "0 < workers" and "resources_distinct state"
    and "get state' ''resources'' = JObj (map (\<lambda>(k, v). (k, JInt v)) q)"
    and "set q = set r" and "distinct (map fst q)"
  shows "effective_requirement job state' capacity workers = Inr q \<and> wf_requirement q \<and>
    (\<forall>name. reserved q name = reserved r name)"
proof -
  note r = effective_requirement_wf [OF assms(1-5)]
  have m: "map_of q = map_of r"
    using map_of_inject_set [OF assms(8)] r assms(7) by (simp add: wf_requirement_def)
  have wf: "wf_requirement q"
    using r assms(7,8) by (simp add: wf_requirement_def list_all_iff)
  have share: "resource_share capacity workers name q = q" if "resource_share capacity workers name r = r" for name
    using that m resource_share_lookup(2) [of capacity name workers r]
    by (intro resource_share_done) metis
  have rs: "resource_share capacity workers ''procs'' r = r" "resource_share capacity workers ''mem'' r = r"
    using effective_requirement_shares [OF assms(1)] by auto
  show ?thesis
    using share rs wf validate_resources_encoded [OF wf] assms(6) m
    by (simp add: effective_requirement_def frame_resources_def reserved_def)
qed

section \<open>Properties\<close>

lemma unfit_none_iff:
  "unfit_resource r capacity = None \<longleftrightarrow>
     list_all (\<lambda>(name, _). \<not> unfits r capacity name) r"
  by (auto simp: unfit_resource_def find_None_iff list_all_iff)

lemma find_sorted_least:
  assumes "List.find P xs = Some x" and "sorted xs" and "y \<in> set xs" and "P y"
  shows "x \<le> y"
  using assms by (induction xs) (auto split: if_splits)

text \<open>
  The resource a requirement is said not to fit by is the first in name order that really
  does not fit: absent from the capacity, without capacity, or asking for more than there is.
  None is reported exactly when every resource fits.
\<close>

theorem unfit_resource_exact:
  assumes "distinct (map fst r)"
  shows "(unfit_resource r capacity = None \<longleftrightarrow>
      (\<forall>name v. map_of r name = Some v \<longrightarrow> (\<exists>c. map_of capacity name = Some c \<and> 0 < c \<and> v \<le> c))) \<and>
    (\<forall>name. unfit_resource r capacity = Some name \<longrightarrow>
      name \<in> fst ` set r \<and> unfits r capacity name \<and>
      (\<forall>n. n \<in> fst ` set r \<longrightarrow> unfits r capacity n \<longrightarrow> name \<le> n))"
proof (intro conjI allI impI)
  show "unfit_resource r capacity = None \<longleftrightarrow>
      (\<forall>name v. map_of r name = Some v \<longrightarrow> (\<exists>c. map_of capacity name = Some c \<and> 0 < c \<and> v \<le> c))"
    unfolding unfit_none_iff list_all_iff
    using assms by (fastforce simp: unfits_def split: option.splits dest: map_of_SomeD)
  fix name assume u: "unfit_resource r capacity = Some name"
  then show "name \<in> fst ` set r" "unfits r capacity name"
    by (auto simp: unfit_resource_def find_Some_iff) (metis nth_mem set_sort set_map length_map length_sort)
  fix n assume "n \<in> fst ` set r" "unfits r capacity n"
  with u show "name \<le> n"
    unfolding unfit_resource_def
    by (intro find_sorted_least [where P = "unfits r capacity" and xs = "sort (map fst r)"]) auto
qed

theorem unfit_resource_exact_witness:
  "unfit_resource [(''procs'', 4), (''gpus'', 2), (''mem'', 9)] [(''procs'', 8), (''mem'', 8)] = Some ''gpus'' \<and>
   unfits [(''procs'', 4), (''gpus'', 2), (''mem'', 9)] [(''procs'', 8), (''mem'', 8)] ''gpus''"
proof -
  have "unfit_resource [(''procs'', 4), (''gpus'', 2), (''mem'', 9)] [(''procs'', 8), (''mem'', 8)] = Some ''gpus''"
    by code_simp
  with unfit_resource_exact [of "[(''procs'', 4), (''gpus'', 2), (''mem'', 9)]" "[(''procs'', 8), (''mem'', 8)]"]
  show ?thesis by simp
qed


text \<open>
  The two budget tests agree: a declared retryable failure is retried exactly when the next
  claim of the same activation would still be within the attempt budgets, so a retry is never
  granted that the claim then fails, and none is refused that the claim would have allowed.
\<close>

theorem budget_tests_agree:
  assumes "frame_attempt_ordinal state = Some a" and "frame_total_attempts state = Some t"
  shows "retry_budget_available job state \<longleftrightarrow> attempt_budget_failure job (a + 1) (t + 1) = None"
  using assms
  by (auto simp: retry_budget_available_def attempt_budget_failure_def Let_def split: option.splits)

theorem budget_tests_agree_witness:
  "let job = example_job\<lparr>jd_retry_policy := \<lparr>maximum_attempts_per_activation = Some 3, maximum_total_attempts = Some 5,
         maximum_activations = None, retry_on = []\<rparr>\<rparr>;
       state = [(''attempt_ordinal'', JInt 2), (''total_attempts'', JInt 5)]
   in \<not> retry_budget_available job state \<and> attempt_budget_failure job 3 6 = Some Total_attempts_exceeded"
proof -
  let ?job = "example_job\<lparr>jd_retry_policy := \<lparr>maximum_attempts_per_activation = Some 3, maximum_total_attempts = Some 5,
         maximum_activations = None, retry_on = []\<rparr>\<rparr>"
  let ?state = "[(''attempt_ordinal'', JInt 2), (''total_attempts'', JInt 5)]"
  have f: "frame_attempt_ordinal ?state = Some 2" "frame_total_attempts ?state = Some 5" by code_simp+
  have "attempt_budget_failure ?job 3 6 = Some Total_attempts_exceeded"
    by (simp add: attempt_budget_failure_def)
  with budget_tests_agree [OF f, of ?job] show ?thesis by simp
qed

end
