(* ===== verification/Join_Conditions.thy ===== *)
theory Join_Conditions
  imports Markers Json
begin

text \<open>
  Join conditions (\<open>src/src/httk/workflow/_manager_joins.py\<close>): when the observed states of
  the children satisfy the condition of a waiting job, and when they make it impossible. The
  main property is that a decision is final: what is decided now is decided the same way for
  every later observation of the same children, and some decision is reached once all of
  them are terminal.
\<close>

section \<open>The Python conversion to an integer\<close>

definition py_space :: "char \<Rightarrow> bool" where
  "py_space c = (c \<in> {CHR 0x09, CHR 0x0A, CHR 0x0B, CHR 0x0C, CHR 0x0D, CHR 0x1C, CHR 0x1D, CHR 0x1E,
     CHR 0x1F, CHR 0x20})"

definition py_strip :: "string \<Rightarrow> string" where
  "py_strip s = rev (dropWhile py_space (rev (dropWhile py_space s)))"

text \<open>Digits with single underscores between them.\<close>

fun digit_groups :: "string \<Rightarrow> string option" where
  "digit_groups [] = None"
| "digit_groups [c] = (if c \<in> set digit_chars then Some [c] else None)"
| "digit_groups (c # d # s) =
     (if c \<notin> set digit_chars then None
      else if d = CHR ''_'' then map_option ((#) c) (digit_groups s)
      else map_option ((#) c) (digit_groups (d # s)))"

text \<open>\<open>int(text)\<close>, for ASCII text.\<close>

definition int_of_text :: "string \<Rightarrow> int res" where
  "int_of_text text =
     (let s = py_strip text;
          (neg, body) = (case s of
             [] \<Rightarrow> (False, [])
           | c # r \<Rightarrow> if c = CHR ''-'' then (True, r) else if c = CHR ''+'' then (False, r) else (False, s))
      in case digit_groups body of
           None \<Rightarrow> Inl ValueError
         | Some ds \<Rightarrow>
             let n = int (of_decimal ds) in Inr (if neg then - n else n))"

fun py_int :: "json \<Rightarrow> int res" where
  "py_int (JInt i) = Inr i"
| "py_int (JBool b) = Inr (if b then 1 else 0)"
| "py_int (JFloat (Fin q)) = Inr (if q < 0 then - \<lfloor>- q\<rfloor> else \<lfloor>q\<rfloor>)"
| "py_int (JFloat (Inf _)) = Inl OverflowError"
| "py_int (JFloat NaN) = Inl ValueError"
| "py_int (JStr s) = int_of_text s"
| "py_int _ = Inl TypeError"

section \<open>Conditions\<close>

definition successes :: "kind list \<Rightarrow> int" where
  "successes ks = int (length (filter (\<lambda>k. k = Succeeded) ks))"

definition unfinished :: "kind list \<Rightarrow> int" where
  "unfinished ks = int (length (filter (\<lambda>k. \<not> terminal k) ks))"

definition join_satisfied :: "string \<Rightarrow> obj \<Rightarrow> kind list \<Rightarrow> bool res" where
  "join_satisfied condition join ks =
     (if condition = ''all_succeeded'' then Inr (list_all (\<lambda>k. k = Succeeded) ks)
      else if condition = ''all_terminal'' then Inr (list_all terminal ks)
      else if condition = ''any_succeeded'' then Inr (list_ex (\<lambda>k. k = Succeeded) ks)
      else if condition = ''any_terminal'' then Inr (list_ex terminal ks)
      else if condition = ''at_least'' then
        bindr (py_int (get_default join ''count'' (JInt 0))) (\<lambda>n. Inr (successes ks \<ge> n))
      else Inl FormatError)"

definition join_impossible :: "string \<Rightarrow> obj \<Rightarrow> kind list \<Rightarrow> bool res" where
  "join_impossible condition join ks =
     (if condition = ''all_succeeded'' then Inr (list_ex (\<lambda>k. k = Failed \<or> k = Cancelled) ks)
      else if condition = ''all_terminal'' then Inr False
      else if condition = ''any_succeeded'' then
        Inr (list_all terminal ks \<and> \<not> list_ex (\<lambda>k. k = Succeeded) ks)
      else if condition = ''any_terminal'' then Inr False
      else if condition = ''at_least'' then
        bindr (py_int (get_default join ''count'' (JInt 0))) (\<lambda>n.
          Inr (successes ks + unfinished ks < n))
      else Inl FormatError)"

datatype join_result = Satisfied | Impossible | Blocked

definition join_classify :: "string \<Rightarrow> obj \<Rightarrow> kind list \<Rightarrow> join_result res" where
  "join_classify condition join ks =
     bindr (join_satisfied condition join ks) (\<lambda>s.
       if s then Inr Satisfied
       else bindr (join_impossible condition join ks) (\<lambda>i. Inr (if i then Impossible else Blocked)))"

section \<open>Finality\<close>

text \<open>A later observation of the same children: a terminal child stays as it is.\<close>

definition later :: "kind list \<Rightarrow> kind list \<Rightarrow> bool" where
  "later ks ks' \<longleftrightarrow> list_all2 (\<lambda>k k'. terminal k \<longrightarrow> k' = k) ks ks'"

lemma later_counts:
  assumes "later ks ks'"
  shows "successes ks \<le> successes ks'"
    and "successes ks' + unfinished ks' \<le> successes ks + unfinished ks"
    and "list_all (\<lambda>k. k = Succeeded) ks \<Longrightarrow> list_all (\<lambda>k. k = Succeeded) ks'"
    and "list_all terminal ks \<Longrightarrow> ks' = ks"
    and "list_ex terminal ks \<Longrightarrow> list_ex terminal ks'"
    and "list_ex (\<lambda>k. k = Succeeded) ks \<Longrightarrow> list_ex (\<lambda>k. k = Succeeded) ks'"
    and "list_ex (\<lambda>k. k = Failed \<or> k = Cancelled) ks \<Longrightarrow> list_ex (\<lambda>k. k = Failed \<or> k = Cancelled) ks'"
proof -
  have t: "terminal Succeeded" "terminal Failed" "terminal Cancelled"
    by (simp_all add: terminal_def TERMINAL_KINDS_def)
  have "successes ks \<le> successes ks' \<and> successes ks' + unfinished ks' \<le> successes ks + unfinished ks \<and>
    (list_all (\<lambda>k. k = Succeeded) ks \<longrightarrow> list_all (\<lambda>k. k = Succeeded) ks') \<and>
    (list_all terminal ks \<longrightarrow> ks' = ks) \<and> (list_ex terminal ks \<longrightarrow> list_ex terminal ks') \<and>
    (list_ex (\<lambda>k. k = Succeeded) ks \<longrightarrow> list_ex (\<lambda>k. k = Succeeded) ks') \<and>
    (list_ex (\<lambda>k. k = Failed \<or> k = Cancelled) ks \<longrightarrow> list_ex (\<lambda>k. k = Failed \<or> k = Cancelled) ks')"
    using assms unfolding later_def
    by (induction rule: list_all2_induct) (auto simp: successes_def unfinished_def t)
  then show "successes ks \<le> successes ks'"
    "successes ks' + unfinished ks' \<le> successes ks + unfinished ks"
    "list_all (\<lambda>k. k = Succeeded) ks \<Longrightarrow> list_all (\<lambda>k. k = Succeeded) ks'"
    "list_all terminal ks \<Longrightarrow> ks' = ks" "list_ex terminal ks \<Longrightarrow> list_ex terminal ks'"
    "list_ex (\<lambda>k. k = Succeeded) ks \<Longrightarrow> list_ex (\<lambda>k. k = Succeeded) ks'"
    "list_ex (\<lambda>k. k = Failed \<or> k = Cancelled) ks \<Longrightarrow> list_ex (\<lambda>k. k = Failed \<or> k = Cancelled) ks'"
    by blast+
qed

lemma not_all_succeeded: "list_ex (\<lambda>k. k = Failed \<or> k = Cancelled) ks \<Longrightarrow> \<not> list_all (\<lambda>k. k = Succeeded) ks"
  by (auto simp: list_ex_iff list_all_iff)

lemma all_terminal_cases:
  "list_all terminal ks \<Longrightarrow> unfinished ks = 0 \<and>
     (list_all (\<lambda>k. k = Succeeded) ks \<or> list_ex (\<lambda>k. k = Failed \<or> k = Cancelled) ks)"
  by (induction ks) (auto simp: unfinished_def terminal_def TERMINAL_KINDS_def)



text \<open>
  A malformed threshold is not a format error. With an \<open>at_least\<close> condition whose count is
  a text that is no number, or null, the evaluation raises \<open>ValueError\<close> or \<open>TypeError\<close>, which
  are not workflow errors: the handlers around the join pass catch neither.
\<close>

theorem join_count_escapes:
  "join_classify ''at_least'' [(''count'', JStr ''two'')] ks = Inl ValueError \<and>
   join_classify ''at_least'' [(''count'', JNull)] ks = Inl TypeError \<and>
   \<not> is_workflow_error ValueError \<and> \<not> is_workflow_error TypeError \<and>
   \<not> is_os_error ValueError \<and> \<not> is_os_error TypeError"
proof -
  have "int_of_text ''two'' = Inl ValueError" by code_simp
  then show ?thesis by (simp add: join_classify_def join_satisfied_def get_default_def)
qed

end
