(* ===== verification/Manager_Core.thy ===== *)
theory Manager_Core
  imports Workspace_State Scheduling Join_Conditions
begin

text \<open>
  The task manager (\<open>TaskManager\<close> of \<open>src/src/httk/workflow/manager.py\<close>): the operations all
  passes share. A manager keeps its local attempts, its journal writer and the workspace; an
  operation takes this state to a result or exception and the state after it. What an
  operation observes of the outside (the clock and how it reads timestamps, fresh identifiers, what the file server does
  with renames, the texts of exceptions) is given as a record. Logging and the derived views
  of executors have no effect on the state.
\<close>

section \<open>State, observations and exceptions\<close>

type_synonym mstate = "running_attempt list \<times> journal_writer \<times> workspace"

type_synonym ('s, 'a) prog = "'s \<Rightarrow> 'a res \<times> 's"

type_synonym 'a act = "(mstate, 'a) prog"

record world =
  wo_now :: string
  wo_time :: rat
  wo_timestamp :: "string \<Rightarrow> rat res"
  wo_uuid :: "nat \<Rightarrow> string"
  wo_rename :: "marker \<Rightarrow> kind \<Rightarrow> rename_env"
  wo_text :: "error \<Rightarrow> string"

definition ret :: "'a \<Rightarrow> ('s, 'a) prog" where
  "ret x s = (Inr x, s)"

definition lift :: "'a res \<Rightarrow> ('s, 'a) prog" where
  "lift r s = (r, s)"

definition andthen :: "('s, 'a) prog \<Rightarrow> ('a \<Rightarrow> ('s, 'b) prog) \<Rightarrow> ('s, 'b) prog" where
  "andthen m k s = (case m s of (Inl e, s') \<Rightarrow> (Inl e, s') | (Inr x, s') \<Rightarrow> k x s')"

definition except :: "('s, 'a) prog \<Rightarrow> (error \<Rightarrow> ('s, 'a) prog) \<Rightarrow> ('s, 'a) prog" where
  "except m h s = (case m s of (Inl e, s') \<Rightarrow> h e s' | (Inr x, s') \<Rightarrow> (Inr x, s'))"

definition read_frame_act :: "marker \<Rightarrow> frame act" where
  "read_frame_act m s = (read_state (snd (snd s)) m, s)"

definition load_job_act :: "marker \<Rightarrow> job_definition act" where
  "load_job_act m s = (load_job (snd (snd s)) m, s)"

text \<open>\<open>_load_job_and_state\<close>: damage is reported and the job skipped.\<close>

definition load_job_and_state :: "marker \<Rightarrow> loaded act" where
  "load_job_and_state m =
     except (andthen (load_job_act m) (\<lambda>job. andthen (read_frame_act m) (\<lambda>state. ret (Some (job, state)))))
       (\<lambda>e. if caught e then ret None else lift (Inl e))"

text \<open>\<open>state.attempt_id or ""\<close>, and forgetting or looking up a local attempt.\<close>

definition attempt_of :: "frame \<Rightarrow> string" where
  "attempt_of state = (case frame_attempt_id state of Some i \<Rightarrow> i | None \<Rightarrow> [])"

definition drop_attempt :: "string \<Rightarrow> unit act" where
  "drop_attempt i = (\<lambda>(running, st). (Inr (), filter (\<lambda>a. ra_attempt_id a \<noteq> i) running, st))"

definition tracked :: "running_attempt list \<Rightarrow> string \<Rightarrow> bool" where
  "tracked running i = list_ex (\<lambda>a. ra_attempt_id a = i) running"

section \<open>Transitions and deferred pauses\<close>

definition pause_members :: "obj \<Rightarrow> obj" where
  "pause_members p =
     [(''operator'', get p ''operator''), (''operator_reason'', get p ''reason''),
      (''request_id'', get p ''request_id''), (''reason'', JStr ''operator_pause_deferred'')]"

text \<open>
  The first part of \<open>_transition\<close>: a pause that was requested while an attempt was in flight
  turns the next \<open>ready\<close> or \<open>waiting\<close> into \<open>paused\<close>, and no frame outside an attempt keeps the
  request. \<open>current\<close> is the frame of the marker when it was read.
\<close>

definition resolve_pause ::
  "kind \<Rightarrow> kind \<Rightarrow> frame \<Rightarrow> frame option \<Rightarrow> (kind \<times> frame) res" where
  "resolve_pause from k updates current =
     (let own = has_key updates ''pause_requested'';
          source = (if k \<in> {Ready, Waiting, Paused} \<and> \<not> own
                    then (case current of Some c \<Rightarrow> c | None \<Rightarrow> updates) else updates);
          present = has_key source ''pause_requested'';
          requested = frame_pause_requested source;
          retained = dict_del ''pause_requested'' updates
      in if k \<in> {Ready, Waiting} \<and> present then
           (case requested of
              Some p \<Rightarrow>
                if from = Committing \<and> \<not> has_key retained ''process'' then Inl FormatError
                else Inr (Paused, replace retained (pause_members p))
            | None \<Rightarrow> Inr (k, retained))
         else if k = Paused \<and> present then
           Inr (Paused, case requested of Some p \<Rightarrow> replace retained (pause_members p) | None \<Rightarrow> retained)
         else if (terminal k \<or> k = Cancelling) \<and> own then Inr (k, retained)
         else Inr (k, updates))"

definition manager_transition ::
  "world \<Rightarrow> marker \<Rightarrow> kind \<Rightarrow> frame \<Rightarrow> int option \<Rightarrow> marker act" where
  "manager_transition wo m k updates prio s =
     (case s of (running, w, ws) \<Rightarrow>
        let current = (if k \<in> {Ready, Waiting, Paused} \<and> \<not> has_key updates ''pause_requested''
                       then (case read_state ws m of
                               Inr f \<Rightarrow> Inr (Some f)
                             | Inl e \<Rightarrow> if caught e then Inr None else Inl e)
                       else Inr None)
        in case bindr current (resolve_pause (kind m) k updates) of
             Inl e \<Rightarrow> (Inl e, s)
           | Inr (k', u) \<Rightarrow>
               (case transition (wo_rename wo m k') (wo_now wo) m k' u prio False w ws of
                  (r, w', ws') \<Rightarrow> (r, running, w', ws')))"

section \<open>Failures, retries and new activations\<close>

definition manager_failure :: "string \<Rightarrow> string \<Rightarrow> int option \<Rightarrow> json" where
  "manager_failure c msg status =
     JObj (failure_as_mapping \<lparr>code = c, message = msg,
       details = Some ([(''log_paths'', JArr [JStr ''logs/stdio.out''])] @
         (case status of None \<Rightarrow> [] | Some n \<Rightarrow> [(''exit_status'', JInt n)])),
       retryable = False\<rparr>)"

definition retain_deferred_pause_process :: "frame \<Rightarrow> frame \<Rightarrow> frame res" where
  "retain_deferred_pause_process state progress =
     (if frame_pause_requested state = None then Inr progress
      else if \<not> has_key state ''process'' then Inl FormatError
      else Inr (replace progress [(''process'', get state ''process'')]))"

definition or_default :: "int option \<Rightarrow> int \<Rightarrow> int" where
  "or_default x d = (case x of Some n \<Rightarrow> n | None \<Rightarrow> d)"

definition or_text :: "string option \<Rightarrow> string \<Rightarrow> string" where
  "or_text x d = (case x of Some r \<Rightarrow> if r = [] then d else r | None \<Rightarrow> d)"

definition advance ::
  "world \<Rightarrow> marker \<Rightarrow> job_definition \<Rightarrow> frame \<Rightarrow> string \<Rightarrow> frame \<Rightarrow> string \<Rightarrow> json \<Rightarrow> json \<Rightarrow>
     int option \<Rightarrow> marker act" where
  "advance wo m job state next_step progress reason join_summary resources prio =
     andthen (lift (retain_deferred_pause_process state progress)) (\<lambda>progress.
       let activation_ordinal = or_default (frame_activation_ordinal state) 1 + 1
       in if (case maximum_activations (jd_retry_policy job) of
                None \<Rightarrow> False | Some n \<Rightarrow> activation_ordinal > n)
          then manager_transition wo m Failed
                 (replace progress [(''failure'', manager_failure ''budget_exhausted'' ''maximum_activations exceeded'' None),
                    (''reason'', JStr ''budget_exhausted'')]) None
          else manager_transition wo m Ready
                 (replace progress [(''step'', JStr next_step), (''activation_id'', JStr (wo_uuid wo 0)),
                    (''activation_ordinal'', JInt activation_ordinal), (''attempt_ordinal'', JInt 0),
                    (''reason'', JStr reason), (''join_summary'', join_summary), (''resources'', resources),
                    (''previous_attempt_id'', of_opt_str (frame_attempt_id state))]) prio)"

definition retry ::
  "world \<Rightarrow> marker \<Rightarrow> job_definition \<Rightarrow> frame \<Rightarrow> frame \<Rightarrow> string \<Rightarrow> bool \<Rightarrow> obj option \<Rightarrow>
     int option \<Rightarrow> marker act" where
  "retry wo m job state progress reason unclean evidence prio =
     andthen (lift (retain_deferred_pause_process state progress)) (\<lambda>progress.
       let current_attempts = or_default (frame_attempt_ordinal state) 1
       in if (case maximum_attempts_per_activation (jd_retry_policy job) of
                None \<Rightarrow> False | Some n \<Rightarrow> current_attempts \<ge> n)
          then manager_transition wo m Failed
                 (replace progress [(''failure'', manager_failure ''retry_exhausted'' reason None),
                    (''reason'', JStr ''retry_exhausted'')]) None
          else
            let unsafe = (case evidence of None \<Rightarrow> False
                          | Some e \<Rightarrow> get e ''evidence'' = JStr ''unsafe_persistent_takeover'');
                retried = replace progress [(''reason'', JStr reason), (''unclean_restart'', JBool unclean),
                  (''unsafe_persistent_takeover'', JBool unsafe),
                  (''previous_attempt_id'', of_opt_str (frame_attempt_id state))]
            in manager_transition wo m Ready
                 (case evidence of None \<Rightarrow> retried
                  | Some e \<Rightarrow> replace retried [(''takeover_evidence'', JObj e)]) prio)"

text \<open>Keeping the process member of a frame that has one.\<close>

definition keep_process :: "frame \<Rightarrow> frame \<Rightarrow> frame" where
  "keep_process state updates =
     (if has_key state ''process'' then replace updates [(''process'', get state ''process'')] else updates)"

definition handle_attempt_failure ::
  "world \<Rightarrow> marker \<Rightarrow> job_definition \<Rightarrow> string \<Rightarrow> string \<Rightarrow> int option \<Rightarrow> bool \<Rightarrow> obj option \<Rightarrow> unit act" where
  "handle_attempt_failure wo m job c msg status unclean evidence =
     except
       (andthen (read_frame_act m) (\<lambda>state.
          let progress = carried state
          in if c \<in> set (retry_on (jd_retry_policy job)) then
               andthen (retry wo m job state progress c unclean evidence None) (\<lambda>_. ret ())
             else
               let failed = keep_process state
                     (replace progress [(''failure'', manager_failure c msg status), (''reason'', JStr c)])
               in andthen (manager_transition wo m Failed
                    (case evidence of None \<Rightarrow> failed
                     | Some e \<Rightarrow> replace failed [(''takeover_evidence'', JObj e)]) None) (\<lambda>_. ret ())))
       (\<lambda>e. if caught e then ret () else lift (Inl e))"

text \<open>\<open>_release_claim\<close>: back to ready without consuming the budget.\<close>

definition release_claim :: "world \<Rightarrow> marker \<Rightarrow> string \<Rightarrow> frame option \<Rightarrow> unit act" where
  "release_claim wo m reason state =
     andthen (case state of
                Some f \<Rightarrow> ret (Some f)
              | None \<Rightarrow> except (andthen (read_frame_act m) (\<lambda>f. ret (Some f)))
                          (\<lambda>e. if caught e then ret None else lift (Inl e)))
       (\<lambda>state. case state of
          None \<Rightarrow> ret ()
        | Some f \<Rightarrow>
            except (andthen (manager_transition wo m Ready
                (replace (carried f)
                   [(''reason'', JStr reason),
                    (''attempt_ordinal'', JInt (max 0 (or_default (frame_attempt_ordinal f) 1 - 1))),
                    (''total_attempts'', JInt (max 0 (or_default (frame_total_attempts f) 1 - 1)))]) None)
                (\<lambda>_. ret ()))
              (\<lambda>e. if e = TransitionLostError then ret () else lift (Inl e)))"

section \<open>Ownership\<close>

datatype file_type = Regular_File | Real_Directory | Symbolic_Link | Other_File

record file_stat =
  st_type :: file_type
  st_uid :: int

text \<open>
  \<open>_owns\<close>: the marker, the payload directory and the job document are real ones of the user of
  the manager. An indeterminate answer is \<open>None\<close>; only a missing marker is a refusal.
\<close>

definition owns :: "int \<Rightarrow> file_stat res \<Rightarrow> file_stat res \<Rightarrow> file_stat res \<Rightarrow> bool option" where
  "owns uid marker_stat payload_stat job_stat =
     (case marker_stat of
        Inl e \<Rightarrow> if e = FileNotFoundError then Some False else None
      | Inr m \<Rightarrow>
          if st_type m \<noteq> Regular_File then Some False
          else if st_uid m \<noteq> uid then Some False
          else (case payload_stat of
            Inl _ \<Rightarrow> None
          | Inr p \<Rightarrow>
              if st_type p \<noteq> Real_Directory then Some False
              else (case job_stat of
                Inl _ \<Rightarrow> None
              | Inr j \<Rightarrow>
                  if st_type j \<noteq> Regular_File then Some False
                  else Some (st_uid p = st_uid m \<and> st_uid j = st_uid m))))"

section \<open>Registering submissions\<close>

text \<open>
  The body of \<open>register_submissions\<close>: whether the pass counts a change. \<open>validate\<close> is the check
  of the executor of the job.
\<close>

definition register_submission ::
  "manager_config \<Rightarrow> world \<Rightarrow> (job_definition \<Rightarrow> unit res) \<Rightarrow> marker \<Rightarrow> bool act" where
  "register_submission mc wo validate m =
     except
       (andthen (load_job_act m) (\<lambda>job.
          if \<not> executor_served mc job then ret False
          else
            andthen (lift (validate job)) (\<lambda>_.
            andthen (manager_transition wo m Ready
              (replace [] [(''step'', JStr (jd_initial_step job)), (''activation_id'', JStr (wo_uuid wo 0)),
                 (''activation_ordinal'', JInt 1), (''attempt_ordinal'', JInt 0), (''total_attempts'', JInt 0),
                 (''data_generation'', if jd_data_mode job = ''transactional'' then JInt 0 else JNull),
                 (''reason'', JStr ''submitted''), (''job_digest'', JStr (jd_digest job))]) None)
              (\<lambda>_. ret True))))
       (\<lambda>e. if e = TransitionLostError then ret True
            else if e \<in> {FormatError, UnsupportedExtensionError} then
              except
                (andthen (manager_transition wo m Failed
                   (replace [] [(''failure'', manager_failure ''protocol_error'' (wo_text wo e) None),
                      (''data_generation'', JNull), (''reason'', JStr ''submission_invalid'')]) None)
                   (\<lambda>_. ret True))
                (\<lambda>e. if e = TransitionLostError then ret True else lift (Inl e))
            else lift (Inl e))"

section \<open>Claims\<close>

text \<open>
  What claiming and launching observe: the ownership of the files, whether the directories of the attempt could be made, the texts of
  the payload and working directory, the settings of the workspace, whether the runner and its
  command could be prepared, the process of the launched runner, whether the gate that lets it
  go on could be written and the digest of the launched payload computed, and whether a maintenance lock is held after the claim.
\<close>

record launch_world =
  lw_owns :: "bool option"
  lw_marker_present :: bool
  lw_directories :: "unit res"
  lw_payload :: string
  lw_workdir :: string
  lw_workdir_reused :: bool
  lw_durable :: bool
  lw_settings :: "obj res"
  lw_prepare :: "unit res"
  lw_spawn :: "int res"
  lw_write_gate :: "unit res"
  lw_payload_digest :: "unit res"
  lw_maintenance :: bool

definition context_children :: "json \<Rightarrow> json list" where
  "context_children v =
     (case v of JArr vs \<Rightarrow> filter (\<lambda>x. case x of JObj _ \<Rightarrow> True | _ \<Rightarrow> False) vs | _ \<Rightarrow> [])"

definition attempt_context ::
  "launch_world \<Rightarrow> string \<Rightarrow> marker \<Rightarrow> job_definition \<Rightarrow> frame \<Rightarrow> frame \<Rightarrow> string \<Rightarrow> obj \<Rightarrow> requirement \<Rightarrow> obj" where
  "attempt_context lw workspace_id m job claimed previous attempt_id settings requirement =
     [(''format'', JStr ''httk-workflow-attempt-context''), (''format_version'', JInt 2),
      (''workspace_id'', JStr workspace_id), (''job_id'', JStr (jd_id job)),
      (''job_key'', JStr (jd_job_key job)), (''placement'', JStr (as_posix (placement m))),
      (''payload'', JStr (lw_payload lw)), (''step'', of_opt_str (frame_step claimed)),
      (''activation_id'', of_opt_str (frame_activation_id claimed)),
      (''activation_ordinal'', of_opt_int (frame_activation_ordinal claimed)),
      (''attempt_id'', JStr attempt_id),
      (''attempt_ordinal'', of_opt_int (frame_attempt_ordinal claimed)),
      (''total_attempts'', of_opt_int (frame_total_attempts claimed)),
      (''is_restart'', JBool (or_default (frame_attempt_ordinal claimed) 0 > 1)),
      (''is_unclean_restart'', JBool (frame_unclean_restart previous)),
      (''attempt_reason'', JStr (or_text (frame_reason claimed) ''claim'')),
      (''previous_attempt_id'', of_opt_str (frame_attempt_id previous)),
      (''activation_reason'', of_opt_str (frame_reason previous)),
      (''workdir_mode'', JStr (jd_workdir_mode job)), (''workdir_reused'', JBool (lw_workdir_reused lw)),
      (''unsafe_persistent_takeover'', JBool (frame_unsafe_persistent_takeover previous)),
      (''data_generation'', of_opt_int (frame_data_generation claimed)),
      (''durable'', JBool (lw_durable lw)), (''settings'', JObj settings),
      (''resources'', JObj (map (\<lambda>(k, v). (k, JInt v)) requirement)),
      (''join'', get claimed ''join_summary''),
      (''children'', JArr (context_children (get claimed ''join_summary'')))]"

text \<open>The limit of the context, which is passed in the environment of the runner.\<close>

definition checked_context :: "obj \<Rightarrow> string res" where
  "checked_context context =
     (let text' = json_bytes (JObj context) in if 100000 \<le> length text' then Inl FormatError else Inr text')"

definition running_updates ::
  "manager_config \<Rightarrow> world \<Rightarrow> launch_world \<Rightarrow> string \<Rightarrow> frame \<Rightarrow> string \<Rightarrow> string \<Rightarrow> int \<Rightarrow> frame" where
  "running_updates mc wo lw writer_id claimed attempt_id control_name pid =
     replace (carried claimed)
       [(''manager_id'', JStr (mc_manager_id mc)), (''writer_id'', JStr writer_id),
        (''attempt_id'', JStr attempt_id), (''lease_seconds'', JFloat (Fin (mc_lease_seconds mc))),
        (''started_at'', JStr (wo_now wo)), (''workdir'', JStr (lw_workdir lw)),
        (''attempt_control'', JStr control_name),
        (''process'', JObj [(''pid'', JInt pid), (''process_group'', JInt pid),
           (''hostname'', JStr (mc_hostname mc)), (''launched_at'', JStr (wo_now wo))]),
        (''reason'', JStr ''launched'')]"

text \<open>
  The guarded part of \<open>_launch_claimed\<close>: starting the process, the transition to \<open>running\<close>
  and opening the gate. The marker beside an error is the one its failure is recorded on.
\<close>

definition launch_process ::
  "manager_config \<Rightarrow> world \<Rightarrow> launch_world \<Rightarrow> marker \<Rightarrow> frame \<Rightarrow> string \<Rightarrow> string \<Rightarrow> mstate \<Rightarrow>
     ((error \<times> marker) + marker) \<times> mstate" where
  "launch_process mc wo lw m claimed attempt_id control_name s =
     (case lw_spawn lw of
        Inl e \<Rightarrow> (Inl (e, m), s)
      | Inr pid \<Rightarrow>
          (case manager_transition wo m Running
             (running_updates mc wo lw (jw_writer_id (fst (snd s))) claimed attempt_id control_name pid) None s of
             (Inl e, s') \<Rightarrow> (Inl (e, m), s')
           | (Inr moved, s') \<Rightarrow>
               (case lw_write_gate lw of
                  Inl e \<Rightarrow> (Inl (e, moved), s')
                | Inr _ \<Rightarrow> (Inr moved, s'))))"

text \<open>
  \<open>_launch_claimed\<close>. An error before the process was started is raised to the caller, a later
  one is recorded as a failure of the attempt; a launched attempt reserves the requirement of
  the claimed frame. A payload runner is digested after the attempt is tracked; an error of
  that is raised to the caller too.
\<close>

definition launch_claimed ::
  "manager_config \<Rightarrow> world \<Rightarrow> launch_world \<Rightarrow> marker \<Rightarrow> job_definition \<Rightarrow> frame \<Rightarrow> unit act" where
  "launch_claimed mc wo lw m job previous =
     andthen (read_frame_act m) (\<lambda>claimed.
     andthen (except (load_job_act m)
       (\<lambda>e. lift (Inl (if caught e then RunnerResolutionError ''payload.tampered'' else e)))) (\<lambda>launch_job.
     if jd_digest launch_job \<noteq> jd_digest job then lift (Inl (RunnerResolutionError ''payload.tampered''))
     else if \<not> executor_served mc job then lift (Inl FormatError)
     else
     andthen (lift (frame_attempt_control claimed)) (\<lambda>control.
     case (frame_attempt_id claimed, control) of
       (Some attempt_id, Some control_name) \<Rightarrow>
         andthen (lift (lw_directories lw)) (\<lambda>_.
         andthen (lift (lw_settings lw)) (\<lambda>settings.
         andthen (lift (effective_requirement job claimed (mc_resources mc) (mc_maximum_workers mc))) (\<lambda>requirement.
         andthen (\<lambda>s. lift (checked_context
           (attempt_context lw (ws_id (snd (snd s))) m job claimed previous attempt_id settings requirement)) s) (\<lambda>_.
         andthen (lift (lw_prepare lw)) (\<lambda>_.
         (\<lambda>s. case launch_process mc wo lw m claimed attempt_id control_name s of
                (Inr moved, (running, st)) \<Rightarrow>
                  (if jd_runner_source job = ''payload'' then lw_payload_digest lw else Inr (),
                   track \<lparr>ra_job_key = job_key moved, ra_attempt_id = attempt_id,
                     ra_resources = requirement, ra_fenced = False, ra_cancelling = False\<rparr> running, st)
              | (Inl (e, place), s') \<Rightarrow>
                  if e = TransitionLostError then (Inl e, s')
                  else handle_attempt_failure wo place job
                         (if e = FormatError then ''protocol_error'' else ''process_failure'')
                         (''cannot launch runner: '' @ wo_text wo e) None True None s'))))))
     | _ \<Rightarrow> lift (Inl FormatError))))"

definition fail_attempt_preparation :: "world \<Rightarrow> marker \<Rightarrow> job_definition \<Rightarrow> error \<Rightarrow> unit act" where
  "fail_attempt_preparation wo m job e =
     (case e of
        RunnerResolutionError c \<Rightarrow> handle_attempt_failure wo m job c (wo_text wo e) None True None
      | _ \<Rightarrow> handle_attempt_failure wo m job
               (if e = FormatError then ''protocol_error'' else ''process_failure'')
               (''cannot prepare attempt: '' @ wo_text wo e) None True None)"

text \<open>
  \<open>_claim_and_launch\<close>. The claimed frame records the requirement that was checked. A marker
  that vanished is left to the verified rename, which reports the lost race.
\<close>

definition claim_updates ::
  "manager_config \<Rightarrow> world \<Rightarrow> string \<Rightarrow> job_definition \<Rightarrow> frame \<Rightarrow> requirement \<Rightarrow> int \<Rightarrow> int \<Rightarrow> frame" where
  "claim_updates mc wo writer_id job state requirement attempt_ordinal total_attempts =
     replace (carried state)
       [(''manager_id'', JStr (mc_manager_id mc)), (''writer_id'', JStr writer_id),
        (''claim_id'', JStr (wo_uuid wo 1)), (''attempt_id'', JStr (wo_uuid wo 0)),
        (''attempt_control'', JStr (''attempts/'' @ wo_uuid wo 0)),
        (''attempt_ordinal'', JInt attempt_ordinal), (''total_attempts'', JInt total_attempts),
        (''resources'', JObj (map (\<lambda>(k, v). (k, JInt v)) requirement)),
        (''lease_seconds'', JFloat (Fin (mc_lease_seconds mc))), (''matched_pool'', JStr (jd_claim_pool job)),
        (''matched_capabilities'', JArr (map JStr (sort (jd_required_capabilities job)))),
        (''reason'', JStr (or_text (frame_reason state) ''claim''))]"

definition claim_owned ::
  "manager_config \<Rightarrow> world \<Rightarrow> launch_world \<Rightarrow> marker \<Rightarrow> bool act" where
  "claim_owned mc wo lw m =
     andthen (load_job_and_state m) (\<lambda>l.
     case l of
       None \<Rightarrow> ret False
     | Some (job, state) \<Rightarrow>
         if has_key state ''pause_requested'' then
           andthen (manager_transition wo m Ready
             (replace (carried state) [(''reason'', JStr ''pause_requested'')]) None) (\<lambda>_. ret True)
         else
           let attempt_ordinal = or_default (frame_attempt_ordinal state) 0 + 1;
               total_attempts = or_default (frame_total_attempts state) 0 + 1
           in case attempt_budget_failure job attempt_ordinal total_attempts of
                Some b \<Rightarrow>
                  andthen (manager_transition wo m Failed
                    (replace (carried state)
                       [(''failure'', manager_failure ''budget_exhausted''
                           (case b of Attempts_per_activation_exceeded \<Rightarrow> ''maximum_attempts_per_activation exceeded''
                            | Total_attempts_exceeded \<Rightarrow> ''maximum_total_attempts exceeded'') None),
                        (''reason'', JStr ''budget_exhausted'')]) None) (\<lambda>_. ret True)
              | None \<Rightarrow>
                  andthen (lift (effective_requirement job state (mc_resources mc) (mc_maximum_workers mc))) (\<lambda>requirement.
                  andthen (\<lambda>s. manager_transition wo m Claimed
                    (claim_updates mc wo (jw_writer_id (fst (snd s))) job state requirement attempt_ordinal total_attempts)
                    None s) (\<lambda>claimed.
                  if lw_maintenance lw then
                    andthen (release_claim wo claimed ''maintenance_lock'' None) (\<lambda>_. ret True)
                  else
                    andthen (except (launch_claimed mc wo lw claimed job state)
                      (\<lambda>e. if e = TransitionLostError then lift (Inl e)
                           else if caught e then fail_attempt_preparation wo claimed job e
                           else lift (Inl e))) (\<lambda>_. ret True))))"

definition claim_and_launch ::
  "manager_config \<Rightarrow> world \<Rightarrow> launch_world \<Rightarrow> marker \<Rightarrow> bool act" where
  "claim_and_launch mc wo lw m =
     (case lw_owns lw of
        None \<Rightarrow> ret False
      | Some True \<Rightarrow> claim_owned mc wo lw m
      | Some False \<Rightarrow> if lw_marker_present lw then ret False else claim_owned mc wo lw m)"

section \<open>Abandoned claims\<close>

text \<open>
  The body of \<open>recover_abandoned_claims\<close>. \<open>alive\<close> answers \<open>_manager_alive\<close> for the owner of the
  claim and the lease the frame names.
\<close>

definition recover_abandoned_claim ::
  "manager_config \<Rightarrow> world \<Rightarrow> (string option \<Rightarrow> pyfloat \<Rightarrow> bool) \<Rightarrow> marker \<Rightarrow> bool act" where
  "recover_abandoned_claim mc wo alive m =
     andthen (load_job_and_state m) (\<lambda>l.
     case l of
       None \<Rightarrow> ret False
     | Some (job, state) \<Rightarrow>
         if \<not> executor_served mc job then ret False
         else if frame_pause_requested state \<noteq> None then
           andthen (release_claim wo m ''operator_pause_deferred'' (Some state)) (\<lambda>_. ret True)
         else
           andthen (lift (frame_lease_seconds state)) (\<lambda>lease.
             let owner = (case frame_manager_id state of Inr o' \<Rightarrow> o' | Inl _ \<Rightarrow> None)
             in if alive owner (case lease of None \<Rightarrow> Fin (mc_lease_seconds mc) | Some x \<Rightarrow> x) then ret False
                else andthen (release_claim wo m ''claim_abandoned'' (Some state)) (\<lambda>_. ret True)))"

end
