(* ===== verification/Manager_Commit.thy ===== *)
theory Manager_Commit
  imports Manager_Core
begin

text \<open>
  Outcomes and commits (\<open>src/src/httk/workflow/_manager_commit.py\<close> and the passes of
  \<open>manager.py\<close> that lead to it): reading a published outcome, entering \<open>committing\<close>, applying
  the outcome, registering spawned children, polling a running job, and the evidence that
  allows a job to be taken over.

  The directory of a published outcome is what the manager reads of it: the bytes of its
  documents, the digests of the child bundles (computed by another package), and the results
  of replaying its transaction and of the hook of the executor. Removing the control
  directory of a finished attempt and sealing report nothing back; sealing adds the job to
  the sealed ones.
\<close>

section \<open>Reading an outcome\<close>

record child_bundle =
  cb_document :: "string option"
  cb_digest :: string

record outcome_dir =
  od_control :: "unit res"
  od_present :: bool
  od_outcome :: "string option"
  od_children :: bool
  od_spawn :: "string option"
  od_bundles :: "(string \<times> child_bundle) list"
  od_transaction :: bool
  od_replay :: "int \<Rightarrow> bool res"
  od_hook :: "unit res"
  od_sealed :: bool

definition read_json_text :: "string option \<Rightarrow> obj res" where
  "read_json_text content =
     (case content of
        None \<Rightarrow> Inl FormatError
      | Some b \<Rightarrow> (case json_decode False b of Some (JObj m) \<Rightarrow> Inr m | _ \<Rightarrow> Inl FormatError))"

definition read_outcome :: "string option \<Rightarrow> marker \<Rightarrow> frame \<Rightarrow> obj res" where
  "read_outcome content m state =
     bindr (read_json_text content) (\<lambda>outcome.
       if \<not> eq_str (get outcome ''format'') ''httk-workflow-outcome'' \<or>
          \<not> eq_int (get outcome ''format_version'') 2 then Inl FormatError
       else if \<not> eq_str (get outcome ''job_id'') (job_id m) \<or>
          \<not> eq_opt_str (get outcome ''activation_id'') (frame_activation_id state) \<or>
          \<not> eq_opt_str (get outcome ''attempt_id'') (frame_attempt_id state) then Inl FormatError
       else case get outcome ''action'' of JStr _ \<Rightarrow> Inr outcome | _ \<Rightarrow> Inl FormatError)"

definition nested_reason :: "obj \<Rightarrow> string \<Rightarrow> string res" where
  "nested_reason outcome key =
     (case get outcome key of
        JObj v \<Rightarrow> (case get v ''reason'' of JStr s \<Rightarrow> Inr s | _ \<Rightarrow> Inl FormatError)
      | _ \<Rightarrow> Inl FormatError)"

definition declared_runner_steps :: "obj \<Rightarrow> string list option" where
  "declared_runner_steps outcome =
     (case get outcome ''runner_steps'' of
        JArr vs \<Rightarrow> (case mapr validate_step vs of Inr steps \<Rightarrow> Some steps | Inl _ \<Rightarrow> None)
      | _ \<Rightarrow> None)"

definition child_digests :: "outcome_dir \<Rightarrow> obj" where
  "child_digests od = map (\<lambda>(name, b). (name, JStr (cb_digest b))) (sort_key fst (od_bundles od))"

fun spawn_label_loop :: "json list \<Rightarrow> string list \<Rightarrow> obj \<Rightarrow> obj res" where
  "spawn_label_loop [] used labels = Inr labels"
| "spawn_label_loop (v # vs) used labels =
     (case v of
        JObj raw \<Rightarrow>
          bindr (require_string (get raw ''job_key'')) (\<lambda>key.
          bindr (validate_label (get raw ''label'')) (\<lambda>label.
            if label \<in> set used then Inl FormatError
            else spawn_label_loop vs (label # used) (dict_set key (JStr label) labels)))
      | _ \<Rightarrow> Inl FormatError)"

definition spawn_labels :: "outcome_dir \<Rightarrow> obj res" where
  "spawn_labels od =
     (if od_spawn od = None then Inr []
      else bindr (read_json_text (od_spawn od)) (\<lambda>spawn.
        case get spawn ''children'' of
          JArr vs \<Rightarrow> spawn_label_loop vs [] []
        | _ \<Rightarrow> Inl FormatError))"

definition labeled_child :: "obj \<Rightarrow> json \<Rightarrow> json" where
  "labeled_child labels v =
     (case v of
        JObj reference \<Rightarrow>
          if get reference ''label'' \<noteq> JNull then v
          else (case get_default reference ''job_key'' (JStr []) of
                  JStr key \<Rightarrow>
                    (case map_of labels key of
                       Some label \<Rightarrow> JObj (dict_set ''label'' label reference) | None \<Rightarrow> v)
                | _ \<Rightarrow> v)
      | _ \<Rightarrow> v)"

definition labeled_join :: "obj \<Rightarrow> outcome_dir \<Rightarrow> obj res" where
  "labeled_join join od =
     bindr (spawn_labels od) (\<lambda>labels.
       case get join ''children'' of
         JArr vs \<Rightarrow> Inr (dict_set ''children'' (JArr (map (labeled_child labels) vs)) join)
       | _ \<Rightarrow> Inr join)"

text \<open>\<open>_attempt_control_path\<close>: the validated name, and that the directory is a real one.\<close>

definition attempt_control_path :: "outcome_dir \<Rightarrow> frame \<Rightarrow> string res" where
  "attempt_control_path od state =
     bindr (frame_attempt_control state) (\<lambda>c.
     bindr (case c of
              Some name \<Rightarrow> Inr name
            | None \<Rightarrow>
                (case frame_attempt_id state of
                   None \<Rightarrow> Inl FormatError
                 | Some i \<Rightarrow> validate_attempt_control (JStr (''attempts/'' @ i)))) (\<lambda>name.
     bindr (od_control od) (\<lambda>_. Inr name)))"

section \<open>Entering the commit\<close>

definition set_fenced :: "string \<Rightarrow> running_attempt list \<Rightarrow> running_attempt list" where
  "set_fenced i running = map (\<lambda>a. if ra_attempt_id a = i then a\<lparr>ra_fenced := True\<rparr> else a) running"

definition begin_commit ::
  "manager_config \<Rightarrow> world \<Rightarrow> outcome_dir \<Rightarrow> marker \<Rightarrow> frame \<Rightarrow> unit act" where
  "begin_commit mc wo od m state =
     andthen (lift (read_outcome (od_outcome od) m state)) (\<lambda>outcome.
     andthen (lift (spawn_labels od)) (\<lambda>child_labels.
     andthen (lift (frame_attempt_control state)) (\<lambda>control.
     case (frame_attempt_id state, control) of
       (Some attempt_id, Some attempt_control) \<Rightarrow>
         andthen (\<lambda>s. manager_transition wo m Committing
           (keep_process state (replace (carried state)
              [(''manager_id'', JStr (mc_manager_id mc)), (''writer_id'', JStr (jw_writer_id (fst (snd s)))),
               (''attempt_id'', JStr attempt_id), (''attempt_control'', JStr attempt_control),
               (''outcome_action'', get outcome ''action''), (''child_digests'', JObj (child_digests od)),
               (''child_labels'', JObj child_labels), (''reason'', JStr ''outcome_published'')])) None s) (\<lambda>_.
         \<lambda>(running, st). (Inr (), set_fenced attempt_id running, st))
     | _ \<Rightarrow> lift (Inl FormatError))))"

text \<open>\<open>_commit_published_outcome\<close>; \<open>log_ready\<close> answers \<open>_environment_log_ready\<close>.\<close>

definition commit_published_outcome ::
  "manager_config \<Rightarrow> world \<Rightarrow> outcome_dir \<Rightarrow> bool \<Rightarrow> marker \<Rightarrow> job_definition \<Rightarrow> frame \<Rightarrow> bool act" where
  "commit_published_outcome mc wo od log_ready m job state =
     (if \<not> log_ready then ret False
      else except (andthen (begin_commit mc wo od m state) (\<lambda>_. ret True))
        (\<lambda>e. if e = TransitionLostError then ret True
             else if e = FormatError then
               andthen (handle_attempt_failure wo m job ''protocol_error''
                 (''published outcome is unusable: '' @ wo_text wo e) None True None) (\<lambda>_. ret True)
             else if caught e then ret True
             else lift (Inl e)))"

section \<open>Spawned children\<close>

text \<open>
  What registering observes beside the outcome: the digest of a payload that is already in
  the workspace, and what the server does with a publication.
\<close>

record spawn_world =
  sw_digest :: "string list \<Rightarrow> string"
  sw_publish :: "string list \<Rightarrow> bool list"
  sw_text :: "json \<Rightarrow> string"

definition py_str :: "spawn_world \<Rightarrow> json \<Rightarrow> string" where
  "py_str sw v = (case v of JStr s \<Rightarrow> s | _ \<Rightarrow> sw_text sw v)"

text \<open>\<open>_publish_path\<close> for a bundle: the directory moves, an existing payload is a conflict.\<close>

fun publish_bundle ::
  "bool list \<Rightarrow> string list \<Rightarrow> string option \<Rightarrow> workspace \<Rightarrow> unit res \<times> workspace" where
  "publish_bundle [] target document ws = (Inl WorkspaceUnavailableError, ws)"
| "publish_bundle (performed # env) target document ws =
     (if ws_documents ws target \<noteq> None then (Inl FileExistsError, ws)
      else if performed then (Inr (), ws\<lparr>ws_documents := (ws_documents ws)(target := document)\<rparr>)
      else publish_bundle env target document ws)"

definition on_workspace :: "(workspace \<Rightarrow> 'a res \<times> workspace) \<Rightarrow> 'a act" where
  "on_workspace f s = (case s of (running, w, ws) \<Rightarrow> (case f ws of (r, ws') \<Rightarrow> (r, running, w, ws')))"

text \<open>Creating the marker of a child that has none.\<close>

definition publish_child_marker :: "spawn_world \<Rightarrow> string list \<Rightarrow> string \<Rightarrow> job_definition \<Rightarrow> unit act" where
  "publish_child_marker sw pl key child =
     on_workspace (\<lambda>ws.
       case marker_path Submitted pl key (jd_priority child) 0 ''init'' of
         Inl e \<Rightarrow> (Inl e, ws)
       | Inr dst \<Rightarrow>
           (case publish_path (sw_publish sw dst) dst (ws_tree ws) of
              (Inl e, T) \<Rightarrow> (Inl e, ws\<lparr>ws_tree := T\<rparr>)
            | (Inr _, T) \<Rightarrow>
                (Inr (), ws\<lparr>ws_tree := T, ws_index := index_note_path dst (ws_index ws)\<rparr>)))"

definition register_child ::
  "spawn_world \<Rightarrow> outcome_dir \<Rightarrow> obj \<Rightarrow> json \<Rightarrow> unit act" where
  "register_child sw od digests v =
     (case v of
        JObj raw \<Rightarrow>
          let key = py_str sw (get_default raw ''job_key'' (JStr []))
          in andthen (lift (normalize_placement (py_str sw (get_default raw ''placement'' (JStr []))))) (\<lambda>pl.
             let expected = py_str sw (get_default digests key (JStr [])); target = payload_path pl key
             in andthen (on_workspace (\<lambda>ws.
                  if \<not> (case map_of raw ''workspace_id'' of None \<Rightarrow> True | Some x \<Rightarrow> eq_str x (ws_id ws))
                  then (Inl UnsupportedExtensionError, ws) else (Inr (), ws))) (\<lambda>_.
                andthen (case map_of (od_bundles od) key of
                   None \<Rightarrow> ret False
                 | Some b \<Rightarrow>
                     andthen (lift (bindr (read_json_text (cb_document b)) job_from_mapping)) (\<lambda>child.
                       if jd_job_key child \<noteq> key then lift (Inl FormatError)
                       else if cb_digest b \<noteq> expected then lift (Inl FormatError)
                       else andthen (on_workspace (publish_bundle (sw_publish sw target) target (cb_document b)))
                              (\<lambda>_. ret True))) (\<lambda>published_here.
                \<lambda>s. let ws = snd (snd s)
                    in if ws_documents ws target = None then (Inl FormatError, s)
                       else case find_marker_at (ws_tree ws) key pl (ws_index ws) of
                         (r, idx) \<Rightarrow>
                           let s1 = (fst s, fst (snd s), ws\<lparr>ws_index := idx\<rparr>)
                           in case r of
                                Inl e \<Rightarrow> (Inl e, s1)
                              | Inr (Some _) \<Rightarrow> (Inr (), s1)
                              | Inr None \<Rightarrow>
                                  if \<not> published_here \<and> sw_digest sw target \<noteq> expected then (Inl FormatError, s1)
                                  else andthen (lift (bindr (read_json_text (ws_documents ws target)) job_from_mapping))
                                         (publish_child_marker sw pl key) s1)))
      | _ \<Rightarrow> lift (Inl FormatError))"

fun register_children_loop :: "spawn_world \<Rightarrow> outcome_dir \<Rightarrow> obj \<Rightarrow> json list \<Rightarrow> unit act" where
  "register_children_loop sw od digests [] = ret ()"
| "register_children_loop sw od digests (v # vs) =
     andthen (register_child sw od digests v) (\<lambda>_. register_children_loop sw od digests vs)"

definition register_children :: "spawn_world \<Rightarrow> outcome_dir \<Rightarrow> frame \<Rightarrow> unit act" where
  "register_children sw od state =
     (if \<not> od_children od then ret ()
      else andthen (lift (read_json_text (od_spawn od))) (\<lambda>spawn.
        case get spawn ''children'' of
          JArr vs \<Rightarrow>
            andthen (lift (spawn_labels od)) (\<lambda>_.
              case frame_child_digests state of
                Some digests \<Rightarrow> register_children_loop sw od digests vs
              | None \<Rightarrow>
                  if has_key state ''child_digests'' then lift (Inl FormatError)
                  else register_children_loop sw od [] vs)
        | _ \<Rightarrow> lift (Inl FormatError)))"

section \<open>Applying an outcome\<close>

definition committed_data_generation :: "outcome_dir \<Rightarrow> job_definition \<Rightarrow> frame \<Rightarrow> obj \<Rightarrow> int option res" where
  "committed_data_generation od job state outcome =
     (if \<not> od_transaction od then Inr (frame_data_generation state)
      else case frame_data_generation state of
        None \<Rightarrow> Inl TransactionError
      | Some g \<Rightarrow>
          if jd_data_mode job \<noteq> ''transactional'' then Inl TransactionError
          else if \<not> eq_int (get outcome ''expected_data_generation'') g then Inl TransactionError
          else bindr (od_replay od g) (\<lambda>changed. Inr (Some (if changed then g + 1 else g))))"

definition outcome_resources :: "obj \<Rightarrow> string \<Rightarrow> json res" where
  "outcome_resources outcome action =
     (if \<not> has_key outcome ''resources'' then Inr JNull
      else if action \<notin> {''advance'', ''wait''} then Inl FormatError
      else bindr (validate_resources (get outcome ''resources''))
             (\<lambda>r. Inr (JObj (map (\<lambda>(k, v). (k, JInt v)) r))))"

definition commit_progress :: "frame \<Rightarrow> obj \<Rightarrow> int option \<Rightarrow> frame res" where
  "commit_progress state outcome data_generation =
     (let progress = replace (carried state) [(''data_generation'', of_opt_int data_generation)]
      in retain_deferred_pause_process state
           (case declared_runner_steps outcome of
              None \<Rightarrow> progress
            | Some steps \<Rightarrow> replace progress [(''runner_steps'', JArr (map JStr steps))]))"

text \<open>The failure a \<open>fail\<close> outcome declares, and the reason recorded with it.\<close>

definition declared_failure :: "world \<Rightarrow> obj \<Rightarrow> failure \<times> string" where
  "declared_failure wo outcome =
     (case validate_failure (get outcome ''failure'') of
        Inr f \<Rightarrow> (f, ''declared_failure'')
      | Inl e \<Rightarrow>
          (\<lparr>code = ''protocol_error'',
            message = ''runner published a malformed failure object: '' @ wo_text wo e,
            details = Some [(''log_paths'', JArr [JStr ''logs/stdio.out''])], retryable = False\<rparr>,
           ''protocol_error''))"

definition add_seal :: "bool \<Rightarrow> string \<Rightarrow> unit act" where
  "add_seal sealed key =
     on_workspace (\<lambda>ws. (Inr (), if sealed then ws\<lparr>ws_sealed_jobs := key # ws_sealed_jobs ws\<rparr> else ws))"

definition apply_action ::
  "world \<Rightarrow> outcome_dir \<Rightarrow> marker \<Rightarrow> job_definition \<Rightarrow> frame \<Rightarrow> obj \<Rightarrow> string \<Rightarrow> frame \<Rightarrow> json \<Rightarrow> int \<Rightarrow>
     marker act" where
  "apply_action wo od m job state outcome action progress resources prio =
     (if action = ''advance'' then
        andthen (lift (validate_step (get outcome ''next_step''))) (\<lambda>step.
          advance wo m job state step progress ''advance'' JNull resources (Some prio))
      else if action = ''retry'' then
        andthen (lift (nested_reason outcome ''retry'')) (\<lambda>reason.
          retry wo m job state progress reason False None (Some prio))
      else if action = ''wait'' then
        andthen (lift (validate_step (get outcome ''next_step''))) (\<lambda>step.
          case get outcome ''join'' of
            JObj join \<Rightarrow>
              andthen (lift (labeled_join join od)) (\<lambda>labeled.
                manager_transition wo m Waiting
                  (replace progress [(''next_step'', JStr step), (''resources'', resources),
                     (''join'', JObj labeled), (''reason'', JStr ''waiting_for_children'')]) (Some prio))
          | _ \<Rightarrow> lift (Inl FormatError))
      else if action = ''succeed'' then
        andthen (manager_transition wo m Succeeded
          (replace progress [(''reason'', JStr ''succeeded'')]) (Some prio)) (\<lambda>moved.
        andthen (add_seal (od_sealed od) (job_key moved)) (\<lambda>_. ret moved))
      else if action = ''fail'' then
        (case declared_failure wo outcome of (f, reason) \<Rightarrow>
           if reason = ''declared_failure'' \<and> retryable f \<and> retry_budget_available job state then
             retry wo m job state progress (code f) False None (Some prio)
           else
             manager_transition wo m Failed
               (replace progress [(''failure'', JObj (failure_as_mapping f)), (''reason'', JStr reason)]) (Some prio))
      else if action = ''pause'' then
        manager_transition wo m Paused
          (replace (keep_process state progress)
             [(''pause'', get outcome ''pause''), (''reason'', JStr ''step_paused'')]) (Some prio)
      else lift (Inl FormatError))"

definition process_committing ::
  "manager_config \<Rightarrow> world \<Rightarrow> spawn_world \<Rightarrow> outcome_dir \<Rightarrow> marker \<Rightarrow> unit act" where
  "process_committing mc wo sw od m =
     andthen (read_frame_act m) (\<lambda>state.
     andthen (load_job_act m) (\<lambda>job.
     andthen (lift (attempt_control_path od state)) (\<lambda>_.
     andthen (lift (read_outcome (od_outcome od) m state)) (\<lambda>outcome.
     andthen (lift (committed_data_generation od job state outcome)) (\<lambda>data_generation.
     andthen (register_children sw od state) (\<lambda>_.
     if \<not> executor_served mc job then ret ()
     else
     andthen (lift (od_hook od)) (\<lambda>_.
     andthen (lift (require_string (get outcome ''action''))) (\<lambda>action.
     andthen (lift (outcome_resources outcome action)) (\<lambda>resources.
     andthen (lift (commit_progress state outcome data_generation)) (\<lambda>progress.
     andthen (lift (if get outcome ''priority'' = JNull then Inr (int (priority m))
                    else require_int (get outcome ''priority'') 0 (Some 999))) (\<lambda>prio.
     andthen (apply_action wo od m job state outcome action progress resources prio) (\<lambda>_. ret ()))))))))))))"

text \<open>The body of \<open>resume\<close>: errors of the outcome fail the job, others are reported.\<close>

definition resume_committing ::
  "manager_config \<Rightarrow> world \<Rightarrow> spawn_world \<Rightarrow> outcome_dir \<Rightarrow> marker \<Rightarrow> bool act" where
  "resume_committing mc wo sw od m =
     andthen (load_job_and_state m) (\<lambda>l.
     case l of
       None \<Rightarrow> ret False
     | Some (job, state) \<Rightarrow>
         if \<not> executor_served mc job then ret False
         else
           except (andthen (process_committing mc wo sw od m) (\<lambda>_. ret True))
             (\<lambda>e. if e = TransitionLostError then ret True
                  else if e \<in> {FormatError, TransactionError} then
                    except (andthen (manager_transition wo m Failed
                      (replace (keep_process state (carried state))
                         [(''failure'', manager_failure
                             (if e = TransactionError then ''transaction_corruption'' else ''protocol_error'')
                             (wo_text wo e) None),
                          (''reason'', JStr ''commit_failed'')]) None) (\<lambda>_. ret True))
                      (\<lambda>e. if e = TransitionLostError then ret True else lift (Inl e))
                  else if caught e then ret True
                  else lift (Inl e)))"

section \<open>Polling a running job\<close>

record poll_world =
  pw_outcome :: outcome_dir
  pw_outcome_after_exit :: outcome_dir
  pw_environment :: "obj res option"
  pw_now :: rat
  pw_exit :: "int option"
  pw_heartbeat_age :: "nat \<Rightarrow> string option \<Rightarrow> rat option"
  pw_process_gone :: "int \<Rightarrow> bool"

text \<open>
  Comparing an age with a number of a frame, which may be any float. The heartbeat of the
  owner is read twice: once for \<open>_manager_alive\<close>, once for the evidence.
\<close>

fun at_most :: "rat \<Rightarrow> pyfloat \<Rightarrow> bool" where
  "at_most age (Fin q) = (age \<le> q)"
| "at_most age (Inf positive) = positive"
| "at_most age NaN = False"

fun at_least :: "rat \<Rightarrow> pyfloat \<Rightarrow> bool" where
  "at_least age (Fin q) = (age \<ge> q)"
| "at_least age (Inf positive) = (\<not> positive)"
| "at_least age NaN = False"

fun float_times :: "pyfloat \<Rightarrow> rat \<Rightarrow> pyfloat" where
  "float_times (Fin q) r = Fin (q * r)"
| "float_times (Inf positive) r = (if r = 0 then NaN else Inf (positive \<noteq> (r < 0)))"
| "float_times NaN r = NaN"

definition manager_alive :: "rat option \<Rightarrow> pyfloat \<Rightarrow> bool" where
  "manager_alive age lease = (case age of None \<Rightarrow> False | Some a \<Rightarrow> at_most a lease)"

definition attempt_writer_dead :: "manager_config \<Rightarrow> poll_world \<Rightarrow> frame \<Rightarrow> bool" where
  "attempt_writer_dead mc pw state =
     (case validate_process (get state ''process'') of
        None \<Rightarrow> False
      | Some p \<Rightarrow>
          if get p ''hostname'' \<noteq> JStr (mc_hostname mc) then False
          else (case get p ''pid'' of JInt pid \<Rightarrow> pw_process_gone pw pid | _ \<Rightarrow> False))"

text \<open>
  \<open>_environment_log_ready\<close>: a runner that resolved its environment and has not logged it yet
  holds back the commit of its outcome until it is dead or the deadline it wrote has passed.
  Then the pending log is cleared in the file, which nothing else reads here.
\<close>

definition environment_log_ready :: "manager_config \<Rightarrow> poll_world \<Rightarrow> frame \<Rightarrow> bool" where
  "environment_log_ready mc pw state =
     (case pw_environment pw of
        None \<Rightarrow> True
      | Some (Inl _) \<Rightarrow> True
      | Some (Inr recorded) \<Rightarrow>
          if \<not> eq_str (get recorded ''status'') ''resolved'' \<or> \<not> truthy (get recorded ''log_pending'') then True
          else attempt_writer_dead mc pw state \<or>
            (case get recorded ''log_deadline'' of
               JInt n \<Rightarrow> pw_now pw \<ge> of_int n
             | JFloat x \<Rightarrow> at_least (pw_now pw) x
             | _ \<Rightarrow> False))"

definition age_json :: "rat option \<Rightarrow> json" where
  "age_json age = (case age of None \<Rightarrow> JNull | Some a \<Rightarrow> JFloat (Fin a))"

definition takeover_evidence ::
  "manager_config \<Rightarrow> poll_world \<Rightarrow> job_definition \<Rightarrow> frame \<Rightarrow> string option \<Rightarrow> pyfloat \<Rightarrow> obj option" where
  "takeover_evidence mc pw job state owner lease =
     (let age = pw_heartbeat_age pw 1 owner; grace = float_times lease (mc_takeover_grace_factor mc)
      in if attempt_writer_dead mc pw state then
           Some [(''evidence'', JStr ''writer_process_dead''), (''heartbeat_age_seconds'', age_json age)]
         else if jd_workdir_mode job = ''persistent'' then
           (if mc_unsafe_persistent_takeover mc then
              Some [(''evidence'', JStr ''unsafe_persistent_takeover''), (''heartbeat_age_seconds'', age_json age),
                    (''unsafe'', JBool True)]
            else None)
         else if mc_unsafe_isolated_takeover mc then
           Some [(''evidence'', JStr ''unsafe_isolated_takeover''), (''heartbeat_age_seconds'', age_json age),
                 (''unsafe'', JBool True)]
         else case age of
           None \<Rightarrow> Some [(''evidence'', JStr ''manager_record_absent''), (''heartbeat_age_seconds'', JNull)]
         | Some a \<Rightarrow>
             if at_least a grace then
               Some [(''evidence'', JStr ''lease_grace_expired''), (''heartbeat_age_seconds'', JFloat (Fin a)),
                     (''grace_seconds'', JFloat grace),
                     (''takeover_grace_factor'', JFloat (Fin (mc_takeover_grace_factor mc)))]
             else None)"

text \<open>
  \<open>_poll_one_running\<close>: an outcome is committed; a local process that ended without one failed;
  a job of another manager is taken over when that is justified.
\<close>

definition poll_local ::
  "manager_config \<Rightarrow> world \<Rightarrow> poll_world \<Rightarrow> marker \<Rightarrow> job_definition \<Rightarrow> frame \<Rightarrow> bool act" where
  "poll_local mc wo pw m job state =
     (case pw_exit pw of
        None \<Rightarrow> ret False
      | Some status \<Rightarrow>
          andthen
            (if od_present (pw_outcome_after_exit pw) then
               andthen (commit_published_outcome mc wo (pw_outcome_after_exit pw) (environment_log_ready mc pw state) m job state)
                 (\<lambda>_. ret ())
             else handle_attempt_failure wo m job
                    (if status = 0 then ''protocol_error'' else ''process_failure'')
                    (''runner exited with status '' @ int_text status @ '' without an outcome'')
                    (Some status) True None)
            (\<lambda>_. andthen (drop_attempt (attempt_of state)) (\<lambda>_. ret True)))"

definition poll_remote ::
  "manager_config \<Rightarrow> world \<Rightarrow> poll_world \<Rightarrow> marker \<Rightarrow> job_definition \<Rightarrow> frame \<Rightarrow> bool act" where
  "poll_remote mc wo pw m job state =
     andthen (lift (frame_lease_seconds state)) (\<lambda>l.
     andthen (lift (frame_manager_id state)) (\<lambda>owner.
       let lease = (case l of Some x \<Rightarrow> x | None \<Rightarrow> Fin (mc_lease_seconds mc))
       in if manager_alive (pw_heartbeat_age pw 0 owner) lease then ret False
          else case takeover_evidence mc pw job state owner lease of
            None \<Rightarrow> ret False
          | Some evidence \<Rightarrow>
              andthen (handle_attempt_failure wo m job ''lease_lost''
                ''owning manager heartbeat expired'' None True (Some evidence)) (\<lambda>_. ret True)))"

definition poll_one_running ::
  "manager_config \<Rightarrow> world \<Rightarrow> poll_world \<Rightarrow> marker \<Rightarrow> job_definition \<Rightarrow> frame \<Rightarrow> bool act" where
  "poll_one_running mc wo pw m job state =
     andthen (lift (attempt_control_path (pw_outcome pw) state)) (\<lambda>_.
       if od_present (pw_outcome pw) then
         commit_published_outcome mc wo (pw_outcome pw) (environment_log_ready mc pw state) m job state
       else (\<lambda>s.
         if tracked (fst s) (attempt_of state)
         then poll_local mc wo pw m job state s
         else poll_remote mc wo pw m job state s))"

text \<open>
  \<open>_sweep_untracked_attempts\<close>: a local attempt that no running marker names is terminated and
  forgotten, but only once its process is known to have exited (\<open>exits\<close> answers the last
  \<open>poll\<close>), and never while a cancellation owns it or its marker could not be read. All local
  attempts belong to the user of the manager.
\<close>

definition sweep_untracked_attempts ::
  "(string \<Rightarrow> int option) \<Rightarrow> string list \<Rightarrow> string list \<Rightarrow> running_attempt list \<Rightarrow> running_attempt list" where
  "sweep_untracked_attempts exits current unreadable running =
     filter (\<lambda>a. ra_attempt_id a \<in> set current \<or> ra_job_key a \<in> set unreadable \<or> ra_cancelling a \<or>
                 exits (ra_attempt_id a) = None) running"

text \<open>The loop of \<open>_poll_running\<close>: whether anything changed, the attempts seen and the jobs that could not be read.\<close>

fun poll_running_loop ::
  "manager_config \<Rightarrow> (marker \<Rightarrow> world) \<Rightarrow> (marker \<Rightarrow> poll_world) \<Rightarrow> marker list \<Rightarrow>
     (bool \<times> string list \<times> string list) \<Rightarrow> (bool \<times> string list \<times> string list) act" where
  "poll_running_loop mc wo pw [] acc = ret acc"
| "poll_running_loop mc wo pw (m # ms) (changed, current, unreadable) =
     andthen (load_job_and_state m) (\<lambda>l.
       case l of
         None \<Rightarrow> poll_running_loop mc wo pw ms (changed, current, job_key m # unreadable)
       | Some (job, state) \<Rightarrow>
           if \<not> executor_served mc job then poll_running_loop mc wo pw ms (changed, current, unreadable)
           else
             andthen (except (poll_one_running mc (wo m) (pw m) m job state)
               (\<lambda>e. if e = FormatError then
                      andthen (handle_attempt_failure (wo m) m job ''protocol_error''
                        (''running state is unusable: '' @ wo_text (wo m) e) None True None) (\<lambda>_. ret True)
                    else lift (Inl e)))
               (\<lambda>c. poll_running_loop mc wo pw ms (changed \<or> c, attempt_of state # current, unreadable)))"

definition poll_running ::
  "manager_config \<Rightarrow> (marker \<Rightarrow> world) \<Rightarrow> (marker \<Rightarrow> poll_world) \<Rightarrow> (string \<Rightarrow> int option) \<Rightarrow> string list \<Rightarrow>
     marker list \<Rightarrow> bool act" where
  "poll_running mc wo pw exits indeterminate ms =
     andthen (poll_running_loop mc wo pw ms (False, [], [])) (\<lambda>(changed, current, unreadable).
       (\<lambda>(running, st). (Inr changed,
          sweep_untracked_attempts exits current (indeterminate @ unreadable) running, st)))"

end
