(* ===== verification/Manager_Cancellation.thy ===== *)
theory Manager_Cancellation
  imports Manager_Core
begin

text \<open>
  Cancelling (\<open>src/src/httk/workflow/_manager_cancellation.py\<close> and the helpers of
  \<open>manager.py\<close>): a running job is first fenced and moved to \<open>cancelling\<close>; it becomes
  \<open>cancelled\<close> once its attempt is proven to have stopped. A manager keeps, per attempt, when a
  fenced process is killed, and the attempts it has already reported as unverifiable. Signals
  change nothing in the state; what the processes did is observed.
\<close>

section \<open>State and observations\<close>

record cancel_book =
  cb_kill_at :: "(string \<times> rat) list"
  cb_unverified :: "string list"

type_synonym 'a cact = "(cancel_book \<times> mstate, 'a) prog"

record cancel_world =
  cw_monotonic :: rat
  cw_exit :: "int option"
  cw_pid :: int
  cw_group_alive :: "int \<Rightarrow> bool"

definition inner :: "'a act \<Rightarrow> 'a cact" where
  "inner a s = (case s of (book, st) \<Rightarrow> (case a st of (r, st') \<Rightarrow> (r, book, st')))"

definition on_book :: "(cancel_book \<Rightarrow> cancel_book) \<Rightarrow> unit cact" where
  "on_book f s = (case s of (book, st) \<Rightarrow> (Inr (), f book, st))"

text \<open>\<open>_CANCELLING_MEMBERS\<close>.\<close>

definition CANCELLING_MEMBERS :: "string list" where
  "CANCELLING_MEMBERS = CARRIED_STATE_MEMBERS @
     [''attempt_control'', ''manager_id'', ''writer_id'', ''lease_seconds'', ''workdir'', ''started_at'',
      ''process'', ''operator'', ''operator_key'', ''operator_reason'', ''request_id'']"

section \<open>Evidence\<close>

text \<open>
  \<open>evidence\<close>: whether the fenced attempt is proven to have stopped, by the exit of a local
  process or by the absence of its process group on this host.
\<close>

definition cancel_evidence ::
  "manager_config \<Rightarrow> world \<Rightarrow> cancel_world \<Rightarrow> frame \<Rightarrow> running_attempt list \<Rightarrow> obj option" where
  "cancel_evidence mc wo cw state running =
     (case validate_process (get state ''process'') of
        None \<Rightarrow> None
      | Some p \<Rightarrow>
          if tracked running (attempt_of state) then
            (case cw_exit cw of
               None \<Rightarrow> None
             | Some status \<Rightarrow>
                 Some [(''verified'', JStr ''process_exited''), (''hostname'', JStr (mc_hostname mc)),
                       (''pid'', JInt (cw_pid cw)), (''exit_status'', JInt status),
                       (''verified_at'', JStr (wo_now wo))])
          else if get p ''hostname'' \<noteq> JStr (mc_hostname mc) then None
          else (case get p ''process_group'' of
            JInt pgid \<Rightarrow>
              if cw_group_alive cw pgid then None
              else Some [(''verified'', JStr ''process_group_absent''), (''hostname'', JStr (mc_hostname mc)),
                         (''process_group'', JInt pgid), (''verified_at'', JStr (wo_now wo))]
          | _ \<Rightarrow> None))"

definition should_kill :: "rat \<Rightarrow> rat option \<Rightarrow> bool" where
  "should_kill now kill_at = (case kill_at of None \<Rightarrow> False | Some t \<Rightarrow> now \<ge> t)"

text \<open>\<open>_terminate_attempt\<close>: a local attempt is fenced and stays tracked until it was reaped.\<close>

definition set_cancelling :: "string \<Rightarrow> running_attempt list \<Rightarrow> running_attempt list" where
  "set_cancelling i running =
     map (\<lambda>a. if ra_attempt_id a = i then a\<lparr>ra_fenced := True, ra_cancelling := True\<rparr> else a) running"

definition terminate_attempt :: "frame \<Rightarrow> unit act" where
  "terminate_attempt state = (\<lambda>(running, st). (Inr (), set_cancelling (attempt_of state) running, st))"

section \<open>Requesting\<close>

definition fence_members :: "frame \<Rightarrow> obj \<Rightarrow> string option \<Rightarrow> frame" where
  "fence_members state request operator_key =
     (let audited = replace (select CANCELLING_MEMBERS state)
            [(''operator'', get request ''operator''), (''operator_reason'', get request ''reason''),
             (''request_id'', get request ''request_id'')]
      in case operator_key of
           None \<Rightarrow> audited
         | Some k \<Rightarrow> replace audited [(''operator_key'', JStr k)])"

text \<open>\<open>request_cancel\<close>: why the request cannot be applied, if it cannot.\<close>

definition request_cancel ::
  "world \<Rightarrow> marker \<Rightarrow> frame \<Rightarrow> obj \<Rightarrow> string option \<Rightarrow> string option act" where
  "request_cancel wo m state request operator_key =
     (let audited = fence_members state request operator_key
      in if kind m = Cancelling then ret (Some ''the job is already being cancelled'')
         else if kind m = Running then
           andthen (manager_transition wo m Cancelling (replace audited [(''reason'', JStr ''operator_cancel'')]) None)
             (\<lambda>_. andthen (terminate_attempt state) (\<lambda>_. ret None))
         else
           andthen (terminate_attempt state) (\<lambda>_.
           andthen (manager_transition wo m Cancelled
             (replace audited
                [(''cancellation'', JObj [(''verified'', JStr ''no_live_attempt''),
                    (''from_kind'', JStr (kind_name (kind m))), (''verified_at'', JStr (wo_now wo))]),
                 (''reason'', JStr ''operator_cancel'')]) None) (\<lambda>_. ret None)))"

section \<open>Finishing\<close>

definition unverifiable_detail :: "manager_config \<Rightarrow> frame \<Rightarrow> string" where
  "unverifiable_detail mc state =
     (case get state ''process'' of
        JObj p \<Rightarrow>
          if get p ''hostname'' \<noteq> JStr (mc_hostname mc)
          then ''its process is recorded on another host, so this manager cannot prove that it stopped''
          else ''its process identity is missing or malformed, so this manager cannot prove that it stopped''
      | _ \<Rightarrow> ''its running frame has no process identity, so this manager cannot prove that it stopped'')"

definition report_unverifiable :: "manager_config \<Rightarrow> world \<Rightarrow> marker \<Rightarrow> frame \<Rightarrow> unit cact" where
  "report_unverifiable mc wo m state s =
     (if attempt_of state \<in> set (cb_unverified (fst s)) then (Inr (), s)
      else
        andthen (on_book (\<lambda>b. b\<lparr>cb_unverified := attempt_of state # cb_unverified b\<rparr>)) (\<lambda>_.
        except (andthen (inner (manager_transition wo m Cancelling
          (replace (select CANCELLING_MEMBERS state)
             [(''cancellation'', JObj [(''verified'', JNull), (''problem'', JStr ''unverifiable_here''),
                 (''detail'', JStr (unverifiable_detail mc state)), (''observed_by'', JStr (mc_manager_id mc)),
                 (''observed_at'', JStr (wo_now wo))]),
              (''reason'', JStr ''cancel_unverified'')]) None)) (\<lambda>_. ret ()))
          (\<lambda>e. if e = TransitionLostError then ret () else lift (Inl e))) s)"

text \<open>
  \<open>finish\<close>: the first pass terminates the attempt and sets the deadline, a pass after the
  deadline kills it, and the job becomes \<open>cancelled\<close> only with a proof.
\<close>

definition finish_cancellation ::
  "manager_config \<Rightarrow> world \<Rightarrow> cancel_world \<Rightarrow> marker \<Rightarrow> frame \<Rightarrow> bool cact" where
  "finish_cancellation mc wo cw m state =
     (let i = attempt_of state
      in andthen (\<lambda>s.
           case map_of (cb_kill_at (fst s)) i of
             None \<Rightarrow>
               andthen (on_book (\<lambda>b. b\<lparr>cb_kill_at := dict_set i (cw_monotonic cw + mc_cancel_grace_seconds mc) (cb_kill_at b)\<rparr>))
                 (\<lambda>_. inner (terminate_attempt state)) s
           | Some t \<Rightarrow>
               if should_kill (cw_monotonic cw) (Some t) then inner (terminate_attempt state) s else (Inr (), s)) (\<lambda>_.
         (\<lambda>s. case cancel_evidence mc wo cw state (fst (snd s)) of
                None \<Rightarrow> andthen (report_unverifiable mc wo m state) (\<lambda>_. ret False) s
              | Some proof_members \<Rightarrow>
                  andthen (inner (drop_attempt i)) (\<lambda>_.
                  andthen (on_book (\<lambda>b. b\<lparr>cb_kill_at := dict_del i (cb_kill_at b),
                      cb_unverified := filter (\<lambda>j. j \<noteq> i) (cb_unverified b)\<rparr>)) (\<lambda>_.
                  andthen (inner (manager_transition wo m Cancelled
                    (replace (select CANCELLING_MEMBERS state)
                       [(''cancellation'', JObj proof_members), (''reason'', JStr ''operator_cancel'')]) None))
                    (\<lambda>_. ret True))) s)))"

text \<open>The body of \<open>process\<close>.\<close>

definition process_cancelling ::
  "manager_config \<Rightarrow> world \<Rightarrow> cancel_world \<Rightarrow> marker \<Rightarrow> bool cact" where
  "process_cancelling mc wo cw m =
     andthen (inner (load_job_and_state m)) (\<lambda>l.
     case l of
       None \<Rightarrow> ret False
     | Some (job, state) \<Rightarrow>
         if \<not> executor_served mc job then ret False
         else except (finish_cancellation mc wo cw m state)
                (\<lambda>e. if caught e then ret False else lift (Inl e)))"

end
