(* ===== verification/Manager_Joins.thy ===== *)
theory Manager_Joins
  imports Manager_Core
begin

text \<open>
  Waiting jobs (\<open>src/src/httk/workflow/_manager_joins.py\<close> and the join pass of
  \<open>manager.py\<close>): observing the children a join names, deciding the join, and the grace given
  to a child that cannot be resolved. Reading a timestamp is a parameter of the world.
\<close>

section \<open>Observing children\<close>

definition find_at :: "string \<Rightarrow> string list \<Rightarrow> marker option act" where
  "find_at key pl s =
     (case s of (running, w, ws) \<Rightarrow>
        (case find_marker_at (ws_tree ws) key pl (ws_index ws) of
           (r, idx) \<Rightarrow> (r, running, w, ws\<lparr>ws_index := idx\<rparr>)))"

text \<open>\<open>(base / PurePosixPath(text)).as_posix()\<close> for a relative base; two leading slashes stay.\<close>

definition posix_join :: "string list \<Rightarrow> string \<Rightarrow> string" where
  "posix_join base text' =
     (let p = pure_posix_path text'
      in if absolute p then
           (if starts_with ''//'' text' \<and> \<not> starts_with ''///'' text' then ''//'' else ''/'') @
             join_with ''/'' (parts p)
         else as_posix (base @ parts p))"

definition child_workdir_path :: "job_definition res \<Rightarrow> frame \<Rightarrow> string list \<Rightarrow> json res" where
  "child_workdir_path loaded_job state payload =
     (let recorded = (case frame_workdir state of Some t \<Rightarrow> JStr (posix_join payload t) | None \<Rightarrow> JNull)
      in case loaded_job of
           Inl e \<Rightarrow> if caught e then Inr recorded else Inl e
         | Inr job \<Rightarrow>
             if jd_workdir_mode job = ''persistent'' then Inr (JStr (as_posix (payload @ jd_workdir_path job)))
             else (case frame_attempt_id state of
               Some i \<Rightarrow>
                 Inr (JStr (posix_join (payload @ butlast (jd_workdir_path job))
                   ((if jd_workdir_path job = [] then [] else last (jd_workdir_path job)) @ ''.'' @ i)))
             | None \<Rightarrow> Inr recorded))"

definition child_failure :: "kind \<Rightarrow> frame \<Rightarrow> json res" where
  "child_failure k state =
     (if k \<notin> {Failed, Cancelled} then Inr JNull
      else case frame_failure state of
        None \<Rightarrow> Inr JNull
      | Some raw \<Rightarrow>
          (case validate_failure (JObj raw) of
             Inr f \<Rightarrow> Inr (JObj (failure_as_mapping f))
           | Inl e \<Rightarrow> if e = FormatError then Inr (JObj raw) else Inl e))"

definition child_evidence :: "marker \<Rightarrow> obj act" where
  "child_evidence m =
     andthen (except (read_frame_act m) (\<lambda>e. if caught e then ret [] else lift (Inl e))) (\<lambda>state.
     andthen (lift (child_failure (kind m) state)) (\<lambda>failure.
     (\<lambda>s. lift (bindr (child_workdir_path (load_job (snd (snd s)) m) state (placement m @ [job_key m])) (\<lambda>workdir.
        Inr [(''failure'', failure), (''workdir_path'', workdir),
             (''data_generation'', of_opt_int (frame_data_generation state))])) s)))"

definition observation :: "string \<Rightarrow> string \<Rightarrow> json \<Rightarrow> marker \<Rightarrow> obj" where
  "observation workspace_id child_id label m =
     [(''workspace_id'', JStr workspace_id), (''job_id'', JStr child_id), (''job_key'', JStr (job_key m)),
      (''label'', label), (''placement'', JStr (as_posix (placement m))), (''kind'', JStr (kind_name (kind m))),
      (''state_generation'', JInt (int (generation m))), (''record_ref'', JStr (record_ref m)),
      (''payload_path'', JStr (as_posix (placement m @ [job_key m])))]"

text \<open>One child reference of a join: its identifier, label, key and placement hint.\<close>

definition child_reference :: "json \<Rightarrow> (string \<times> json \<times> string \<times> string list) res" where
  "child_reference v =
     bindr (require_mapping v) (\<lambda>reference.
     bindr (canonical_uuid (get reference ''job_id'')) (\<lambda>child_id.
     bindr (if get reference ''label'' = JNull then Inr JNull
            else bindr (validate_label (get reference ''label'')) (\<lambda>l. Inr (JStr l))) (\<lambda>label.
     case (get reference ''placement_hint'', get reference ''job_key'') of
       (JStr hint, JStr key) \<Rightarrow> bindr (normalize_placement hint) (\<lambda>pl. Inr (child_id, label, key, pl))
     | _ \<Rightarrow> Inl FormatError)))"

fun observe_children ::
  "json list \<Rightarrow> (kind \<times> obj) list \<Rightarrow> ((kind \<times> obj) list \<times> string option) act" where
  "observe_children [] seen = ret (seen, None)"
| "observe_children (v # vs) seen =
     andthen (lift (child_reference v)) (\<lambda>(child_id, label, key, pl).
     andthen (find_at key pl) (\<lambda>found.
     case found of
       None \<Rightarrow> ret (seen, Some child_id)
     | Some m \<Rightarrow>
         if job_id m \<noteq> child_id then lift (Inl FormatError)
         else andthen (child_evidence m) (\<lambda>evidence.
           (\<lambda>s. observe_children vs
              (seen @ [(kind m, observation (ws_id (snd (snd s))) child_id label m @ evidence)]) s))))"

section \<open>Unresolved children\<close>

definition fail_waiting :: "world \<Rightarrow> marker \<Rightarrow> frame \<Rightarrow> string \<Rightarrow> string \<Rightarrow> string \<Rightarrow> unit act" where
  "fail_waiting wo m state c msg reason =
     except (andthen (manager_transition wo m Failed
       (replace (carried state) [(''failure'', manager_failure c msg None), (''reason'', JStr reason)]) None)
         (\<lambda>_. ret ()))
       (\<lambda>e. if e = TransitionLostError then ret () else lift (Inl e))"

text \<open>
  When the child was first found unresolvable: the recorded text when the frame names the same
  child, and the instant. A text that is no timestamp counts as not recorded.
\<close>

definition first_unresolved :: "world \<Rightarrow> frame \<Rightarrow> string \<Rightarrow> (bool \<times> rat) res" where
  "first_unresolved wo state child_id =
     (case frame_join_unresolved state of
        None \<Rightarrow> Inr (False, wo_time wo)
      | Some r \<Rightarrow>
          if \<not> eq_str (get r ''child_id'') child_id then Inr (False, wo_time wo)
          else (case get r ''first_unresolved_at'' of
            JStr t \<Rightarrow>
              if t = [] then Inr (False, wo_time wo)
              else (case wo_timestamp wo t of
                Inr x \<Rightarrow> Inr (True, x)
              | Inl e \<Rightarrow> if e = ValueError then Inr (False, wo_time wo) else Inl e)
          | _ \<Rightarrow> Inr (False, wo_time wo)))"

definition handle_unresolved_join :: "manager_config \<Rightarrow> world \<Rightarrow> marker \<Rightarrow> frame \<Rightarrow> string \<Rightarrow> bool act" where
  "handle_unresolved_join mc wo m state child_id =
     andthen (lift (first_unresolved wo state child_id)) (\<lambda>(already_recorded, first_at).
       if wo_time wo - first_at \<ge> mc_join_grace_seconds mc then
         andthen (fail_waiting wo m state ''dependency_failure''
           (''join child '' @ child_id @ '' cannot be resolved in this workspace'') ''join_unresolvable'')
           (\<lambda>_. ret True)
       else if already_recorded then ret False
       else
         andthen (manager_transition wo m Waiting
           (replace (select (CARRIED_STATE_MEMBERS @ [''next_step'', ''join'']) state)
              [(''join_unresolved'', JObj [(''child_id'', JStr child_id), (''first_unresolved_at'', JStr (wo_now wo))]),
               (''reason'', JStr ''join_child_unresolved'')]) None) (\<lambda>_. ret True))"

section \<open>Deciding a join\<close>

definition resources_json :: "requirement option \<Rightarrow> json" where
  "resources_json r = (case r of None \<Rightarrow> JNull | Some r \<Rightarrow> JObj (map (\<lambda>(k, v). (k, JInt v)) r))"

definition join_children :: "obj \<Rightarrow> json list res" where
  "join_children join = (case get join ''children'' of JArr (v # vs) \<Rightarrow> Inr (v # vs) | _ \<Rightarrow> Inl FormatError)"

text \<open>A condition that is no string is not the name of one.\<close>

definition join_decision :: "obj \<Rightarrow> kind list \<Rightarrow> join_result res" where
  "join_decision join kinds =
     (case get_default join ''condition'' (JStr []) of
        JStr condition \<Rightarrow> join_classify condition join kinds
      | _ \<Rightarrow> Inl FormatError)"

text \<open>The step to advance to when the join became impossible, if it names one.\<close>

definition impossible_step :: "obj \<Rightarrow> json option" where
  "impossible_step join =
     (case get join ''on_impossible'' of
        JObj o' \<Rightarrow> if eq_str (get o' ''action'') ''advance'' then Some (get o' ''next_step'') else None
      | _ \<Rightarrow> None)"

definition join_advance ::
  "world \<Rightarrow> marker \<Rightarrow> job_definition \<Rightarrow> frame \<Rightarrow> json \<Rightarrow> string \<Rightarrow> obj list \<Rightarrow> bool act" where
  "join_advance wo m job state step_value reason observations =
     andthen (lift (validate_step step_value)) (\<lambda>step.
     andthen (lift (frame_resources state)) (\<lambda>resources.
     andthen (advance wo m job state step (carried state) reason (JArr (map JObj observations))
       (resources_json resources) None) (\<lambda>_. ret True)))"

definition evaluate_join :: "manager_config \<Rightarrow> world \<Rightarrow> marker \<Rightarrow> job_definition \<Rightarrow> frame \<Rightarrow> bool act" where
  "evaluate_join mc wo m job state =
     (case frame_join state of
        None \<Rightarrow> lift (Inl FormatError)
      | Some join \<Rightarrow>
          andthen (lift (join_children join)) (\<lambda>vs.
          andthen (observe_children vs []) (\<lambda>(observed, unresolved).
          case unresolved of
            Some child_id \<Rightarrow> handle_unresolved_join mc wo m state child_id
          | None \<Rightarrow>
              andthen (lift (join_decision join (map fst observed))) (\<lambda>d.
              case d of
                Blocked \<Rightarrow> ret False
              | Satisfied \<Rightarrow>
                  join_advance wo m job state (of_opt_str (frame_next_step state)) ''join_satisfied'' (map snd observed)
              | Impossible \<Rightarrow>
                  (case impossible_step join of
                     Some step_value \<Rightarrow>
                       join_advance wo m job state step_value ''join_impossible'' (map snd observed)
                   | None \<Rightarrow>
                       andthen (manager_transition wo m Failed
                         (replace (carried state)
                            [(''failure'', manager_failure ''dependency_failure'' ''join condition became impossible'' None),
                             (''join_summary'', JArr (map JObj (map snd observed))),
                             (''reason'', JStr ''join_impossible'')]) None) (\<lambda>_. ret True))))))"

text \<open>The body of \<open>_evaluate_joins\<close>.\<close>

definition evaluate_join_pass :: "manager_config \<Rightarrow> world \<Rightarrow> marker \<Rightarrow> bool act" where
  "evaluate_join_pass mc wo m =
     andthen (load_job_and_state m) (\<lambda>l.
     case l of
       None \<Rightarrow> ret False
     | Some (job, state) \<Rightarrow>
         if \<not> executor_served mc job then ret False
         else
           except (evaluate_join mc wo m job state)
             (\<lambda>e. if e = TransitionLostError then ret False
                  else if e = FormatError then
                    andthen (fail_waiting wo m state ''protocol_error'' (''join is unusable: '' @ wo_text wo e)
                      ''protocol_error'') (\<lambda>_. ret True)
                  else if caught e then ret False
                  else lift (Inl e)))"

end
