(* ===== verification/Manager_Requests.thy ===== *)
theory Manager_Requests
  imports Manager_Cancellation Manager_Joins Transactions
begin

text \<open>
  Operator requests (\<open>src/src/httk/workflow/_manager_requests.py\<close> and the helpers of
  \<open>manager.py\<close>): resolving the job of a request, refusing what is stale, applying the action,
  and the way of a request file from \<open>ready\<close> through \<open>claimed\<close> to its end. The verification of
  signatures is a parameter; what the file system answers is observed.
\<close>

section \<open>Validation\<close>

record signature =
  sig_present :: bool
  sig_valid :: bool
  sig_operator_key :: "string option"

definition operator_key :: "signature \<Rightarrow> string option res" where
  "operator_key sig =
     (if \<not> sig_present sig then Inr None
      else if \<not> sig_valid sig then Inl FormatError
      else Inr (sig_operator_key sig))"

definition resolve_marker :: "obj \<Rightarrow> marker option act" where
  "resolve_marker request =
     (case (get request ''job_key'', get request ''job_id'', get request ''placement'') of
        (JStr key, JStr i, JStr pl_text) \<Rightarrow>
          andthen (lift (parse_job_key key)) (\<lambda>(_, key_id).
            if key_id \<noteq> i then lift (Inl FormatError)
            else andthen (lift (normalize_placement pl_text)) (\<lambda>pl. find_at key pl))
      | _ \<Rightarrow> lift (Inl FormatError))"

definition validate_envelope :: "obj \<Rightarrow> unit res" where
  "validate_envelope request =
     (if \<not> eq_str (get request ''format'') ''httk-workflow-request'' \<or>
         \<not> eq_int (get request ''format_version'') 2 then Inl FormatError else Inr ())"

definition PRIORITY_KINDS :: "kind list" where
  "PRIORITY_KINDS = [Submitted, Ready, Waiting, Paused, Failed]"

definition action_class :: "json \<Rightarrow> kind \<Rightarrow> string res" where
  "action_class action k =
     (if eq_str action ''cancel'' \<and> k \<notin> {Succeeded, Failed, Cancelled} then Inr ''cancel''
      else if eq_str action ''set_priority'' \<and> k \<in> set PRIORITY_KINDS then Inr ''set_priority''
      else if eq_str action ''pause'' \<and>
        k \<in> {Submitted, Ready, Waiting, Claimed, Running, Committing, Paused} then Inr ''pause''
      else if eq_str action ''continue'' \<and> k \<in> {Failed, Paused} then Inr ''continue''
      else if eq_str action ''override_step'' \<and> k \<in> {Failed, Paused} then Inr ''override_step''
      else Inl FormatError)"

section \<open>The decided join of a parent\<close>

definition parent_reference :: "job_definition \<Rightarrow> (string \<times> string \<times> string) option" where
  "parent_reference job =
     (case jd_parent job of
        None \<Rightarrow> None
      | Some p \<Rightarrow>
          (case (canonical_uuid (get p ''job_id''), get p ''job_key'', get p ''placement'') of
             (Inr i, JStr key, JStr pl) \<Rightarrow> Some (i, key, pl)
           | _ \<Rightarrow> None))"

definition summary_observation :: "json \<Rightarrow> string \<Rightarrow> obj option" where
  "summary_observation summary child_id =
     (case summary of
        JArr vs \<Rightarrow>
          (case filter (\<lambda>v. case v of JObj p \<Rightarrow> eq_str (get p ''job_id'') child_id | _ \<Rightarrow> False) vs of
             JObj p # _ \<Rightarrow> Some p | _ \<Rightarrow> None)
      | _ \<Rightarrow> None)"

text \<open>\<open>_decided_join_hazard\<close>; \<open>str_of\<close> is \<open>str(...)\<close> of a value that is no string.\<close>

definition decided_join_hazard ::
  "(json \<Rightarrow> string) \<Rightarrow> marker \<Rightarrow> job_definition \<Rightarrow> obj option act" where
  "decided_join_hazard str_of m job =
     (case parent_reference job of
        None \<Rightarrow> ret None
      | Some (parent_id, key, pl_text) \<Rightarrow>
          except
            (andthen (lift (normalize_placement pl_text)) (\<lambda>pl.
             andthen (find_at key pl) (\<lambda>found.
             case found of
               None \<Rightarrow> ret None
             | Some parent \<Rightarrow>
                 if job_id parent \<noteq> parent_id then ret None
                 else andthen (read_frame_act parent) (\<lambda>state.
                   ret (case summary_observation (get state ''join_summary'') (job_id m) of
                          None \<Rightarrow> None
                        | Some seen \<Rightarrow>
                            Some [(''parent_job_id'', JStr parent_id), (''parent_job_key'', JStr (job_key parent)),
                                  (''parent_kind'', JStr (kind_name (kind parent))),
                                  (''parent_generation'', JInt (int (generation parent))),
                                  (''observed_kind'', JStr (case get seen ''kind'' of JStr s \<Rightarrow> s | v \<Rightarrow> str_of v)),
                                  (''observed_generation'', get seen ''state_generation'')])))))
            (\<lambda>e. if caught e then ret None else lift (Inl e)))"

section \<open>Applying a request\<close>

definition audit_frame :: "frame \<Rightarrow> obj \<Rightarrow> string option \<Rightarrow> frame" where
  "audit_frame state request op_key =
     (let audit = replace (carried state)
            [(''operator'', get request ''operator''), (''operator_reason'', get request ''reason''),
             (''request_id'', get request ''request_id'')]
      in case op_key of None \<Rightarrow> audit | Some k \<Rightarrow> replace audit [(''operator_key'', JStr k)])"

definition envelope_names :: "string list" where
  "envelope_names =
     [''format'', ''format_version'', ''workspace_id'', ''job_id'', ''job_key'', ''placement'',
      ''state_generation'', ''kind'', ''previous_record_ref'', ''created_at'', ''priority'']"

definition pause_frame :: "world \<Rightarrow> frame \<Rightarrow> obj \<Rightarrow> frame" where
  "pause_frame wo state request =
     replace (filter (\<lambda>(name, _). name \<notin> set envelope_names) state)
       [(''pause_requested'', JObj
          [(''operator'', get request ''operator''), (''reason'', get request ''reason''),
           (''request_id'', get request ''request_id''),
           (''requested_at'', case get request ''created_at'' of
              JStr t \<Rightarrow> if t = [] then JStr (wo_now wo) else JStr t | _ \<Rightarrow> JStr (wo_now wo))])]"

text \<open>The request still describes the marker it was written for.\<close>

definition expected_state :: "obj \<Rightarrow> (int \<times> string option) res" where
  "expected_state request =
     (case get request ''expected_generation'' of
        JInt g \<Rightarrow>
          (case get request ''expected_record_ref'' of
             JNull \<Rightarrow> Inr (g, None)
           | JStr r \<Rightarrow> Inr (g, Some r)
           | _ \<Rightarrow> Inl FormatError)
      | _ \<Rightarrow> Inl FormatError)"

definition hazard_refusal :: "obj \<Rightarrow> string" where
  "hazard_refusal h =
     ''this job was already consumed by the decided join of parent '' @
     (case get h ''parent_job_key'' of JStr k \<Rightarrow> k | _ \<Rightarrow> []) @ '', which observed it as '' @
     (case get h ''observed_kind'' of JStr k \<Rightarrow> k | _ \<Rightarrow> []) @
     ''; reviving it now races the parent reading its outputs. '' @
     ''Republish the request with force to accept that hazard, or continue the parent instead''"

definition revive ::
  "(json \<Rightarrow> string) \<Rightarrow> world \<Rightarrow> marker \<Rightarrow> job_definition \<Rightarrow> frame \<Rightarrow> frame \<Rightarrow> obj \<Rightarrow> string \<Rightarrow> string option act" where
  "revive str_of wo m job state audit request action =
     andthen (decided_join_hazard str_of m job) (\<lambda>hazard.
     if hazard \<noteq> None \<and> \<not> truthy (get request ''force'') then ret (Some (hazard_refusal (the hazard)))
     else
       let audit = (case hazard of None \<Rightarrow> audit | Some h \<Rightarrow> replace audit [(''revival_hazard'', JObj h)])
       in if action = ''continue'' then
            if frame_activation_id state = None then lift (Inl FormatError)
            else andthen (retry wo m job state audit ''manual_continue'' False None None) (\<lambda>_. ret None)
          else
            andthen (lift (validate_step (get request ''step''))) (\<lambda>step.
            andthen (advance wo m job state step audit ''operator_override_step'' JNull JNull None) (\<lambda>_. ret None)))"

definition apply_action_request ::
  "(json \<Rightarrow> string) \<Rightarrow> world \<Rightarrow> marker \<Rightarrow> job_definition \<Rightarrow> frame \<Rightarrow> obj \<Rightarrow> string option \<Rightarrow> string option act" where
  "apply_action_request str_of wo m job state request op_key =
     (let action = get request ''action''; audit = audit_frame state request op_key
      in if eq_str action ''cancel'' \<and> \<not> terminal (kind m) then
           request_cancel wo m state request op_key
         else if eq_str action ''set_priority'' \<and> kind m \<in> set PRIORITY_KINDS then
           andthen (lift (py_int (get_default request ''priority'' (JInt (- 1))))) (\<lambda>prio.
           andthen (manager_transition wo m (kind m)
             (replace (dict_update audit (select [''join'', ''join_summary'', ''next_step'', ''pause'',
                 ''pause_requested'', ''failure''] state)) [(''reason'', JStr ''operator_priority'')]) (Some prio))
             (\<lambda>_. ret None))
         else if eq_str action ''pause'' \<and> kind m \<in> {Claimed, Running, Committing} then
           andthen (manager_transition wo m (kind m) (pause_frame wo state request) None) (\<lambda>_. ret None)
         else if eq_str action ''pause'' \<and> kind m \<in> {Submitted, Ready, Waiting} then
           andthen (manager_transition wo m Paused (replace audit [(''reason'', JStr ''operator_pause'')]) None)
             (\<lambda>_. ret None)
         else if eq_str action ''pause'' \<and> kind m = Paused then ret None
         else if eq_str action ''continue'' \<and> kind m \<in> {Failed, Paused} then
           revive str_of wo m job state audit request ''continue''
         else if eq_str action ''override_step'' \<and> kind m \<in> {Failed, Paused} then
           revive str_of wo m job state audit request ''override_step''
         else lift (Inl FormatError))"

definition apply_request ::
  "(json \<Rightarrow> string) \<Rightarrow> world \<Rightarrow> signature \<Rightarrow> obj \<Rightarrow> string option act" where
  "apply_request str_of wo sig request =
     andthen (lift (validate_envelope request)) (\<lambda>_.
     andthen (lift (operator_key sig)) (\<lambda>op_key.
     andthen (resolve_marker request) (\<lambda>found.
     case found of
       None \<Rightarrow> lift (Inl FormatError)
     | Some m \<Rightarrow>
         andthen (lift (expected_state request)) (\<lambda>(expected_generation, expected_ref).
         if int (generation m) \<noteq> expected_generation then
           ret (Some (''the job is at generation '' @ nat_text (generation m) @ '', not the expected one''))
         else if Some (record_ref m) \<noteq> expected_ref then
           ret (Some ''the job state changed after the request was published'')
         else
           andthen (read_frame_act m) (\<lambda>state.
           andthen (load_job_act m) (\<lambda>job.
             apply_action_request str_of wo m job state request op_key))))))"

section \<open>The way of a request file\<close>

text \<open>
  What the pass observes of one file: its content bound to the user who owns the bytes read, or
  that it could not be read for now; the owner its path has; the owner of the marker; whether
  this manager owns the job; whether the rename to \<open>claimed\<close> reached its destination; whether
  the claimed file is the one read; whether a file could be put back,
  quarantined or retired.
\<close>

datatype request_read = Unobservable | Malformed | Contents obj int

record request_world =
  rw_read :: request_read
  rw_path_owner :: "int option"
  rw_marker_owner :: "marker \<Rightarrow> int option"
  rw_owns :: "marker \<Rightarrow> bool option"
  rw_signature :: signature
  rw_claimed :: bool
  rw_same_file :: "bool option"
  rw_restored :: bool
  rw_quarantined :: bool
  rw_retired :: bool
  rw_str :: "json \<Rightarrow> string"

text \<open>Where the file is afterwards; \<open>Skipped\<close> ones are remembered and not read again.\<close>

datatype fate = Left_Ready | Skipped | Left_Claimed | Quarantined | Retired string | Handled

datatype preflight = Defer | Skip | Refused string | Proceed | Invalid error

text \<open>The checks before a file is claimed. The refusal texts name the users.\<close>

definition check_target ::
  "manager_config \<Rightarrow> request_world \<Rightarrow> int \<Rightarrow> string option \<Rightarrow> marker \<Rightarrow> preflight act" where
  "check_target mc rw author refusal m =
     (case rw_marker_owner rw m of
        None \<Rightarrow> ret Defer
      | Some owner \<Rightarrow>
          if author \<noteq> owner then
            ret (Refused (''request author (uid '' @ int_text author @ '') does not own this job (uid '' @
              int_text owner @ '')''))
          else (case rw_owns rw m of
            None \<Rightarrow> ret Defer
          | Some False \<Rightarrow> ret Skip
          | Some True \<Rightarrow>
              (case refusal of
                 Some r \<Rightarrow> ret (Refused r)
               | None \<Rightarrow>
                   andthen (load_job_act m) (\<lambda>job.
                     if \<not> executor_served mc job then ret Skip else ret Proceed))))"

definition preflight_checks ::
  "manager_config \<Rightarrow> request_world \<Rightarrow> preflight act" where
  "preflight_checks mc rw =
     (case rw_read rw of
        Unobservable \<Rightarrow> ret Defer
      | Malformed \<Rightarrow> ret (Invalid FormatError)
      | Contents request author \<Rightarrow>
          (case rw_path_owner rw of
             None \<Rightarrow> ret Defer
           | Some observed \<Rightarrow>
               let refusal = (if observed = author then None
                     else Some (''request author (uid '' @ int_text observed @ '') does not own this request's read bytes (uid '' @
                       int_text author @ '')''))
               in except
                    (andthen (case (get request ''job_key'', get request ''placement'') of
                                (JStr _, JStr _) \<Rightarrow> resolve_marker request | _ \<Rightarrow> ret None) (\<lambda>found.
                     case found of
                       None \<Rightarrow> ret (case refusal of None \<Rightarrow> Proceed | Some r \<Rightarrow> Refused r)
                     | Some m \<Rightarrow> check_target mc rw author refusal m))
                    (\<lambda>e. if is_os_error e then ret Defer
                         else if is_workflow_error e then ret (Invalid e)
                         else lift (Inl e))))"

text \<open>
  A claimed request is applied. A lost race and a refusal retire it, an invalid one is
  quarantined (or stays claimed when that fails), an \<open>OSError\<close> leaves it claimed for a retry.
\<close>

definition apply_claimed ::
  "world \<Rightarrow> request_world \<Rightarrow> preflight \<Rightarrow> fate act" where
  "apply_claimed wo rw p =
     (let quarantine = (if rw_quarantined rw then Quarantined else Left_Claimed);
          retire = (\<lambda>reason. if rw_retired rw then Retired reason else Left_Claimed)
      in case p of
        Invalid e \<Rightarrow> ret quarantine
      | _ \<Rightarrow>
          (case rw_same_file rw of
             None \<Rightarrow> ret (if rw_restored rw then Left_Ready else Left_Claimed)
           | Some False \<Rightarrow> ret quarantine
           | Some True \<Rightarrow>
               except
                 (andthen (case p of
                             Refused r \<Rightarrow> ret (Some r)
                           | _ \<Rightarrow> (case rw_read rw of
                                 Contents request _ \<Rightarrow> apply_request (rw_str rw) wo (rw_signature rw) request
                               | _ \<Rightarrow> lift (Inl FormatError))) (\<lambda>r.
                    ret (case r of Some reason \<Rightarrow> retire reason | None \<Rightarrow> Handled)))
                 (\<lambda>e. if e = TransitionLostError then ret (retire ''the job moved to another state first'')
                      else if is_os_error e then ret Left_Claimed
                      else if is_workflow_error e \<or> e = ValueError then ret quarantine
                      else lift (Inl e))))"

text \<open>The body of the loop of \<open>handle\<close>: the fate of the file and whether the pass counts a change.\<close>

definition handle_request ::
  "manager_config \<Rightarrow> world \<Rightarrow> request_world \<Rightarrow> (fate \<times> bool) act" where
  "handle_request mc wo rw =
     andthen (preflight_checks mc rw) (\<lambda>p.
     if p = Defer then ret (Left_Ready, False)
     else if p = Skip then ret (Skipped, False)
     else if \<not> rw_claimed rw then ret (Left_Ready, False)
     else andthen (apply_claimed wo rw p) (\<lambda>f. ret (f, True)))"

end
