(* ===== verification/Manager_Tick.thy ===== *)
theory Manager_Tick
  imports Manager_Commit Manager_Requests
begin

text \<open>
  One scheduling pass over everything (\<open>TaskManager.tick\<close>), the census of the work that is left
  (\<open>_manager_scheduling.work_census\<close>) and the loop that ends when there is none
  (\<open>run_until_idle\<close>). Which markers a pass is given is a function of the workspace at its start;
  the collection of garbage and heartbeats change nothing that is modelled here.
\<close>

section \<open>A tick\<close>

record tick_world =
  tw_window :: "kind \<Rightarrow> workspace \<Rightarrow> marker list"
  tw_world :: "kind \<Rightarrow> marker \<Rightarrow> world"
  tw_requests :: "(world \<times> request_world) list"
  tw_validate :: "marker \<Rightarrow> job_definition \<Rightarrow> unit res"
  tw_cancel :: "marker \<Rightarrow> cancel_world"
  tw_spawn :: "marker \<Rightarrow> spawn_world"
  tw_outcome :: "marker \<Rightarrow> outcome_dir"
  tw_poll :: "marker \<Rightarrow> poll_world"
  tw_exits :: "string \<Rightarrow> int option"
  tw_indeterminate :: "string list"
  tw_alive :: "marker \<Rightarrow> string option \<Rightarrow> pyfloat \<Rightarrow> bool"
  tw_launch :: "marker \<Rightarrow> launch_world"
  tw_draining :: bool
  tw_maintenance :: bool

fun for_each :: "('a \<Rightarrow> ('s, bool) prog) \<Rightarrow> 'a list \<Rightarrow> ('s, bool) prog" where
  "for_each body [] = ret False"
| "for_each body (m # ms) =
     andthen (body m) (\<lambda>c. andthen (for_each body ms) (\<lambda>d. ret (c \<or> d)))"

definition over_window ::
  "tick_world \<Rightarrow> kind \<Rightarrow> (marker \<Rightarrow> bool act) \<Rightarrow> bool act" where
  "over_window tw k body s = for_each body (tw_window tw k (snd (snd s))) s"

definition eligible_pass :: "manager_config \<Rightarrow> marker list \<Rightarrow> (marker \<times> requirement) list act" where
  "eligible_pass mc ms =
     (let load = (\<lambda>s m. fst (load_job_and_state m s))
      in (\<lambda>s. (bindr (mapr (\<lambda>m. bindr (load s m) (\<lambda>l. Inr (m, l))) ms)
                (\<lambda>window. Inr (eligible_ready mc window)), s)))"

definition claim_all :: "manager_config \<Rightarrow> tick_world \<Rightarrow> bool \<Rightarrow> bool act" where
  "claim_all mc tw changed s =
     (if tw_draining tw \<or> tw_maintenance tw \<or> workers_full mc (fst s) \<or> exhausted mc (fst s) then (Inr changed, s)
      else andthen (eligible_pass mc (tw_window tw Ready (snd (snd s)))) (\<lambda>candidates.
        claim_pass mc (tw_draining tw) (tw_maintenance tw)
          (\<lambda>m. claim_and_launch mc (tw_world tw Ready m) (tw_launch tw m) m) candidates changed) s)"

definition cancelling_pass :: "manager_config \<Rightarrow> tick_world \<Rightarrow> bool cact" where
  "cancelling_pass mc tw s =
     for_each (\<lambda>m. process_cancelling mc (tw_world tw Cancelling m) (tw_cancel tw m) m)
       (tw_window tw Cancelling (snd (snd (snd s)))) s"

definition poll_pass :: "manager_config \<Rightarrow> tick_world \<Rightarrow> bool act" where
  "poll_pass mc tw s =
     poll_running mc (tw_world tw Running) (tw_poll tw) (tw_exits tw) (tw_indeterminate tw)
       (tw_window tw Running (snd (snd s))) s"

definition tick_passes :: "manager_config \<Rightarrow> tick_world \<Rightarrow> bool cact list" where
  "tick_passes mc tw =
     [inner (for_each (\<lambda>(wo, rw). andthen (handle_request mc wo rw) (\<lambda>(_, c). ret c)) (tw_requests tw)),
      inner (over_window tw Submitted (\<lambda>m. register_submission mc (tw_world tw Submitted m) (tw_validate tw m) m)),
      cancelling_pass mc tw,
      inner (over_window tw Committing (\<lambda>m.
        resume_committing mc (tw_world tw Committing m) (tw_spawn tw m) (tw_outcome tw m) m)),
      inner (over_window tw Waiting (\<lambda>m. evaluate_join_pass mc (tw_world tw Waiting m) m)),
      inner (poll_pass mc tw),
      inner (over_window tw Claimed (\<lambda>m.
        recover_abandoned_claim mc (tw_world tw Claimed m) (tw_alive tw m) m))]"

definition tick :: "manager_config \<Rightarrow> tick_world \<Rightarrow> bool cact" where
  "tick mc tw =
     andthen (for_each (\<lambda>p. p) (tick_passes mc tw)) (\<lambda>changed. inner (claim_all mc tw changed))"

section \<open>The census\<close>

record work_census =
  wc_succeeded :: nat
  wc_failed :: nat
  wc_ready_claimable :: nat
  wc_blocked :: census
  wc_waiting :: nat
  wc_paused :: nat
  wc_actionable :: nat
  wc_unreadable :: nat

definition readable_job :: "workspace \<Rightarrow> marker \<Rightarrow> job_definition option res" where
  "readable_job ws m =
     (case load_job ws m of
        Inr job \<Rightarrow> Inr (Some job) | Inl e \<Rightarrow> if caught e then Inr None else Inl e)"

definition readable_state :: "workspace \<Rightarrow> marker \<Rightarrow> frame option res" where
  "readable_state ws m =
     (case read_state ws m of
        Inr f \<Rightarrow> Inr (Some f) | Inl e \<Rightarrow> if caught e then Inr None else Inl e)"

fun census_pending :: "manager_config \<Rightarrow> workspace \<Rightarrow> marker list \<Rightarrow> work_census \<Rightarrow> work_census res" where
  "census_pending mc ws [] c = Inr c"
| "census_pending mc ws (m # ms) c =
     bindr (readable_job ws m) (\<lambda>job.
     bindr (readable_state ws m) (\<lambda>state.
       case classify_pending mc (kind m) job state (wc_blocked c) of
         (actionable, blocked) \<Rightarrow>
           census_pending mc ws ms
             (c\<lparr>wc_blocked := blocked,
                wc_actionable := wc_actionable c + (if actionable then 1 else 0),
                wc_ready_claimable := wc_ready_claimable c + (if actionable \<and> kind m = Ready then 1 else 0)\<rparr>)))"

fun census_active :: "manager_config \<Rightarrow> workspace \<Rightarrow> marker list \<Rightarrow> work_census \<Rightarrow> work_census res" where
  "census_active mc ws [] c = Inr c"
| "census_active mc ws (m # ms) c =
     bindr (readable_job ws m) (\<lambda>job.
       census_active mc ws ms
         (case job of
            None \<Rightarrow> c\<lparr>wc_unreadable := wc_unreadable c + 1\<rparr>
          | Some job \<Rightarrow> if executor_served mc job then c\<lparr>wc_actionable := wc_actionable c + 1\<rparr> else c))"

definition count_kind :: "tick_world \<Rightarrow> workspace \<Rightarrow> kind \<Rightarrow> nat" where
  "count_kind tw ws k = length (tw_window tw k ws)"

definition empty_census :: census where
  "empty_census = \<lparr>ce_blocked_executor = [], ce_blocked_pool = [], ce_blocked_capability = [],
     ce_blocked_resources = []\<rparr>"

definition take_census :: "manager_config \<Rightarrow> tick_world \<Rightarrow> workspace \<Rightarrow> work_census res" where
  "take_census mc tw ws =
     bindr (census_pending mc ws (tw_window tw Submitted ws @ tw_window tw Ready ws)
       \<lparr>wc_succeeded = count_kind tw ws Succeeded, wc_failed = count_kind tw ws Failed,
        wc_ready_claimable = 0, wc_blocked = empty_census, wc_waiting = count_kind tw ws Waiting,
        wc_paused = count_kind tw ws Paused, wc_actionable = 0, wc_unreadable = 0\<rparr>)
       (census_active mc ws (tw_window tw Committing ws @ tw_window tw Cancelling ws))"

section \<open>Running until idle\<close>

text \<open>
  \<open>run_until_idle\<close>: one observation per pass until the deadline; \<open>None\<close> is \<open>NotIdleError\<close>.
\<close>

fun run_until_idle ::
  "manager_config \<Rightarrow> tick_world list \<Rightarrow> nat \<Rightarrow> (cancel_book \<times> mstate) \<Rightarrow>
     work_census option res \<times> cancel_book \<times> mstate" where
  "run_until_idle mc [] quiet_passes s = (Inr None, s)"
| "run_until_idle mc (tw # tws) quiet_passes s =
     (case tick mc tw s of
        (Inl e, s') \<Rightarrow> (Inl e, s')
      | (Inr changed, s') \<Rightarrow>
          if changed \<or> fst (snd s') \<noteq> [] then run_until_idle mc tws 0 s'
          else (case take_census mc tw (snd (snd (snd s'))) of
            Inl e \<Rightarrow> (Inl e, s')
          | Inr c \<Rightarrow>
              if wc_actionable c > 0 then run_until_idle mc tws 0 s'
              else if quiet_passes + 1 \<ge> 2 then (Inr (Some c), s')
              else run_until_idle mc tws (quiet_passes + 1) s'))"

end
