(* ===== verification/Manager_Invariants.thy ===== *)
theory Manager_Invariants
  imports Manager_Tick
begin

text \<open>
  What every operation of the manager keeps. \<open>step_invariant\<close> is the interface: an invariant
  of the state of the manager that transitions of markers it may move and lookups keep. Inside
  it each operation is shown to keep the invariant once; \<open>manager_invariant\<close> adds the
  operations that change the local attempts, publish children or finish jobs, up to the tick.
\<close>

section \<open>Programs that keep an invariant\<close>

definition keeps :: "('s \<Rightarrow> bool) \<Rightarrow> ('s, 'a) prog \<Rightarrow> ('a \<Rightarrow> bool) \<Rightarrow> bool" where
  "keeps I p Q \<longleftrightarrow> (\<forall>s r s'. I s \<longrightarrow> p s = (r, s') \<longrightarrow> I s' \<and> (\<forall>x. r = Inr x \<longrightarrow> Q x))"

abbreviation safe :: "('s \<Rightarrow> bool) \<Rightarrow> ('s, 'a) prog \<Rightarrow> bool" where
  "safe I p \<equiv> keeps I p (\<lambda>_. True)"

named_theorems safe_intros

lemma keepsI: "(\<And>s r s'. I s \<Longrightarrow> p s = (r, s') \<Longrightarrow> I s' \<and> (\<forall>x. r = Inr x \<longrightarrow> Q x)) \<Longrightarrow> keeps I p Q"
  unfolding keeps_def by blast

lemma keepsD: "keeps I p Q \<Longrightarrow> I s \<Longrightarrow> p s = (r, s') \<Longrightarrow> I s'"
  unfolding keeps_def by blast

lemma keeps_result: "keeps I p Q \<Longrightarrow> I s \<Longrightarrow> p s = (Inr x, s') \<Longrightarrow> Q x"
  unfolding keeps_def by blast

lemma keeps_weaken: "keeps I p Q \<Longrightarrow> (\<And>x. Q x \<Longrightarrow> R x) \<Longrightarrow> keeps I p R"
  unfolding keeps_def by blast

lemma keeps_ret: "Q x \<Longrightarrow> keeps I (ret x) Q"
  by (simp add: keeps_def ret_def)

lemma keeps_lift: "(\<And>x. r = Inr x \<Longrightarrow> Q x) \<Longrightarrow> keeps I (lift r) Q"
  by (simp add: keeps_def lift_def)

lemma keeps_andthen:
  assumes "keeps I p R" and "\<And>x. R x \<Longrightarrow> keeps I (k x) Q"
  shows "keeps I (andthen p k) Q"
proof (rule keepsI)
  fix s r s' assume i: "I s" and a: "andthen p k s = (r, s')"
  obtain x t where p: "p s = (x, t)" by (cases "p s")
  show "I s' \<and> (\<forall>x. r = Inr x \<longrightarrow> Q x)"
  proof (cases x)
    case (Inl e)
    then show ?thesis using a p assms(1) i by (auto simp: andthen_def keeps_def)
  next
    case (Inr y)
    then have "I t" "R y" using assms(1) i p by (auto simp: keeps_def)
    moreover have "k y t = (r, s')" using a p Inr by (simp add: andthen_def)
    ultimately show ?thesis using assms(2) unfolding keeps_def by blast
  qed
qed

lemma keeps_except:
  assumes "keeps I p Q" and "\<And>e. keeps I (h e) Q"
  shows "keeps I (except p h) Q"
proof (rule keepsI)
  fix s r s' assume i: "I s" and a: "except p h s = (r, s')"
  obtain x t where p: "p s = (x, t)" by (cases "p s")
  have t: "I t" using assms(1) i p by (auto simp: keeps_def)
  show "I s' \<and> (\<forall>x. r = Inr x \<longrightarrow> Q x)"
  proof (cases x)
    case (Inl e)
    then have "h e t = (r, s')" using a p by (simp add: except_def)
    with t assms(2) show ?thesis unfolding keeps_def by blast
  next
    case (Inr y)
    then show ?thesis using a p assms(1) i by (auto simp: except_def keeps_def)
  qed
qed

lemma safe_ret [safe_intros]: "safe I (ret x)"
  by (rule keeps_ret) simp

lemma safe_lift [safe_intros]: "safe I (lift r)"
  by (rule keeps_lift) simp

lemma safe_andthen [safe_intros]: "safe I p \<Longrightarrow> (\<And>x. keeps I (k x) Q) \<Longrightarrow> keeps I (andthen p k) Q"
  by (rule keeps_andthen)

lemma safe_except [safe_intros]: "keeps I p Q \<Longrightarrow> (\<And>e. keeps I (h e) Q) \<Longrightarrow> keeps I (except p h) Q"
  by (rule keeps_except)

lemma safe_if [safe_intros]:
  "(c \<Longrightarrow> keeps I p Q) \<Longrightarrow> (\<not> c \<Longrightarrow> keeps I q Q) \<Longrightarrow> keeps I (if c then p else q) Q"
  by simp

lemma safe_let [safe_intros]: "(\<And>x. keeps I (f x) Q) \<Longrightarrow> keeps I (Let v f) Q"
  by simp

lemma safe_option [safe_intros]:
  "keeps I p Q \<Longrightarrow> (\<And>x. v = Some x \<Longrightarrow> keeps I (f x) Q) \<Longrightarrow>
     keeps I (case v of None \<Rightarrow> p | Some x \<Rightarrow> f x) Q"
  by (cases v) auto

lemma safe_prod [safe_intros]: "(\<And>a b. keeps I (f a b) Q) \<Longrightarrow> keeps I (case v of (a, b) \<Rightarrow> f a b) Q"
  by (cases v) auto

lemma safe_json [safe_intros]:
  "keeps I n Q \<Longrightarrow> (\<And>x. keeps I (b x) Q) \<Longrightarrow> (\<And>x. keeps I (i x) Q) \<Longrightarrow> (\<And>x. keeps I (f x) Q) \<Longrightarrow>
   (\<And>x. keeps I (s x) Q) \<Longrightarrow> (\<And>x. v = JArr x \<Longrightarrow> keeps I (a x) Q) \<Longrightarrow>
   (\<And>x. v = JObj x \<Longrightarrow> keeps I (m x) Q) \<Longrightarrow>
     keeps I (case v of JNull \<Rightarrow> n | JBool x \<Rightarrow> b x | JInt x \<Rightarrow> i x | JFloat x \<Rightarrow> f x | JStr x \<Rightarrow> s x
       | JArr x \<Rightarrow> a x | JObj x \<Rightarrow> m x) Q"
  by (cases v) auto

lemma safe_choose:
  assumes "safe I p" and "safe I q"
  shows "safe I (\<lambda>s. if c s then p s else q s)"
proof (rule keepsI)
  fix s r s' assume i: "I s" and c: "(if c s then p s else q s) = (r, s')"
  have "I s'"
  proof (cases "c s")
    case True
    with c have "p s = (r, s')" by simp
    from keepsD [OF assms(1) i this] show ?thesis .
  next
    case False
    with c have "q s = (r, s')" by simp
    from keepsD [OF assms(2) i this] show ?thesis .
  qed
  then show "I s' \<and> (\<forall>x. r = Inr x \<longrightarrow> True)" by simp
qed

lemma safe_choose_option:
  assumes "safe I p" and "\<And>x. safe I (q x)"
  shows "safe I (\<lambda>s. case c s of None \<Rightarrow> p s | Some x \<Rightarrow> q x s)"
proof (rule keepsI)
  fix s r s' assume i: "I s" and e: "(case c s of None \<Rightarrow> p s | Some x \<Rightarrow> q x s) = (r, s')"
  have "I s'"
  proof (cases "c s")
    case None
    with e have "p s = (r, s')" by simp
    from keepsD [OF assms(1) i this] show ?thesis .
  next
    case (Some x)
    with e have "q x s = (r, s')" by simp
    from keepsD [OF assms(2) i this] show ?thesis .
  qed
  then show "I s' \<and> (\<forall>x. r = Inr x \<longrightarrow> True)" by simp
qed

lemma keeps_function: "keeps I (\<lambda>s. p s) Q \<Longrightarrow> keeps I p Q"
  by simp

lemma join_result_cases:
  "(v = Satisfied \<Longrightarrow> keeps I a Q) \<Longrightarrow> (v = Impossible \<Longrightarrow> keeps I b Q) \<Longrightarrow> (v = Blocked \<Longrightarrow> keeps I c Q) \<Longrightarrow>
     keeps I (case v of Satisfied \<Rightarrow> a | Impossible \<Rightarrow> b | Blocked \<Rightarrow> c) Q"
  by (cases v) auto

section \<open>The interface\<close>

text \<open>The children an outcome spawns are published where \<open>homed\<close> allows.\<close>

definition homed_child :: "(string \<Rightarrow> string list \<Rightarrow> bool) \<Rightarrow> spawn_world \<Rightarrow> json \<Rightarrow> bool" where
  "homed_child homed sw v =
     (case v of
        JObj raw \<Rightarrow>
          (case normalize_placement (py_str sw (get_default raw ''placement'' (JStr []))) of
             Inr pl \<Rightarrow> homed (py_str sw (get_default raw ''job_key'' (JStr []))) pl | Inl _ \<Rightarrow> True)
      | _ \<Rightarrow> True)"

definition homed_children :: "(string \<Rightarrow> string list \<Rightarrow> bool) \<Rightarrow> spawn_world \<Rightarrow> outcome_dir \<Rightarrow> bool" where
  "homed_children homed sw od \<longleftrightarrow>
     (\<forall>spawn vs. read_json_text (od_spawn od) = Inr spawn \<longrightarrow> get spawn ''children'' = JArr vs \<longrightarrow>
        list_all (homed_child homed sw) vs)"

text \<open>The renames a tick may perform, and windows that hold the markers of the kind asked for.\<close>

definition tick_renames :: "tick_world \<Rightarrow> rename_env set" where
  "tick_renames tw =
     {wo_rename (tw_world tw k m) n k' |k m n k'. True} \<union>
     {wo_rename wo n k' |wo rw n k'. (wo, rw) \<in> set (tw_requests tw)}"

definition proper_windows :: "tick_world \<Rightarrow> bool" where
  "proper_windows tw \<longleftrightarrow>
     (\<forall>k ws m. m \<in> set (tw_window tw k ws) \<longrightarrow> 
        marker_from_path (path m) = Inr m \<and> kind m = k \<and> k \<in> set CORE_STATE_KINDS)"

text \<open>Kinds that are final: no operation of a manager moves a job out of them.\<close>

definition final :: "kind \<Rightarrow> bool" where
  "final k \<longleftrightarrow> k \<in> {Succeeded, Cancelled}"

locale step_invariant =
  fixes inv :: "mstate \<Rightarrow> bool"
    and held :: "marker \<Rightarrow> bool"
    and fair :: "rename_env \<Rightarrow> bool"
  assumes transition_keeps: "inv (R, w, ws) \<Longrightarrow> held m \<Longrightarrow> fair env \<Longrightarrow> k \<in> set CORE_STATE_KINDS \<Longrightarrow>
      transition env now m k u prio False w ws = (r, w', ws') \<Longrightarrow>
      inv (R, w', ws') \<and> (\<forall>n. r = Inr n \<longrightarrow> \<not> final k \<longrightarrow> held n)"
    and look_keeps: "inv (R, w, ws) \<Longrightarrow> find_marker_at (ws_tree ws) key pl (ws_index ws) = (x, idx) \<Longrightarrow>
      inv (R, w, ws\<lparr>ws_index := idx\<rparr>) \<and> (\<forall>n. x = Inr (Some n) \<longrightarrow> \<not> final (kind n) \<longrightarrow> held n)"
begin

lemma reads_safe [safe_intros]:
  "safe inv (read_frame_act m)" "safe inv (load_job_act m)" "safe inv (load_job_and_state m)"
  by (simp_all add: keeps_def read_frame_act_def load_job_act_def load_job_and_state_def andthen_def
      except_def ret_def lift_def split: sum.splits if_splits)

lemma state_safe [safe_intros]: "safe inv (\<lambda>s. lift (f s) s)"
  by (simp add: keeps_def lift_def)

definition fair_world :: "world \<Rightarrow> marker \<Rightarrow> bool" where
  "fair_world wo m \<longleftrightarrow> held m \<and> (\<forall>n k. fair (wo_rename wo n k))"

lemma fair_worldD: "fair_world wo m \<Longrightarrow> held m" "fair_world wo m \<Longrightarrow> fair (wo_rename wo n k)"
  by (auto simp: fair_world_def)

lemma fair_world_move: "fair_world wo m \<Longrightarrow> held n \<Longrightarrow> fair_world wo n"
  by (simp add: fair_world_def)

lemma core_paused: "Paused \<in> set CORE_STATE_KINDS"
  by code_simp

lemma resolve_pause_kind: "resolve_pause from k u cur = Inr (k', u') \<Longrightarrow> k' = k \<or> (k' = Paused \<and> \<not> final k)"
  unfolding resolve_pause_def Let_def final_def
  by (cases "k \<in> {Ready, Waiting}") (auto split: if_splits option.splits)

lemma manager_transition_keeps:
  assumes "fair_world wo m" and "k \<in> set CORE_STATE_KINDS"
  shows "keeps inv (manager_transition wo m k u prio) (\<lambda>n. \<not> final k \<longrightarrow> held n)"
proof (rule keepsI)
  fix s r s'
  assume i: "inv s" and t: "manager_transition wo m k u prio s = (r, s')"
  obtain R w ws where s: "s = (R, w, ws)" by (cases s)
  let ?cur = "if k \<in> {Ready, Waiting, Paused} \<and> \<not> has_key u ''pause_requested''
    then (case read_state ws m of Inr f \<Rightarrow> Inr (Some f) | Inl e \<Rightarrow> if caught e then Inr None else Inl e)
    else Inr None"
  show "inv s' \<and> (\<forall>n. r = Inr n \<longrightarrow> \<not> final k \<longrightarrow> held n)"
  proof (cases "bindr ?cur (resolve_pause (kind m) k u)")
    case (Inl e)
    then have "(r, s') = (Inl e, s)" using t unfolding s manager_transition_def by (simp add: Let_def)
    with i show ?thesis by simp
  next
    case (Inr p)
    obtain k' u' where p: "p = (k', u')" by (cases p)
    obtain x w' ws' where tr: "transition (wo_rename wo m k') (wo_now wo) m k' u' prio False w ws = (x, w', ws')"
      by (cases "transition (wo_rename wo m k') (wo_now wo) m k' u' prio False w ws")
    have "(r, s') = (x, R, w', ws')"
      using t Inr tr unfolding s manager_transition_def by (simp add: Let_def p)
    moreover obtain c where "resolve_pause (kind m) k u c = Inr (k', u')"
      using Inr p by (auto simp: res_simps)
    then have "k' = k \<or> (k' = Paused \<and> \<not> final k)" by (rule resolve_pause_kind)
    moreover from this have "k' \<in> set CORE_STATE_KINDS" using assms(2) core_paused by auto
    ultimately show ?thesis
      using transition_keeps [OF i [unfolded s] fair_worldD(1) [OF assms(1)] fair_worldD(2) [OF assms(1)] _ tr]
      by (auto simp: final_def)
  qed
qed

lemma transition_safe [safe_intros]:
  "fair_world wo m \<Longrightarrow> k \<in> set CORE_STATE_KINDS \<Longrightarrow> safe inv (manager_transition wo m k u prio)"
  by (rule keeps_weaken [OF manager_transition_keeps]) simp_all

lemma core_kinds [simp]:
  "Ready \<in> set CORE_STATE_KINDS" "Failed \<in> set CORE_STATE_KINDS" "Waiting \<in> set CORE_STATE_KINDS"
  "Claimed \<in> set CORE_STATE_KINDS" "Running \<in> set CORE_STATE_KINDS" "Committing \<in> set CORE_STATE_KINDS"
  "Succeeded \<in> set CORE_STATE_KINDS" "Cancelled \<in> set CORE_STATE_KINDS" "Cancelling \<in> set CORE_STATE_KINDS"
  "Paused \<in> set CORE_STATE_KINDS" "Submitted \<in> set CORE_STATE_KINDS"
  by code_simp+

lemma advance_safe [safe_intros]:
  assumes "fair_world wo m"
  shows "safe inv (advance wo m job state step progress reason summary resources prio)"
  unfolding advance_def by (intro safe_intros assms) simp_all

lemma retry_safe [safe_intros]:
  assumes "fair_world wo m"
  shows "safe inv (retry wo m job state progress reason unclean evidence prio)"
  unfolding retry_def by (intro safe_intros assms) simp_all

lemma handle_attempt_failure_safe [safe_intros]:
  assumes "fair_world wo m"
  shows "safe inv (handle_attempt_failure wo m job c msg status unclean evidence)"
  unfolding handle_attempt_failure_def by (intro safe_intros assms) simp_all

lemma release_claim_safe [safe_intros]:
  assumes "fair_world wo m"
  shows "safe inv (release_claim wo m reason state)"
  unfolding release_claim_def by (intro safe_intros assms) simp_all

lemma register_submission_safe [safe_intros]:
  assumes "fair_world wo m"
  shows "safe inv (register_submission mc wo validate m)"
  unfolding register_submission_def by (intro safe_intros assms) simp_all

lemma recover_abandoned_claim_safe [safe_intros]:
  assumes "fair_world wo m"
  shows "safe inv (recover_abandoned_claim mc wo alive m)"
  unfolding recover_abandoned_claim_def by (intro safe_intros assms)

lemma fail_attempt_preparation_safe [safe_intros]:
  assumes "fair_world wo m"
  shows "safe inv (fail_attempt_preparation wo m job e)"
  unfolding fail_attempt_preparation_def by (cases e) (simp_all, (intro safe_intros assms)+)

lemma transition_state_keeps:
  assumes "fair_world wo m" and "k \<in> set CORE_STATE_KINDS"
  shows "keeps inv (\<lambda>s. manager_transition wo m k (u s) prio s) (\<lambda>n. \<not> final k \<longrightarrow> held n)"
  using manager_transition_keeps [OF assms] unfolding keeps_def by blast

lemma transition_state_safe [safe_intros]:
  "fair_world wo m \<Longrightarrow> k \<in> set CORE_STATE_KINDS \<Longrightarrow> safe inv (\<lambda>s. manager_transition wo m k (u s) prio s)"
  by (rule keeps_weaken [OF transition_state_keeps]) simp_all

subsection \<open>Joins\<close>

lemma find_at_keeps: "keeps inv (find_at key pl) (\<lambda>f. \<forall>n. f = Some n \<longrightarrow> \<not> final (kind n) \<longrightarrow> held n)"
  using look_keeps by (auto simp: keeps_def find_at_def split: prod.splits)

lemma find_at_safe [safe_intros]: "safe inv (find_at key pl)"
  by (rule keeps_weaken [OF find_at_keeps]) simp_all

lemma child_evidence_safe [safe_intros]: "safe inv (child_evidence m)"
  unfolding child_evidence_def by (intro safe_intros)

lemma observe_children_safe [safe_intros]: "safe inv (observe_children vs seen)"
proof (induction vs arbitrary: seen)
  case (Cons v vs)
  have "safe inv (\<lambda>s. observe_children vs (f s) s)" for f
    using Cons.IH unfolding keeps_def by blast
  then show ?case unfolding observe_children.simps by (intro safe_intros)
qed (simp add: safe_ret)

lemma fail_waiting_safe [safe_intros]: "fair_world wo m \<Longrightarrow> safe inv (fail_waiting wo m state c msg reason)"
  unfolding fail_waiting_def by (intro safe_intros) simp_all

lemma handle_unresolved_join_safe [safe_intros]:
  "fair_world wo m \<Longrightarrow> safe inv (handle_unresolved_join mc wo m state child_id)"
  unfolding handle_unresolved_join_def by (intro safe_intros) simp_all

lemma join_advance_safe [safe_intros]:
  "fair_world wo m \<Longrightarrow> safe inv (join_advance wo m job state v reason obs)"
  unfolding join_advance_def by (intro safe_intros)

lemma evaluate_join_pass_safe [safe_intros]:
  assumes "fair_world wo m"
  shows "safe inv (evaluate_join_pass mc wo m)"
proof -
  have "safe inv (evaluate_join mc wo m job state)" for job state
    unfolding evaluate_join_def by (intro safe_intros join_result_cases assms) simp_all
  then show ?thesis unfolding evaluate_join_pass_def by (intro safe_intros assms)
qed

subsection \<open>Recording failures of a launch\<close>

lemma launch_process_keeps:
  assumes "fair_world wo m" and "inv s" and "launch_process mc wo lw m claimed i c s = (r, s')"
  shows "inv s' \<and> (\<forall>e n. r = Inl (e, n) \<longrightarrow> fair_world wo n)"
proof (cases "lw_spawn lw")
  case (Inl e)
  then show ?thesis using assms by (auto simp: launch_process_def)
next
  case (Inr pid)
  let ?u = "running_updates mc wo lw (jw_writer_id (fst (snd s))) claimed i c pid"
  obtain x t where tr: "manager_transition wo m Running ?u None s = (x, t)"
    by (cases "manager_transition wo m Running ?u None s")
  have k: "inv t" "\<forall>n. x = Inr n \<longrightarrow> held n"
    using keepsD [OF manager_transition_keeps [OF assms(1)] assms(2) tr]
      keeps_result [OF manager_transition_keeps [OF assms(1), of Running ?u None] assms(2)] tr
    by (simp_all add: final_def)
  show ?thesis
    using assms(1,3) k tr Inr
    by (auto simp: launch_process_def fair_world_move split: sum.splits)
qed

end

text \<open>
  Operations that also change the local attempts, publish the markers of children and their
  payloads, or seal a job. \<open>homed\<close> says at which placement a child may be published.
\<close>

definition shrinks :: "running_attempt list \<Rightarrow> running_attempt list \<Rightarrow> bool" where
  "shrinks running running' \<longleftrightarrow>
     (\<exists>f P. running' = map f (filter P running) \<and>
        (\<forall>a. ra_attempt_id (f a) = ra_attempt_id a \<and> ra_resources (f a) = ra_resources a))"

lemma shrinks_map:
  "(\<And>a. ra_attempt_id (f a) = ra_attempt_id a \<and> ra_resources (f a) = ra_resources a) \<Longrightarrow> shrinks R (map f R)"
  unfolding shrinks_def by (intro exI [of _ f] exI [of _ "\<lambda>_. True"]) simp

lemma shrinks_flags: "shrinks R (set_fenced i R)" "shrinks R (set_cancelling i R)"
  unfolding set_fenced_def set_cancelling_def by (auto intro: shrinks_map)

lemma shrinks_filter: "shrinks R (filter P R)"
  unfolding shrinks_def by (intro exI [of _ "\<lambda>a. a"]) auto

locale pass_invariant = step_invariant +
  fixes homed :: "string \<Rightarrow> string list \<Rightarrow> bool"
  assumes running_shrinks: "inv (R, w, ws) \<Longrightarrow> shrinks R R' \<Longrightarrow> inv (R', w, ws)"
    and seal_keeps: "inv (R, w, ws) \<Longrightarrow> inv (R, w, ws\<lparr>ws_sealed_jobs := ks\<rparr>)"
    and payload_keeps: "inv (R, w, ws) \<Longrightarrow> ws_documents ws t = None \<Longrightarrow>
      inv (R, w, ws\<lparr>ws_documents := (ws_documents ws)(t := d)\<rparr>)"
    and publish_keeps: "inv (R, w, ws) \<Longrightarrow> homed key pl \<Longrightarrow>
      find_marker_at (ws_tree ws) key pl idx0 = (Inr None, idx) \<Longrightarrow>
      marker_path Submitted pl key prio 0 ''init'' = Inr dst \<Longrightarrow>
      publish_path env dst (ws_tree ws) = (x, T) \<Longrightarrow>
      inv (R, w, ws\<lparr>ws_tree := T, ws_index := (if x = Inr () then index_note_path dst (ws_index ws) else ws_index ws)\<rparr>)"
begin

lemma fence_safe [safe_intros]: "safe inv (\<lambda>(running, st). (Inr x, set_fenced i running, st))"
  using running_shrinks shrinks_flags by (auto simp: keeps_def)

lemma sweep_safe [safe_intros]:
  "safe inv (\<lambda>(running, st). (Inr x, sweep_untracked_attempts exits current unreadable running, st))"
  using running_shrinks shrinks_filter by (auto simp: keeps_def sweep_untracked_attempts_def)

lemma drop_attempt_safe [safe_intros]: "safe inv (drop_attempt i)"
  using running_shrinks shrinks_filter by (auto simp: keeps_def drop_attempt_def)

lemma terminate_attempt_safe [safe_intros]: "safe inv (terminate_attempt state)"
  using running_shrinks shrinks_flags by (auto simp: keeps_def terminate_attempt_def)

lemma add_seal_safe [safe_intros]: "safe inv (add_seal sealed key)"
  using seal_keeps by (auto simp: keeps_def add_seal_def on_workspace_def)

subsection \<open>Commits\<close>

lemma begin_commit_safe [safe_intros]:
  assumes "fair_world wo m"
  shows "safe inv (begin_commit mc wo od m state)"
  unfolding begin_commit_def by (intro safe_intros assms) simp_all

lemma commit_published_outcome_safe [safe_intros]:
  assumes "fair_world wo m"
  shows "safe inv (commit_published_outcome mc wo od log_ready m job state)"
  unfolding commit_published_outcome_def by (intro safe_intros assms)

lemma publish_bundle_cases:
  "publish_bundle env target document ws = (r, ws') \<Longrightarrow>
     ws' = ws \<or> (ws_documents ws target = None \<and> ws' = ws\<lparr>ws_documents := (ws_documents ws)(target := document)\<rparr>)"
  by (induction env target document ws rule: publish_bundle.induct) (auto split: if_splits)

lemma publish_bundle_safe [safe_intros]: "safe inv (on_workspace (publish_bundle env target document))"
proof (rule keepsI)
  fix s r s' assume i: "inv s" and p: "on_workspace (publish_bundle env target document) s = (r, s')"
  obtain R w ws where s: "s = (R, w, ws)" by (cases s)
  obtain x ws' where b: "publish_bundle env target document ws = (x, ws')"
    by (cases "publish_bundle env target document ws")
  from publish_bundle_cases [OF b] show "inv s' \<and> (\<forall>x. r = Inr x \<longrightarrow> True)"
    using p b i payload_keeps unfolding s on_workspace_def by auto
qed

lemma check_workspace_safe [safe_intros]:
  "safe inv (on_workspace (\<lambda>ws. if c ws then (Inl e, ws) else (Inr x, ws)))"
  by (auto simp: keeps_def on_workspace_def)

lemma publish_child_keeps:
  assumes "inv (R, w, ws)" and "homed key pl" and "find_marker_at (ws_tree ws) key pl idx0 = (Inr None, idx)"
    and "publish_child_marker sw pl key child (R, w, ws) = (r, s')"
  shows "inv s'"
proof (cases "marker_path Submitted pl key (jd_priority child) 0 ''init''")
  case (Inl e)
  then show ?thesis using assms by (simp add: publish_child_marker_def on_workspace_def)
next
  case (Inr dst)
  obtain x T where p: "publish_path (sw_publish sw dst) dst (ws_tree ws) = (x, T)"
    by (cases "publish_path (sw_publish sw dst) dst (ws_tree ws)")
  have "inv (R, w, ws\<lparr>ws_tree := T, ws_index := (if x = Inr () then index_note_path dst (ws_index ws) else ws_index ws)\<rparr>)"
    by (rule publish_keeps [OF assms(1-3) Inr p])
  then show ?thesis
    using assms(4) Inr p by (cases x) (auto simp: publish_child_marker_def on_workspace_def)
qed

lemma register_child_safe:
  assumes "homed_child homed sw v"
  shows "safe inv (register_child sw od digests v)"
proof (cases v)
  case (JObj raw)
  let ?key = "py_str sw (get_default raw ''job_key'' (JStr []))"
  let ?expected = "py_str sw (get_default digests ?key (JStr []))"
  let ?tail = "\<lambda>pl published s. let ws = snd (snd s)
      in if ws_documents ws (payload_path pl ?key) = None then (Inl FormatError, s)
         else case find_marker_at (ws_tree ws) ?key pl (ws_index ws) of
           (r, idx) \<Rightarrow>
             let s1 = (fst s, fst (snd s), ws\<lparr>ws_index := idx\<rparr>)
             in case r of
                  Inl e \<Rightarrow> (Inl e, s1)
                | Inr (Some _) \<Rightarrow> (Inr (), s1)
                | Inr None \<Rightarrow>
                    if \<not> published \<and> sw_digest sw (payload_path pl ?key) \<noteq> ?expected then (Inl FormatError, s1)
                    else andthen (lift (bindr (read_json_text (ws_documents ws (payload_path pl ?key))) job_from_mapping))
                           (publish_child_marker sw pl ?key) s1"
  have tail: "safe inv (?tail pl published)" if h: "homed ?key pl" for pl published
  proof (rule keepsI)
    fix s r s' assume i: "inv s" and t: "?tail pl published s = (r, s')"
    obtain R w ws where s: "s = (R, w, ws)" by (cases s)
    obtain x idx where f: "find_marker_at (ws_tree ws) ?key pl (ws_index ws) = (x, idx)"
      by (cases "find_marker_at (ws_tree ws) ?key pl (ws_index ws)")
    have i1: "inv (R, w, ws\<lparr>ws_index := idx\<rparr>)" using look_keeps [OF _ f] i s by blast
    have "inv s'"
    proof (cases "x = Inr None")
      case False
      then show ?thesis
        using t f i i1 unfolding s by (auto simp: Let_def split: if_splits sum.splits option.splits)
    next
      case True
      note f = f [unfolded True]
      show ?thesis
      proof (cases "bindr (read_json_text (ws_documents ws (payload_path pl ?key))) job_from_mapping")
        case (Inl e)
        then show ?thesis
          using t f i i1 unfolding s by (auto simp: Let_def andthen_def lift_def split: if_splits)
      next
        case (Inr child)
        have "inv s''" if "publish_child_marker sw pl ?key child (R, w, ws\<lparr>ws_index := idx\<rparr>) = (r, s'')" for r s''
          using publish_child_keeps [OF i1 h _ that] f by simp
        then show ?thesis
          using t f i i1 Inr unfolding s by (auto simp: Let_def andthen_def lift_def split: if_splits)
      qed
    qed
    then show "inv s' \<and> (\<forall>x. r = Inr x \<longrightarrow> True)" by simp
  qed
  have h: "homed ?key pl" if "normalize_placement (py_str sw (get_default raw ''placement'' (JStr []))) = Inr pl" for pl
    using assms that JObj by (simp add: homed_child_def)
  show ?thesis
    unfolding register_child_def JObj json.case Let_def
    by (rule keeps_andthen [OF keeps_lift [of _ "homed ?key"]])
      (use h in \<open>auto intro!: safe_intros tail [unfolded Let_def]\<close>)
qed (simp_all add: register_child_def safe_lift)

lemma register_children_safe [safe_intros]:
  assumes "homed_children homed sw od"
  shows "safe inv (register_children sw od state)"
proof -
  have loop: "list_all (homed_child homed sw) vs \<Longrightarrow> safe inv (register_children_loop sw od digests vs)" for vs digests
    by (induction vs) (auto intro!: safe_intros register_child_safe)
  let ?Q = "\<lambda>spawn. \<forall>vs. get spawn ''children'' = JArr vs \<longrightarrow> list_all (homed_child homed sw) vs"
  have "keeps inv (lift (read_json_text (od_spawn od))) ?Q"
    using assms by (intro keeps_lift) (auto simp: homed_children_def)
  then show ?thesis
    unfolding register_children_def
    by (intro safe_if safe_ret keeps_andthen [of _ _ ?Q])
      (auto intro!: safe_intros loop split: json.splits)
qed

lemma apply_action_safe [safe_intros]:
  assumes "fair_world wo m"
  shows "safe inv (apply_action wo od m job state outcome action progress resources prio)"
  unfolding apply_action_def by (intro safe_intros assms) simp_all

lemma resume_committing_safe [safe_intros]:
  assumes "fair_world wo m" and "homed_children homed sw od"
  shows "safe inv (resume_committing mc wo sw od m)"
proof -
  have "safe inv (process_committing mc wo sw od m)"
    unfolding process_committing_def by (intro safe_intros assms)
  then show ?thesis
    unfolding resume_committing_def by (intro safe_intros assms) simp_all
qed

subsection \<open>Polling\<close>

lemma poll_one_running_safe [safe_intros]:
  assumes "fair_world wo m"
  shows "safe inv (poll_one_running mc wo pw m job state)"
proof -
  have "safe inv (poll_local mc wo pw m job state)" "safe inv (poll_remote mc wo pw m job state)"
    unfolding poll_local_def poll_remote_def by (intro safe_intros assms)+
  then have "safe inv (\<lambda>s. if tracked (fst s) (attempt_of state) then poll_local mc wo pw m job state s
    else poll_remote mc wo pw m job state s)"
    by (rule safe_choose)
  then show ?thesis unfolding poll_one_running_def by (intro safe_intros assms)
qed

lemma poll_running_safe [safe_intros]:
  assumes "\<And>m. m \<in> set ms \<Longrightarrow> fair_world (wo m) m"
  shows "safe inv (poll_running mc wo pw exits indeterminate ms)"
proof -
  have "safe inv (poll_running_loop mc wo pw ms acc)" for acc
    using assms
  proof (induction ms arbitrary: acc)
    case (Cons m ms)
    obtain changed current unreadable where acc: "acc = (changed, current, unreadable)" by (cases acc)
    show ?case unfolding acc poll_running_loop.simps by (intro safe_intros Cons) (simp_all add: Cons.prems)
  qed (simp add: safe_ret)
  then show ?thesis unfolding poll_running_def by (intro safe_intros)
qed

subsection \<open>Requests\<close>

definition fair_moves :: "world \<Rightarrow> bool" where
  "fair_moves wo \<longleftrightarrow> (\<forall>n k. fair (wo_rename wo n k))"

lemma fair_moves_world: "fair_moves wo \<Longrightarrow> held m \<Longrightarrow> fair_world wo m"
  by (simp add: fair_moves_def fair_world_def)

lemma resolve_marker_keeps:
  "keeps inv (resolve_marker request) (\<lambda>f. \<forall>n. f = Some n \<longrightarrow> \<not> final (kind n) \<longrightarrow> held n)"
  unfolding resolve_marker_def
  by (intro safe_prod safe_json keeps_lift safe_andthen safe_lift safe_if find_at_keeps) simp_all

lemma resolve_marker_safe [safe_intros]: "safe inv (resolve_marker request)"
  by (rule keeps_weaken [OF resolve_marker_keeps]) simp

lemma decided_join_hazard_safe [safe_intros]: "safe inv (decided_join_hazard str_of m job)"
  unfolding decided_join_hazard_def by (intro safe_intros)

lemma revive_safe [safe_intros]:
  "fair_world wo m \<Longrightarrow> safe inv (revive str_of wo m job state audit request action)"
  unfolding revive_def by (intro safe_intros)

lemma request_cancel_safe [safe_intros]:
  "fair_world wo m \<Longrightarrow> safe inv (request_cancel wo m state request op_key)"
  unfolding request_cancel_def by (intro safe_intros) simp_all

lemma apply_action_request_safe [safe_intros]:
  assumes "\<not> final (kind m) \<Longrightarrow> fair_world wo m"
  shows "safe inv (apply_action_request str_of wo m job state request op_key)"
proof -
  have f: "fair_world wo m" if "kind m \<in> set PRIORITY_KINDS \<or> kind m \<in> {Claimed, Running, Committing} \<or>
      kind m \<in> {Submitted, Ready, Waiting} \<or> kind m \<in> {Failed, Paused} \<or> \<not> terminal (kind m)"
    using that by (intro assms) (auto simp: final_def PRIORITY_KINDS_def terminal_def TERMINAL_KINDS_def)
  have c: "kind m \<in> set CORE_STATE_KINDS" if "kind m \<in> set PRIORITY_KINDS \<or> kind m \<in> {Claimed, Running, Committing}"
    using that by (auto simp: PRIORITY_KINDS_def)
  show ?thesis
    unfolding apply_action_request_def by (intro safe_intros f c) simp_all
qed

lemma apply_request_safe [safe_intros]:
  assumes "fair_moves wo"
  shows "safe inv (apply_request str_of wo sig request)"
  unfolding apply_request_def
  by (intro safe_andthen [OF safe_lift] keeps_andthen [OF resolve_marker_keeps] safe_option)
    (auto intro!: safe_intros fair_moves_world [OF assms])

lemma handle_request_safe [safe_intros]:
  assumes "fair_moves wo"
  shows "safe inv (handle_request mc wo rw)"
proof -
  have "safe inv (check_target mc rw author refusal m)" for author refusal m
    unfolding check_target_def by (auto intro!: safe_intros split: option.splits bool.splits)
  then have "safe inv (preflight_checks mc rw)"
    unfolding preflight_checks_def by (auto intro!: safe_intros simp: Let_def split: request_read.splits)
  moreover have "safe inv (apply_claimed wo rw p)" for p
    unfolding apply_claimed_def Let_def
    by (auto intro!: safe_intros assms split: preflight.splits option.splits bool.splits request_read.splits)
  ultimately show ?thesis
    unfolding handle_request_def by (intro safe_intros)
qed

subsection \<open>Cancelling\<close>

definition with_book :: "cancel_book \<times> mstate \<Rightarrow> bool" where
  "with_book s = inv (snd s)"

lemma inner_safe [safe_intros]: "safe inv p \<Longrightarrow> safe with_book (inner p)"
  by (auto simp: keeps_def with_book_def inner_def split: prod.splits)

lemma on_book_safe [safe_intros]: "safe with_book (on_book f)"
  by (auto simp: keeps_def with_book_def on_book_def)

lemma report_unverifiable_safe [safe_intros]:
  assumes "fair_world wo m"
  shows "safe with_book (report_unverifiable mc wo m state)"
proof -
  have "report_unverifiable mc wo m state =
      (\<lambda>s. if attempt_of state \<in> set (cb_unverified (fst s)) then ret () s
        else andthen (on_book (\<lambda>b. b\<lparr>cb_unverified := attempt_of state # cb_unverified b\<rparr>)) (\<lambda>_.
          except (andthen (inner (manager_transition wo m Cancelling
            (replace (select CANCELLING_MEMBERS state)
               [(''cancellation'', JObj [(''verified'', JNull), (''problem'', JStr ''unverifiable_here''),
                   (''detail'', JStr (unverifiable_detail mc state)), (''observed_by'', JStr (mc_manager_id mc)),
                   (''observed_at'', JStr (wo_now wo))]),
                (''reason'', JStr ''cancel_unverified'')]) None)) (\<lambda>_. ret ()))
            (\<lambda>e. if e = TransitionLostError then ret () else lift (Inl e))) s)"
    by (rule ext) (simp add: report_unverifiable_def ret_def)
  then show ?thesis
    by (simp only:) (intro safe_choose safe_intros assms; simp)
qed

lemma finish_cancellation_safe [safe_intros]:
  assumes "fair_world wo m"
  shows "safe with_book (finish_cancellation mc wo cw m state)"
proof -
  let ?i = "attempt_of state"
  let ?first = "andthen (on_book (\<lambda>b. b\<lparr>cb_kill_at := dict_set ?i (cw_monotonic cw + mc_cancel_grace_seconds mc) (cb_kill_at b)\<rparr>))
      (\<lambda>_. inner (terminate_attempt state))"
  let ?mark = "\<lambda>s. case map_of (cb_kill_at (fst s)) ?i of
      None \<Rightarrow> ?first s
    | Some t \<Rightarrow> if should_kill (cw_monotonic cw) (Some t) then inner (terminate_attempt state) s else (Inr (), s)"
  have m: "safe with_book ?mark"
  proof (rule safe_choose_option)
    show "safe with_book ?first" by (intro safe_intros)
    have "safe with_book (inner (terminate_attempt state))" by (intro safe_intros)
    then have "safe with_book (\<lambda>s. if should_kill (cw_monotonic cw) (Some t) then inner (terminate_attempt state) s
        else ret () s)" for t
      by (rule safe_choose) (rule safe_ret)
    then show "safe with_book (\<lambda>s. if should_kill (cw_monotonic cw) (Some t) then inner (terminate_attempt state) s else (Inr (), s))" for t
      by (simp only: ret_def)
  qed
  have finished: "safe with_book (andthen (inner (drop_attempt ?i)) (\<lambda>_.
      andthen (on_book f) (\<lambda>_. andthen (inner (manager_transition wo m Cancelled u None)) (\<lambda>_. ret True))))" for f u
    by (intro safe_intros assms) simp
  have later: "safe with_book (andthen (report_unverifiable mc wo m state) (\<lambda>_. ret False))"
    by (intro safe_intros assms)
  show ?thesis
    unfolding finish_cancellation_def Let_def
    by (rule safe_andthen [OF m]) (rule safe_choose_option [OF later finished])
qed

lemma process_cancelling_safe [safe_intros]:
  assumes "fair_world wo m"
  shows "safe with_book (process_cancelling mc wo cw m)"
  unfolding process_cancelling_def by (intro safe_intros assms)

subsection \<open>The passes of a tick\<close>

lemma for_each_safe: "(\<And>x. x \<in> set xs \<Longrightarrow> safe I (body x)) \<Longrightarrow> safe I (for_each body xs)"
proof (induction xs)
  case (Cons x xs)
  then show ?case unfolding for_each.simps by (intro safe_intros) simp_all
qed (simp add: safe_ret)

lemma over_window_safe:
  assumes "\<And>ws m. m \<in> set (tw_window tw k ws) \<Longrightarrow> safe inv (body m)"
  shows "safe inv (over_window tw k body)"
proof (rule keepsI)
  fix s r s' assume i: "inv s" and o: "over_window tw k body s = (r, s')"
  have f: "safe inv (for_each body (tw_window tw k (snd (snd s))))" by (intro for_each_safe assms)
  show "inv s' \<and> (\<forall>x. r = Inr x \<longrightarrow> True)" 
    using keepsD [OF f i o [unfolded over_window_def]] by blast
qed

text \<open>
  The markers a pass is given are ones the manager may move, their renames are fair, and the
  children an outcome spawns are homed.
\<close>

definition sound_tick :: "tick_world \<Rightarrow> bool" where
  "sound_tick tw \<longleftrightarrow>
     (\<forall>k ws m. \<not> terminal k \<longrightarrow> m \<in> set (tw_window tw k ws) \<longrightarrow> fair_world (tw_world tw k m) m) \<and>
     (\<forall>m. homed_children homed (tw_spawn tw m) (tw_outcome tw m)) \<and>
     list_all (\<lambda>(wo, _). fair_moves wo) (tw_requests tw)"

lemma tick_passes_safe:
  assumes "sound_tick tw"
  shows "safe with_book (for_each (\<lambda>p. p) (tick_passes mc tw))"
proof -
  have f: "fair_world (tw_world tw k m) m" if "m \<in> set (tw_window tw k ws)" "\<not> terminal k" for k m ws
    using assms that by (auto simp: sound_tick_def)
  have "safe inv (for_each (\<lambda>(wo, rw). andthen (handle_request mc wo rw) (\<lambda>(_, c). ret c)) (tw_requests tw))"
    using assms by (intro for_each_safe) (auto simp: sound_tick_def list_all_iff intro!: safe_intros)
  moreover have "safe with_book (cancelling_pass mc tw)"
  proof -
    have "safe with_book (for_each (\<lambda>m. process_cancelling mc (tw_world tw Cancelling m) (tw_cancel tw m) m)
        (tw_window tw Cancelling ws))" for ws
      by (intro for_each_safe safe_intros f) (simp_all add: terminal_def TERMINAL_KINDS_def)
    then show ?thesis unfolding keeps_def cancelling_pass_def by blast
  qed
  moreover have "safe inv (poll_pass mc tw)"
  proof -
    have "safe inv (poll_running mc (tw_world tw Running) (tw_poll tw) (tw_exits tw) (tw_indeterminate tw)
        (tw_window tw Running ws))" for ws
      by (intro safe_intros f) (simp_all add: terminal_def TERMINAL_KINDS_def)
    then show ?thesis unfolding keeps_def poll_pass_def by blast
  qed
  moreover have window: "safe inv (over_window tw k body)"
    if "\<not> terminal k" "\<And>m. fair_world (tw_world tw k m) m \<Longrightarrow> safe inv (body m)" for k body
    using that f by (intro over_window_safe) blast
  moreover have homes: "homed_children homed (tw_spawn tw m) (tw_outcome tw m)" for m
    using assms by (simp add: sound_tick_def)
  moreover have "safe inv (over_window tw Submitted (\<lambda>m.
      register_submission mc (tw_world tw Submitted m) (tw_validate tw m) m))"
    by (intro window safe_intros) (simp_all add: terminal_def TERMINAL_KINDS_def)
  moreover have "safe inv (over_window tw Committing (\<lambda>m.
      resume_committing mc (tw_world tw Committing m) (tw_spawn tw m) (tw_outcome tw m) m))"
    by (intro window safe_intros homes) (simp_all add: terminal_def TERMINAL_KINDS_def)
  moreover have "safe inv (over_window tw Waiting (\<lambda>m. evaluate_join_pass mc (tw_world tw Waiting m) m))"
    by (intro window safe_intros) (simp_all add: terminal_def TERMINAL_KINDS_def)
  moreover have "safe inv (over_window tw Claimed (\<lambda>m.
      recover_abandoned_claim mc (tw_world tw Claimed m) (tw_alive tw m) m))"
    by (intro window safe_intros) (simp_all add: terminal_def TERMINAL_KINDS_def)
  ultimately have "safe with_book p" if "p \<in> set (tick_passes mc tw)" for p
    using that inner_safe unfolding tick_passes_def by auto
  then show ?thesis by (rule for_each_safe)
qed

end

text \<open>With the claims, which add to the local attempts.\<close>

locale manager_invariant = pass_invariant +
  assumes running_keeps: "inv (R, w, ws) \<Longrightarrow> inv (R', w, ws)"
begin

subsection \<open>Claims\<close>

lemma launch_claimed_safe [safe_intros]:
  assumes "fair_world wo m"
  shows "safe inv (launch_claimed mc wo lw m job previous)"
proof -
  let ?tail = "\<lambda>claimed i c requirement s. case launch_process mc wo lw m claimed i c s of
      (Inr moved, (running, st)) \<Rightarrow>
        (if jd_runner_source job = ''payload'' then lw_payload_digest lw else Inr (),
         track \<lparr>ra_job_key = job_key moved, ra_attempt_id = i,
           ra_resources = requirement, ra_fenced = False, ra_cancelling = False\<rparr> running, st)
    | (Inl (e, place), s') \<Rightarrow>
        if e = TransitionLostError then (Inl e, s')
        else handle_attempt_failure wo place job
               (if e = FormatError then ''protocol_error'' else ''process_failure'')
               (''cannot launch runner: '' @ wo_text wo e) None True None s'"
  have tail: "safe inv (?tail claimed i c requirement)" for claimed i c requirement
  proof (rule keepsI)
    fix s r s' assume i: "inv s" and t: "?tail claimed i c requirement s = (r, s')"
    obtain x st where l: "launch_process mc wo lw m claimed i c s = (x, st)"
      by (cases "launch_process mc wo lw m claimed i c s")
    note k = launch_process_keeps [OF assms i l]
    show "inv s' \<and> (\<forall>x. r = Inr x \<longrightarrow> True)"
    proof (cases x)
      case (Inl p)
      obtain e n where p: "p = (e, n)" by (cases p)
      show ?thesis
      proof (cases "e = TransitionLostError")
        case True
        then show ?thesis using t l Inl p k by simp
      next
        case False
        then have "handle_attempt_failure wo n job (if e = FormatError then ''protocol_error'' else ''process_failure'')
            (''cannot launch runner: '' @ wo_text wo e) None True None st = (r, s')"
          using t l Inl p by simp
        moreover have "fair_world wo n" using k Inl p by blast
        ultimately show ?thesis using keepsD [OF handle_attempt_failure_safe] k by blast
      qed
    next
      case (Inr moved)
      obtain running w ws where "st = (running, w, ws)" by (cases st)
      then show ?thesis using t l Inr k running_keeps by auto
    qed
  qed
  show ?thesis
    unfolding launch_claimed_def by (intro safe_intros tail)
qed

lemma claim_and_launch_safe [safe_intros]:
  assumes "fair_world wo m"
  shows "safe inv (claim_and_launch mc wo lw m)"
proof -
  have "safe inv (claim_owned mc wo lw m)"
    unfolding claim_owned_def
    by (intro safe_intros assms keeps_andthen [OF transition_state_keeps] fair_world_move [OF assms])
      (simp_all add: assms final_def)
  then show ?thesis
    unfolding claim_and_launch_def by (auto intro!: safe_intros split: option.splits bool.splits)
qed

subsection \<open>The tick\<close>

lemma claim_loop_safe:
  assumes "\<And>m. m \<in> fst ` set cs \<Longrightarrow> safe inv (claim m)"
  shows "safe inv (claim_loop mc claim cs changed)"
  using assms
proof (induction cs arbitrary: changed)
  case (Cons c cs)
  obtain m req where c: "c = (m, req)" by (cases c)
  have ih: "safe inv (claim_loop mc claim cs ch)" for ch
    by (rule Cons.IH) (rule Cons.prems, auto)
  show ?case
  proof (rule keepsI)
    fix s r s' assume i: "inv s" and l: "claim_loop mc claim (c # cs) changed s = (r, s')"
    obtain x t where cl: "claim m s = (x, t)" by (cases "claim m s")
    have t: "inv t" using keepsD [OF Cons.prems i cl] c by auto
    consider "s' = s" | ch where "claim_loop mc claim cs ch s = (r, s')"
      | ch where "claim_loop mc claim cs ch t = (r, s')" | "s' = t"
      using l cl unfolding c by (auto split: if_splits sum.splits)
    then show "inv s' \<and> (\<forall>x. r = Inr x \<longrightarrow> True)"
      using i t keepsD [OF ih] by cases auto
  qed
qed (auto simp: keeps_def)

lemma eligible_candidates:
  assumes "(m, req) \<in> set (eligible_ready mc window)"
  shows "m \<in> fst ` set window"
  using assms by (force simp: eligible_ready_def map_filter_set split: option.splits)

lemma claim_all_safe:
  assumes "sound_tick tw"
  shows "safe inv (claim_all mc tw changed)"
proof -
  have window: "safe inv (andthen (eligible_pass mc (tw_window tw Ready ws)) (\<lambda>candidates.
      claim_pass mc d b (\<lambda>m. claim_and_launch mc (tw_world tw Ready m) (tw_launch tw m) m) candidates changed))" for ws d b
  proof (rule keeps_andthen)
    show "keeps inv (eligible_pass mc (tw_window tw Ready ws))
        (\<lambda>cs. \<forall>(m, r) \<in> set cs. m \<in> set (tw_window tw Ready ws))"
    proof (rule keepsI, intro conjI allI impI)
      fix s r s' x assume i: "inv s" and e: "eligible_pass mc (tw_window tw Ready ws) s = (r, s')"
      show "inv s'" using i e by (simp add: eligible_pass_def Let_def)
      assume "r = Inr x"
      then obtain window where w: "mapr (\<lambda>m. bindr (fst (load_job_and_state m s)) (\<lambda>l. Inr (m, l)))
          (tw_window tw Ready ws) = Inr window" and x: "x = eligible_ready mc window"
        using e by (auto simp: eligible_pass_def Let_def res_simps)
      have "fst ` set window \<subseteq> set (tw_window tw Ready ws)"
        using w unfolding mapr_Inr_iff by (induction rule: list_all2_induct) (auto simp: res_simps)
      then show "\<forall>(m, r) \<in> set x. m \<in> set (tw_window tw Ready ws)"
        using eligible_candidates x by fastforce
    qed
    fix cs :: "(marker \<times> requirement) list" assume "\<forall>(m, r) \<in> set cs. m \<in> set (tw_window tw Ready ws)"
    then have f: "fair_world (tw_world tw Ready m) m" if "m \<in> fst ` set cs" for m
      using assms that by (fastforce simp: sound_tick_def terminal_def TERMINAL_KINDS_def)
    have "safe inv (claim_loop mc (\<lambda>m. claim_and_launch mc (tw_world tw Ready m) (tw_launch tw m) m) cs changed)"
      by (rule claim_loop_safe) (intro safe_intros f)
    then show "safe inv (claim_pass mc d b
        (\<lambda>m. claim_and_launch mc (tw_world tw Ready m) (tw_launch tw m) m) cs changed)"
      unfolding keeps_def claim_pass_def by auto
  qed
  show ?thesis
    unfolding keeps_def claim_all_def
    using window unfolding keeps_def by auto
qed

lemma tick_safe:
  assumes "sound_tick tw"
  shows "safe with_book (tick mc tw)"
  unfolding tick_def by (intro safe_intros claim_all_safe tick_passes_safe assms)

lemma run_until_idle_keeps:
  assumes "list_all sound_tick tws" and "with_book s" and "run_until_idle mc tws q s = (r, s')"
  shows "with_book s'"
  using assms
proof (induction tws arbitrary: q s)
  case (Cons tw tws)
  obtain x t where t: "tick mc tw s = (x, t)" by (cases "tick mc tw s")
  have i: "with_book t" using keepsD [OF tick_safe Cons.prems(2) t] Cons.prems(1) by simp
  show ?case
    using Cons.prems(1,3) t i Cons.IH [OF _ i] by (auto split: sum.splits if_splits)
qed simp

end

end
