(* ===== verification/Manager_Examples.thy ===== *)
theory Manager_Examples
  imports Manager_Tick Workspace_Protocol
begin

text \<open>
  Concrete managers, worlds and ticks, on which the witnesses of the properties apply them.
\<close>

definition example_manager :: manager_config where
  "example_manager =
     \<lparr>mc_manager_id = example_id, mc_hostname = ''node1'', mc_pools = [''default''], mc_accept_any_pool = False,
      mc_capabilities = [], mc_resources = [(''procs'', 8)], mc_maximum_workers = 2,
      mc_allowed_executors = [''path''], mc_executors = [''path''], mc_lease_seconds = 900,
      mc_join_grace_seconds = 3600, mc_cancel_grace_seconds = 30, mc_takeover_grace_factor = 3,
      mc_unsafe_persistent_takeover = False, mc_unsafe_isolated_takeover = False\<rparr>"

text \<open>A world whose first rename attempt is lost and whose second one is performed.\<close>

definition example_world :: world where
  "example_world =
     \<lparr>wo_now = ''now'', wo_time = 1000, wo_timestamp = (\<lambda>_. Inl ValueError), wo_uuid = (\<lambda>_. example_id),
      wo_rename = (\<lambda>_ _. quiet [False, True]), wo_text = (\<lambda>_. ''error'')\<rparr>"

definition example_outcome :: outcome_dir where
  "example_outcome =
     \<lparr>od_control = Inr (), od_present = False, od_outcome = None, od_children = False, od_spawn = None,
      od_bundles = [], od_transaction = False, od_replay = (\<lambda>_. Inr False), od_hook = Inr (), od_sealed = False\<rparr>"

definition example_poll :: poll_world where
  "example_poll =
     \<lparr>pw_outcome = example_outcome, pw_outcome_after_exit = example_outcome, pw_environment = None, pw_now = 1000, pw_exit = None,
      pw_heartbeat_age = (\<lambda>_ _. Some 0), pw_process_gone = (\<lambda>_. False)\<rparr>"

definition example_launch :: launch_world where
  "example_launch =
     \<lparr>lw_owns = Some True, lw_marker_present = True, lw_directories = Inr (), lw_payload = ''/work'',
      lw_workdir = ''run'', lw_workdir_reused = False, lw_durable = False, lw_settings = Inr [],
      lw_prepare = Inr (), lw_spawn = Inr 4711, lw_write_gate = Inr (), lw_payload_digest = Inr (), lw_maintenance = False\<rparr>"

definition example_cancel :: cancel_world where
  "example_cancel = \<lparr>cw_monotonic = 5, cw_exit = None, cw_pid = 4711, cw_group_alive = (\<lambda>_. True)\<rparr>"

definition example_spawn :: spawn_world where
  "example_spawn = \<lparr>sw_digest = (\<lambda>_. []), sw_publish = (\<lambda>_. [True]), sw_text = (\<lambda>_. [])\<rparr>"

text \<open>A tick whose windows hold the given markers.\<close>

definition example_tick :: "marker list \<Rightarrow> tick_world" where
  "example_tick ms =
     \<lparr>tw_window = (\<lambda>k _. filter (\<lambda>m. kind m = k) ms), tw_world = (\<lambda>_ _. example_world), tw_requests = [],
      tw_validate = (\<lambda>_ _. Inr ()), tw_cancel = (\<lambda>_. example_cancel), tw_spawn = (\<lambda>_. example_spawn),
      tw_outcome = (\<lambda>_. example_outcome), tw_poll = (\<lambda>_. example_poll), tw_exits = (\<lambda>_. None),
      tw_indeterminate = [], tw_alive = (\<lambda>_ _ _. True), tw_launch = (\<lambda>_. example_launch),
      tw_draining = False, tw_maintenance = False\<rparr>"

definition example_book :: cancel_book where
  "example_book = \<lparr>cb_kill_at = [], cb_unverified = []\<rparr>"

lemma example_writer_uuid: "uuid_pattern (jw_writer_id (fst example_store))"
  using example_store_inv by (simp add: store_inv_def writer_inv_def)

lemma example_index_inv: "index_inv example_index"
  by code_simp

text \<open>A job that succeeded, and the workspace that holds only it.\<close>

definition finished_marker :: marker where
  "finished_marker = example_marker\<lparr>kind := Succeeded, path := [''succeeded'', ''proj'', example_key @ ''.p500.g0.init'']\<rparr>"

lemma finished_marker_read: "marker_from_path (path finished_marker) = Inr finished_marker"
proof -
  have "marker_path Succeeded [''proj''] example_key 500 0 ''init'' = Inr (path finished_marker)"
    "normalize_parts \<lparr>absolute = False, parts = [''proj'']\<rparr> = Inr [''proj'']" "marker_ref_pattern ''init''"
    by code_simp+
  from marker_path_read [OF this] show ?thesis by (simp add: finished_marker_def example_marker_def)
qed

end
