(* ===== verification/Manager_Jobs.thy ===== *)
theory Manager_Jobs
  imports Manager_Invariants Manager_Examples
begin

text \<open>
  Jobs under a running manager. Both invariants of this theory are interpretations of the
  interface of all operations: every job keeps exactly one marker, also while other actors of
  the workspace move markers during the manager's own renames; and a succeeded or cancelled
  job never moves again.
\<close>

section \<open>The effect of a transition on the state tree\<close>

lemma encoded_ref_pattern:
  assumes "uuid_pattern i"
  shows "marker_ref_pattern (encode_record_ref i sg off len (checksum_prefix (frame_checksum p))) \<and>
    encode_record_ref i sg off len (checksum_prefix (frame_checksum p)) \<noteq> ''init''"
  using encode_record_ref_fields [OF assms, of "checksum_prefix (frame_checksum p)" sg off len]
  by (simp add: marker_ref_pattern_def encode_record_ref_def)

lemma append_reference:
  assumes "append_record w f J = (Inr ref, w', J')" and "uuid_pattern (jw_writer_id w)"
  shows "marker_ref_pattern ref \<and> ref \<noteq> ''init''"
proof -
  obtain x w1 J1 where r: "rotate_if_needed w (length (frame_bytes (json_bytes (JObj f)))) J = (x, w1, J1)"
    by (cases "rotate_if_needed w (length (frame_bytes (json_bytes (JObj f)))) J")
  have "jw_writer_id w1 = jw_writer_id w"
    using r open_segment_other [of "w\<lparr>jw_handle := None, jw_segment_number := jw_segment_number w + 1\<rparr>"]
    by (auto simp: rotate_if_needed_def Let_def split: option.splits if_splits)
  moreover have "\<exists>sg off len. ref = encode_record_ref (jw_writer_id w1) sg off len
      (checksum_prefix (frame_checksum (json_bytes (JObj f))))"
    using assms(1) r
    by (cases x) (auto simp: append_record_def Let_def simp del: frame_bytes_length split: if_splits)
  ultimately show ?thesis using encoded_ref_pattern [OF assms(2)] by metis
qed

text \<open>
  A transition leaves the tree alone or renames the marker to a path that is read back as the
  same job at the same placement with the new kind.
\<close>

lemma transition_moves:
  assumes "transition env now m k u prio a w ws = (r, w', ws')"
    and "uuid_pattern (jw_writer_id w)" and "marker_from_path (path m) = Inr m"
  obtains (still) e where "r = Inl e" "ws_tree ws' = ws_tree ws" "ws_index ws' = ws_index ws"
      "jw_writer_id w' = jw_writer_id w"
  | (moved) dst n J' where "verified_marker_rename env m dst (ws\<lparr>ws_journal := J'\<rparr>) = (r, ws')"
      "marker_from_path dst = Inr n" "path n = dst" "kind n = k" "placement n = placement m"
      "job_key n = job_key m" "record_ref n \<noteq> ''init''" "jw_writer_id w' = jw_writer_id w"
  using assms(1)
proof (cases rule: transition_started)
  case (1 e)
  then show ?thesis by (intro that(1)) auto
next
  case (2 e J')
  then show ?thesis using append_other [OF 2(3)] by (intro that(1)) auto
next
  case (3 ref J')
  have id: "jw_writer_id w' = jw_writer_id w" using append_other [OF 3(2)] by blast
  show ?thesis
  proof (cases "marker_path k (placement m) (job_key m)
      (case prio of None \<Rightarrow> int (priority m) | Some p \<Rightarrow> p) (int (generation m) + 1) ref")
    case (Inl e)
    then show ?thesis using 3(3) id by (intro that(1)) auto
  next
    case (Inr dst)
    have ref: "marker_ref_pattern ref" "ref \<noteq> ''init''"
      using append_reference [OF 3(2) assms(2)] by auto
    obtain n where n: "marker_from_path dst = Inr n" "kind n = k" "placement n = placement m" "job_key n = job_key m"
      "path n = dst" "record_ref n = ref"
      using marker_path_read [OF Inr marker_from_path_placement [OF assms(3)] ref(1)] by force
    have "verified_marker_rename env m dst (ws\<lparr>ws_journal := J'\<rparr>) = (r, ws')" using 3(3) Inr by simp
    from that(2) [OF this n(1,5,2,3,4) _ id] n(6) ref(2) show ?thesis by simp
  qed
qed

text \<open>What a rename keeps of the tree while other actors act between its attempts.\<close>

lemma rename_keeps:
  assumes "good (ws_tree ws)" and "index_inv (ws_index ws)" and "\<And>T. good T \<Longrightarrow> distinct T"
    and "\<And>T. good T \<Longrightarrow> good (rename_path (path m) dst T)"
    and "list_all (\<lambda>(f, _). \<forall>T. good T \<longrightarrow> good (f T)) env"
    and "verified_marker_rename env m dst ws = (r, ws')"
  shows "good (ws_tree ws') \<and> index_inv (ws_index ws') \<and> (\<forall>n. r = Inr n \<longrightarrow> marker_from_path dst = Inr n)"
  using assms(1,2,5,6)
proof (induction env arbitrary: ws)
  case (Cons p env)
  obtain f b where p: "p = (f, b)" by (cases p)
  let ?T1 = "f (ws_tree ws)"
  let ?T2 = "if b then rename_path (path m) dst ?T1 else ?T1"
  have g: "good ?T2" using Cons.prems(1,3) assms(4) p by simp
  have env: "list_all (\<lambda>(f, _). \<forall>T. good T \<longrightarrow> good (f T)) env" using Cons.prems(3) by simp
  obtain x idx where fm: "find_markers ?T2 (job_key m) CORE_STATE_KINDS (ws_index ws) = (x, idx)"
    by (cases "find_markers ?T2 (job_key m) CORE_STATE_KINDS (ws_index ws)")
  have i: "index_inv idx" using find_markers_inv [OF assms(3) [OF g] Cons.prems(2) fm] .
  consider (found) "dst \<in> set ?T2" | (kept) "dst \<notin> set ?T2" "path m \<in> set ?T2"
    | (gone) "dst \<notin> set ?T2" "path m \<notin> set ?T2" by blast
  then show ?case
  proof cases
    case found
    then show ?thesis
      using Cons.prems(2,4) g index_note_inv unfolding p
      by (cases "marker_from_path dst") (auto simp: Let_def)
  next
    case kept
    then have "verified_marker_rename env m dst (ws\<lparr>ws_tree := ?T2\<rparr>) = (r, ws')"
      using Cons.prems(4) unfolding p by (simp add: Let_def)
    from Cons.IH [OF _ _ env this] g Cons.prems(2) show ?thesis by simp
  next
    case gone
    show ?thesis
    proof (cases "x = Inr []")
      case True
      then have "verified_marker_rename env m dst (ws\<lparr>ws_tree := ?T2, ws_index := idx\<rparr>) = (r, ws')"
        using Cons.prems(4) gone fm unfolding p by (simp add: Let_def)
      from Cons.IH [OF _ _ env this] g i show ?thesis by simp
    next
      case False
      then have "ws' = ws\<lparr>ws_tree := ?T2, ws_index := idx\<rparr> \<and> (\<forall>n. r \<noteq> Inr n)"
        using Cons.prems(4) gone fm unfolding p by (auto simp: Let_def split: sum.splits list.splits)
      with g i show ?thesis by simp
    qed
  qed
qed auto

section \<open>Every job keeps one marker\<close>

definition jobs_of :: "state_tree \<Rightarrow> string set" where
  "jobs_of T = {job_id m |m p. p \<in> set T \<and> marker_from_path p = Inr m \<and> kind m \<in> set CORE_STATE_KINDS}"

text \<open>\<open>H\<close> gives, for the jobs that may still be spawned, the key and the placement of each.\<close>

type_synonym job_homes = "string \<Rightarrow> (string \<times> string list) option"

definition at_home :: "job_homes \<Rightarrow> state_tree \<Rightarrow> bool" where
  "at_home H T \<longleftrightarrow>
     (\<forall>p\<in>set T. \<forall>m. marker_from_path p = Inr m \<longrightarrow> kind m \<in> set CORE_STATE_KINDS \<longrightarrow>
        (case H (job_id m) of None \<Rightarrow> True | Some (key, pl) \<Rightarrow> job_key m = key \<and> placement m = pl))"

definition jobs_kept :: "job_homes \<Rightarrow> string set \<Rightarrow> state_tree \<Rightarrow> bool" where
  "jobs_kept H J T \<longleftrightarrow> distinct T \<and> one_marker T \<and> at_home H T \<and> J \<subseteq> jobs_of T"

definition orderly :: "job_homes \<Rightarrow> string set \<Rightarrow> rename_env \<Rightarrow> bool" where
  "orderly H J env \<longleftrightarrow> list_all (\<lambda>(f, _). \<forall>T. jobs_kept H J T \<longrightarrow> jobs_kept H J (f T)) env"

definition movable :: "marker \<Rightarrow> bool" where
  "movable m \<longleftrightarrow> marker_from_path (path m) = Inr m \<and> kind m \<in> set CORE_STATE_KINDS"

definition child_home :: "job_homes \<Rightarrow> string \<Rightarrow> string list \<Rightarrow> bool" where
  "child_home H key pl \<longleftrightarrow>
     wf_placement pl \<and> (\<exists>t i. parse_job_key key = Inr (t, i) \<and> H i = Some (key, pl))"

definition jobs_inv :: "job_homes \<Rightarrow> string set \<Rightarrow> mstate \<Rightarrow> bool" where
  "jobs_inv H J s = (case s of (running, w, ws) \<Rightarrow>
     uuid_pattern (jw_writer_id w) \<and> jobs_kept H J (ws_tree ws) \<and> index_inv (ws_index ws))"

lemma jobs_of_rename:
  assumes "distinct T" and "src \<in> set T" and "marker_from_path src = Inr m"
    and "marker_from_path dst = Inr n" and "kind n \<in> set CORE_STATE_KINDS" and "job_id n = job_id m"
  shows "jobs_of T \<subseteq> jobs_of (rename_path src dst T)"
proof
  fix i assume "i \<in> jobs_of T"
  then obtain p v where p: "p \<in> set T" "marker_from_path p = Inr v" "kind v \<in> set CORE_STATE_KINDS" "i = job_id v"
    by (auto simp: jobs_of_def)
  show "i \<in> jobs_of (rename_path src dst T)"
  proof (cases "p = src")
    case True
    then have "i = job_id n" using p assms(3,6) by simp
    then show ?thesis
      using assms(4,5) unfolding jobs_of_def rename_path_facts(2) [OF assms(1,2)] by blast
  next
    case False
    then show ?thesis
      using p unfolding jobs_of_def rename_path_facts(2) [OF assms(1,2)] by blast
  qed
qed

lemma jobs_kept_rename:
  assumes "jobs_kept H J T" and "movable m" and "marker_from_path dst = Inr n"
    and "kind n \<in> set CORE_STATE_KINDS" and "placement n = placement m" and "job_key n = job_key m"
  shows "jobs_kept H J (rename_path (path m) dst T)"
proof (cases "path m \<in> set T")
  case False
  then have "rename_path (path m) dst T = T" by (simp add: rename_path_def)
  with assms(1) show ?thesis by simp
next
  case True
  have d: "distinct T" "one_marker T" "at_home H T" "J \<subseteq> jobs_of T"
    using assms(1) by (auto simp: jobs_kept_def)
  have m: "marker_from_path (path m) = Inr m" "kind m \<in> set CORE_STATE_KINDS"
    using assms(2) by (auto simp: movable_def)
  have i: "job_id n = job_id m" using assms(6) by (simp add: job_id_def)
  have hm: "case H (job_id m) of None \<Rightarrow> True | Some (key, pl) \<Rightarrow> job_key m = key \<and> placement m = pl"
    using d(3) True m unfolding at_home_def by blast
  have "at_home H (rename_path (path m) dst T)"
    unfolding at_home_def rename_path_facts(2) [OF d(1) True]
    using d(3) hm assms(3,5,6) i unfolding at_home_def by (auto split: option.splits)
  moreover have "J \<subseteq> jobs_of (rename_path (path m) dst T)"
    using d(4) jobs_of_rename [OF d(1) True m(1) assms(3,4) i] by blast
  ultimately show ?thesis
    using one_marker_rename [OF d(2) True m assms(3) i d(1)] rename_path_facts(1) [OF d(1) True]
    by (simp add: jobs_kept_def)
qed

lemma find_marker_at_facts:
  assumes "index_inv idx" and "find_marker_at T key pl idx = (x, idx')"
  shows "index_inv idx' \<and> (\<forall>n. x = Inr (Some n) \<longrightarrow> movable n) \<and>
    (x = Inr None \<longrightarrow> placement_matches T pl (marker_glob key) = [])"
proof -
  let ?hit = "case (marker_index idx, parse_job_key key) of
      (Some ix, Inr (_, i)) \<Rightarrow>
        (case map_of ix i of
           Some e \<Rightarrow>
             if ie_placement e = pl then
               (case index_marker T i e of Some m \<Rightarrow> if job_key m = key then Some m else None | None \<Rightarrow> None)
             else None
         | None \<Rightarrow> None)
    | _ \<Rightarrow> None"
  have cur: "movable m" if "m \<in> set (current_markers T i)" for m i
    using that marker_from_path_parts(5) by (auto simp: current_markers_set movable_def)
  have hit: "movable m" if found: "?hit = Some m" for m
  proof -
    obtain ix t i e where h: "marker_index idx = Some ix" "parse_job_key key = Inr (t, i)"
      "map_of ix i = Some e" "index_marker T i e = Some m"
      using found by (auto split: option.splits sum.splits if_splits prod.splits)
    have "ie_kind e \<in> set ACTIVE_STATE_KINDS"
      using assms(1) h(1) map_of_SomeD [OF h(3)] by (auto simp: index_inv_def wf_index_def list_all_iff)
    from cur [OF index_marker_current [OF h(4) this]] show ?thesis .
  qed
  have pm: "movable m" if "m \<in> set (placement_matches T pl g)" for m g
    using that marker_from_path_parts(5) by (auto simp: placement_matches_set movable_def)
  show ?thesis
  proof (cases ?hit)
    case (Some m)
    then have "x = Inr (Some m)" "idx' = idx" using assms(2) unfolding find_marker_at_def by (simp_all add: Let_def)
    then show ?thesis using hit [OF Some] assms(1) by simp
  next
    case None
    then have f: "(x, idx') = (case placement_matches T pl (marker_glob key) of
        [] \<Rightarrow> (Inr None, idx) | [m] \<Rightarrow> (Inr (Some m), index_note m idx) | _ \<Rightarrow> (Inl WorkspaceCorruptionError, idx))"
      using assms(2) unfolding find_marker_at_def by (simp add: Let_def)
    show ?thesis
      using f assms(1) index_note_inv pm [of _ "marker_glob key"]
      by (auto split: list.splits)
  qed
qed

text \<open>A child whose marker was not found at its home has none.\<close>

lemma child_is_fresh:
  assumes "at_home H T" and "child_home H key pl" and "placement_matches T pl (marker_glob key) = []"
    and "parse_job_key key = Inr (t, i)"
  shows "current_markers T i = []"
proof (rule ccontr)
  assume "current_markers T i \<noteq> []"
  then obtain m where "m \<in> set (current_markers T i)" by (cases "current_markers T i") auto
  then obtain p where p: "p \<in> set T" "marker_from_path p = Inr m" "kind m \<in> set CORE_STATE_KINDS" "job_id m = i"
    by (auto simp: current_markers_set)
  have "H i = Some (key, pl)" using assms(2,4) by (auto simp: child_home_def)
  then have h: "job_key m = key" "placement m = pl" using assms(1) p unfolding at_home_def by fastforce+
  obtain prio gen ref where "last p = key @ ''.p'' @ prio @ ''.g'' @ gen @ ''.'' @ ref" "length prio = 3"
    using marker_from_path_parts(1) [OF p(2)] h by blast
  then have "glob_match (marker_glob key) (last p)" using marker_glob_match by simp
  then have "m \<in> set (placement_matches T pl (marker_glob key))"
    using p h by (auto simp: placement_matches_set)
  with assms(3) show False by simp
qed

lemma jobs_kept_publish:
  assumes "jobs_kept H J T" and "child_home H key pl" and "placement_matches T pl (marker_glob key) = []"
    and "marker_path Submitted pl key prio 0 ''init'' = Inr dst" and "publish_path env dst T = (x, T')"
  shows "jobs_kept H J T'"
proof -
  obtain t i where key: "parse_job_key key = Inr (t, i)" "H i = Some (key, pl)" "wf_placement pl"
    using assms(2) by (auto simp: child_home_def)
  have d: "distinct T" "one_marker T" "at_home H T" "J \<subseteq> jobs_of T"
    using assms(1) by (auto simp: jobs_kept_def)
  have fresh: "current_markers T i = []" by (rule child_is_fresh [OF d(3) assms(2,3) key(1)])
  obtain n where n: "marker_from_path dst = Inr n" "job_key n = key" "placement n = pl" "kind n = Submitted"
    using marker_path_read [OF assms(4) normalize_parts_wf [OF key(3)]] by (auto simp: marker_ref_pattern_def)
  have i: "job_id n = i" using n(2) key(1) by (simp add: job_id_def)
  have core: "Submitted \<in> set CORE_STATE_KINDS" by code_simp
  have new: "dst \<notin> set T"
  proof
    assume "dst \<in> set T"
    then have "n \<in> set (current_markers T i)" using n i core by (auto simp: current_markers_set)
    with fresh show False by simp
  qed
  consider "T' = T" | "T' = dst # T"
  proof -
    have "T' = T \<or> T' = dst # filter (\<lambda>p. p \<noteq> dst) T" using assms(5)
      by (induction env dst T rule: publish_path.induct) (auto split: if_splits)
    moreover have "filter (\<lambda>p. p \<noteq> dst) T = T" using new by (intro filter_True) auto
    ultimately show thesis using that by auto
  qed
  then show ?thesis
  proof cases
    case 2
    have "one_marker (dst # T)" using one_marker_insert [OF d(2) _ n(1)] fresh i by simp
    moreover have "at_home H (dst # T)" using d(3) n i key(2) by (simp add: at_home_def)
    moreover have "jobs_of T \<subseteq> jobs_of (dst # T)" unfolding jobs_of_def list.set by blast
    then have "J \<subseteq> jobs_of (dst # T)" using d(4) by (rule subset_trans [rotated])
    ultimately show ?thesis using new d(1) 2 by (simp add: jobs_kept_def)
  qed (use assms(1) in simp)
qed

interpretation jobs: manager_invariant "jobs_inv H J" movable "orderly H J" "child_home H" for H J
proof unfold_locales
  fix R w ws m env k now u prio r w' ws'
  assume i: "jobs_inv H J (R, w, ws)" and m: "movable m" and env: "orderly H J env"
    and k: "k \<in> set CORE_STATE_KINDS"
    and t: "transition env now m k u prio False w ws = (r, w', ws')"
  have w: "uuid_pattern (jw_writer_id w)" "jobs_kept H J (ws_tree ws)" "index_inv (ws_index ws)"
    using i by (auto simp: jobs_inv_def)
  have p: "marker_from_path (path m) = Inr m" using m by (simp add: movable_def)
  from t w(1) p show "jobs_inv H J (R, w', ws') \<and> (\<forall>n. r = Inr n \<longrightarrow> \<not> final k \<longrightarrow> movable n)"
  proof (cases rule: transition_moves)
    case (still e)
    then show ?thesis using w by (simp add: jobs_inv_def)
  next
    case (moved dst n J')
    have "jobs_kept H J (ws_tree ws') \<and> index_inv (ws_index ws') \<and> (\<forall>v. r = Inr v \<longrightarrow> marker_from_path dst = Inr v)"
    proof (rule rename_keeps [OF _ _ _ _ _ moved(1)])
      show "jobs_kept H J (rename_path (path m) dst T)" if "jobs_kept H J T" for T
        using jobs_kept_rename [OF that m moved(2)] moved(4-6) k by simp
    qed (use w env in \<open>simp_all add: jobs_kept_def orderly_def\<close>)
    then show ?thesis using w moved k by (auto simp: jobs_inv_def movable_def)
  qed
next
  fix R w ws key pl x idx
  assume "jobs_inv H J (R, w, ws)" "find_marker_at (ws_tree ws) key pl (ws_index ws) = (x, idx)"
  then show "jobs_inv H J (R, w, ws\<lparr>ws_index := idx\<rparr>) \<and> (\<forall>n. x = Inr (Some n) \<longrightarrow> \<not> final (kind n) \<longrightarrow> movable n)"
    using find_marker_at_facts by (auto simp: jobs_inv_def)
next
  fix R w ws key pl idx0 idx prio dst env x T
  assume i: "jobs_inv H J (R, w, ws)" and h: "child_home H key pl"
    and f: "find_marker_at (ws_tree ws) key pl idx0 = (Inr None, idx)"
    and d: "marker_path Submitted pl key prio 0 ''init'' = Inr dst"
    and p: "publish_path env dst (ws_tree ws) = (x, T)"
  have pm: "placement_matches (ws_tree ws) pl (marker_glob key) = []"
    using f by (auto simp: find_marker_at_def Let_def split: option.splits sum.splits list.splits if_splits prod.splits)
  have "index_inv (index_note_path dst (ws_index ws))"
    using i index_note_inv by (auto simp: index_note_path_def jobs_inv_def split: sum.splits)
  then show "jobs_inv H J (R, w, ws\<lparr>ws_tree := T, ws_index := (if x = Inr () then index_note_path dst (ws_index ws) else ws_index ws)\<rparr>)"
    using i jobs_kept_publish [OF _ h pm d p] by (auto simp: jobs_inv_def)
qed (auto simp: jobs_inv_def)

definition orderly_tick :: "job_homes \<Rightarrow> string set \<Rightarrow> tick_world \<Rightarrow> bool" where
  "orderly_tick H J tw \<longleftrightarrow>
     proper_windows tw \<and> (\<forall>env \<in> tick_renames tw. orderly H J env) \<and>
     (\<forall>m. homed_children (child_home H) (tw_spawn tw m) (tw_outcome tw m))"

lemma orderly_sound: "orderly_tick H J tw \<Longrightarrow> jobs.sound_tick H J tw"
  unfolding jobs.sound_tick_def jobs.fair_world_def jobs.fair_moves_def orderly_tick_def
    proper_windows_def tick_renames_def movable_def list_all_iff
  by fastforce

section \<open>Finished jobs\<close>

text \<open>The paths of some finished jobs are in the tree; other actors leave them there.\<close>

definition finished_paths :: "string list set \<Rightarrow> bool" where
  "finished_paths P \<longleftrightarrow> (\<forall>p\<in>P. \<exists>m. marker_from_path p = Inr m \<and> final (kind m))"

definition finished_inv :: "string list set \<Rightarrow> mstate \<Rightarrow> bool" where
  "finished_inv P s = (case s of (running, w, ws) \<Rightarrow>
     finished_paths P \<and> uuid_pattern (jw_writer_id w) \<and> index_inv (ws_index ws) \<and>
     distinct (ws_tree ws) \<and> P \<subseteq> set (ws_tree ws))"

definition unfinished :: "marker \<Rightarrow> bool" where
  "unfinished m \<longleftrightarrow> movable m \<and> \<not> final (kind m)"

definition respectful :: "string list set \<Rightarrow> rename_env \<Rightarrow> bool" where
  "respectful P env \<longleftrightarrow>
     list_all (\<lambda>(f, _). \<forall>T. distinct T \<and> P \<subseteq> set T \<longrightarrow> distinct (f T) \<and> P \<subseteq> set (f T)) env"

lemma finished_rename:
  assumes "finished_paths P" and "distinct T \<and> P \<subseteq> set T" and "unfinished m"
  shows "distinct (rename_path (path m) dst T) \<and> P \<subseteq> set (rename_path (path m) dst T)"
proof (cases "path m \<in> set T")
  case True
  have "path m \<notin> P" using assms(1,3) by (auto simp: finished_paths_def unfinished_def movable_def)
  then show ?thesis
    using assms(2) rename_path_facts [OF _ True] by auto
qed (use assms(2) in \<open>simp add: rename_path_def\<close>)

interpretation finished: manager_invariant "finished_inv P" unfinished "respectful P" "\<lambda>_ _. True" for P
proof unfold_locales
  fix R w ws m env k now u prio r w' ws'
  assume i: "finished_inv P (R, w, ws)" and m: "unfinished m" and env: "respectful P env"
    and k: "k \<in> set CORE_STATE_KINDS"
    and t: "transition env now m k u prio False w ws = (r, w', ws')"
  have w: "finished_paths P" "uuid_pattern (jw_writer_id w)" "index_inv (ws_index ws)"
    "distinct (ws_tree ws) \<and> P \<subseteq> set (ws_tree ws)"
    using i by (auto simp: finished_inv_def)
  have p: "marker_from_path (path m) = Inr m" using m by (simp add: unfinished_def movable_def)
  from t w(2) p show "finished_inv P (R, w', ws') \<and> (\<forall>n. r = Inr n \<longrightarrow> \<not> final k \<longrightarrow> unfinished n)"
  proof (cases rule: transition_moves)
    case (still e)
    then show ?thesis using w by (simp add: finished_inv_def)
  next
    case (moved dst n J')
    let ?good = "\<lambda>T. distinct T \<and> P \<subseteq> set T"
    have "?good (ws_tree ws') \<and> index_inv (ws_index ws') \<and> (\<forall>v. r = Inr v \<longrightarrow> marker_from_path dst = Inr v)"
      by (rule rename_keeps [OF _ _ _ _ _ moved(1)])
        (use w env finished_rename [OF w(1) _ m] in \<open>auto simp: respectful_def\<close>)
    then show ?thesis using w moved k by (auto simp: finished_inv_def unfinished_def movable_def)
  qed
next
  fix R w ws key pl x idx
  assume "finished_inv P (R, w, ws)" "find_marker_at (ws_tree ws) key pl (ws_index ws) = (x, idx)"
  then show "finished_inv P (R, w, ws\<lparr>ws_index := idx\<rparr>) \<and> (\<forall>n. x = Inr (Some n) \<longrightarrow> \<not> final (kind n) \<longrightarrow> unfinished n)"
    using find_marker_at_facts by (auto simp: finished_inv_def unfinished_def)
next
  fix R w ws key pl idx0 idx prio dst env x T
  assume i: "finished_inv P (R, w, ws)" and p: "publish_path env dst (ws_tree ws) = (x, T)"
  have "T = ws_tree ws \<or> T = dst # filter (\<lambda>p. p \<noteq> dst) (ws_tree ws)" using p
    by (induction env dst "ws_tree ws" rule: publish_path.induct) (auto split: if_splits)
  moreover have "index_inv (index_note_path dst (ws_index ws))"
    using i index_note_inv by (auto simp: index_note_path_def finished_inv_def split: sum.splits)
  ultimately show "finished_inv P (R, w, ws\<lparr>ws_tree := T, ws_index := (if x = Inr () then index_note_path dst (ws_index ws) else ws_index ws)\<rparr>)"
    using i by (auto simp: finished_inv_def)
qed (auto simp: finished_inv_def)

definition respectful_tick :: "string list set \<Rightarrow> tick_world \<Rightarrow> bool" where
  "respectful_tick P tw \<longleftrightarrow> proper_windows tw \<and> (\<forall>env \<in> tick_renames tw. respectful P env)"

lemma respectful_sound: "respectful_tick P tw \<Longrightarrow> finished.sound_tick P tw"
proof -
  assume r: "respectful_tick P tw"
  have "homed_children (\<lambda>_ _. True) sw od" for sw od
    by (auto simp: homed_children_def homed_child_def list_all_iff split: json.splits sum.splits)
  with r show ?thesis
    unfolding finished.sound_tick_def finished.fair_world_def finished.fair_moves_def respectful_tick_def
      proper_windows_def tick_renames_def unfinished_def movable_def list_all_iff
    by (fastforce simp: final_def terminal_def TERMINAL_KINDS_def)
qed

section \<open>Properties\<close>


text \<open>
  C2. Success and cancellation are final. However long a manager runs and whatever operators
  request, the marker of a succeeded or cancelled job stays exactly where it is.
\<close>

theorem finished_jobs_stay:
  assumes "uuid_pattern (jw_writer_id w)" and "index_inv (ws_index ws)" and "distinct (ws_tree ws)"
    and "live ws m" and "kind m \<in> {Succeeded, Cancelled}"
    and "list_all (respectful_tick {path m}) passes"
    and "run_until_idle mc passes quiet_passes (book, running, w, ws) = (r, book', running', w', ws')"
  shows "live ws' m"
proof -
  let ?P = "{path m}"
  have "list_all (finished.sound_tick ?P) passes"
    using assms(6) respectful_sound by (auto simp: list_all_iff)
  moreover have "finished.with_book ?P (book, running, w, ws)"
    using assms(1-5) by (auto simp: finished.with_book_def finished_inv_def finished_paths_def live_def final_def)
  ultimately have "finished.with_book ?P (book', running', w', ws')"
    using finished.run_until_idle_keeps assms(7) by blast
  then show ?thesis using assms(4) by (simp add: finished.with_book_def finished_inv_def live_def)
qed

lemma example_tick_sound:
  assumes "\<And>m. m \<in> set ms \<Longrightarrow> movable m"
  shows "orderly_tick H J (example_tick ms)" and "respectful_tick P (example_tick ms)"
proof -
  have "tick_renames (example_tick ms) = {quiet [False, True]}"
    by (auto simp: tick_renames_def example_tick_def example_world_def)
  moreover have "proper_windows (example_tick ms)"
    using assms by (auto simp: proper_windows_def example_tick_def movable_def)
  moreover have "homed_children (child_home H) (tw_spawn (example_tick ms) m) (tw_outcome (example_tick ms) m)" for m
    by (simp add: homed_children_def example_tick_def example_outcome_def read_json_text_def)
  ultimately show "orderly_tick H J (example_tick ms)" "respectful_tick P (example_tick ms)"
    by (simp_all add: orderly_tick_def respectful_tick_def orderly_def respectful_def quiet_def)
qed


theorem finished_jobs_stay_witness:
  "\<exists>r book running w ws. run_until_idle example_manager [example_tick [], example_tick []] 0
      (example_book, [], fst example_store, example_workspace\<lparr>ws_tree := [path finished_marker]\<rparr>)
        = (r, book, running, w, ws) \<and> live ws finished_marker"
proof -
  let ?ws = "example_workspace\<lparr>ws_tree := [path finished_marker]\<rparr>"
  obtain r book running w ws where run: "run_until_idle example_manager [example_tick [], example_tick []] 0
      (example_book, [], fst example_store, ?ws) = (r, book, running, w, ws)"
    by (metis prod_cases5)
  have ok: "list_all (respectful_tick {path finished_marker}) [example_tick [], example_tick []]"
    by (auto intro!: example_tick_sound)
  have k: "kind finished_marker \<in> {Succeeded, Cancelled}" by (simp add: finished_marker_def)
  have live: "live ?ws finished_marker"
    using finished_marker_read by (simp add: live_def finished_marker_def CORE_STATE_KINDS_def STATE_KINDS_def)
  have idx: "index_inv (ws_index ?ws)" "distinct (ws_tree ?ws)"
    using example_index_inv by (simp_all add: example_workspace_def)
  from finished_jobs_stay [OF example_writer_uuid idx live k ok run] run show ?thesis by blast
qed

end
