(* ===== verification/Manager_History.thy ===== *)
theory Manager_History
  imports Manager_Jobs
begin

text \<open>
  What a running manager never destroys: every frame and every job document that could be
  read before is read unchanged afterwards, by an interpretation of the interface of all
  operations. It needs nothing of the state tree, of the windows of the passes or of the file
  server; only that the open journal segment of the manager ends where its handle stands.
\<close>

section \<open>A writer whose handle is at the end of its segment\<close>

definition handle_ok :: "journal_writer \<Rightarrow> journal \<Rightarrow> bool" where
  "handle_ok w J \<longleftrightarrow>
     (case jw_handle w of
        None \<Rightarrow> True
      | Some tell \<Rightarrow>
          (\<exists>b. segment_bytes J (jw_writer_id w) (jw_segment_number w) = Some b \<and> length b = tell))"

lemma writer_inv_handle: "writer_inv w J \<Longrightarrow> handle_ok w J"
  by (auto simp: writer_inv_def handle_ok_def split: option.splits)

lemma rotate_handle:
  assumes "handle_ok w J" and "rotate_if_needed w n J = (x, w1, J1)"
  shows "handle_ok w1 J1 \<and> journal_extends J J1 \<and> jw_writer_id w1 = jw_writer_id w \<and>
    (\<forall>u. x = Inr u \<longrightarrow> jw_handle w1 \<noteq> None)"
proof (cases "w1 = w \<and> J1 = J")
  case True
  then show ?thesis using assms by (auto simp: rotate_if_needed_def Let_def split: option.splits)
next
  case False
  let ?w = "w\<lparr>jw_handle := None, jw_segment_number := jw_segment_number w + 1\<rparr>"
  have "open_segment ?w (jw_segment_number w + 1) J = (x, w1, J1)"
    using assms(2) False by (auto simp: rotate_if_needed_def Let_def split: option.splits if_splits)
  then show ?thesis
    using journal_extends_set [of J "jw_writer_id w" "jw_segment_number w + 1" SEGMENT_HEADER "[]"]
    by (auto simp: open_segment_def handle_ok_def split: if_splits option.splits)
qed

lemma append_handle:
  assumes "handle_ok w J" and "append_record w f J = (x, w', J')"
  shows "handle_ok w' J' \<and> journal_extends J J' \<and> jw_writer_id w' = jw_writer_id w"
proof (cases "utf8_valid False (json_bytes (JObj f))")
  case False
  with assms show ?thesis by (simp add: append_record_def Let_def)
next
  case True
  let ?frame = "frame_bytes (json_bytes (JObj f))"
  obtain y w1 J1 where r: "rotate_if_needed w (length ?frame) J = (y, w1, J1)"
    by (cases "rotate_if_needed w (length ?frame) J")
  note h = rotate_handle [OF assms(1) r]
  show ?thesis
  proof (cases y)
    case (Inl e)
    with True r h assms(2) show ?thesis by (simp add: append_record_def Let_def del: frame_bytes_length)
  next
    case (Inr u)
    obtain b where b: "jw_handle w1 = Some (length b)"
      "segment_bytes J1 (jw_writer_id w1) (jw_segment_number w1) = Some b"
      using h Inr by (auto simp: handle_ok_def split: option.splits)
    have J': "J' = set_segment J1 (jw_writer_id w1) (jw_segment_number w1) (b @ ?frame)"
      "w' = w1\<lparr>jw_handle := Some (length b + length ?frame)\<rparr>"
      using True r Inr b assms(2) by (auto simp: append_record_def Let_def simp del: frame_bytes_length)
    have "journal_extends J1 J'" unfolding J' by (rule journal_extends_set) (simp add: b)
    then show ?thesis
      using h journal_extends_trans by (auto simp: J' handle_ok_def)
  qed
qed

section \<open>History\<close>

text \<open>The workspace \<open>old\<close> is part of the history of \<open>ws\<close>.\<close>

definition remembers :: "workspace \<Rightarrow> workspace \<Rightarrow> bool" where
  "remembers ws old \<longleftrightarrow>
     ws_id ws = ws_id old \<and> journal_extends (ws_journal old) (ws_journal ws) \<and>
     ws_documents old \<subseteq>\<^sub>m ws_documents ws"

definition history_inv :: "string \<Rightarrow> workspace \<Rightarrow> mstate \<Rightarrow> bool" where
  "history_inv i old s = (case s of (running, w, ws) \<Rightarrow>
     jw_writer_id w = i \<and> handle_ok w (ws_journal ws) \<and> remembers ws old)"

lemma remembers_refl: "remembers ws ws"
  by (simp add: remembers_def)

lemma remembers_job:
  assumes "remembers ws old" and "load_job old m = Inr job"
  shows "load_job ws m = Inr job"
proof -
  let ?t = "payload_path (placement m) (job_key m)"
  obtain document where "ws_documents old ?t = Some document"
    using assms(2) by (cases "ws_documents old ?t") (auto simp: load_job_def job_from_path_def res_simps)
  moreover have "ws_documents ws ?t = ws_documents old ?t"
    using calculation assms(1) by (force simp: remembers_def map_le_def)
  ultimately show ?thesis using assms(2) by (simp add: load_job_def)
qed

lemma remembers_state: "remembers ws old \<Longrightarrow> read_state old m = Inr f \<Longrightarrow> read_state ws m = Inr f"
  unfolding remembers_def by (elim conjE) (rule read_state_extends)

lemma rename_other:
  "verified_marker_rename env m dst ws = (r, ws') \<Longrightarrow>
     ws_documents ws' = ws_documents ws \<and> ws_id ws' = ws_id ws \<and>
     (\<forall>n. r = Inr n \<longrightarrow> marker_from_path dst = Inr n)"
proof (induction env m dst ws rule: verified_marker_rename.induct)
  case (2 others performed env m dst ws)
  let ?T = "if performed then rename_path (path m) dst (others (ws_tree ws)) else others (ws_tree ws)"
  obtain x idx where f: "find_markers ?T (job_key m) CORE_STATE_KINDS (ws_index ws) = (x, idx)"
    by (cases "find_markers ?T (job_key m) CORE_STATE_KINDS (ws_index ws)")
  show ?case
  proof (cases "dst \<in> set ?T")
    case True
    with 2(3) show ?thesis by (cases "marker_from_path dst") (auto simp: Let_def)
  next
    case new: False
    show ?thesis
    proof (cases "path m \<in> set ?T")
      case True
      from 2(1) [OF refl refl refl new True] 2(3) new True show ?thesis by (simp add: Let_def)
    next
      case False
      show ?thesis
      proof (cases "x = Inr []")
        case True
        have "verified_marker_rename env m dst (ws\<lparr>ws_tree := ?T, ws_index := idx\<rparr>) = (r, ws')"
          using 2(3) new False f True by (simp add: Let_def)
        with 2(2) [OF refl refl refl new False] f True show ?thesis by force
      next
        case other: False
        have "ws' = ws\<lparr>ws_tree := ?T, ws_index := idx\<rparr> \<and> (\<forall>n. r \<noteq> Inr n)"
          using 2(3) new False f other by (auto simp: Let_def split: sum.splits list.splits)
        then show ?thesis by simp
      qed
    qed
  qed
qed auto

lemma transition_remembers:
  assumes "handle_ok w (ws_journal ws)" and "transition env now m k u prio a w ws = (r, w', ws')"
  shows "handle_ok w' (ws_journal ws') \<and> jw_writer_id w' = jw_writer_id w \<and> remembers ws' ws"
proof -
  have "handle_ok w' (ws_journal ws') \<and> jw_writer_id w' = jw_writer_id w \<and>
      journal_extends (ws_journal ws) (ws_journal ws')"
    using transition_journal [OF assms(2)] append_handle [OF assms(1)] assms(1) by auto
  moreover have "ws_documents ws' = ws_documents ws \<and> ws_id ws' = ws_id ws"
    using assms(2)
  proof (cases rule: transition_started)
    case (3 ref J')
    show ?thesis
    proof (cases "marker_path k (placement m) (job_key m)
        (case prio of None \<Rightarrow> int (priority m) | Some p \<Rightarrow> p) (int (generation m) + 1) ref")
      case (Inr dst)
      then have "verified_marker_rename env m dst (ws\<lparr>ws_journal := J'\<rparr>) = (r, ws')" using 3(3) by simp
      from rename_other [OF this] show ?thesis by simp
    qed (use 3(3) in simp)
  qed auto
  ultimately show ?thesis by (simp add: remembers_def)
qed

lemma remembers_trans: "remembers ws mid \<Longrightarrow> remembers mid old \<Longrightarrow> remembers ws old"
  using journal_extends_trans map_le_trans unfolding remembers_def by metis

interpretation history: manager_invariant "history_inv i old" "\<lambda>_. True" "\<lambda>_. True" "\<lambda>_ _. True" for i old
proof unfold_locales
  fix R w ws m env k now u prio r w' ws'
  assume "history_inv i old (R, w, ws)" "transition env now m k u prio False w ws = (r, w', ws')"
  then show "history_inv i old (R, w', ws') \<and> (\<forall>n. r = Inr n \<longrightarrow> \<not> final k \<longrightarrow> True)"
    using transition_remembers [of w ws env now m k u prio False r w' ws'] remembers_trans [of ws' ws old]
    by (simp add: history_inv_def)
next
  fix R w ws t d
  assume "history_inv i old (R, w, ws)" "ws_documents ws t = None"
  then show "history_inv i old (R, w, ws\<lparr>ws_documents := (ws_documents ws)(t := d)\<rparr>)"
    unfolding history_inv_def remembers_def map_le_def by (auto, metis domI option.distinct(1))
qed (auto simp: history_inv_def remembers_def)

lemma history_sound: "history.sound_tick tw"
  by (auto simp: history.sound_tick_def history.fair_world_def history.fair_moves_def homed_children_def
      homed_child_def list_all_iff split: json.splits sum.splits)



end
