(* ===== verification/Manager_Capacity.thy ===== *)
theory Manager_Capacity
  imports Manager_History Scheduling_Correct
begin

text \<open>
  A manager never oversubscribes its capacity: the claim loop's interface is interpreted on the
  claim and launch of the model. What an attempt reserves when it is launched is recomputed
  from the claimed frame, so the proof follows that frame through the journal and back.
\<close>

section \<open>Reading back what was appended\<close>

lemma append_read_back:
  assumes "handle_ok w J" and "uuid_pattern (jw_writer_id w)" and "storable f"
    and "append_record w f J = (Inr ref, w', J')" and "read_record [J'] ref = Inr g"
  shows "g = stored f"
proof -
  let ?p = "json_bytes (JObj f)"
  let ?h = "checksum_prefix (frame_checksum ?p)"
  have u8: "utf8_valid False ?p" using assms(4) by (auto simp: append_record_def Let_def split: if_splits)
  obtain y w1 J1 where r: "rotate_if_needed w (length (frame_bytes ?p)) J = (y, w1, J1)"
    by (cases "rotate_if_needed w (length (frame_bytes ?p)) J")
  obtain u where y: "y = Inr u"
    using assms(4) u8 r by (cases y) (auto simp: append_record_def Let_def simp del: frame_bytes_length)
  note k = rotate_handle [OF assms(1) r]
  obtain b where b: "jw_handle w1 = Some (length b)"
    "segment_bytes J1 (jw_writer_id w1) (jw_segment_number w1) = Some b"
    using k y by (auto simp: handle_ok_def split: option.splits)
  have ref: "ref = encode_record_ref (jw_writer_id w) (jw_segment_number w1) (length b) (length ?p) ?h"
    "J' = set_segment J1 (jw_writer_id w) (jw_segment_number w1) (b @ frame_bytes ?p)"
    using u8 r y b k assms(4) by (auto simp: append_record_def Let_def simp del: frame_bytes_length)
  have parsed: "parse_record_ref ref = Inr x \<Longrightarrow> x = (jw_writer_id w, jw_segment_number w1, length b, length ?p, ?h)" for x
    using encode_record_ref_fields [OF assms(2), of ?h] hyphenate_dehyphenate [OF assms(2)]
    unfolding ref(1) parse_record_ref_def by (auto split: if_splits)
  have "read_attempts [Some (b @ frame_bytes ?p)] (length b) (length ?p) ?h = Inr g"
    using assms(5) parsed ref(2) by (auto simp: read_record_def res_simps)
  then have g: "read_frame (Some (b @ frame_bytes ?p)) (length b) (length ?p) ?h = Inr g"
    by (auto split: sum.splits if_splits)
  have "length ?p < 2 ^ 64" using assms(3) by (simp add: storable_def)
  with g read_frame_Inr [OF g] read_frame_written [of b ?p "[]"] storable_decode [OF assms(3)]
  show ?thesis by simp
qed


section \<open>The claimed frame\<close>

text \<open>A transition that succeeds returns the marker whose reference the writer handed out.\<close>

lemma transition_read_back:
  assumes "handle_ok w (ws_journal ws)" and "uuid_pattern (jw_writer_id w)"
    and "marker_from_path (path m) = Inr m" and "storable (transition_frame ws m k prio now u)"
    and "transition env now m k u prio a w ws = (Inr n, w', ws')" and "read_state ws' n = Inr g"
  shows "g = stored (transition_frame ws m k prio now u)"
  using assms(5)
proof (cases rule: transition_started)
  case (3 ref J')
  obtain dst where dst: "marker_path k (placement m) (job_key m)
      (case prio of None \<Rightarrow> int (priority m) | Some p \<Rightarrow> p) (int (generation m) + 1) ref = Inr dst"
    and ren: "verified_marker_rename env m dst (ws\<lparr>ws_journal := J'\<rparr>) = (Inr n, ws')"
    using 3(3) by (auto split: sum.splits)
  have ref: "marker_ref_pattern ref" "ref \<noteq> ''init''"
    using append_reference [OF 3(2) assms(2)] by auto
  have "marker_from_path dst = Inr n" using rename_other [OF ren] by blast
  then have n: "record_ref n = ref"
    using marker_path_read [OF dst marker_from_path_placement [OF assms(3)] ref(1)] by auto
  have "ws_journal ws' = J'" using rename_journal [of env m dst "ws\<lparr>ws_journal := J'\<rparr>"] ren by simp
  then have "read_record [J'] ref = Inr g"
    using assms(6) n ref(2) by (auto simp: read_state_def res_simps split: if_splits)
  from append_read_back [OF assms(1,2,4) 3(2) this] show ?thesis .
qed auto

lemma claim_transition:
  "manager_transition wo m Claimed u None (R, w, ws) =
     (case transition (wo_rename wo m Claimed) (wo_now wo) m Claimed u None False w ws of
        (r, w', ws') \<Rightarrow> (r, R, w', ws'))"
  by (simp add: manager_transition_def resolve_pause_def Let_def terminal_def TERMINAL_KINDS_def split_beta)

lemma canon_ints:
  "canon (JObj (map (\<lambda>(k, v). (k, JInt v)) r)) = JObj (map (\<lambda>(k, v). (k, JInt v)) (sort_key fst r))"
proof -
  have "map (\<lambda>(k, v). (k, canon v)) (map (\<lambda>(k, v). (k, JInt v)) r) = map (\<lambda>(k, v). (k, JInt v)) r"
    by (induction r) auto
  then show ?thesis by (simp only: canon.simps sort_map)
qed

text \<open>The frame of a claim records the requirement, and the journal returns it in key order.\<close>

lemma resources_written:
  assumes "distinct (map fst r)" and "u = claim_updates mc wo i job state r a t"
  shows "\<exists>q. get (stored (transition_frame ws m Claimed None now u)) ''resources'' = JObj (map (\<lambda>(k, v). (k, JInt v)) q) \<and>
    set q = set r \<and> distinct (map fst q)"
proof -
  let ?f = "transition_frame ws m Claimed None now u"
  have res: "''resources'' \<in> set FRAME_MEMBERS" by code_simp
  have u: "distinct (map fst u)" unfolding assms(2) claim_updates_def by simp
  have "map_of u ''resources'' = Some (JObj (map (\<lambda>(k, v). (k, JInt v)) r))"
    unfolding assms(2) claim_updates_def by (simp add: map_of_replace res)
  moreover have "map_of (rev u) = map_of u"
    using u by (intro map_of_inject_set [THEN iffD2]) (simp_all add: rev_map [symmetric])
  ultimately have g: "get ?f ''resources'' = JObj (map (\<lambda>(k, v). (k, JInt v)) r)"
    by (simp add: transition_frame_def get_def map_add_def)
  have "distinct envelope_members" by code_simp
  then have d: "distinct (map fst ?f)"
    unfolding transition_frame_def by (intro dict_update_distinct) (simp add: envelope_keys)
  let ?q = "sort_key fst r"
  have "get (stored ?f) ''resources'' = JObj (map (\<lambda>(k, v). (k, JInt v)) ?q)"
    using stored_get [OF d, of "''resources''"] g by (simp only: canon_ints)
  then show ?thesis using assms(1) sort_fst_facts by (intro exI [of _ ?q]) auto
qed


section \<open>What the passes take away\<close>

lemma serves_shrinks: "serves mc running \<Longrightarrow> shrinks running running' \<Longrightarrow> serves mc running'"
proof -
  assume s: "serves mc running" and "shrinks running running'"
  then obtain f P where r: "running' = map f (filter P running)"
    and f: "\<And>a. ra_attempt_id (f a) = ra_attempt_id a \<and> ra_resources (f a) = ra_resources a"
    by (auto simp: shrinks_def)
  have wf: "list_all (\<lambda>a. wf_requirement (ra_resources a)) running" using s by (simp add: serves_def within_capacity_def)
  then have "total_reserved running' name \<le> total_reserved running name" for name
    unfolding r
    by (induction running) (auto simp: total_reserved_def f comp_def intro: add_increasing [OF reserved_nonneg])
  moreover have "list_all (\<lambda>a. wf_requirement (ra_resources a)) running'"
    using wf by (auto simp: r f list_all_iff)
  moreover have "attempts_distinct running'"
    using s by (simp add: r f serves_def attempts_distinct_def comp_def distinct_map_filter)
  moreover have "length running' \<le> length running" by (simp add: r)
  ultimately show ?thesis
    using s unfolding serves_def within_capacity_def by (meson int_ops order_trans of_nat_mono)
qed

section \<open>What a claim adds to the local attempts\<close>

interpretation attempts: step_invariant "\<lambda>s. fst s = R" "\<lambda>_. True" "\<lambda>_. True" for R
  by unfold_locales auto

lemma free_world: "attempts.fair_world wo m"
  by (simp add: attempts.fair_world_def)

lemma failure_attempts:
  assumes "handle_attempt_failure wo m job c msg st un ev (R, w, ws) = (x, R', st')"
  shows "R' = R"
  using keepsD [OF attempts.handle_attempt_failure_safe [OF free_world, of R] _ assms] by simp

lemma launch_attempts:
  assumes "launch_claimed mc wo lw n job prev (R, w, ws) = (x, R', w', ws')"
  shows "R' = R \<or> (\<exists>a claimed. R' = track a R \<and> read_state ws n = Inr claimed \<and>
    effective_requirement job claimed (mc_resources mc) (mc_maximum_workers mc) = Inr (ra_resources a))"
proof (cases "R' = R")
  case False
  let ?tail = "\<lambda>claimed i c requirement s. case launch_process mc wo lw n claimed i c s of
      (Inr moved, (running, st)) \<Rightarrow>
        (if jd_runner_source job = ''payload'' then lw_payload_digest lw else Inr (),
         track \<lparr>ra_job_key = job_key moved, ra_attempt_id = i,
           ra_resources = requirement, ra_fenced = False, ra_cancelling = False\<rparr> running, st)
    | (Inl (e, place), s') \<Rightarrow>
        if e = TransitionLostError then (Inl e, s')
        else handle_attempt_failure wo place job
               (if e = FormatError then ''protocol_error'' else ''process_failure'')
               (''cannot launch runner: '' @ wo_text wo e) None True None s'"
  obtain claimed where c: "read_state ws n = Inr claimed"
    using assms False unfolding launch_claimed_def andthen_def read_frame_act_def
    by (cases "read_state ws n") auto
  obtain i k req where t: "?tail claimed i k req (R, w, ws) = (x, R', w', ws')"
    "effective_requirement job claimed (mc_resources mc) (mc_maximum_workers mc) = Inr req"
    using assms False c unfolding launch_claimed_def andthen_def read_frame_act_def load_job_act_def except_def lift_def
    by (simp split: sum.splits if_splits option.splits)
  obtain y t1 where l: "launch_process mc wo lw n claimed i k (R, w, ws) = (y, t1)"
    by (cases "launch_process mc wo lw n claimed i k (R, w, ws)")
  have "fst t1 = R" using attempts.launch_process_keeps [OF free_world _ l] by simp
  then obtain w1 ws1 where t1: "t1 = (R, w1, ws1)" by (cases t1) auto
  show ?thesis
  proof (cases y)
    case (Inl p)
    then have "R' = R" using t(1) l t1 failure_attempts by (cases p) (auto split: if_splits)
    with False show ?thesis by simp
  next
    case (Inr moved)
    then have "R' = track \<lparr>ra_job_key = job_key moved, ra_attempt_id = i,
           ra_resources = req, ra_fenced = False, ra_cancelling = False\<rparr> R"
      using t(1) l t1 by simp
    with c t(2) show ?thesis by fastforce
  qed
qed simp


section \<open>The claim loop never oversubscribes\<close>

text \<open>The frame that claiming writes.\<close>

definition claim_frame ::
  "manager_config \<Rightarrow> world \<Rightarrow> string \<Rightarrow> workspace \<Rightarrow> marker \<Rightarrow> job_definition \<Rightarrow> frame \<Rightarrow> requirement \<Rightarrow> obj" where
  "claim_frame mc wo i ws m job state r =
     transition_frame ws m Claimed None (wo_now wo)
       (claim_updates mc wo i job state r (or_default (frame_attempt_ordinal state) 0 + 1)
          (or_default (frame_total_attempts state) 0 + 1))"

text \<open>
  A candidate: its job and frame are readable, name each resource once, and require what was
  checked; and the frame of its claim can be stored.
\<close>

definition claimable ::
  "manager_config \<Rightarrow> world \<Rightarrow> journal_writer \<times> workspace \<Rightarrow> marker \<Rightarrow> requirement \<Rightarrow> bool" where
  "claimable mc wo st m r \<longleftrightarrow>
     (case st of (w, ws) \<Rightarrow>
        wf_requirement (mc_resources mc) \<and> 0 < mc_maximum_workers mc \<and>
        handle_ok w (ws_journal ws) \<and> uuid_pattern (jw_writer_id w) \<and> marker_from_path (path m) = Inr m \<and>
        (case (load_job ws m, read_state ws m) of
           (Inr job, Inr state) \<Rightarrow>
             effective_requirement job state (mc_resources mc) (mc_maximum_workers mc) = Inr r \<and>
             wf_job_resources job \<and> resources_distinct state \<and>
             storable (claim_frame mc wo (jw_writer_id w) ws m job state r)
         | _ \<Rightarrow> False))"

lemma claim_owned_adds:
  assumes "claimable mc wo (w, ws) m r" and "claim_owned mc wo lw m (R, w, ws) = (x, R', w', ws')"
  shows "R' = R \<or> (\<exists>a. R' = track a R \<and> wf_requirement (ra_resources a) \<and>
    (\<forall>name. reserved (ra_resources a) name = reserved r name))"
proof (cases "R' = R")
  case False
  obtain job state where c: "load_job ws m = Inr job" "read_state ws m = Inr state"
    "effective_requirement job state (mc_resources mc) (mc_maximum_workers mc) = Inr r" "wf_job_resources job"
    "resources_distinct state" "storable (claim_frame mc wo (jw_writer_id w) ws m job state r)"
    and mc: "wf_requirement (mc_resources mc)" "0 < mc_maximum_workers mc"
    and w: "handle_ok w (ws_journal ws)" "uuid_pattern (jw_writer_id w)" "marker_from_path (path m) = Inr m"
    using assms(1) by (auto simp: claimable_def split: sum.splits)
  have l: "load_job_and_state m (R, w, ws) = (Inr (Some (job, state)), R, w, ws)"
    using c by (simp add: load_job_and_state_def load_job_act_def read_frame_act_def except_def andthen_def ret_def)
  let ?a = "or_default (frame_attempt_ordinal state) 0 + 1" and ?t = "or_default (frame_total_attempts state) 0 + 1"
  let ?u = "claim_updates mc wo (jw_writer_id w) job state r ?a ?t"
  have tr: "safe (\<lambda>s. fst s = R) (andthen (manager_transition wo m k v None) (\<lambda>_. ret True))"
    if "k \<in> set CORE_STATE_KINDS" for k v
    using that by (intro safe_intros attempts.transition_safe free_world)
  have np: "\<not> has_key state ''pause_requested''"
  proof
    assume "has_key state ''pause_requested''"
    then have q: "andthen (manager_transition wo m Ready (replace (carried state) [(''reason'', JStr ''pause_requested'')]) None)
        (\<lambda>_. ret True) (R, w, ws) = (x, R', w', ws')"
      using assms(2) l by (simp add: claim_owned_def andthen_def)
    show False using keepsD [OF tr _ q] attempts.core_kinds False by simp
  qed
  have nb: "attempt_budget_failure job ?a ?t = None"
  proof (rule ccontr)
    assume "attempt_budget_failure job ?a ?t \<noteq> None"
    then obtain v where q: "andthen (manager_transition wo m Failed v None) (\<lambda>_. ret True) (R, w, ws) = (x, R', w', ws')"
      using assms(2) l np by (auto simp: claim_owned_def andthen_def Let_def)
    show False using keepsD [OF tr _ q] attempts.core_kinds False by simp
  qed
  obtain y w1 ws1 where t: "transition (wo_rename wo m Claimed) (wo_now wo) m Claimed ?u None False w ws = (y, w1, ws1)"
    by (cases "transition (wo_rename wo m Claimed) (wo_now wo) m Claimed ?u None False w ws")
  have mt: "manager_transition wo m Claimed ?u None (R, w, ws) = (y, R, w1, ws1)"
    by (simp add: claim_transition t)
  obtain n where n: "y = Inr n"
    using assms(2) l np nb c(3) mt False by (cases y) (auto simp: claim_owned_def andthen_def Let_def lift_def)
  let ?launch = "except (launch_claimed mc wo lw n job state)
      (\<lambda>e. if e = TransitionLostError then lift (Inl e)
           else if caught e then fail_attempt_preparation wo n job e else lift (Inl e))"
  have rest: "(if lw_maintenance lw then andthen (release_claim wo n ''maintenance_lock'' None) (\<lambda>_. ret True)
      else andthen ?launch (\<lambda>_. ret True)) (R, w1, ws1) = (x, R', w', ws')"
    using assms(2) l np nb c(3) mt n by (simp add: claim_owned_def andthen_def Let_def lift_def)
  have rel: "safe (\<lambda>s. fst s = R) (andthen (release_claim wo n ''maintenance_lock'' None) (\<lambda>_. ret True))"
    by (intro safe_intros attempts.release_claim_safe free_world)
  have m: "\<not> lw_maintenance lw"
    using rest keepsD [OF rel] False by (auto split: if_splits)
  obtain z R2 w2 ws2 where lc: "launch_claimed mc wo lw n job state (R, w1, ws1) = (z, R2, w2, ws2)"
    by (cases "launch_claimed mc wo lw n job state (R, w1, ws1)")
  have "R' = R2"
  proof (cases z)
    case (Inr v)
    then show ?thesis using rest m lc by (simp add: andthen_def except_def ret_def)
  next
    case (Inl e)
    have "safe (\<lambda>s. fst s = R2) (andthen (if e = TransitionLostError then lift (Inl e)
        else if caught e then fail_attempt_preparation wo n job e else lift (Inl e)) (\<lambda>_. ret True))"
      by (intro safe_intros attempts.fail_attempt_preparation_safe free_world)
    moreover have "andthen (if e = TransitionLostError then lift (Inl e)
        else if caught e then fail_attempt_preparation wo n job e else lift (Inl e)) (\<lambda>_. ret True) (R2, w2, ws2)
        = (x, R', w', ws')"
      using rest m lc Inl by (simp add: andthen_def except_def)
    ultimately show ?thesis using keepsD by fastforce
  qed
  with False launch_attempts [OF lc] obtain a g where a: "R' = track a R" "read_state ws1 n = Inr g"
    "effective_requirement job g (mc_resources mc) (mc_maximum_workers mc) = Inr (ra_resources a)"
    by auto
  have g: "g = stored (transition_frame ws m Claimed None (wo_now wo) ?u)"
    using transition_read_back [OF w c(6) [unfolded claim_frame_def] t [unfolded n] a(2)] .
  have r: "distinct (map fst r)" using effective_requirement_wf [OF c(3,4) mc c(5)] by (simp add: wf_requirement_def)
  obtain q where q: "get g ''resources'' = JObj (map (\<lambda>(k, v). (k, JInt v)) q)" "set q = set r" "distinct (map fst q)"
    using resources_written [OF r refl] g by metis
  show ?thesis
    using effective_requirement_recorded [OF c(3,4) mc c(5) q] a by auto
qed simp

lemma claimable_remembered:
  assumes "claimable mc wo (w, ws) m r" and "handle_ok w' (ws_journal ws')" and "jw_writer_id w' = jw_writer_id w"
    and "remembers ws' ws"
  shows "claimable mc wo (w', ws') m r"
proof -
  obtain job state where "load_job ws m = Inr job" "read_state ws m = Inr state"
    using assms(1) by (auto simp: claimable_def split: sum.splits)
  moreover from this have "load_job ws' m = Inr job" "read_state ws' m = Inr state"
    using assms(4) remembers_job remembers_state by blast+
  moreover have "claim_frame mc wo i ws' m job state r = claim_frame mc wo i ws m job state r" for i
    unfolding claim_frame_def by (rule transition_frame_ws) (use assms(4) in \<open>simp add: remembers_def\<close>)
  ultimately show ?thesis using assms(1-3) by (simp add: claimable_def)
qed

interpretation claims: claimer "\<lambda>m. claim_and_launch mc (W m) (L m) m" "\<lambda>s m r. claimable mc (W m) s m r" for mc W L
proof unfold_locales
  fix s m r running x running' s'
  assume c: "claimable mc (W m) s m r" and l: "claim_and_launch mc (W m) (L m) m (running, s) = (x, running', s')"
  obtain w ws w' ws' where s: "s = (w, ws)" "s' = (w', ws')" by (cases s, cases s') auto
  consider "running' = running" | "claim_owned mc (W m) (L m) m (running, w, ws) = (x, running', w', ws')"
    using l s by (auto simp: claim_and_launch_def ret_def split: option.splits bool.splits if_splits)
  then show "running' = running \<or> (\<exists>a. running' = track a running \<and> wf_requirement (ra_resources a) \<and>
      (\<forall>name. reserved (ra_resources a) name = reserved r name))"
    by cases (auto dest: claim_owned_adds [OF c [unfolded s]])
next
  fix s m r running x running' s' n q
  assume c: "claimable mc (W m) s m r" and l: "claim_and_launch mc (W m) (L m) m (running, s) = (x, running', s')"
    and n: "claimable mc (W n) s n q"
  obtain w ws w' ws' where s: "s = (w, ws)" "s' = (w', ws')" by (cases s, cases s') auto
  have "handle_ok w (ws_journal ws)" using c s by (simp add: claimable_def)
  then have "history_inv (jw_writer_id w) ws (running, w, ws)" by (simp add: history_inv_def remembers_refl)
  moreover have "history.fair_world (W m) m" by (simp add: history.fair_world_def)
  ultimately have "history_inv (jw_writer_id w) ws (running', w', ws')"
    using keepsD [OF history.claim_and_launch_safe _ l [unfolded s]] by blast
  then have "handle_ok w' (ws_journal ws')" "jw_writer_id w' = jw_writer_id w" "remembers ws' ws"
    by (simp_all add: history_inv_def)
  from claimable_remembered [OF n [unfolded s] this] s show "claimable mc (W n) s' n q" by simp
qed


section \<open>The capacity during a tick\<close>

interpretation capacity: pass_invariant "\<lambda>s. serves mc (fst s) \<and> history_inv i old s" "\<lambda>_. True" "\<lambda>_. True" "\<lambda>_ _. True"
  for mc i old
proof unfold_locales
  fix R w ws m env k now u prio r w' ws'
  assume s: "serves mc (fst (R, w, ws)) \<and> history_inv i old (R, w, ws)"
    and t: "transition env now m k u prio False w ws = (r, w', ws')" "k \<in> set CORE_STATE_KINDS"
  have "history_inv i old (R, w', ws')" using history.transition_keeps [OF _ _ _ t(2,1)] s by blast
  with s show "(serves mc (fst (R, w', ws')) \<and> history_inv i old (R, w', ws')) \<and> (\<forall>n. r = Inr n \<longrightarrow> \<not> final k \<longrightarrow> True)"
    by simp
next
  fix R w ws t d
  assume "serves mc (fst (R, w, ws)) \<and> history_inv i old (R, w, ws)" "ws_documents ws t = None"
  then show "serves mc (fst (R, w, ws\<lparr>ws_documents := (ws_documents ws)(t := d)\<rparr>)) \<and>
      history_inv i old (R, w, ws\<lparr>ws_documents := (ws_documents ws)(t := d)\<rparr>)"
    using history.payload_keeps by simp
next
  fix R w ws R'
  assume i: "serves mc (fst (R, w, ws)) \<and> history_inv i old (R, w, ws)" and s: "shrinks R R'"
  then have "serves mc R'" using serves_shrinks [OF _ s] by simp
  with i show "serves mc (fst (R', w, ws)) \<and> history_inv i old (R', w, ws)" by (simp add: history_inv_def)
qed (auto simp: history_inv_def remembers_def)

lemma free_tick: "capacity.sound_tick tw"
  by (auto simp: capacity.sound_tick_def capacity.fair_world_def capacity.fair_moves_def homed_children_def
      homed_child_def list_all_iff split: json.splits sum.splits)

text \<open>
  A marker of the \<open>ready\<close> window: when its job and frame can be read and state what they
  require, they name each resource once, and the frame of the claim can be stored.
\<close>

definition sound_candidate :: "manager_config \<Rightarrow> world \<Rightarrow> string \<Rightarrow> workspace \<Rightarrow> marker \<Rightarrow> bool" where
  "sound_candidate mc wo i ws m \<longleftrightarrow>
     marker_from_path (path m) = Inr m \<and>
     (case (load_job ws m, read_state ws m) of
        (Inr job, Inr state) \<Rightarrow>
          wf_job_resources job \<and> resources_distinct state \<and>
          (case effective_requirement job state (mc_resources mc) (mc_maximum_workers mc) of
             Inr r \<Rightarrow> storable (claim_frame mc wo i ws m job state r)
           | Inl _ \<Rightarrow> True)
      | _ \<Rightarrow> True)"

lemma eligible_distinct: "distinct (map fst loaded) \<Longrightarrow> distinct (map fst (eligible_ready mc loaded))"
proof -
  let ?f = "\<lambda>(m, l). case l of None \<Rightarrow> None
    | Some (job, state) \<Rightarrow> map_option (Pair m) (eligible_requirement mc job state)"
  have sub: "fst ` set (List.map_filter ?f xs) \<subseteq> fst ` set xs" for xs
    by (force simp: map_filter_set split: option.splits)
  have d: "distinct (map fst xs) \<Longrightarrow> distinct (map fst (List.map_filter ?f xs))" for xs
  proof (induction xs)
    case (Cons p xs)
    obtain m l where p: "p = (m, l)" by (cases p)
    have ih: "distinct (map fst (List.map_filter ?f xs))" "m \<notin> fst ` set xs" using Cons p by auto
    have new: "m \<notin> fst ` set (List.map_filter ?f xs)" using sub ih(2) by (rule contra_subsetD)
    show ?case
    proof (cases "?f p")
      case None
      with ih show ?thesis by (simp add: map_filter_simps)
    next
      case (Some q)
      then have "fst q = m" by (auto simp: p split: option.splits)
      then have "fst q \<notin> set (map fst (List.map_filter ?f xs))" using new by simp
      with ih Some show ?thesis by (simp only: map_filter_simps option.case list.map distinct.simps) simp
    qed
  qed (simp add: map_filter_simps)
  then show "distinct (map fst loaded) \<Longrightarrow> distinct (map fst (eligible_ready mc loaded))"
    unfolding eligible_ready_def distinct_map by simp
qed

text \<open>What \<open>eligible_ready\<close> returns of a window are candidates of the claim loop.\<close>

lemma eligible_claimable:
  assumes "eligible_pass mc window (running, w, ws) = (Inr cs, s')" and "distinct window"
    and "list_all (\<lambda>m. sound_candidate mc (W m) (jw_writer_id w) ws m) window"
    and "wf_requirement (mc_resources mc)" and "0 < mc_maximum_workers mc"
    and "handle_ok w (ws_journal ws)" and "uuid_pattern (jw_writer_id w)"
  shows "list_all (\<lambda>(m, r). claimable mc (W m) (w, ws) m r) cs \<and> distinct (map fst cs) \<and> s' = (running, w, ws)"
proof -
  obtain loaded where l: "mapr (\<lambda>m. bindr (fst (load_job_and_state m (running, w, ws))) (\<lambda>l. Inr (m, l))) window = Inr loaded"
    and cs: "cs = eligible_ready mc loaded"
    using assms(1) by (auto simp: eligible_pass_def Let_def res_simps)
  have l2: "list_all2 (\<lambda>m p. fst p = m \<and> fst (load_job_and_state m (running, w, ws)) = Inr (snd p)) window loaded"
    using l unfolding mapr_Inr_iff by (rule list_all2_mono) (auto simp: res_simps)
  then have found: "fst (load_job_and_state (fst p) (running, w, ws)) = Inr (snd p)" if "p \<in> set loaded" for p
    using that by (induction rule: list_all2_induct) auto
  have keys: "map fst loaded = window"
    using l2 by (induction rule: list_all2_induct) auto
  have "claimable mc (W m) (w, ws) m r" if c: "(m, r) \<in> set cs" for m r
  proof -
    obtain l where "(m, l) \<in> set loaded"
      "(case l of None \<Rightarrow> None | Some (job, state) \<Rightarrow> map_option (Pair m) (eligible_requirement mc job state)) = Some (m, r)"
      using c unfolding cs eligible_ready_def by (auto simp: map_filter_set split: option.splits)
    then obtain job state where e: "(m, Some (job, state)) \<in> set loaded" "eligible_requirement mc job state = Some r"
      by (auto split: option.splits)
    have m: "m \<in> set window" using e(1) keys by force
    have "load_job ws m = Inr job" "read_state ws m = Inr state"
      using found [OF e(1)]
      by (auto simp: load_job_and_state_def load_job_act_def read_frame_act_def except_def andthen_def ret_def lift_def
          split: sum.splits if_splits)
    moreover have "effective_requirement job state (mc_resources mc) (mc_maximum_workers mc) = Inr r"
      using e(2) by (auto simp: eligible_requirement_def split: if_splits sum.splits option.splits)
    ultimately show ?thesis
      using assms(3-7) m by (auto simp: sound_candidate_def claimable_def list_all_iff)
  qed
  moreover have "distinct (map fst cs)"
    unfolding cs by (rule eligible_distinct) (simp add: keys assms(2))
  moreover have "s' = (running, w, ws)" using assms(1) by (simp add: eligible_pass_def Let_def)
  ultimately show ?thesis by (auto simp: list_all_iff)
qed


text \<open>
  C4. A manager never oversubscribes. During a tick, whatever its passes observe, the local
  attempts stay at most as many as it has workers, each is counted once, and for every
  resource what they reserve together stays within what the manager was given; also where an
  attempt's reservation is computed again at launch, from the claimed frame read back from
  the journal.
\<close>

theorem tick_within_capacity:
  assumes "serves mc running" and "wf_requirement (mc_resources mc)" and "0 < mc_maximum_workers mc"
    and "writer_inv w (ws_journal ws)"
    and "\<And>c book1 running1 w1 ws1.
      for_each (\<lambda>p. p) (tick_passes mc tw) (book, running, w, ws) = (Inr c, book1, running1, w1, ws1) \<Longrightarrow>
      distinct (tw_window tw Ready ws1) \<and>
      list_all (\<lambda>m. sound_candidate mc (tw_world tw Ready m) (jw_writer_id w1) ws1 m) (tw_window tw Ready ws1)"
    and "tick mc tw (book, running, w, ws) = (r, book', running', w', ws')"
  shows "int (length running') \<le> mc_maximum_workers mc \<and> distinct (map ra_attempt_id running') \<and>
    (\<forall>name. total_reserved running' name \<le> reserved (mc_resources mc) name)"
proof -
  let ?passes = "for_each (\<lambda>p. p) (tick_passes mc tw)"
  let ?i = "jw_writer_id w"
  have uuid: "uuid_pattern ?i" using assms(4) by (simp add: writer_inv_def)
  obtain x book1 running1 w1 ws1 where p: "?passes (book, running, w, ws) = (x, book1, running1, w1, ws1)"
    by (metis prod_cases5)
  have before: "capacity.with_book mc ?i ws (book, running, w, ws)"
    unfolding capacity.with_book_def
    using assms(1) writer_inv_handle [OF assms(4)] remembers_refl by (simp add: history_inv_def)
  have "safe (capacity.with_book mc ?i ws) ?passes"
    by (rule capacity.tick_passes_safe) (rule free_tick)
  from keepsD [OF this before p] have "capacity.with_book mc ?i ws (book1, running1, w1, ws1)" .
  then have s: "serves mc running1" "jw_writer_id w1 = ?i" "handle_ok w1 (ws_journal ws1)"
    unfolding capacity.with_book_def by (auto simp: history_inv_def)
  have "serves mc running'"
  proof (cases x)
    case (Inl e)
    then show ?thesis using assms(6) p s(1) by (simp add: tick_def andthen_def)
  next
    case (Inr c)
    then have claim: "claim_all mc tw c (running1, w1, ws1) = (r, running', w', ws')"
      using assms(6) p by (auto simp: tick_def andthen_def inner_def split: prod.splits)
    obtain y cs s1 where e: "eligible_pass mc (tw_window tw Ready ws1) (running1, w1, ws1) = (y, s1)"
      by (cases "eligible_pass mc (tw_window tw Ready ws1) (running1, w1, ws1)")
    have s1: "s1 = (running1, w1, ws1)" using e by (simp add: eligible_pass_def Let_def)
    consider "running' = running1"
      | cs where "y = Inr cs" "claim_pass mc (tw_draining tw) (tw_maintenance tw)
          (\<lambda>m. claim_and_launch mc (tw_world tw Ready m) (tw_launch tw m) m) cs c (running1, w1, ws1) = (r, running', w', ws')"
      using claim e s1 by (cases y) (auto simp: claim_all_def andthen_def split: if_splits)
    then show ?thesis
    proof cases
      case 1
      with s(1) show ?thesis by simp
    next
      case (2 cs)
      have "list_all (\<lambda>(m, r). claimable mc (tw_world tw Ready m) (w1, ws1) m r) cs \<and> distinct (map fst cs)"
        using eligible_claimable [OF e [unfolded 2(1)], where W = "tw_world tw Ready", OF _ _ assms(2,3) s(3)] assms(5) [OF p [unfolded Inr]] s(2) uuid
        by simp
      then show ?thesis using claims.pass_within [OF s(1) _ _ 2(2)] by blast
    qed
  qed
  then show ?thesis by (simp add: serves_def within_capacity_def attempts_distinct_def)
qed


section \<open>A concrete claim\<close>

definition ready_marker :: marker where
  "ready_marker = example_marker\<lparr>kind := Ready, path := [''ready'', ''proj'', example_key @ ''.p500.g0.init'']\<rparr>"

definition claim_workspace :: workspace where
  "claim_workspace = example_workspace\<lparr>ws_tree := [path ready_marker],
     ws_documents := [[''proj'', example_key] \<mapsto> json_bytes (JObj example_document)]\<rparr>"

lemma ready_marker_read: "marker_from_path (path ready_marker) = Inr ready_marker"
proof -
  have "marker_path Ready [''proj''] example_key 500 0 ''init'' = Inr (path ready_marker)"
    "normalize_parts \<lparr>absolute = False, parts = [''proj'']\<rparr> = Inr [''proj'']" "marker_ref_pattern ''init''"
    by code_simp+
  from marker_path_read [OF this] show ?thesis by (simp add: ready_marker_def example_marker_def)
qed

lemma claim_job:
  obtains job where "load_job claim_workspace ready_marker = Inr job" "jd_resources job = []"
    "jd_step_resources job = []" "jd_claim_pool job = ''cpu''" "jd_required_capabilities job = []"
proof -
  let ?job = "example_job\<lparr>jd_stored_digest := Some (job_digest (json_bytes (JObj example_document)))\<rparr>"
  have "job_from_path (Some (json_bytes (JObj example_document))) = Inr ?job"
    using example_job_bytes by (simp add: job_from_path_def)
  moreover have "jd_job_key ?job = example_key" "jd_priority ?job = 500"
    by (simp_all add: jd_job_key_def example_job_def make_job_key_def example_key_def)
  ultimately have "load_job claim_workspace ready_marker = Inr ?job"
    by (simp add: load_job_def claim_workspace_def ready_marker_def example_marker_def payload_path_def)
  then show thesis by (rule that) (simp_all add: example_job_def)
qed

definition example_claim :: obj where
  "example_claim = dict_update
     [(''format'', JStr ''httk-workflow-state''), (''format_version'', JInt 2),
      (''workspace_id'', JStr example_id), (''job_id'', JStr example_id),
      (''job_key'', JStr example_key), (''placement'', JStr ''proj''),
      (''state_generation'', JInt 1), (''kind'', JStr ''claimed''),
      (''previous_record_ref'', JNull), (''created_at'', JStr ''now''), (''priority'', JInt 500)]
     (replace []
       [(''manager_id'', JStr example_id), (''writer_id'', JStr example_writer),
        (''claim_id'', JStr example_id), (''attempt_id'', JStr example_id),
        (''attempt_control'', JStr (''attempts/'' @ example_id)),
        (''attempt_ordinal'', JInt 1), (''total_attempts'', JInt 1),
        (''resources'', JObj [(''procs'', JInt 4)]), (''lease_seconds'', JFloat (Fin 0)),
        (''matched_pool'', JStr ''cpu''), (''matched_capabilities'', JArr []), (''reason'', JStr ''claim'')])"

lemma example_claim_storable: "storable example_claim"
proof -
  have "json_ok (JObj example_claim)" "length (json_bytes (JObj example_claim)) = 741" by code_simp+
  then show ?thesis by (simp add: storable_def)
qed

lemma example_state_frame: "carried (initial_state claim_workspace ready_marker) = []"
proof -
  have "carried
     [(''format'', a), (''format_version'', b), (''workspace_id'', c), (''job_id'', d), (''job_key'', e), (''placement'', f),
      (''state_generation'', g), (''kind'', h), (''previous_record_ref'', i), (''created_at'', j), (''priority'', k)] = []"
    for a b c d e f g h i j k
    by (simp add: carried_def CARRIED_STATE_MEMBERS_def dict_select_def)
  then show ?thesis by (simp add: initial_state_def)
qed

text \<open>A manager whose claims expire at once.\<close>

definition claim_manager :: manager_config where
  "claim_manager = example_manager\<lparr>mc_lease_seconds := 0\<rparr>"

lemma claim_candidate:
  "sound_candidate claim_manager example_world (jw_writer_id (fst example_store)) claim_workspace ready_marker"
proof -
  let ?s = "initial_state claim_workspace ready_marker" and ?i = "jw_writer_id (fst example_store)"
  obtain job where job: "load_job claim_workspace ready_marker = Inr job" "jd_resources job = []"
    "jd_step_resources job = []" "jd_claim_pool job = ''cpu''" "jd_required_capabilities job = []"
    by (rule claim_job)
  have st: "read_state claim_workspace ready_marker = Inr ?s"
    by (simp add: read_state_def ready_marker_def example_marker_def)
  have i: "?i = example_writer" by (simp add: example_writer_state)
  have r: "effective_requirement job ?s (mc_resources claim_manager) (mc_maximum_workers claim_manager) = Inr [(''procs'', 4)]"
    by (simp add: effective_requirement_def frame_resources_def initial_state_def job claim_manager_def example_manager_def get_def
        frame_step_def frame_string_def resource_share_def)
  have "claim_frame claim_manager example_world example_writer claim_workspace ready_marker job ?s [(''procs'', 4)] = example_claim"
    unfolding claim_frame_def claim_updates_def job(4,5) example_claim_def example_state_frame
    by (simp add: transition_frame_def transition_envelope_def claim_workspace_def example_workspace_def ready_marker_def
        example_marker_def job_id_def example_key_parse as_posix_def join_with.simps claim_manager_def example_manager_def example_world_def
        or_default_def or_text_def initial_state_def frame_reads frame_integer_def frame_string_def get_def)
  then have "storable (claim_frame claim_manager example_world example_writer claim_workspace ready_marker job ?s [(''procs'', 4)])"
    using example_claim_storable by simp
  with job st r i show ?thesis
    by (simp add: sound_candidate_def ready_marker_read wf_job_resources_def wf_requirement_def resources_distinct_def
        initial_state_def get_def)
qed


theorem tick_within_capacity_witness:
  "\<exists>r book' running' w' ws'. tick claim_manager (example_tick [ready_marker])
      (example_book, [], fst example_store, claim_workspace) = (r, book', running', w', ws') \<and>
    length running' \<le> 2 \<and> total_reserved running' ''procs'' \<le> 8"
proof -
  let ?tw = "example_tick [ready_marker]" and ?s = "(example_book, [], fst example_store, claim_workspace)"
  have k: "kind ready_marker = Ready" by (simp add: ready_marker_def)
  have passes: "for_each (\<lambda>p. p) (tick_passes claim_manager ?tw) ?s = (Inr False, ?s)"
    by (simp add: tick_passes_def inner_def over_window_def cancelling_pass_def poll_pass_def poll_running_def
        sweep_untracked_attempts_def example_tick_def k andthen_def ret_def)
  obtain r book' running' w' ws' where t: "tick claim_manager ?tw ?s = (r, book', running', w', ws')"
    by (metis prod_cases5)
  have "int (length running') \<le> mc_maximum_workers claim_manager \<and> distinct (map ra_attempt_id running') \<and>
    (\<forall>name. total_reserved running' name \<le> reserved (mc_resources claim_manager) name)"
  proof (rule tick_within_capacity [OF _ _ _ _ _ t])
    show "serves claim_manager []" "0 < mc_maximum_workers claim_manager"
      by (simp_all add: serves_def within_capacity_def attempts_distinct_def total_reserved_def reserved_def
          claim_manager_def example_manager_def)
    show "wf_requirement (mc_resources claim_manager)"
      using procs_mem_labels by (simp add: wf_requirement_def claim_manager_def example_manager_def)
    show "writer_inv (fst example_store) (ws_journal claim_workspace)"
      using example_store_inv by (simp add: store_inv_def claim_workspace_def example_workspace_def)
    fix c book1 running1 w1 ws1
    assume "for_each (\<lambda>p. p) (tick_passes claim_manager ?tw) ?s = (Inr c, book1, running1, w1, ws1)"
    then have "w1 = fst example_store" "ws1 = claim_workspace" using passes by simp_all
    then show "distinct (tw_window ?tw Ready ws1) \<and>
      list_all (\<lambda>m. sound_candidate claim_manager (tw_world ?tw Ready m) (jw_writer_id w1) ws1 m) (tw_window ?tw Ready ws1)"
      using claim_candidate by (simp add: example_tick_def k)
  qed
  then have "length running' \<le> 2 \<and> total_reserved running' ''procs'' \<le> 8"
    by (auto simp: claim_manager_def example_manager_def reserved_def dest: spec [of _ "''procs''"])
  with t show ?thesis by blast
qed

end
