(* ===== verification/Manager_Safety.thy ===== *)
theory Manager_Safety
  imports Manager_Capacity
begin

text \<open>
  What single decisions of a manager guarantee: a deferred pause takes effect, a lease is taken
  over only with a reason, a stale request changes nothing, and a manager that reports itself
  idle has no work left; and one defect, a cancelled job that keeps its worker slot.
\<close>

section \<open>Deferred pauses\<close>


definition example_pause :: obj where
  "example_pause = [(''pause_requested'', JObj [(''operator'', JStr ''ann'')])]"


section \<open>Taking over\<close>

definition takeover_allowed :: "manager_config \<Rightarrow> poll_world \<Rightarrow> job_definition \<Rightarrow> frame \<Rightarrow> bool" where
  "takeover_allowed mc pw job state =
     (case (frame_lease_seconds state, frame_manager_id state) of
        (Inr lease, Inr owner) \<Rightarrow>
          let l = (case lease of Some x \<Rightarrow> x | None \<Rightarrow> Fin (mc_lease_seconds mc))
          in \<not> manager_alive (pw_heartbeat_age pw 0 owner) l \<and>
             (attempt_writer_dead mc pw state \<or>
              (if jd_workdir_mode job = ''persistent'' then mc_unsafe_persistent_takeover mc
               else mc_unsafe_isolated_takeover mc \<or>
                 (case pw_heartbeat_age pw 1 owner of
                    None \<Rightarrow> True | Some age \<Rightarrow> at_least age (float_times l (mc_takeover_grace_factor mc)))))
      | _ \<Rightarrow> False)"


section \<open>Stale requests\<close>

text \<open>
  C8. A request is applied at most once. A request written for another generation of the job or
  another record than the marker now has (as after it was applied, which moves the marker
  on) is refused with a reason; the local attempts, the journal and the state tree stay.
\<close>

theorem stale_request_refused:
  assumes "resolve_marker request (running, w, ws) = (Inr (Some m), s1)"
    and "expected_state request = Inr (g, ref)" and "int (generation m) \<noteq> g \<or> Some (record_ref m) \<noteq> ref"
    and "apply_request str_of wo sig request (running, w, ws) = (r, running', w', ws')"
  shows "running' = running \<and> w' = w \<and> ws_journal ws' = ws_journal ws \<and> ws_tree ws' = ws_tree ws \<and>
    ws_documents ws' = ws_documents ws \<and> r \<noteq> Inr None"
proof -
  obtain idx where s1: "s1 = (running, w, ws\<lparr>ws_index := idx\<rparr>)"
    using assms(1) unfolding resolve_marker_def andthen_def lift_def find_at_def
    by (auto split: json.splits sum.splits if_splits prod.splits)
  show ?thesis
    using assms s1 unfolding apply_request_def
    by (cases "validate_envelope request"; cases "operator_key sig")
      (auto simp: andthen_def lift_def ret_def split: if_splits)
qed

text \<open>A request that was written before the marker of the job moved on.\<close>

definition example_stale_request :: obj where
  "example_stale_request =
     [(''format'', JStr ''httk-workflow-request''), (''format_version'', JInt 2), (''job_id'', JStr example_id),
      (''job_key'', JStr example_key), (''placement'', JStr ''proj''), (''action'', JStr ''cancel''),
      (''expected_generation'', JInt 5), (''expected_record_ref'', JStr ''init'')]"

lemma example_found:
  "fst (find_marker_at [path example_marker] example_key [''proj''] example_index) = Inr (Some example_marker)"
proof -
  let ?ms = "placement_matches [path example_marker] [''proj''] (marker_glob example_key)"
  have "glob_match (marker_glob example_key) (last (path example_marker))" by code_simp
  then have "set ?ms = {example_marker}"
    using example_marker_read
    by (auto simp: placement_matches_set example_marker_def CORE_STATE_KINDS_def STATE_KINDS_def)
  then have ms: "?ms = [example_marker]"
    using placement_matches_distinct [of "[path example_marker]"] by (intro distinct_singleton) auto
  have "example_id @ ''.p042.g0.init'' \<noteq> example_key @ ''.p500.g0.init''" by code_simp
  then have "index_marker [path example_marker] example_id
      \<lparr>ie_kind = Submitted, ie_placement = [''proj''], ie_basename = example_id @ ''.p042.g0.init''\<rparr> = None"
    by (simp add: index_marker_def Let_def state_directory_def example_marker_def)
  with ms show ?thesis by (simp add: find_marker_at_def example_index_def example_key_parse)
qed

theorem stale_request_refused_witness:
  "\<exists>r running w ws. apply_request (\<lambda>_. []) example_world
      \<lparr>sig_present = False, sig_valid = False, sig_operator_key = None\<rparr> example_stale_request
      ([], fst example_store, example_workspace) = (r, running, w, ws) \<and>
    ws_journal ws = ws_journal example_workspace \<and> ws_tree ws = [path example_marker] \<and> r \<noteq> Inr None"
proof -
  let ?sig = "\<lparr>sig_present = False, sig_valid = False, sig_operator_key = None\<rparr>"
  let ?s = "([], fst example_store, example_workspace)"
  have g: "get example_stale_request ''job_key'' = JStr example_key" "get example_stale_request ''job_id'' = JStr example_id"
    "get example_stale_request ''placement'' = JStr ''proj''" "expected_state example_stale_request = Inr (5, Some ''init'')"
    "normalize_placement ''proj'' = Inr [''proj'']"
    by code_simp+
  obtain x idx where f: "find_marker_at (ws_tree example_workspace) example_key [''proj''] (ws_index example_workspace) = (x, idx)"
    by (cases "find_marker_at (ws_tree example_workspace) example_key [''proj''] (ws_index example_workspace)")
  have "x = Inr (Some example_marker)" using f example_found by (simp add: example_workspace_def)
  with f g have m: "resolve_marker example_stale_request ?s =
      (Inr (Some example_marker), [], fst example_store, example_workspace\<lparr>ws_index := idx\<rparr>)"
    by (simp add: resolve_marker_def example_key_parse andthen_def lift_def find_at_def)
  obtain r running w ws where a: "apply_request (\<lambda>_. []) example_world ?sig example_stale_request ?s = (r, running, w, ws)"
    by (metis prod_cases4)
  from stale_request_refused [OF m g(4) _ a] a show ?thesis
    by (auto simp: example_marker_def example_workspace_def)
qed

section \<open>Idleness\<close>

definition actionable_pending :: "manager_config \<Rightarrow> workspace \<Rightarrow> marker \<Rightarrow> bool" where
  "actionable_pending mc ws m \<longleftrightarrow>
     (\<exists>job state. load_job ws m = Inr job \<and> read_state ws m = Inr state \<and>
        eligible_requirement mc job state \<noteq> None)"

lemma classify_eligible:
  assumes "eligible_requirement mc job state \<noteq> None"
  shows "fst (classify_pending mc k (Some job) (Some state) blocked)"
  using assms
  by (auto simp: eligible_requirement_def classify_pending_def Let_def filter_empty_conv
      split: if_splits sum.splits option.splits)

lemma census_pending_quiet:
  assumes "census_pending mc ws ms c = Inr c'"
  shows "wc_actionable c \<le> wc_actionable c' \<and>
    (wc_actionable c' = 0 \<longrightarrow> (\<forall>m\<in>set ms. \<not> actionable_pending mc ws m))"
  using assms
proof (induction ms arbitrary: c)
  case (Cons m ms)
  obtain job state where js: "readable_job ws m = Inr job" "readable_state ws m = Inr state"
    using Cons.prems by (auto simp: res_simps)
  obtain a b where cl: "classify_pending mc (kind m) job state (wc_blocked c) = (a, b)"
    by (cases "classify_pending mc (kind m) job state (wc_blocked c)")
  let ?c = "c\<lparr>wc_blocked := b, wc_actionable := wc_actionable c + (if a then 1 else 0),
    wc_ready_claimable := wc_ready_claimable c + (if a \<and> kind m = Ready then 1 else 0)\<rparr>"
  have "census_pending mc ws ms ?c = Inr c'" using Cons.prems js cl by simp
  note ih = Cons.IH [OF this]
  have "a" if act: "actionable_pending mc ws m"
  proof -
    obtain j st where "load_job ws m = Inr j" "read_state ws m = Inr st" "eligible_requirement mc j st \<noteq> None"
      using act unfolding actionable_pending_def by blast
    then show ?thesis using js cl classify_eligible [of mc j st "kind m" "wc_blocked c"]
      by (auto simp: readable_job_def readable_state_def)
  qed
  with ih show ?case by auto
qed simp

lemma census_active_quiet:
  assumes "census_active mc ws ms c = Inr c'"
  shows "wc_actionable c \<le> wc_actionable c' \<and>
    (wc_actionable c' = 0 \<longrightarrow> (\<forall>m\<in>set ms. \<forall>job. load_job ws m = Inr job \<longrightarrow> \<not> executor_served mc job))"
  using assms
proof (induction ms arbitrary: c)
  case (Cons m ms)
  obtain job where j: "readable_job ws m = Inr job" using Cons.prems by (auto simp: res_simps)
  have "census_active mc ws ms (case job of None \<Rightarrow> c\<lparr>wc_unreadable := wc_unreadable c + 1\<rparr>
      | Some job \<Rightarrow> if executor_served mc job then c\<lparr>wc_actionable := wc_actionable c + 1\<rparr> else c) = Inr c'"
    using Cons.prems j by simp
  note ih = Cons.IH [OF this]
  show ?case using ih j by (auto simp: readable_job_def split: option.splits if_splits sum.splits)
qed simp

definition quiet_tick :: "manager_config \<Rightarrow> work_census \<Rightarrow> tick_world \<Rightarrow>
    (cancel_book \<times> mstate) \<Rightarrow> (cancel_book \<times> mstate) \<Rightarrow> bool" where
  "quiet_tick mc c tw s s' \<longleftrightarrow>
     tick mc tw s = (Inr False, s') \<and> fst (snd s') = [] \<and>
     take_census mc tw (snd (snd (snd s'))) = Inr c \<and> wc_actionable c = 0"

lemma idle_after_quiet_ticks:
  assumes "run_until_idle mc passes q s = (Inr (Some c), s')" and "q \<le> 1"
  shows "(q = 1 \<and> (\<exists>tw rest. passes = tw # rest \<and> quiet_tick mc c tw s s')) \<or>
    (\<exists>before tw1 tw2 rest s0 s1. passes = before @ tw1 # tw2 # rest \<and> tick mc tw1 s0 = (Inr False, s1) \<and>
       quiet_tick mc c tw2 s1 s')"
  using assms
proof (induction passes arbitrary: q s)
  case (Cons tw tws)
  obtain changed s1 where t: "tick mc tw s = (Inr changed, s1)"
    using Cons.prems(1) by (auto split: prod.splits sum.splits)
  have later: ?case if "run_until_idle mc tws q' s1 = (Inr (Some c), s')" "q' \<le> 1" "q' = 1 \<Longrightarrow> \<not> changed" for q'
    using Cons.IH [OF that(1,2)]
  proof (elim disjE exE conjE)
    fix tw2 rest
    assume "q' = 1" "tws = tw2 # rest" "quiet_tick mc c tw2 s1 s'"
    with that(3) t have "tw # tws = [] @ tw # tw2 # rest \<and> tick mc tw s = (Inr False, s1) \<and> quiet_tick mc c tw2 s1 s'"
      by simp
    then show ?thesis by blast
  next
    fix before tw1 tw2 rest s2 s3
    assume "tws = before @ tw1 # tw2 # rest" "tick mc tw1 s2 = (Inr False, s3)" "quiet_tick mc c tw2 s3 s'"
    then have "tw # tws = (tw # before) @ tw1 # tw2 # rest \<and> tick mc tw1 s2 = (Inr False, s3) \<and> quiet_tick mc c tw2 s3 s'"
      by simp
    then show ?thesis by blast
  qed
  show ?case
  proof (cases "changed \<or> fst (snd s1) \<noteq> []")
    case True
    with Cons.prems(1) have "run_until_idle mc tws 0 s1 = (Inr (Some c), s')"
      by (simp only: run_until_idle.simps t prod.case sum.case if_True)
    from later [OF this] show ?thesis by simp
  next
    case False
    obtain c1 where c1: "take_census mc tw (snd (snd (snd s1))) = Inr c1"
      using Cons.prems(1) t False by (cases "take_census mc tw (snd (snd (snd s1)))") auto
    consider "wc_actionable c1 > 0" | "wc_actionable c1 = 0" "q = 1" | "wc_actionable c1 = 0" "q = 0"
      using Cons.prems(2) by fastforce
    then show ?thesis
    proof cases
      case 1
      with Cons.prems(1) False have "run_until_idle mc tws 0 s1 = (Inr (Some c), s')"
        by (simp only: run_until_idle.simps t c1 prod.case sum.case if_True if_False)
      from later [OF this] show ?thesis by simp
    next
      case 2
      with Cons.prems(1) False have "c1 = c \<and> s1 = s'"
        by (simp add: t c1)
      with 2 False t c1 have "quiet_tick mc c tw s s'" by (simp add: quiet_tick_def)
      with 2 show ?thesis by blast
    next
      case 3
      with Cons.prems(1) False have "run_until_idle mc tws 1 s1 = (Inr (Some c), s')"
        by (simp add: t c1)
      from later [OF this] False show ?thesis by simp
    qed
  qed
qed simp

lemma take_census_quiet:
  assumes "take_census mc tw ws = Inr c" and "wc_actionable c = 0"
  shows "(\<forall>m \<in> set (tw_window tw Submitted ws @ tw_window tw Ready ws). \<not> actionable_pending mc ws m) \<and>
    (\<forall>m \<in> set (tw_window tw Committing ws @ tw_window tw Cancelling ws).
       \<forall>job. load_job ws m = Inr job \<longrightarrow> \<not> executor_served mc job)"
proof -
  obtain c1 where p: "census_pending mc ws (tw_window tw Submitted ws @ tw_window tw Ready ws)
       \<lparr>wc_succeeded = count_kind tw ws Succeeded, wc_failed = count_kind tw ws Failed,
        wc_ready_claimable = 0, wc_blocked = empty_census, wc_waiting = count_kind tw ws Waiting,
        wc_paused = count_kind tw ws Paused, wc_actionable = 0, wc_unreadable = 0\<rparr> = Inr c1"
    and a: "census_active mc ws (tw_window tw Committing ws @ tw_window tw Cancelling ws) c1 = Inr c"
    using assms(1) unfolding take_census_def by (auto simp: res_simps)
  from census_pending_quiet [OF p] census_active_quiet [OF a] assms(2) show ?thesis by simp
qed

text \<open>
  C5. A manager that reports itself idle has nothing left to do: no local attempt runs, no
  submitted or ready job of the window it scanned last is one it could claim, and no
  committing or cancelling one is served here; and the last two ticks changed nothing.
\<close>

theorem idle_has_no_work:
  assumes "run_until_idle mc passes 0 s = (Inr (Some c), book, running, w, ws)"
  shows "\<exists>before tw1 tw2 rest s0 s1. passes = before @ tw1 # tw2 # rest \<and>
    tick mc tw1 s0 = (Inr False, s1) \<and> tick mc tw2 s1 = (Inr False, book, running, w, ws) \<and>
    running = [] \<and> wc_actionable c = 0 \<and>
    (\<forall>m \<in> set (tw_window tw2 Submitted ws @ tw_window tw2 Ready ws). \<not> actionable_pending mc ws m) \<and>
    (\<forall>m \<in> set (tw_window tw2 Committing ws @ tw_window tw2 Cancelling ws).
       \<forall>job. load_job ws m = Inr job \<longrightarrow> \<not> executor_served mc job)"
proof -
  from idle_after_quiet_ticks [OF assms] obtain before tw1 tw2 rest s0 s1
    where p: "passes = before @ tw1 # tw2 # rest" "tick mc tw1 s0 = (Inr False, s1)"
      and q: "quiet_tick mc c tw2 s1 (book, running, w, ws)" by auto
  from q have "tick mc tw2 s1 = (Inr False, book, running, w, ws)" "running = []" "wc_actionable c = 0"
    and t: "take_census mc tw2 ws = Inr c"
    by (simp_all add: quiet_tick_def)
  with p take_census_quiet [OF t] show ?thesis by blast
qed

theorem idle_has_no_work_witness:
  "\<exists>c. run_until_idle example_manager [example_tick [], example_tick []] 0
      (example_book, [], fst example_store, example_workspace)
        = (Inr (Some c), example_book, [], fst example_store, example_workspace) \<and> wc_actionable c = 0"
proof -
  let ?tw = "example_tick []" and ?s = "(example_book, [], fst example_store, example_workspace)"
  have passes: "for_each (\<lambda>p. p) (tick_passes example_manager ?tw) ?s = (Inr False, ?s)"
    by (simp add: tick_passes_def inner_def over_window_def cancelling_pass_def poll_pass_def poll_running_def
        sweep_untracked_attempts_def example_tick_def andthen_def ret_def)
  have claim: "claim_all example_manager ?tw False (snd ?s) = (Inr False, snd ?s)"
    by (simp add: claim_all_def eligible_pass_def example_tick_def eligible_ready_def claim_pass_def andthen_def ret_def)
  have t: "tick example_manager ?tw ?s = (Inr False, ?s)"
    using passes claim by (simp add: tick_def andthen_def inner_def)
  obtain c where c: "take_census example_manager ?tw example_workspace = Inr c" "wc_actionable c = 0"
    by (simp add: take_census_def example_tick_def)
  have run: "run_until_idle example_manager [?tw, ?tw] 0 ?s = (Inr (Some c), ?s)"
    using t c by simp
  from idle_has_no_work [OF run] run show ?thesis by blast
qed

section \<open>A cancelled job that keeps its slot\<close>

lemma manager_transition_attempts: "fst (snd (manager_transition wo m k u prio s)) = fst s"
  by (auto simp: manager_transition_def Let_def split: prod.splits sum.splits)

lemma request_cancel_attempts:
  assumes "kind m \<notin> {Cancelling, Running}"
  shows "fst (snd (request_cancel wo m state request op_key (running, w, ws))) = set_cancelling (attempt_of state) running"
proof -
  have "fst (snd (andthen (manager_transition wo m k u prio) (\<lambda>_. ret (None :: string option)) s)) = fst s" for k u prio s
    using manager_transition_attempts [of wo m k u prio s]
    by (cases "manager_transition wo m k u prio s") (auto simp: andthen_def ret_def split: sum.splits)
  then show ?thesis
    using assms by (simp add: request_cancel_def Let_def andthen_def terminate_attempt_def)
qed

text \<open>
  C9. Cancelling a job that is neither running nor already being cancelled (as one whose outcome
  is being committed) marks its local attempt as owned by a cancellation, and every later sweep
  keeps such an attempt, even one whose process has exited: as the job goes straight to
  \<open>cancelled\<close> no pass ever removes it, and its worker slot and resources are not given back.
\<close>

theorem cancelled_attempt_keeps_slot:
  assumes "kind m \<notin> {Cancelling, Running}" and "tracked running (attempt_of state)"
    and "request_cancel wo m state request op_key (running, w, ws) = (r, running', w', ws')"
  shows "tracked (sweep_untracked_attempts exits current unreadable running') (attempt_of state) \<and>
    length running' = length running"
proof -
  have "running' = set_cancelling (attempt_of state) running"
    using request_cancel_attempts [OF assms(1), of wo state request op_key running w ws] assms(3) by simp
  with assms(2) show ?thesis
    by (auto simp: tracked_def list_ex_iff sweep_untracked_attempts_def set_cancelling_def)
qed

theorem cancelled_attempt_keeps_slot_witness:
  "\<exists>a r running' w' ws'. ra_attempt_id a = ''a1'' \<and>
    request_cancel example_world ready_marker [(''attempt_id'', JStr ''a1'')] [] None
      ([a], fst example_store, claim_workspace) = (r, running', w', ws') \<and>
    tracked (sweep_untracked_attempts (\<lambda>_. Some 0) [] [] running') ''a1''"
proof -
  define a where "a = \<lparr>ra_job_key = example_key, ra_attempt_id = ''a1'', ra_resources = [], ra_fenced = False, ra_cancelling = False\<rparr>"
  then have a: "ra_attempt_id a = ''a1''" by simp
  obtain r running' w' ws' where c: "request_cancel example_world ready_marker [(''attempt_id'', JStr ''a1'')] [] None
      ([a], fst example_store, claim_workspace) = (r, running', w', ws')"
    by (metis prod_cases4)
  have i: "attempt_of [(''attempt_id'', JStr ''a1'')] = ''a1''" by code_simp
  have "kind ready_marker \<notin> {Cancelling, Running}" "tracked [a] (attempt_of [(''attempt_id'', JStr ''a1'')])"
    by (simp_all add: ready_marker_def tracked_def i a)
  from cancelled_attempt_keeps_slot [OF this c, of "\<lambda>_. Some 0" "[]" "[]", unfolded i] a c show ?thesis
    by blast
qed

end
