(* ===== verification/Transfer_Receipts.thy ===== *)
theory Transfer_Receipts
  imports Markers State_Frame
begin

text \<open>
  The compact replay protection of sequenced transfers
  (\<open>src/src/httk/workflow/_transfer_receipts.py\<close>). The destination keeps, per source stream,
  the sequence numbers it has imported as a list of ranges. The source allocates sequence
  numbers within a stream that one process owns: its epoch is minted by that process and never
  adopted from a file, so that restoring the files of an allocator cannot make two transfers
  share a number. The protocol lock makes every operation atomic.
\<close>

section \<open>The members of a manifest\<close>

definition epoch_of :: "obj \<Rightarrow> string option res" where
  "epoch_of manifest =
     (case get manifest ''transfer_epoch'' of
        JNull \<Rightarrow> Inr None
      | v \<Rightarrow> bindr (canonical_uuid v) (\<lambda>e. Inr (Some e)))"

definition sequence_of :: "obj \<Rightarrow> int option res" where
  "sequence_of manifest =
     (case get manifest ''transfer_sequence'' of
        JNull \<Rightarrow> Inr None
      | JInt n \<Rightarrow> if n < 1 then Inl FormatError else Inr (Some n)
      | _ \<Rightarrow> Inl FormatError)"

text \<open>\<open>str_of\<close> is \<open>str()\<close> of a value that is not a string.\<close>

definition stream_key :: "(json \<Rightarrow> string) \<Rightarrow> obj \<Rightarrow> string res" where
  "stream_key str_of manifest =
     (case map_of manifest ''source_workspace_id'' of
        None \<Rightarrow> Inl KeyError
      | Some v \<Rightarrow>
          let peer = (case v of JStr s \<Rightarrow> s | _ \<Rightarrow> str_of v)
          in bindr (epoch_of manifest) (\<lambda>e. Inr (case e of None \<Rightarrow> peer | Some x \<Rightarrow> peer @ ''/'' @ x)))"

section \<open>Received sequence numbers\<close>

type_synonym ranges = "(int \<times> int) list"

definition in_ranges :: "ranges \<Rightarrow> int \<Rightarrow> bool" where
  "in_ranges rs n \<longleftrightarrow> list_ex (\<lambda>(low, high). low \<le> n \<and> n \<le> high) rs"

text \<open>The loop over the sorted ranges; \<open>merged\<close> is the list built so far.\<close>

fun merge_ranges :: "ranges \<Rightarrow> ranges \<Rightarrow> ranges" where
  "merge_ranges merged [] = merged"
| "merge_ranges merged ((low, high) # rs) =
     (if merged \<noteq> [] \<and> low \<le> snd (last merged) + 1
      then merge_ranges (butlast merged @ [(fst (last merged), max high (snd (last merged)))]) rs
      else merge_ranges (merged @ [(low, high)]) rs)"

definition remember_sequence :: "int \<Rightarrow> ranges \<Rightarrow> ranges" where
  "remember_sequence n rs = merge_ranges [] (sort (rs @ [(n, n)]))"

definition stream_ranges :: "ranges dict \<Rightarrow> string \<Rightarrow> ranges" where
  "stream_ranges streams k = (case map_of streams k of None \<Rightarrow> [] | Some rs \<Rightarrow> rs)"

definition received :: "(json \<Rightarrow> string) \<Rightarrow> obj \<Rightarrow> ranges dict \<Rightarrow> bool res" where
  "received str_of manifest streams =
     bindr (sequence_of manifest) (\<lambda>s.
       case s of
         None \<Rightarrow> Inr False
       | Some n \<Rightarrow> bindr (stream_key str_of manifest) (\<lambda>k. Inr (in_ranges (stream_ranges streams k) n)))"

definition remember :: "(json \<Rightarrow> string) \<Rightarrow> obj \<Rightarrow> ranges dict \<Rightarrow> ranges dict res" where
  "remember str_of manifest streams =
     bindr (sequence_of manifest) (\<lambda>s.
       case s of
         None \<Rightarrow> Inr streams
       | Some n \<Rightarrow> bindr (stream_key str_of manifest) (\<lambda>k.
           Inr (dict_set k (remember_sequence n (stream_ranges streams k)) streams)))"

section \<open>Allocating sequence numbers\<close>

text \<open>
  A stream as \<open>issued.json\<close> holds it, with the reservations that are not sealed yet: transfer
  identifier to job and number. \<open>pending\<close> keeps insertion order, which decides nothing but the
  order in which it is searched.
\<close>

record stream =
  st_epoch :: string
  st_last :: int
  st_pending :: "(string \<times> int) dict"

type_synonym streams = "stream dict"

text \<open>Host, root, device and inode of the control directory.\<close>

type_synonym origin = "string \<times> string \<times> int \<times> int"

record protocol_files =
  pf_issued :: streams
  pf_checkpoint :: "(origin \<times> streams) option"

text \<open>What one process remembers, by process id, origin and peer.\<close>

type_synonym session = "(nat \<times> origin \<times> string) \<Rightarrow> stream option"

text \<open>Dictionaries compare without their order.\<close>

definition same_dict :: "('v \<Rightarrow> 'v \<Rightarrow> bool) \<Rightarrow> 'v dict \<Rightarrow> 'v dict \<Rightarrow> bool" where
  "same_dict eq d d' \<longleftrightarrow>
     list_all (\<lambda>(k, v). case map_of d' k of None \<Rightarrow> False | Some v' \<Rightarrow> eq v v') d \<and>
     list_all (\<lambda>(k, _). map_of d k \<noteq> None) d'"

definition same_stream :: "stream \<Rightarrow> stream \<Rightarrow> bool" where
  "same_stream s s' \<longleftrightarrow>
     st_epoch s = st_epoch s' \<and> st_last s = st_last s' \<and> same_dict (=) (st_pending s) (st_pending s')"

definition certified :: "origin \<Rightarrow> protocol_files \<Rightarrow> bool" where
  "certified org disk =
     (case pf_checkpoint disk of
        None \<Rightarrow> False
      | Some (o', streams) \<Rightarrow> o' = org \<and> same_dict same_stream streams (pf_issued disk))"

text \<open>
  \<open>_publish_issued\<close>: two atomic writes, of which the first \<open>writes\<close> succeed. A write that
  fails raises \<open>OSError\<close>.
\<close>

definition publish_issued ::
  "nat \<Rightarrow> origin \<Rightarrow> streams \<Rightarrow> protocol_files \<Rightarrow> unit res \<times> protocol_files" where
  "publish_issued writes org streams disk =
     (if writes = 0 then (Inl OSError, disk)
      else let disk1 = disk\<lparr>pf_checkpoint := Some (org, streams)\<rparr>
           in if writes = 1 then (Inl OSError, disk1) else (Inr (), disk1\<lparr>pf_issued := streams\<rparr>))"

text \<open>The stream \<open>reserve\<close> uses: the one this process remembers, or a new one of epoch \<open>fresh\<close>.\<close>

definition choose_stream :: "string \<Rightarrow> stream option \<Rightarrow> stream option \<Rightarrow> stream" where
  "choose_stream fresh current on_disk =
     (let new = \<lparr>st_epoch = fresh, st_last = 0, st_pending = []\<rparr>
      in case current of
           None \<Rightarrow> new
         | Some c \<Rightarrow>
             (case on_disk of
                None \<Rightarrow> new
              | Some d \<Rightarrow>
                  if st_epoch d = st_epoch c \<and> \<not> same_stream d c then new
                  else if st_epoch d \<noteq> st_epoch c then c\<lparr>st_pending := []\<rparr>
                  else c))"

definition reserve_sequence ::
  "string \<Rightarrow> nat \<Rightarrow> nat \<Rightarrow> origin \<Rightarrow> string \<Rightarrow> string \<Rightarrow> string \<Rightarrow> protocol_files \<Rightarrow> session \<Rightarrow>
     (string \<times> int \<times> string) res \<times> protocol_files \<times> session" where
  "reserve_sequence fresh writes pid org peer job transfer_id disk session =
     (let key = (pid, org, peer);
          streams = (if certified org disk then pf_issued disk else []);
          stream = choose_stream fresh (session key) (map_of streams peer)
      in case List.find (\<lambda>(_, j, _). j = job) (st_pending stream) of
           Some (identifier, _, n) \<Rightarrow>
             (Inr (identifier, n, st_epoch stream), disk, session(key \<mapsto> stream))
         | None \<Rightarrow>
             let n = st_last stream + 1;
                 stream' = stream\<lparr>st_last := n, st_pending := dict_set transfer_id (job, n) (st_pending stream)\<rparr>
             in case publish_issued writes org (dict_set peer stream' streams) disk of
                  (r, disk') \<Rightarrow>
                    (bindr r (\<lambda>_. Inr (transfer_id, n, st_epoch stream')), disk', session(key \<mapsto> stream')))"

definition fencing :: "nat \<Rightarrow> origin \<Rightarrow> string \<Rightarrow> string \<Rightarrow> session \<Rightarrow> session" where
  "fencing pid org peer transfer_id session =
     (case session (pid, org, peer) of
        None \<Rightarrow> session
      | Some s \<Rightarrow> session((pid, org, peer) \<mapsto> s\<lparr>st_pending := dict_del transfer_id (st_pending s)\<rparr>))"

text \<open>\<open>sealed\<close> of the code.\<close>

definition seal_reservation ::
  "nat \<Rightarrow> nat \<Rightarrow> origin \<Rightarrow> string \<Rightarrow> string \<Rightarrow> protocol_files \<Rightarrow> session \<Rightarrow>
     unit res \<times> protocol_files \<times> session" where
  "seal_reservation writes pid org peer transfer_id disk session =
     (let session' = fencing pid org peer transfer_id session; streams = pf_issued disk
      in if \<not> certified org disk then (Inr (), disk, session')
         else case map_of streams peer of
           None \<Rightarrow> (Inr (), disk, session')
         | Some s \<Rightarrow>
             if map_of (st_pending s) transfer_id = None then (Inr (), disk, session')
             else case publish_issued writes org
                    (dict_set peer (s\<lparr>st_pending := dict_del transfer_id (st_pending s)\<rparr>) streams) disk of
               (r, disk') \<Rightarrow> (r, disk', session'))"

section \<open>Ranges as sets\<close>

text \<open>
  Canonical ranges are not empty, ascending, and neither overlap nor touch; a set of integers
  has at most one such representation.
\<close>

definition covered :: "ranges \<Rightarrow> int set" where
  "covered rs = (\<Union>(low, high)\<in>set rs. {low..high})"

fun canonical :: "ranges \<Rightarrow> bool" where
  "canonical [] = True"
| "canonical [(low, high)] = (low \<le> high)"
| "canonical ((low, high) # (low', high') # rs) =
     (low \<le> high \<and> high + 1 < low' \<and> canonical ((low', high') # rs))"

lemma in_ranges_covered: "in_ranges rs n \<longleftrightarrow> n \<in> covered rs"
  unfolding in_ranges_def covered_def list_ex_iff by fastforce

lemma covered_simps [simp]:
  "covered [] = {}" "covered ((low, high) # rs) = {low..high} \<union> covered rs"
  "covered (rs @ rs') = covered rs \<union> covered rs'"
  by (auto simp: covered_def)

lemma canonical_Cons:
  "canonical ((low, high) # rs) \<longleftrightarrow> low \<le> high \<and> canonical rs \<and> (rs \<noteq> [] \<longrightarrow> high + 1 < fst (hd rs))"
  by (cases rs) auto

lemma canonical_above: "canonical ((low, high) # rs) \<Longrightarrow> n \<in> covered rs \<Longrightarrow> high + 1 < n"
proof (induction rs arbitrary: low high)
  case (Cons r rs)
  obtain l h where "r = (l, h)" by (cases r)
  with Cons show ?case by (fastforce simp: canonical_Cons)
qed simp

lemma canonical_append:
  "canonical (rs @ [(low, high)]) \<longleftrightarrow>
     canonical rs \<and> low \<le> high \<and> (rs \<noteq> [] \<longrightarrow> snd (last rs) + 1 < low)"
proof (induction rs)
  case (Cons r rs)
  then show ?case by (cases r; cases rs) (auto simp: canonical_Cons)
qed simp

lemma canonical_sorted: "canonical rs \<Longrightarrow> sorted (map fst rs) \<and> list_all (\<lambda>(low, high). low \<le> high) rs"
proof (induction rs)
  case (Cons r rs)
  obtain l h where r: "r = (l, h)" by (cases r)
  have "l \<le> x" if x: "x \<in> set (map fst rs)" for x
  proof -
    obtain y where y: "(x, y) \<in> set rs" using x by auto
    then have "x \<le> y" using Cons by (auto simp: canonical_Cons r list_all_iff)
    with y have "x \<in> covered rs" by (force simp: covered_def)
    with canonical_above [of l h rs x] Cons.prems show ?thesis by (simp add: r canonical_Cons)
  qed
  with Cons show ?case by (auto simp: r canonical_Cons)
qed simp

lemma canonical_unique:
  assumes "canonical rs" and "canonical rs'" and "covered rs = covered rs'"
  shows "rs = rs'"
  using assms
proof (induction rs arbitrary: rs')
  case Nil
  then show ?case by (cases rs') (auto simp: canonical_Cons)
next
  case (Cons r rs)
  obtain l h where r: "r = (l, h)" by (cases r)
  obtain l' h' rs2 where rs': "rs' = (l', h') # rs2"
    using Cons.prems r by (cases rs') (auto simp: canonical_Cons)
  have le: "l \<le> h" "l' \<le> h'" using Cons.prems by (auto simp: r rs' canonical_Cons)
  have up: "h + 1 < n" if "n \<in> covered rs" for n using canonical_above Cons.prems(1) that r by blast
  have up': "h' + 1 < n" if "n \<in> covered rs2" for n using canonical_above Cons.prems(2) that rs' by blast
  have eq: "{l..h} \<union> covered rs = {l'..h'} \<union> covered rs2" using Cons.prems(3) by (simp add: r rs')
  have "l \<in> {l'..h'} \<union> covered rs2" "l' \<in> {l..h} \<union> covered rs" using eq le by auto
  then have l: "l = l'" using up [of l'] up' [of l] le by fastforce
  have "h + 1 \<notin> {l..h} \<union> covered rs" "h' + 1 \<notin> {l'..h'} \<union> covered rs2" using up up' by force+
  then have "h + 1 \<notin> {l'..h'}" "h' + 1 \<notin> {l..h}" using eq by blast+
  with l le have h: "h = h'" by auto
  have "covered rs = ({l..h} \<union> covered rs) - {l..h}" using up le by fastforce
  also have "\<dots> = ({l'..h'} \<union> covered rs2) - {l'..h'}" using eq l h by simp
  also have "\<dots> = covered rs2" using up' le by fastforce
  finally have "rs = rs2" using Cons.IH Cons.prems by (simp add: r rs' canonical_Cons)
  with l h show ?case by (simp add: r rs')
qed

lemma merge_ranges_canonical:
  assumes "canonical merged" and "sorted (map fst rs)" and "list_all (\<lambda>(low, high). low \<le> high) rs"
    and "merged \<noteq> [] \<Longrightarrow> rs \<noteq> [] \<Longrightarrow> fst (last merged) \<le> fst (hd rs)"
  shows "canonical (merge_ranges merged rs) \<and> covered (merge_ranges merged rs) = covered merged \<union> covered rs"
  using assms
proof (induction merged rs rule: merge_ranges.induct)
  case (2 merged low high rs)
  show ?case
  proof (cases "merged \<noteq> [] \<and> low \<le> snd (last merged) + 1")
    case True
    obtain pre l h where m: "merged = pre @ [(l, h)]"
      using True by (metis append_butlast_last_id surj_pair)
    have lh: "l \<le> h" "low \<le> h + 1" "l \<le> low" "low \<le> high"
      using True 2 by (auto simp: m canonical_append)
    have "canonical (pre @ [(l, max high h)])" using 2(3) lh by (simp add: m canonical_append)
    moreover have "{l..max high h} = {l..h} \<union> {low..high}" using lh by (auto simp: max_def)
    ultimately show ?thesis
      using True 2(1) 2(4-6) lh by (cases rs) (auto simp: m Un_assoc)
  next
    case False
    then have "merge_ranges merged ((low, high) # rs) = merge_ranges (merged @ [(low, high)]) rs" by auto
    moreover have "canonical (merged @ [(low, high)])"
      using 2(3,5) False by (auto simp: canonical_append)
    ultimately show ?thesis
      using 2(2) [OF False] 2(4,5) by (cases rs) (auto simp: Un_assoc)
  qed
qed simp

lemma sort_ranges: "sorted (map fst (sort (rs :: ranges)))"
proof -
  have "sorted (sort rs)" by simp
  then show ?thesis by (rule sorted_map_mono) (auto simp: mono_on_def less_eq_prod_def)
qed

lemma remember_sequence_canonical:
  assumes "canonical rs"
  shows "canonical (remember_sequence n rs) \<and> covered (remember_sequence n rs) = insert n (covered rs)"
proof -
  let ?rs = "sort (rs @ [(n, n)])"
  have "list_all (\<lambda>(low, high). low \<le> high) ?rs"
    using canonical_sorted [OF assms] by (auto simp: list_all_iff)
  moreover have "covered ?rs = insert n (covered rs)" by (auto simp: covered_def)
  ultimately show ?thesis
    using merge_ranges_canonical [of "[]" ?rs] sort_ranges unfolding remember_sequence_def by simp
qed

section \<open>Processes that share an allocator\<close>

text \<open>
  Any number of processes use the allocator, each with its own memory. Between two calls the
  protocol files may be replaced by anything (as by a backup, or by the files of a copy of the
  workspace), and a process may start, fork or end. \<open>uuid4\<close> never yields an identifier twice,
  and a forked child gets a process id that is no key of the memory it inherits.
\<close>

record process =
  pr_pid :: nat
  pr_session :: session

datatype event =
    Issued string string string int string
  | Fenced string int

record allocator =
  al_files :: protocol_files
  al_procs :: "nat \<Rightarrow> process option"
  al_epochs :: "string set"
  al_log :: "event list"

definition fence_events :: "stream option \<Rightarrow> string \<Rightarrow> event list" where
  "fence_events s transfer_id =
     (case s of
        None \<Rightarrow> []
      | Some s \<Rightarrow> (case map_of (st_pending s) transfer_id of None \<Rightarrow> [] | Some (_, n) \<Rightarrow> [Fenced (st_epoch s) n]))"

inductive alloc_step :: "allocator \<Rightarrow> allocator \<Rightarrow> bool" where
  replace_files: "alloc_step a (a\<lparr>al_files := files\<rparr>)"
| start: "al_procs a i = None \<Longrightarrow>
    alloc_step a (a\<lparr>al_procs := (al_procs a)(i \<mapsto> \<lparr>pr_pid = pid, pr_session = Map.empty\<rparr>)\<rparr>)"
| fork: "al_procs a i = Some p \<Longrightarrow> al_procs a j = None \<Longrightarrow> pid \<notin> fst ` dom (pr_session p) \<Longrightarrow>
    alloc_step a (a\<lparr>al_procs := (al_procs a)(j \<mapsto> p\<lparr>pr_pid := pid\<rparr>)\<rparr>)"
| exit: "alloc_step a (a\<lparr>al_procs := (al_procs a)(i := None)\<rparr>)"
| reserving: "al_procs a i = Some p \<Longrightarrow> fresh \<notin> al_epochs a \<Longrightarrow>
    reserve_sequence fresh writes (pr_pid p) org peer job t (al_files a) (pr_session p) = (r, files, session) \<Longrightarrow>
    alloc_step a (a\<lparr>al_files := files, al_procs := (al_procs a)(i \<mapsto> p\<lparr>pr_session := session\<rparr>),
      al_epochs := insert fresh (al_epochs a),
      al_log := al_log a @ (case r of Inr (t', n, e) \<Rightarrow> [Issued peer t' job n e] | Inl _ \<Rightarrow> [])\<rparr>)"
| fenced: "al_procs a i = Some p \<Longrightarrow>
    alloc_step a (a\<lparr>al_procs := (al_procs a)(i \<mapsto> p\<lparr>pr_session := fencing (pr_pid p) org peer t (pr_session p)\<rparr>),
      al_log := al_log a @ fence_events (pr_session p (pr_pid p, org, peer)) t\<rparr>)"
| sealed: "al_procs a i = Some p \<Longrightarrow>
    seal_reservation writes (pr_pid p) org peer t (al_files a) (pr_session p) = (r, files, session) \<Longrightarrow>
    alloc_step a (a\<lparr>al_files := files, al_procs := (al_procs a)(i \<mapsto> p\<lparr>pr_session := session\<rparr>),
      al_log := al_log a @ fence_events (pr_session p (pr_pid p, org, peer)) t\<rparr>)"

definition fresh_allocator :: "protocol_files \<Rightarrow> string set \<Rightarrow> allocator" where
  "fresh_allocator files used = \<lparr>al_files = files, al_procs = Map.empty, al_epochs = used, al_log = []\<rparr>"

inductive alloc_reachable :: "allocator \<Rightarrow> bool" where
  initially: "alloc_reachable (fresh_allocator files used)"
| step: "alloc_reachable a \<Longrightarrow> alloc_step a a' \<Longrightarrow> alloc_reachable a'"

text \<open>
  What holds of a stream its process owns, of the log, and of the two together.
\<close>

definition owns_stream :: "(nat \<Rightarrow> process option) \<Rightarrow> nat \<Rightarrow> origin \<times> string \<Rightarrow> stream \<Rightarrow> bool" where
  "owns_stream procs i k s \<longleftrightarrow>
     (\<exists>p. procs i = Some p \<and> pr_session p (pr_pid p, k) = Some s)"

definition stream_inv :: "event list \<Rightarrow> string \<Rightarrow> stream \<Rightarrow> bool" where
  "stream_inv hist peer s \<longleftrightarrow>
     distinct (map fst (st_pending s)) \<and>
     (\<forall>t j n. (t, j, n) \<in> set (st_pending s) \<longrightarrow>
        n \<le> st_last s \<and> Fenced (st_epoch s) n \<notin> set hist \<and>
        (\<forall>t' j'. (t', j', n) \<in> set (st_pending s) \<longrightarrow> t' = t) \<and>
        (\<forall>peer' t' j'. Issued peer' t' j' n (st_epoch s) \<in> set hist \<longrightarrow> peer' = peer \<and> t' = t \<and> j' = j)) \<and>
     (\<forall>peer' t' j' n. Issued peer' t' j' n (st_epoch s) \<in> set hist \<longrightarrow> n \<le> st_last s) \<and>
     (\<forall>n. Fenced (st_epoch s) n \<in> set hist \<longrightarrow> n \<le> st_last s)"

fun event_epoch :: "event \<Rightarrow> string" where
  "event_epoch (Issued peer t j n e) = e"
| "event_epoch (Fenced e n) = e"

text \<open>After a reservation was fenced, its number is not issued again.\<close>

fun never_reused :: "event list \<Rightarrow> bool" where
  "never_reused [] = True"
| "never_reused (Issued peer t j n e # xs) = never_reused xs"
| "never_reused (Fenced e n # xs) =
     (list_all (\<lambda>x. case x of Issued peer t j n' e' \<Rightarrow> (n', e') \<noteq> (n, e) | Fenced e' n' \<Rightarrow> True) xs \<and> never_reused xs)"

definition numbers_unique :: "event list \<Rightarrow> bool" where
  "numbers_unique hist \<longleftrightarrow>
     (\<forall>peer t j peer' t' j' n e. Issued peer t j n e \<in> set hist \<longrightarrow> Issued peer' t' j' n e \<in> set hist \<longrightarrow>
        peer = peer' \<and> t = t' \<and> j = j')"

lemma never_reused_append:
  "never_reused (xs @ [x]) \<longleftrightarrow>
     never_reused xs \<and> (case x of Issued peer t j n e \<Rightarrow> Fenced e n \<notin> set xs | Fenced e n \<Rightarrow> True)"
  by (induction xs rule: never_reused.induct) (auto split: event.splits)

definition alloc_inv :: "allocator \<Rightarrow> bool" where
  "alloc_inv a \<longleftrightarrow>
     numbers_unique (al_log a) \<and> never_reused (al_log a) \<and> event_epoch ` set (al_log a) \<subseteq> al_epochs a \<and>
     (\<forall>i k s. owns_stream (al_procs a) i k s \<longrightarrow> st_epoch s \<in> al_epochs a \<and> stream_inv (al_log a) (snd k) s \<and>
        (\<forall>j k' s'. owns_stream (al_procs a) j k' s' \<longrightarrow> st_epoch s' = st_epoch s \<longrightarrow> i = j \<and> k = k'))"

lemma stream_inv_other:
  assumes "\<forall>x\<in>set xs. event_epoch x \<noteq> st_epoch s"
  shows "stream_inv (hist @ xs) peer s = stream_inv hist peer s"
proof -
  have "Issued peer' t j n (st_epoch s) \<notin> set xs" "Fenced (st_epoch s) n \<notin> set xs" for peer' t j n
    using assms by fastforce+
  then show ?thesis by (simp add: stream_inv_def)
qed

lemma numbers_unique_issued:
  assumes "numbers_unique hist"
    and "\<And>peer' t' j'. Issued peer' t' j' n e \<in> set hist \<Longrightarrow> peer' = peer \<and> t' = t \<and> j' = j"
  shows "numbers_unique (hist @ [Issued peer t j n e])"
  unfolding numbers_unique_def
proof (intro allI impI)
  fix p1 t1 j1 p2 t2 j2 m f
  assume i: "Issued p1 t1 j1 m f \<in> set (hist @ [Issued peer t j n e])"
    "Issued p2 t2 j2 m f \<in> set (hist @ [Issued peer t j n e])"
  show "p1 = p2 \<and> t1 = t2 \<and> j1 = j2"
  proof (cases "(m, f) = (n, e)")
    case True
    with i assms(2) [of p1 t1 j1] assms(2) [of p2 t2 j2] show ?thesis by fastforce
  next
    case False
    with i have "Issued p1 t1 j1 m f \<in> set hist" "Issued p2 t2 j2 m f \<in> set hist" by auto
    with assms(1) show ?thesis unfolding numbers_unique_def by blast
  qed
qed

text \<open>One process changes one of its streams and appends events of that stream to the log.\<close>

lemma alloc_inv_change:
  assumes inv: "alloc_inv a" and p: "al_procs a i = Some p"
    and s: "stream_inv (al_log a @ xs) peer s" "st_epoch s \<in> E" "al_epochs a \<subseteq> E"
    and l: "numbers_unique (al_log a @ xs)" "never_reused (al_log a @ xs)" "\<forall>x\<in>set xs. event_epoch x = st_epoch s"
    and e: "st_epoch s \<notin> al_epochs a \<or> owns_stream (al_procs a) i (org, peer) s0 \<and> st_epoch s0 = st_epoch s"
  shows "alloc_inv (a\<lparr>al_files := files,
      al_procs := (al_procs a)(i \<mapsto> p\<lparr>pr_session := (pr_session p)((pr_pid p, org, peer) \<mapsto> s)\<rparr>),
      al_epochs := E, al_log := al_log a @ xs\<rparr>)"
proof -
  let ?procs = "(al_procs a)(i \<mapsto> p\<lparr>pr_session := (pr_session p)((pr_pid p, org, peer) \<mapsto> s)\<rparr>)"
  have own: "owns_stream ?procs j k s' \<longleftrightarrow>
      (if j = i \<and> k = (org, peer) then s' = s else owns_stream (al_procs a) j k s')" for j k s'
    using p by (auto simp: owns_stream_def)
  have old: "st_epoch s' \<in> al_epochs a" "stream_inv (al_log a) (snd k) s'"
    "owns_stream (al_procs a) j' k' s'' \<Longrightarrow> st_epoch s'' = st_epoch s' \<Longrightarrow> j = j' \<and> k = k'"
    if "owns_stream (al_procs a) j k s'" for j k s' j' k' s''
    using inv that unfolding alloc_inv_def by blast+
  have diff: "st_epoch s' \<noteq> st_epoch s" if "owns_stream (al_procs a) j k s'" "\<not> (j = i \<and> k = (org, peer))" for j k s'
    using e old(1,3) that by metis
  have other: "stream_inv (al_log a @ xs) (snd k) s'"
    if "owns_stream (al_procs a) j k s'" "\<not> (j = i \<and> k = (org, peer))" for j k s'
    using stream_inv_other [of xs s'] diff [OF that] l(3) old(2) that by metis
  have "event_epoch ` set (al_log a @ xs) \<subseteq> E"
    using inv s(2,3) l(3) by (auto simp: alloc_inv_def)
  moreover have "st_epoch s' \<in> E \<and> stream_inv (al_log a @ xs) (snd k) s' \<and>
      (\<forall>j' k' s''. owns_stream ?procs j' k' s'' \<longrightarrow> st_epoch s'' = st_epoch s' \<longrightarrow> j = j' \<and> k = k')"
    if o1: "owns_stream ?procs j k s'" for j k s'
  proof (cases "j = i \<and> k = (org, peer)")
    case True
    with o1 have "s' = s" by (simp add: own)
    with True s diff show ?thesis by (auto simp: own)
  next
    case False
    then have o2: "owns_stream (al_procs a) j k s'" using o1 by (simp add: own)
    have "j = j' \<and> k = k'" if "owns_stream ?procs j' k' s''" "st_epoch s'' = st_epoch s'" for j' k' s''
      using that diff [OF o2 False] old(3) [OF o2] by (auto simp: own split: if_splits)
    then show ?thesis using other [OF o2 False] old(1) [OF o2] s(3) by blast
  qed
  ultimately show ?thesis using l(1,2) by (simp add: alloc_inv_def)
qed

lemma choose_stream_cases:
  assumes "choose_stream fresh current on_disk = s"
  obtains "s = \<lparr>st_epoch = fresh, st_last = 0, st_pending = []\<rparr>"
  | c where "current = Some c" "s = c\<lparr>st_pending := []\<rparr> \<or> s = c"
  using assms by (auto simp: choose_stream_def Let_def split: option.splits if_splits)

lemma stream_invI:
  assumes "distinct (map fst (st_pending s))"
    and "\<And>t j n. (t, j, n) \<in> set (st_pending s) \<Longrightarrow> n \<le> st_last s \<and> Fenced (st_epoch s) n \<notin> set hist"
    and "\<And>t j n t' j'. (t, j, n) \<in> set (st_pending s) \<Longrightarrow> (t', j', n) \<in> set (st_pending s) \<Longrightarrow> t' = t"
    and "\<And>t j n p' t' j'. (t, j, n) \<in> set (st_pending s) \<Longrightarrow> Issued p' t' j' n (st_epoch s) \<in> set hist \<Longrightarrow>
      p' = peer \<and> t' = t \<and> j' = j"
    and "\<And>p' t' j' n. Issued p' t' j' n (st_epoch s) \<in> set hist \<Longrightarrow> n \<le> st_last s"
    and "\<And>n. Fenced (st_epoch s) n \<in> set hist \<Longrightarrow> n \<le> st_last s"
  shows "stream_inv hist peer s"
  unfolding stream_inv_def using assms by blast

lemma stream_inv_drop: "stream_inv hist peer s \<Longrightarrow> stream_inv hist peer (s\<lparr>st_pending := []\<rparr>)"
  by (simp add: stream_inv_def)

lemma stream_inv_fresh:
  assumes "\<forall>x\<in>set hist. event_epoch x \<noteq> fresh"
  shows "stream_inv hist peer \<lparr>st_epoch = fresh, st_last = 0, st_pending = []\<rparr>"
  using assms by (fastforce simp: stream_inv_def)

text \<open>The stream \<open>reserve\<close> chooses is in order.\<close>

lemma chosen_stream_inv:
  assumes "alloc_inv a" and "al_procs a i = Some p" and "fresh \<notin> al_epochs a"
    and "s = choose_stream fresh (pr_session p (pr_pid p, org, peer)) d"
  shows "stream_inv (al_log a) peer s \<and> st_epoch s \<in> insert fresh (al_epochs a) \<and>
    (st_epoch s \<notin> al_epochs a \<or> (\<exists>s0. owns_stream (al_procs a) i (org, peer) s0 \<and> st_epoch s0 = st_epoch s))"
  using assms(4) [symmetric]
proof (cases rule: choose_stream_cases)
  case 1
  have "\<forall>x\<in>set (al_log a). event_epoch x \<noteq> fresh"
    using assms(1,3) by (auto simp: alloc_inv_def)
  with 1 assms(3) stream_inv_fresh show ?thesis by simp
next
  case (2 c)
  then have own: "owns_stream (al_procs a) i (org, peer) c" using assms(2) by (simp add: owns_stream_def)
  then have "st_epoch c \<in> al_epochs a \<and> stream_inv (al_log a) (snd (org, peer)) c"
    using assms(1) unfolding alloc_inv_def by blast
  then have c: "stream_inv (al_log a) peer c \<and> st_epoch c \<in> al_epochs a" by simp
  have e: "st_epoch s = st_epoch c" and "stream_inv (al_log a) peer s"
    using 2(2) c stream_inv_drop [of "al_log a" peer c] by (elim disjE; simp)+
  with c own show ?thesis by (intro conjI disjI2 exI [of _ c]) simp_all
qed

lemma find_pending:
  assumes "List.find (\<lambda>(_, j, _). j = job) d = Some (t, j, n)"
  shows "(t, j, n) \<in> set d \<and> j = job"
  using assms unfolding find_Some_iff by (auto dest: nth_mem)

lemma stream_inv_next:
  assumes "stream_inv hist peer s" and "e = st_epoch s" and "n = st_last s + 1"
    and "xs = [] \<or> xs = [Issued peer t job n e]"
  shows "stream_inv (hist @ xs) peer (s\<lparr>st_last := n, st_pending := dict_set t (job, n) (st_pending s)\<rparr>)"
proof -
  have mem: "(t', j', m) \<in> set (dict_set t (job, n) (st_pending s)) \<Longrightarrow>
      t' = t \<and> j' = job \<and> m = n \<or> (t', j', m) \<in> set (st_pending s) \<and> t' \<noteq> t" for t' j' m
  proof -
    assume m: "(t', j', m) \<in> set (dict_set t (job, n) (st_pending s))"
    have "distinct (map fst (dict_set t (job, n) (st_pending s)))" "distinct (map fst (st_pending s))"
      using assms(1) by (auto simp: stream_inv_def)
    then show ?thesis
      using map_of_is_SomeI [OF _ m] by (auto split: if_splits dest: map_of_SomeD)
  qed
  have low: "m \<le> st_last s" if "(t', j', m) \<in> set (st_pending s)" for t' j' m
    using assms(1) that unfolding stream_inv_def by blast
  have new: "Issued p' t' j' n e \<notin> set hist" "Fenced e n \<notin> set hist" for p' t' j'
    using assms(1-3) unfolding stream_inv_def by fastforce+
  have pend: "Fenced e m \<notin> set hist" "(t'', j'', m) \<in> set (st_pending s) \<Longrightarrow> t'' = t'"
      "Issued p' t'' j'' m e \<in> set hist \<Longrightarrow> p' = peer \<and> t'' = t' \<and> j'' = j'"
    if "(t', j', m) \<in> set (st_pending s)" for t' j' m t'' j'' p'
    using assms(1) that unfolding stream_inv_def assms(2) by blast+
  have bound: "Issued p' t' j' m e \<in> set hist \<Longrightarrow> m \<le> st_last s" "Fenced e m \<in> set hist \<Longrightarrow> m \<le> st_last s" for p' t' j' m
    using assms(1) unfolding stream_inv_def assms(2) by blast+
  have xs: "Fenced e m \<notin> set xs" "Issued p' t' j' m e \<in> set xs \<Longrightarrow> p' = peer \<and> t' = t \<and> j' = job \<and> m = n" for p' t' j' m
    using assms(4) by auto
  let ?s = "s\<lparr>st_last := n, st_pending := dict_set t (job, n) (st_pending s)\<rparr>"
  have 1: "m \<le> n \<and> Fenced e m \<notin> set (hist @ xs)" if "(t', j', m) \<in> set (st_pending ?s)" for t' j' m
    using mem [of t' j' m] that low pend(1) new(2) xs(1) assms(3) by fastforce
  have 2: "t'' = t'" if "(t', j', m) \<in> set (st_pending ?s)" "(t'', j'', m) \<in> set (st_pending ?s)" for t' j' m t'' j''
    using mem [of t' j' m] mem [of t'' j'' m] that low pend(2) assms(3) by fastforce
  have 3: "p' = peer \<and> t'' = t' \<and> j'' = j'"
    if "(t', j', m) \<in> set (st_pending ?s)" "Issued p' t'' j'' m e \<in> set (hist @ xs)" for t' j' m p' t'' j''
  proof (cases "m = n")
    case True
    with that(2) new(1) have "Issued p' t'' j'' n e \<in> set xs" by auto
    note issued = xs(2) [OF this]
    have "(t', j', m) \<notin> set (st_pending s)" using low [of t' j' m] True assms(3) by auto
    with mem [of t' j' m] that(1) issued show ?thesis by simp
  next
    case False
    with that xs(2) mem [of t' j' m] pend(3) show ?thesis by auto
  qed
  have 4: "m \<le> n" if "Issued p' t' j' m e \<in> set (hist @ xs)" for p' t' j' m
    using that bound(1) xs(2) assms(3) by fastforce
  have 5: "m \<le> n" if "Fenced e m \<in> set (hist @ xs)" for m
    using that bound(2) xs(1) assms(3) by fastforce
  have e: "st_epoch ?s = e" "st_last ?s = n" using assms(2) by simp_all
  show ?thesis
  proof (rule stream_invI)
    show "distinct (map fst (st_pending ?s))" using assms(1) by (simp add: stream_inv_def)
    show "m \<le> st_last ?s \<and> Fenced (st_epoch ?s) m \<notin> set (hist @ xs)"
      if "(t', j', m) \<in> set (st_pending ?s)" for t' j' m using 1 [OF that] unfolding e .
    show "t'' = t'" if "(t', j', m) \<in> set (st_pending ?s)" "(t'', j'', m) \<in> set (st_pending ?s)" for t' j' m t'' j''
      using 2 [OF that] .
    show "p' = peer \<and> t'' = t' \<and> j'' = j'"
      if "(t', j', m) \<in> set (st_pending ?s)" "Issued p' t'' j'' m (st_epoch ?s) \<in> set (hist @ xs)" for t' j' m p' t'' j''
      using that(2) unfolding e by (rule 3 [OF that(1)])
    show "m \<le> st_last ?s" if "Issued p' t' j' m (st_epoch ?s) \<in> set (hist @ xs)" for p' t' j' m
      using that unfolding e by (rule 4)
    show "m \<le> st_last ?s" if "Fenced (st_epoch ?s) m \<in> set (hist @ xs)" for m
      using that unfolding e by (rule 5)
  qed
qed

lemma reserve_cases:
  assumes "reserve_sequence fresh writes pid org peer job t disk session = (r, files, session')"
  obtains (again) d s t' n where "s = choose_stream fresh (session (pid, org, peer)) d"
      "session' = session((pid, org, peer) \<mapsto> s)" "(t', job, n) \<in> set (st_pending s)" "r = Inr (t', n, st_epoch s)"
  | (new_number) d s n s' where "s = choose_stream fresh (session (pid, org, peer)) d" "n = st_last s + 1"
      "s' = s\<lparr>st_last := n, st_pending := dict_set t (job, n) (st_pending s)\<rparr>"
      "session' = session((pid, org, peer) \<mapsto> s')" "(\<exists>e. r = Inl e) \<or> r = Inr (t, n, st_epoch s)"
proof -
  let ?d = "map_of (if certified org disk then pf_issued disk else []) peer"
  let ?s = "choose_stream fresh (session (pid, org, peer)) ?d"
  show thesis
  proof (cases "List.find (\<lambda>(_, j, _). j = job) (st_pending ?s)")
    case None
    let ?s' = "?s\<lparr>st_last := st_last ?s + 1, st_pending := dict_set t (job, st_last ?s + 1) (st_pending ?s)\<rparr>"
    obtain x disk' where "publish_issued writes org (dict_set peer ?s'
        (if certified org disk then pf_issued disk else [])) disk = (x, disk')"
      by (cases "publish_issued writes org (dict_set peer ?s'
        (if certified org disk then pf_issued disk else [])) disk")
    with None assms have "session' = session((pid, org, peer) \<mapsto> ?s')"
      "r = bindr x (\<lambda>_. Inr (t, st_last ?s + 1, st_epoch ?s))"
      unfolding reserve_sequence_def Let_def by auto
    then show ?thesis by (intro new_number [OF refl refl refl]; cases x) auto
  next
    case (Some y)
    obtain t' j n where y: "y = (t', j, n)" by (cases y)
    with Some assms have "session' = session((pid, org, peer) \<mapsto> ?s)" "r = Inr (t', n, st_epoch ?s)"
      unfolding reserve_sequence_def Let_def by auto
    with find_pending [of job "st_pending ?s" t' j n] Some show ?thesis by (intro again [OF refl]) (auto simp: y)
  qed
qed

lemma fenced_stream_inv:
  assumes "stream_inv hist peer s"
  shows "stream_inv (hist @ fence_events (Some s) t) peer (s\<lparr>st_pending := dict_del t (st_pending s)\<rparr>)"
proof -
  let ?s = "s\<lparr>st_pending := dict_del t (st_pending s)\<rparr>"
  have d: "distinct (map fst (st_pending s))" using assms by (simp add: stream_inv_def)
  have pend: "m \<le> st_last s \<and> Fenced (st_epoch s) m \<notin> set hist"
      "(t'', j'', m) \<in> set (st_pending s) \<Longrightarrow> t'' = t'"
      "Issued p' t'' j'' m (st_epoch s) \<in> set hist \<Longrightarrow> p' = peer \<and> t'' = t' \<and> j'' = j'"
    if "(t', j', m) \<in> set (st_pending s)" for t' j' m t'' j'' p'
    using assms that unfolding stream_inv_def by blast+
  have bound: "Issued p' t' j' m (st_epoch s) \<in> set hist \<Longrightarrow> m \<le> st_last s"
      "Fenced (st_epoch s) m \<in> set hist \<Longrightarrow> m \<le> st_last s" for p' t' j' m
    using assms unfolding stream_inv_def by blast+
  have sub: "(t', j', m) \<in> set (st_pending s) \<and> t' \<noteq> t" if "(t', j', m) \<in> set (st_pending ?s)" for t' j' m
    using that by (auto simp: dict_del_def)
  have ev: "\<exists>j. (t, j, m) \<in> set (st_pending s)" if "Fenced (st_epoch s) m \<in> set (fence_events (Some s) t)" for m
    using that by (cases "map_of (st_pending s) t") (auto simp: fence_events_def dest: map_of_SomeD)
  have iss: "Issued p' t' j' m e \<notin> set (fence_events (Some s) t)" for p' t' j' m e
    by (auto simp: fence_events_def split: option.splits)
  show ?thesis
  proof (rule stream_invI)
    show "distinct (map fst (st_pending ?s))" using d by simp
    show "m \<le> st_last ?s \<and> Fenced (st_epoch ?s) m \<notin> set (hist @ fence_events (Some s) t)"
      if p: "(t', j', m) \<in> set (st_pending ?s)" for t' j' m
      using pend(1) [of t' j' m] pend(2) sub [OF p] ev [of m] by fastforce
    show "t'' = t'" if "(t', j', m) \<in> set (st_pending ?s)" "(t'', j'', m) \<in> set (st_pending ?s)" for t' j' m t'' j''
      using sub [OF that(1)] sub [OF that(2)] pend(2) by blast
    show "p' = peer \<and> t'' = t' \<and> j'' = j'"
      if "(t', j', m) \<in> set (st_pending ?s)" "Issued p' t'' j'' m (st_epoch ?s) \<in> set (hist @ fence_events (Some s) t)"
      for t' j' m p' t'' j''
      using sub [OF that(1)] that(2) iss pend(3) by auto
    show "m \<le> st_last ?s" if "Issued p' t' j' m (st_epoch ?s) \<in> set (hist @ fence_events (Some s) t)" for p' t' j' m
      using that iss bound(1) by auto
    show "m \<le> st_last ?s" if "Fenced (st_epoch ?s) m \<in> set (hist @ fence_events (Some s) t)" for m
      using that ev [of m] bound(2) pend(1) by auto
  qed
qed

lemma fencing_inv:
  assumes "alloc_inv a" and "al_procs a i = Some p"
  shows "alloc_inv (a\<lparr>al_files := files,
    al_procs := (al_procs a)(i \<mapsto> p\<lparr>pr_session := fencing (pr_pid p) org peer t (pr_session p)\<rparr>),
    al_log := al_log a @ fence_events (pr_session p (pr_pid p, org, peer)) t\<rparr>)"
proof (cases "pr_session p (pr_pid p, org, peer)")
  case None
  then have "(al_procs a)(i \<mapsto> p\<lparr>pr_session := fencing (pr_pid p) org peer t (pr_session p)\<rparr>) = al_procs a"
    using assms(2) by (auto simp: fencing_def)
  then show ?thesis using assms(1) None by (simp add: alloc_inv_def fence_events_def)
next
  case (Some s)
  let ?s = "s\<lparr>st_pending := dict_del t (st_pending s)\<rparr>" and ?xs = "fence_events (Some s) t"
  have own: "owns_stream (al_procs a) i (org, peer) s" using assms(2) Some by (simp add: owns_stream_def)
  then have "st_epoch s \<in> al_epochs a \<and> stream_inv (al_log a) (snd (org, peer)) s"
    using assms(1) unfolding alloc_inv_def by blast
  then have s: "stream_inv (al_log a) peer s" "st_epoch s \<in> al_epochs a" by simp_all
  have xs: "?xs = [] \<or> (\<exists>n. ?xs = [Fenced (st_epoch s) n])"
    by (auto simp: fence_events_def split: option.splits)
  have "numbers_unique (al_log a @ ?xs) \<and> never_reused (al_log a @ ?xs)"
    using assms(1) xs by (elim disjE exE) (auto simp: alloc_inv_def numbers_unique_def never_reused_append)
  then have "alloc_inv (a\<lparr>al_files := files,
      al_procs := (al_procs a)(i \<mapsto> p\<lparr>pr_session := (pr_session p)((pr_pid p, org, peer) \<mapsto> ?s)\<rparr>),
      al_epochs := al_epochs a, al_log := al_log a @ ?xs\<rparr>)"
    using xs s own by (intro alloc_inv_change [OF assms fenced_stream_inv [OF s(1)], where ?s0.0 = s]) auto
  then show ?thesis by (simp add: Some fencing_def)
qed

lemma alloc_inv_procs:
  assumes "alloc_inv a" and "\<And>j k s. owns_stream procs j k s \<Longrightarrow> owns_stream (al_procs a) j k s"
  shows "alloc_inv (a\<lparr>al_procs := procs\<rparr>)"
proof -
  have "st_epoch s \<in> al_epochs a \<and> stream_inv (al_log a) (snd k) s \<and>
      (\<forall>j k' s'. owns_stream procs j k' s' \<longrightarrow> st_epoch s' = st_epoch s \<longrightarrow> i = j \<and> k = k')"
    if "owns_stream procs i k s" for i k s
  proof -
    note o = assms(2) [OF that]
    have "st_epoch s \<in> al_epochs a" "stream_inv (al_log a) (snd k) s"
      and u: "owns_stream (al_procs a) j k' s' \<Longrightarrow> st_epoch s' = st_epoch s \<Longrightarrow> i = j \<and> k = k'" for j k' s'
      using assms(1) o unfolding alloc_inv_def by blast+
    then show ?thesis using assms(2) by blast
  qed
  then show ?thesis using assms(1) by (simp add: alloc_inv_def)
qed

lemma stream_inv_again:
  assumes "stream_inv hist peer s" and "(t, job, n) \<in> set (st_pending s)"
  shows "stream_inv (hist @ [Issued peer t job n (st_epoch s)]) peer s"
proof -
  have pend: "m \<le> st_last s \<and> Fenced (st_epoch s) m \<notin> set hist"
      "(t'', j'', m) \<in> set (st_pending s) \<Longrightarrow> t'' = t'"
      "Issued p' t'' j'' m (st_epoch s) \<in> set hist \<Longrightarrow> p' = peer \<and> t'' = t' \<and> j'' = j'"
    if "(t', j', m) \<in> set (st_pending s)" for t' j' m t'' j'' p'
    using assms(1) that unfolding stream_inv_def by blast+
  have bound: "Issued p' t' j' m (st_epoch s) \<in> set hist \<Longrightarrow> m \<le> st_last s"
      "Fenced (st_epoch s) m \<in> set hist \<Longrightarrow> m \<le> st_last s" for p' t' j' m
    using assms(1) unfolding stream_inv_def by blast+
  have d: "distinct (map fst (st_pending s))" using assms(1) by (simp add: stream_inv_def)
  show ?thesis
  proof (rule stream_invI [OF d])
    show "p' = peer \<and> t'' = t' \<and> j'' = j'"
      if "(t', j', m) \<in> set (st_pending s)"
        "Issued p' t'' j'' m (st_epoch s) \<in> set (hist @ [Issued peer t job n (st_epoch s)])" for t' j' m p' t'' j''
    proof (cases "Issued p' t'' j'' m (st_epoch s) \<in> set hist")
      case True
      with pend(3) that(1) show ?thesis by blast
    next
      case False
      with that(2) have e: "p' = peer" "t'' = t" "j'' = job" "m = n" by simp_all
      with pend(2) that(1) assms(2) have "t' = t" by blast
      with e that(1) assms(2) d show ?thesis by (metis map_of_is_SomeI option.inject prod.inject)
    qed
  qed (use pend bound assms(2) in auto)
qed

lemma alloc_step_inv:
  assumes "alloc_step a a'" and "alloc_inv a"
  shows "alloc_inv a'"
  using assms
proof (cases rule: alloc_step.cases)
  case (replace_files files)
  then show ?thesis using assms(2) by (simp add: alloc_inv_def)
next
  case (start i pid)
  then show ?thesis
    unfolding start(1) by (intro alloc_inv_procs [OF assms(2)]) (auto simp: owns_stream_def split: if_splits)
next
  case (fork i p j pid)
  have "pr_session p (pid, k) = None" for k using fork(4) by force
  then show ?thesis
    unfolding fork(1) by (intro alloc_inv_procs [OF assms(2)]) (auto simp: owns_stream_def split: if_splits)
next
  case (exit i)
  then show ?thesis
    unfolding exit by (intro alloc_inv_procs [OF assms(2)]) (auto simp: owns_stream_def split: if_splits)
next
  case (reserving i p fresh writes org peer job t r files session)
  let ?xs = "case r of Inr (t', n, e) \<Rightarrow> [Issued peer t' job n e] | Inl _ \<Rightarrow> []"
  have u: "numbers_unique (al_log a)" "never_reused (al_log a)" using assms(2) by (simp_all add: alloc_inv_def)
  have step: "alloc_inv a'"
    if s: "session = (pr_session p)((pr_pid p, org, peer) \<mapsto> s)" and si: "stream_inv (al_log a @ ?xs) peer s"
      and l: "numbers_unique (al_log a @ ?xs)" "never_reused (al_log a @ ?xs)" "\<forall>x\<in>set ?xs. event_epoch x = st_epoch s"
      and e: "st_epoch s \<in> insert fresh (al_epochs a)"
        "st_epoch s \<notin> al_epochs a \<or> (\<exists>s0. owns_stream (al_procs a) i (org, peer) s0 \<and> st_epoch s0 = st_epoch s)"
    for s
  proof -
    obtain s0 where "st_epoch s \<notin> al_epochs a \<or> owns_stream (al_procs a) i (org, peer) s0 \<and> st_epoch s0 = st_epoch s"
      using e(2) by blast
    from alloc_inv_change [OF assms(2) reserving(2) si e(1) _ l this] show ?thesis
      by (auto simp: reserving(1) s)
  qed
  show ?thesis using reserving(4)
  proof (cases rule: reserve_cases)
    case (again d s t' n)
    note c = chosen_stream_inv [OF assms(2) reserving(2,3) again(1)]
    have pend: "Fenced (st_epoch s) n \<notin> set (al_log a)"
      "Issued p' t'' j'' n (st_epoch s) \<in> set (al_log a) \<Longrightarrow> p' = peer \<and> t'' = t' \<and> j'' = job" for p' t'' j''
      using c again(3) unfolding stream_inv_def by blast+
    have xs: "?xs = [Issued peer t' job n (st_epoch s)]" by (simp add: again(4))
    show ?thesis
      using c by (intro step [OF again(2)])
        (simp_all add: xs stream_inv_again again(3) numbers_unique_issued u pend never_reused_append)
  next
    case (new_number d s n s')
    note c = chosen_stream_inv [OF assms(2) reserving(2,3) new_number(1)]
    have xs: "?xs = [] \<or> ?xs = [Issued peer t job n (st_epoch s)]" using new_number(5) by auto
    have e: "st_epoch s' = st_epoch s" by (simp add: new_number(3))
    have new: "Issued p' t' j' n (st_epoch s) \<notin> set (al_log a)" "Fenced (st_epoch s) n \<notin> set (al_log a)" for p' t' j'
      using c new_number(2) unfolding stream_inv_def by fastforce+
    have si: "stream_inv (al_log a @ ?xs) peer s'"
      using c unfolding new_number(3) by (intro stream_inv_next [OF _ refl new_number(2) xs]) blast
    have l: "numbers_unique (al_log a @ ?xs) \<and> never_reused (al_log a @ ?xs) \<and>
        (\<forall>x\<in>set ?xs. event_epoch x = st_epoch s)"
      using xs
    proof
      assume "?xs = [Issued peer t job n (st_epoch s)]"
      moreover have "numbers_unique (al_log a @ [Issued peer t job n (st_epoch s)])"
        using new(1) by (intro numbers_unique_issued [OF u(1)]) blast
      ultimately show ?thesis using u new(2) by (simp add: never_reused_append)
    qed (simp add: u)
    show ?thesis
    proof (rule step [OF new_number(4) si], unfold e)
      show "numbers_unique (al_log a @ ?xs)" "never_reused (al_log a @ ?xs)"
        "\<forall>x\<in>set ?xs. event_epoch x = st_epoch s" using l by blast+
    qed (use c in blast)+
  qed
next
  case (fenced i p org peer t)
  then show ?thesis using fencing_inv [OF assms(2) fenced(2), where files = "al_files a"] by simp
next
  case (sealed i p writes org peer t r files session)
  have "session = fencing (pr_pid p) org peer t (pr_session p)"
    using sealed(3) by (auto simp: seal_reservation_def Let_def split: if_splits option.splits prod.splits)
  then show ?thesis using fencing_inv [OF assms(2) sealed(2)] sealed(1) by simp
qed

lemma alloc_reachable_inv: "alloc_reachable a \<Longrightarrow> alloc_inv a"
proof (induction rule: alloc_reachable.induct)
  case (initially files used)
  then show ?case
    by (simp add: fresh_allocator_def alloc_inv_def numbers_unique_def owns_stream_def)
qed (rule alloc_step_inv)

text \<open>
  C20. Sequence numbers identify transfers. Whatever calls any number of processes make, however
  the protocol files are lost, restored or copied in between, and whichever of their writes
  fail, a number of an epoch is only ever issued for one transfer of one job to one peer; and
  once a process has begun to fence with it, that number is not issued again.
\<close>

theorem transfer_numbers_unique:
  assumes "alloc_reachable a"
  shows "numbers_unique (al_log a) \<and> never_reused (al_log a)"
  using alloc_reachable_inv [OF assms] by (simp add: alloc_inv_def)

section \<open>Source and destination together\<close>

fun remember_all :: "(json \<Rightarrow> string) \<Rightarrow> obj list \<Rightarrow> ranges dict \<Rightarrow> ranges dict res" where
  "remember_all str_of [] streams = Inr streams"
| "remember_all str_of (m # ms) streams = bindr (remember str_of m streams) (remember_all str_of ms)"

text \<open>A manifest whose stream members are those of an issued transfer.\<close>

definition issued_manifest :: "allocator \<Rightarrow> obj \<Rightarrow> bool" where
  "issued_manifest a m \<longleftrightarrow>
     (\<exists>peer t j n e s. Issued peer t j n e \<in> set (al_log a) \<and>
        get m ''transfer_id'' = JStr t \<and> get m ''transfer_sequence'' = JInt n \<and>
        get m ''transfer_epoch'' = JStr e \<and> map_of m ''source_workspace_id'' = Some (JStr s) \<and>
        CHR ''/'' \<notin> set s)"

definition manifest_number :: "(json \<Rightarrow> string) \<Rightarrow> obj \<Rightarrow> (string \<times> int) option" where
  "manifest_number str_of m =
     (case (stream_key str_of m, sequence_of m) of (Inr k, Inr (Some n)) \<Rightarrow> Some (k, n) | _ \<Rightarrow> None)"

lemma stream_ranges_set [simp]:
  "stream_ranges (dict_set k rs streams) k' = (if k' = k then rs else stream_ranges streams k')"
  by (simp add: stream_ranges_def)

lemma remember_covered:
  assumes "remember str_of m streams = Inr streams'" and "\<And>k. canonical (stream_ranges streams k)"
  shows "canonical (stream_ranges streams' k) \<and>
    (n \<in> covered (stream_ranges streams' k) \<longleftrightarrow>
       n \<in> covered (stream_ranges streams k) \<or> manifest_number str_of m = Some (k, n))"
proof (cases "sequence_of m")
  case (Inr x)
  show ?thesis
  proof (cases x)
    case None
    with Inr assms show ?thesis by (simp add: remember_def manifest_number_def split: sum.splits)
  next
    case (Some i)
    obtain k' where k': "stream_key str_of m = Inr k'"
      "streams' = dict_set k' (remember_sequence i (stream_ranges streams k')) streams"
      using assms(1) Inr Some by (auto simp: remember_def res_simps)
    with Inr Some assms(2) remember_sequence_canonical [OF assms(2), of i k'] show ?thesis
      by (auto simp: manifest_number_def)
  qed
qed (use assms in \<open>simp add: remember_def\<close>)

lemma remember_all_covered:
  assumes "remember_all str_of ms streams = Inr streams'" and "\<And>k. canonical (stream_ranges streams k)"
  shows "canonical (stream_ranges streams' k) \<and>
    (n \<in> covered (stream_ranges streams' k) \<longleftrightarrow>
       n \<in> covered (stream_ranges streams k) \<or> Some (k, n) \<in> manifest_number str_of ` set ms)"
  using assms
proof (induction ms arbitrary: streams)
  case (Cons m ms)
  obtain s1 where m: "remember str_of m streams = Inr s1" "remember_all str_of ms s1 = Inr streams'"
    using Cons.prems(1) by (auto simp: res_simps)
  note r = remember_covered [OF m(1) Cons.prems(2)]
  show ?case using Cons.IH [OF m(2)] r by (auto simp: image_iff)
qed simp

lemma received_iff:
  assumes "received str_of m streams = Inr b" and "manifest_number str_of m = Some (k, n)"
  shows "b \<longleftrightarrow> n \<in> covered (stream_ranges streams k)"
  using assms by (auto simp: received_def manifest_number_def res_simps in_ranges_covered split: sum.splits option.splits)

lemma manifest_number_same:
  assumes "issued_manifest a m" and "issued_manifest a m'" and "alloc_reachable a"
    and "manifest_number str_of m = manifest_number str_of m'" and "manifest_number str_of m \<noteq> None"
  shows "get m ''transfer_id'' = get m' ''transfer_id''"
proof -
  obtain p t j n e s where m: "Issued p t j n e \<in> set (al_log a)"
    "get m ''transfer_id'' = JStr t" "get m ''transfer_sequence'' = JInt n" "get m ''transfer_epoch'' = JStr e"
    "map_of m ''source_workspace_id'' = Some (JStr s)" "CHR ''/'' \<notin> set s"
    using assms(1) unfolding issued_manifest_def by blast
  obtain p' t' j' n' e' s' where m': "Issued p' t' j' n' e' \<in> set (al_log a)"
    "get m' ''transfer_id'' = JStr t'" "get m' ''transfer_sequence'' = JInt n'" "get m' ''transfer_epoch'' = JStr e'"
    "map_of m' ''source_workspace_id'' = Some (JStr s')" "CHR ''/'' \<notin> set s'"
    using assms(2) unfolding issued_manifest_def by blast
  have "s @ ''/'' @ e = s' @ ''/'' @ e' \<and> n = n'"
    using assms(4,5) m m'
    by (auto simp: manifest_number_def stream_key_def sequence_of_def epoch_of_def res_simps canonical_uuid_Inr
        split: sum.splits option.splits if_splits)
  then have eq: "s @ CHR ''/'' # e = s' @ CHR ''/'' # e'" "n = n'" by simp_all
  have "s # split_on (CHR ''/'') e = s' # split_on (CHR ''/'') e'"
    using split_on_append [OF m(6), of e] split_on_append [OF m'(6), of e'] unfolding eq(1) by (rule trans [OF sym])
  with eq have "e = e'" "n = n'" by simp_all
  then show ?thesis
    using m m' alloc_reachable_inv [OF assms(3)] unfolding alloc_inv_def numbers_unique_def by auto
qed

text \<open>
  C21. A destination acknowledges what it imported and nothing else. After it has remembered any
  transfers, in any order, each of them is reported as received; a manifest of an issued number
  is reported as received only if the very transfer it names was imported; and the stored
  ranges are the shortest description of the numbers imported from that stream.
\<close>

theorem receipts_exact:
  assumes "alloc_reachable a" and "list_all (issued_manifest a) ms" and "issued_manifest a m"
    and "remember_all str_of ms [] = Inr streams" and "received str_of m streams = Inr b"
    and "manifest_number str_of m = Some (k, n)"
  shows "(b \<longrightarrow> (\<exists>m'\<in>set ms. get m' ''transfer_id'' = get m ''transfer_id'')) \<and> (m \<in> set ms \<longrightarrow> b) \<and>
    canonical (stream_ranges streams k) \<and>
    (\<forall>rs. canonical rs \<longrightarrow> covered rs = {i. Some (k, i) \<in> manifest_number str_of ` set ms} \<longrightarrow>
       stream_ranges streams k = rs)"
proof -
  have c: "canonical (stream_ranges streams k)"
    "i \<in> covered (stream_ranges streams k) \<longleftrightarrow> Some (k, i) \<in> manifest_number str_of ` set ms" for i
    using remember_all_covered [OF assms(4)] by (simp_all add: stream_ranges_def)
  have b: "b \<longleftrightarrow> Some (k, n) \<in> manifest_number str_of ` set ms"
    using received_iff [OF assms(5,6)] c(2) by simp
  have "\<exists>m'\<in>set ms. get m' ''transfer_id'' = get m ''transfer_id''" if b
  proof -
    from \<open>b\<close> b obtain m' where "m' \<in> set ms" "manifest_number str_of m' = manifest_number str_of m"
      using assms(6) by (metis imageE)
    with manifest_number_same [OF _ assms(3,1)] assms(2,6) show ?thesis
      unfolding list_all_iff by (metis option.distinct(1))
  qed
  moreover have "m \<in> set ms \<longrightarrow> b" using b assms(6) by (metis imageI)
  moreover have "stream_ranges streams k = rs"
    if "canonical rs" "covered rs = {i. Some (k, i) \<in> manifest_number str_of ` set ms}" for rs
    using canonical_unique [OF c(1) that(1)] c(2) that(2) by blast
  ultimately show ?thesis using c(1) by blast
qed

section \<open>A concrete allocator\<close>

text \<open>One process reserves numbers for two jobs.\<close>

definition example_origin :: origin where
  "example_origin = (''node1'', ''/work'', 1, 2)"

definition no_files :: protocol_files where
  "no_files = \<lparr>pf_issued = [], pf_checkpoint = None\<rparr>"

definition example_log :: "event list" where
  "example_log =
     [Issued ''peer'' ''t1'' ''job1'' 1 example_id, Issued ''peer'' ''t2'' ''job2'' 2 example_id,
      Fenced example_id 1, Issued ''peer'' ''t2'' ''job2'' 2 example_id]"

definition example_manifest :: "string \<Rightarrow> int \<Rightarrow> obj" where
  "example_manifest t n =
     [(''transfer_id'', JStr t), (''transfer_sequence'', JInt n), (''transfer_epoch'', JStr example_id),
      (''source_workspace_id'', JStr ''source'')]"

lemma reserving_state:
  assumes "procs i = Some \<lparr>pr_pid = pid, pr_session = m\<rparr>" and "fresh \<notin> E"
    and "reserve_sequence fresh writes pid org peer job t files m = (Inr (t', n, e), files', m')"
  shows "alloc_step \<lparr>al_files = files, al_procs = procs, al_epochs = E, al_log = L\<rparr>
    \<lparr>al_files = files', al_procs = procs(i \<mapsto> \<lparr>pr_pid = pid, pr_session = m'\<rparr>), al_epochs = insert fresh E,
     al_log = L @ [Issued peer t' job n e]\<rparr>"
  using alloc_step.reserving [of "\<lparr>al_files = files, al_procs = procs, al_epochs = E, al_log = L\<rparr>" i
      "\<lparr>pr_pid = pid, pr_session = m\<rparr>" fresh writes org peer job t "Inr (t', n, e)" files' m'] assms
  by simp

lemma example_allocator: "\<exists>a. alloc_reachable a \<and> al_log a = example_log"
proof -
  let ?k = "(7, example_origin, ''peer'')"
  let ?s1 = "\<lparr>st_epoch = example_id, st_last = 1, st_pending = [(''t1'', ''job1'', 1)]\<rparr>"
  let ?s2 = "\<lparr>st_epoch = example_id, st_last = 2, st_pending = [(''t1'', ''job1'', 1), (''t2'', ''job2'', 2)]\<rparr>"
  let ?s3 = "\<lparr>st_epoch = example_id, st_last = 2, st_pending = [(''t2'', ''job2'', 2)]\<rparr>"
  let ?f = "\<lambda>s. \<lparr>pf_issued = [(''peer'', s)], pf_checkpoint = Some (example_origin, [(''peer'', s)])\<rparr>"
  let ?p = "\<lambda>m. [0 \<mapsto> \<lparr>pr_pid = 7, pr_session = m\<rparr>]"
  have r1: "reserve_sequence example_id 2 7 example_origin ''peer'' ''job1'' ''t1'' no_files Map.empty
      = (Inr (''t1'', 1, example_id), ?f ?s1, [?k \<mapsto> ?s1])"
    by (simp add: reserve_sequence_def Let_def choose_stream_def publish_issued_def certified_def no_files_def)
  have r2: "reserve_sequence ''e2'' 2 7 example_origin ''peer'' ''job2'' ''t2'' (?f ?s1) [?k \<mapsto> ?s1]
      = (Inr (''t2'', 2, example_id), ?f ?s2, [?k \<mapsto> ?s2])"
    by (simp add: reserve_sequence_def Let_def choose_stream_def publish_issued_def certified_def same_dict_def same_stream_def)
  have r3: "reserve_sequence ''e3'' 2 7 example_origin ''peer'' ''job2'' ''t9'' (?f ?s3) [?k \<mapsto> ?s3]
      = (Inr (''t2'', 2, example_id), ?f ?s3, [?k \<mapsto> ?s3])"
    by (simp add: reserve_sequence_def Let_def choose_stream_def certified_def same_dict_def same_stream_def)
  have f: "fencing 7 example_origin ''peer'' ''t1'' [?k \<mapsto> ?s2] = [?k \<mapsto> ?s3]"
    by (simp add: fencing_def dict_del_def)
  have x: "example_id \<noteq> ''e2''" "example_id \<noteq> ''e3''" by code_simp+
  let ?a0 = "fresh_allocator no_files {}"
  have 0: "alloc_reachable \<lparr>al_files = no_files, al_procs = ?p Map.empty, al_epochs = {}, al_log = []\<rparr>"
    using alloc_reachable.step [OF alloc_reachable.initially [of no_files "{}"] alloc_step.start [of _ 0 7]]
    by (simp add: fresh_allocator_def)
  have 1: "alloc_reachable \<lparr>al_files = ?f ?s1, al_procs = ?p [?k \<mapsto> ?s1], al_epochs = {example_id}, al_log = take 1 example_log\<rparr>"
    using alloc_reachable.step [OF 0 reserving_state [where i = 0, OF _ _ r1]]
    by (simp add: example_log_def)
  have 2: "alloc_reachable \<lparr>al_files = ?f ?s2, al_procs = ?p [?k \<mapsto> ?s2], al_epochs = {''e2'', example_id}, al_log = take 2 example_log\<rparr>"
    using alloc_reachable.step [OF 1 reserving_state [where i = 0, OF _ _ r2]] x
    by (simp add: example_log_def)
  have 3: "alloc_reachable \<lparr>al_files = ?f ?s2, al_procs = ?p [?k \<mapsto> ?s3], al_epochs = {''e2'', example_id}, al_log = take 3 example_log\<rparr>"
    using alloc_reachable.step [OF 2 alloc_step.fenced [where i = 0 and org = example_origin and peer = "''peer''" and t = "''t1''"]] f
    by (simp add: example_log_def fence_events_def)
  have 4: "alloc_reachable \<lparr>al_files = ?f ?s3, al_procs = ?p [?k \<mapsto> ?s3], al_epochs = {''e2'', example_id}, al_log = take 3 example_log\<rparr>"
    using alloc_reachable.step [OF 3 alloc_step.replace_files [where files = "?f ?s3"]] by simp
  have "alloc_reachable \<lparr>al_files = ?f ?s3, al_procs = ?p [?k \<mapsto> ?s3], al_epochs = {''e3'', ''e2'', example_id}, al_log = example_log\<rparr>"
    using alloc_reachable.step [OF 4 reserving_state [where i = 0, OF _ _ r3]] x
    by (simp add: example_log_def)
  then show ?thesis by (metis allocator.select_convs(4))
qed

theorem transfer_numbers_unique_witness: "numbers_unique example_log \<and> never_reused example_log"
  using example_allocator transfer_numbers_unique by metis

lemma example_issued:
  assumes "al_log a = example_log"
  shows "list_all (issued_manifest a) [example_manifest ''t2'' 2, example_manifest ''t1'' 1]"
proof -
  have "issued_manifest a (example_manifest t n)" if "Issued ''peer'' t j n example_id \<in> set (al_log a)" for t j n
    using that unfolding issued_manifest_def
    by (intro exI [of _ "''peer''"] exI [of _ t] exI [of _ j] exI [of _ n] exI [of _ example_id] exI [of _ "''source''"])
      (simp add: example_manifest_def)
  then show ?thesis using assms by (simp add: example_log_def)
qed

lemma example_stream_key: "stream_key f (example_manifest t n) = Inr (''source/'' @ example_id)"
proof -
  have "uuid_pattern example_id" by code_simp
  then have "canonical_uuid (JStr example_id) = Inr example_id" by (simp add: canonical_uuid_Inr)
  then show ?thesis by (simp add: stream_key_def epoch_of_def example_manifest_def)
qed

theorem receipts_exact_witness:
  "\<exists>streams. remember_all (\<lambda>_. []) [example_manifest ''t2'' 2, example_manifest ''t1'' 1] [] = Inr streams \<and>
    received (\<lambda>_. []) (example_manifest ''t1'' 1) streams = Inr True \<and>
    stream_ranges streams (''source/'' @ example_id) = [(1, 2)]"
proof -
  let ?m1 = "example_manifest ''t1'' 1" and ?m2 = "example_manifest ''t2'' 2" and ?k = "''source/'' @ example_id"
  obtain a where a: "alloc_reachable a" "al_log a = example_log" using example_allocator by blast
  have r: "remember_all (\<lambda>_. []) [?m2, ?m1] [] = Inr [(?k, [(1, 2)])]"
    "received (\<lambda>_. []) ?m1 [(?k, [(1, 2)])] = Inr True"
    "manifest_number (\<lambda>_. []) ?m1 = Some (?k, 1)"
    using example_stream_key
    by (simp_all add: remember_def received_def manifest_number_def sequence_of_def stream_ranges_def
        remember_sequence_def in_ranges_def example_manifest_def)
  have "list_all (issued_manifest a) [?m2, ?m1]" "issued_manifest a ?m1"
    using example_issued [OF a(2)] by simp_all
  from receipts_exact [OF a(1) this r] have "canonical (stream_ranges [(?k, [(1, 2)])] ?k)" by blast
  with r(1,2) show ?thesis by (auto simp: stream_ranges_def)
qed

end
