(* ===== verification/Removal.thy ===== *)
theory Removal
  imports Manager_Joins Manager_Commit Manager_Examples
begin

text \<open>
  Removing jobs on request (\<open>src/src/httk/workflow/removal.py\<close>): a preflight that refuses the
  whole batch, then per job the marker first and the payload second. The payload directory of a
  job may contain those of other jobs, because nothing keeps a placement out of a payload.
\<close>

definition REMOVABLE_KINDS :: "kind list" where
  "REMOVABLE_KINDS = TERMINAL_KINDS @ [Submitted, Ready]"

section \<open>Parents that join a job\<close>

text \<open>Child identifier to the keys of the parents that name it, a set in any order.\<close>

type_synonym parents = "string list dict"

definition parents_of :: "parents \<Rightarrow> string \<Rightarrow> string list" where
  "parents_of ps i = (case map_of ps i of None \<Rightarrow> [] | Some ks \<Rightarrow> ks)"

fun note_children :: "string \<Rightarrow> json list \<Rightarrow> parents \<Rightarrow> parents res" where
  "note_children key [] ps = Inr ps"
| "note_children key (v # vs) ps =
     (case v of
        JObj child \<Rightarrow>
          (case get child ''job_id'' of
             JStr i \<Rightarrow> note_children key vs (dict_set i (List.insert key (parents_of ps i)) ps)
           | _ \<Rightarrow> Inl FormatError)
      | _ \<Rightarrow> Inl FormatError)"

definition note_parent :: "workspace \<Rightarrow> marker \<Rightarrow> parents \<Rightarrow> parents res" where
  "note_parent ws m ps =
     bindr (read_state ws m) (\<lambda>state.
       case get state ''join'' of
         JNull \<Rightarrow> Inr ps
       | JObj join \<Rightarrow> bindr (join_children join) (\<lambda>vs. note_children (job_key m) vs ps)
       | _ \<Rightarrow> Inl FormatError)"

text \<open>
  \<open>join_child_parents\<close>: \<open>None\<close> when the state of some marker cannot be read; an exception that is
  not caught is an error.
\<close>

definition caught_reading :: "error \<Rightarrow> bool" where
  "caught_reading e \<longleftrightarrow> caught e \<or> e = TypeError \<or> e = ValueError"

fun collect_parents :: "workspace \<Rightarrow> marker list \<Rightarrow> parents \<Rightarrow> parents option res" where
  "collect_parents ws [] ps = Inr (Some ps)"
| "collect_parents ws (m # ms) ps =
     (case note_parent ws m ps of
        Inr ps' \<Rightarrow> collect_parents ws ms ps'
      | Inl e \<Rightarrow> if caught_reading e then Inr None else Inl e)"

definition NON_TERMINAL_KINDS :: "kind list" where
  "NON_TERMINAL_KINDS = filter (\<lambda>k. k \<notin> set TERMINAL_KINDS) STATE_KINDS"

definition join_child_parents :: "workspace \<Rightarrow> marker list option \<Rightarrow> parents option res" where
  "join_child_parents ws markers =
     collect_parents ws
       (case markers of None \<Rightarrow> scan_markers (ws_tree ws) NON_TERMINAL_KINDS | Some ms \<Rightarrow> ms) []"

section \<open>Safety of a payload\<close>

text \<open>What \<open>lstat\<close> says of a path below the root: nothing there, a directory, or anything else.\<close>

datatype node_kind = Absent | Real_Directory | Other_Entry

definition real_directory :: "bool \<Rightarrow> node_kind \<Rightarrow> bool" where
  "real_directory missing_ok n = (case n of Absent \<Rightarrow> missing_ok | Real_Directory \<Rightarrow> True | Other_Entry \<Rightarrow> False)"

definition payload_safe :: "(string list \<Rightarrow> node_kind) \<Rightarrow> marker \<Rightarrow> bool" where
  "payload_safe nodes m \<longleftrightarrow>
     real_directory False (nodes []) \<and>
     list_all (\<lambda>n. real_directory True (nodes (take n (placement m)))) [1..<length (placement m) + 1] \<and>
     real_directory True (nodes (payload_path (placement m) (job_key m))) \<and>
     list_all (\<lambda>name. nodes (payload_path (placement m) (job_key m) @ [name]) \<noteq> Other_Entry)
       [''attempts'', ''logs'']"

text \<open>\<open>rmtree\<close> of a payload takes everything below it.\<close>

definition remove_payload :: "(string list \<Rightarrow> node_kind) \<Rightarrow> string list \<Rightarrow> workspace \<Rightarrow> workspace" where
  "remove_payload nodes p ws =
     (if nodes p \<noteq> Real_Directory then ws
      else ws\<lparr>ws_documents := (\<lambda>q. if starts_with p q then None else ws_documents ws q)\<rparr>)"

section \<open>Removing\<close>

datatype refusal =
    Not_Removable | Batch_Refused | Is_Sealed | Parents_Unreadable | Join_Child "string list"
  | Unsafe_Payload | State_Changed

record removal_outcome =
  ro_job_key :: string
  ro_kind :: kind
  ro_reason :: "refusal option"

definition ro_removed :: "removal_outcome \<Rightarrow> bool" where
  "ro_removed r \<longleftrightarrow> ro_reason r = None"

definition outcome_of :: "marker \<Rightarrow> refusal option \<Rightarrow> removal_outcome" where
  "outcome_of m reason = \<lparr>ro_job_key = job_key m, ro_kind = kind m, ro_reason = reason\<rparr>"

text \<open>
  \<open>_remove_one\<close>. \<open>before\<close> and \<open>after\<close> are what the directories are before and after the marker
  was unlinked.
\<close>

definition remove_one ::
  "(string list \<Rightarrow> node_kind) \<Rightarrow> (string list \<Rightarrow> node_kind) \<Rightarrow> marker \<Rightarrow> workspace \<Rightarrow>
     removal_outcome \<times> workspace" where
  "remove_one before after m ws =
     (if \<not> payload_safe before m then (outcome_of m (Some Unsafe_Payload), ws)
      else if path m \<notin> set (ws_tree ws) then (outcome_of m (Some State_Changed), ws)
      else let ws1 = ws\<lparr>ws_tree := filter (\<lambda>p. p \<noteq> path m) (ws_tree ws)\<rparr>
           in if \<not> payload_safe after m then (outcome_of m (Some Unsafe_Payload), ws1)
              else (outcome_of m None, remove_payload after (payload_path (placement m) (job_key m)) ws1))"

text \<open>
  What the removal of one job of the batch observes, and what others did to the workspace
  before its turn.
\<close>

record removal_turn =
  rt_before :: "string list \<Rightarrow> node_kind"
  rt_after :: "string list \<Rightarrow> node_kind"
  rt_others :: "workspace \<Rightarrow> workspace"

fun remove_each ::
  "(marker \<Rightarrow> removal_turn) \<Rightarrow> marker list \<Rightarrow> workspace \<Rightarrow> removal_outcome list \<times> workspace" where
  "remove_each turn [] ws = ([], ws)"
| "remove_each turn (m # ms) ws =
     (case remove_one (rt_before (turn m)) (rt_after (turn m)) m (rt_others (turn m) ws) of
        (r, ws') \<Rightarrow> (case remove_each turn ms ws' of (rs, ws'') \<Rightarrow> (r # rs, ws'')))"

text \<open>One refusal for the whole batch: its own reason for each job it concerns.\<close>

definition refuse_batch :: "(marker \<Rightarrow> refusal option) \<Rightarrow> marker list \<Rightarrow> removal_outcome list" where
  "refuse_batch reason ms =
     map (\<lambda>m. outcome_of m (Some (case reason m of None \<Rightarrow> Batch_Refused | Some r \<Rightarrow> r))) ms"

definition remove_jobs ::
  "bool \<Rightarrow> (string list \<Rightarrow> node_kind) \<Rightarrow> (marker \<Rightarrow> removal_turn) \<Rightarrow> marker list \<Rightarrow> workspace \<Rightarrow>
     removal_outcome list res \<times> workspace" where
  "remove_jobs force nodes turn ms ws =
     (if list_ex (\<lambda>m. kind m \<notin> set REMOVABLE_KINDS) ms then
        (Inr (refuse_batch (\<lambda>m. if kind m \<notin> set REMOVABLE_KINDS then Some Not_Removable else None) ms), ws)
      else if ws_sealed ws then (Inr (refuse_batch (\<lambda>m. Some Is_Sealed) ms), ws)
      else if list_ex (\<lambda>m. job_key m \<in> set (ws_sealed_jobs ws)) ms then
        (Inr (refuse_batch (\<lambda>m. if job_key m \<in> set (ws_sealed_jobs ws) then Some Is_Sealed else None) ms), ws)
      else
        case (if force then Inr (Some []) else join_child_parents ws None) of
          Inl e \<Rightarrow> (Inl e, ws)
        | Inr None \<Rightarrow> (Inr (refuse_batch (\<lambda>m. Some Parents_Unreadable) ms), ws)
        | Inr (Some ps) \<Rightarrow>
            if list_ex (\<lambda>m. parents_of ps (job_id m) \<noteq> []) ms then
              (Inr (refuse_batch (\<lambda>m. if parents_of ps (job_id m) \<noteq> []
                 then Some (Join_Child (parents_of ps (job_id m))) else None) ms), ws)
            else if list_ex (\<lambda>m. \<not> payload_safe nodes m) ms then
              (Inr (refuse_batch (\<lambda>m. if payload_safe nodes m then None else Some Unsafe_Payload) ms), ws)
            else case remove_each turn ms ws of (rs, ws') \<Rightarrow> (Inr rs, ws'))"

section \<open>What a removal leaves\<close>

lemma parents_of_set [simp]: "parents_of (dict_set j ks ps) i = (if i = j then ks else parents_of ps i)"
  by (simp add: parents_of_def)

lemma insert_not_empty [simp]: "List.insert x xs \<noteq> []"
  by (auto simp: List.insert_def)

lemma note_children_Cons:
  assumes "note_children key (v # vs) ps = Inr ps'"
  obtains child j where "v = JObj child" "get child ''job_id'' = JStr j"
    "note_children key vs (dict_set j (List.insert key (parents_of ps j)) ps) = Inr ps'"
  using assms by (auto split: json.splits)

lemma note_children_keeps:
  "note_children key vs ps = Inr ps' \<Longrightarrow> parents_of ps i \<noteq> [] \<Longrightarrow> parents_of ps' i \<noteq> []"
proof (induction vs arbitrary: ps)
  case (Cons v vs)
  show ?case by (rule note_children_Cons [OF Cons.prems(1)]) (use Cons in \<open>auto\<close>)
qed simp

lemma note_children_adds:
  "note_children key vs ps = Inr ps' \<Longrightarrow> JObj child \<in> set vs \<Longrightarrow> get child ''job_id'' = JStr i \<Longrightarrow>
    parents_of ps' i \<noteq> []"
proof (induction vs arbitrary: ps)
  case (Cons v vs)
  obtain c j where v: "v = JObj c" "get c ''job_id'' = JStr j"
    and n: "note_children key vs (dict_set j (List.insert key (parents_of ps j)) ps) = Inr ps'"
    by (rule note_children_Cons [OF Cons.prems(1)])
  show ?case
  proof (cases "JObj child \<in> set vs")
    case True
    with Cons.IH [OF n] Cons.prems(3) show ?thesis by blast
  next
    case False
    with Cons.prems(2,3) v have "j = i" by auto
    then show ?thesis by (intro note_children_keeps [OF n]) simp
  qed
qed simp

lemma note_parent_cases:
  assumes "note_parent ws m ps = Inr ps'"
  obtains (none) state where "read_state ws m = Inr state" "get state ''join'' = JNull" "ps' = ps"
  | (join) state join vs where "read_state ws m = Inr state" "get state ''join'' = JObj join"
      "get join ''children'' = JArr vs" "note_children (job_key m) vs ps = Inr ps'"
proof -
  obtain state where st: "read_state ws m = Inr state"
    and r: "(case get state ''join'' of JNull \<Rightarrow> Inr ps
      | JObj join \<Rightarrow> bindr (join_children join) (\<lambda>vs. note_children (job_key m) vs ps) | _ \<Rightarrow> Inl FormatError) = Inr ps'"
    using assms by (auto simp: note_parent_def res_simps)
  show thesis
  proof (cases "get state ''join''")
    case JNull
    with st r show ?thesis by (intro none) simp_all
  next
    case (JObj j)
    with r obtain vs where "join_children j = Inr vs" "note_children (job_key m) vs ps = Inr ps'"
      by (auto simp: res_simps)
    then show ?thesis using st JObj by (intro join) (auto simp: join_children_def split: json.splits list.splits)
  qed (use r in simp_all)
qed

lemma note_parent_keeps:
  assumes "note_parent ws m ps = Inr ps'" and "parents_of ps i \<noteq> []"
  shows "parents_of ps' i \<noteq> []"
  using assms(1) by (cases rule: note_parent_cases) (use assms(2) note_children_keeps in auto)

lemma collect_parents_keeps:
  "collect_parents ws ms ps = Inr (Some ps') \<Longrightarrow> parents_of ps i \<noteq> [] \<Longrightarrow> parents_of ps' i \<noteq> []"
proof (induction ms arbitrary: ps)
  case (Cons m ms)
  then show ?case using note_parent_keeps [of ws m ps] by (auto split: sum.splits if_splits)
qed simp

text \<open>The frame of \<open>m\<close> waits for the job \<open>i\<close>.\<close>

definition joins :: "workspace \<Rightarrow> string \<Rightarrow> marker \<Rightarrow> bool" where
  "joins ws i m \<longleftrightarrow>
     (case read_state ws m of
        Inl _ \<Rightarrow> False
      | Inr state \<Rightarrow>
          (case get state ''join'' of
             JObj join \<Rightarrow>
               (case get join ''children'' of
                  JArr vs \<Rightarrow> list_ex (\<lambda>v. case v of JObj child \<Rightarrow> eq_str (get child ''job_id'') i | _ \<Rightarrow> False) vs
                | _ \<Rightarrow> False)
           | _ \<Rightarrow> False))"

lemma note_parent_adds:
  assumes "note_parent ws m ps = Inr ps'" and "joins ws i m"
  shows "parents_of ps' i \<noteq> []"
  using assms(1)
proof (cases rule: note_parent_cases)
  case (join state join vs)
  with assms(2) have "list_ex (\<lambda>v. case v of JObj child \<Rightarrow> eq_str (get child ''job_id'') i | _ \<Rightarrow> False) vs"
    by (simp add: joins_def)
  then obtain v where v: "v \<in> set vs" "case v of JObj child \<Rightarrow> eq_str (get child ''job_id'') i | _ \<Rightarrow> False"
    unfolding list_ex_iff by blast
  have "\<exists>child. v = JObj child \<and> eq_str (get child ''job_id'') i" using v(2) by (cases v) simp_all
  with v(1) obtain child where "JObj child \<in> set vs" "eq_str (get child ''job_id'') i" by blast
  moreover from this have "get child ''job_id'' = JStr i" by (cases "get child ''job_id''") simp_all
  ultimately show ?thesis using note_children_adds [OF join(4)] by blast
qed (use assms(2) in \<open>simp add: joins_def\<close>)

lemma collect_parents_adds:
  "collect_parents ws ms ps = Inr (Some ps') \<Longrightarrow> m \<in> set ms \<Longrightarrow> joins ws i m \<Longrightarrow> parents_of ps' i \<noteq> []"
proof (induction ms arbitrary: ps)
  case (Cons n ms)
  obtain ps1 where n: "note_parent ws n ps = Inr ps1" "collect_parents ws ms ps1 = Inr (Some ps')"
    using Cons.prems(1) by (auto split: sum.splits if_splits)
  show ?case
  proof (cases "m = n")
    case True
    with note_parent_adds [of ws n ps ps1 i] n collect_parents_keeps [OF n(2)] Cons.prems(3) show ?thesis by blast
  next
    case False
    with Cons n show ?thesis by simp
  qed
qed simp

text \<open>What removing one job leaves alone.\<close>

definition removed_only :: "marker list \<Rightarrow> workspace \<Rightarrow> workspace \<Rightarrow> bool" where
  "removed_only ms ws ws' \<longleftrightarrow>
     set (ws_tree ws') \<subseteq> set (ws_tree ws) \<and> set (ws_tree ws) - set (ws_tree ws') \<subseteq> path ` set ms \<and>
     (\<forall>q. ws_documents ws' q \<noteq> ws_documents ws q \<longrightarrow> ws_documents ws' q = None \<and>
        (\<exists>m\<in>set ms. path m \<in> set (ws_tree ws) \<and> path m \<notin> set (ws_tree ws') \<and>
           starts_with (payload_path (placement m) (job_key m)) q)) \<and>
     ws_journal ws' = ws_journal ws \<and> ws_id ws' = ws_id ws"

lemma remove_one_only:
  assumes "remove_one before after m ws = (r, ws')"
  shows "removed_only [m] ws ws'"
  using assms by (auto simp: remove_one_def remove_payload_def removed_only_def Let_def split: if_splits)

lemma removed_only_trans:
  assumes "removed_only ms ws ws1" and "removed_only ns ws1 ws2"
  shows "removed_only (ms @ ns) ws ws2"
proof -
  have t: "set (ws_tree ws2) \<subseteq> set (ws_tree ws1)" "set (ws_tree ws1) \<subseteq> set (ws_tree ws)"
    "set (ws_tree ws) - set (ws_tree ws1) \<subseteq> path ` set ms" "set (ws_tree ws1) - set (ws_tree ws2) \<subseteq> path ` set ns"
    using assms by (simp_all add: removed_only_def)
  have d: "ws_documents ws1 q \<noteq> ws_documents ws q \<Longrightarrow> ws_documents ws1 q = None \<and>
      (\<exists>m\<in>set ms. path m \<in> set (ws_tree ws) \<and> path m \<notin> set (ws_tree ws1) \<and>
         starts_with (payload_path (placement m) (job_key m)) q)"
    "ws_documents ws2 q \<noteq> ws_documents ws1 q \<Longrightarrow> ws_documents ws2 q = None \<and>
      (\<exists>m\<in>set ns. path m \<in> set (ws_tree ws1) \<and> path m \<notin> set (ws_tree ws2) \<and>
         starts_with (payload_path (placement m) (job_key m)) q)" for q
    using assms unfolding removed_only_def by blast+
  have "ws_documents ws2 q = None \<and>
      (\<exists>m\<in>set (ms @ ns). path m \<in> set (ws_tree ws) \<and> path m \<notin> set (ws_tree ws2) \<and>
         starts_with (payload_path (placement m) (job_key m)) q)"
    if q: "ws_documents ws2 q \<noteq> ws_documents ws q" for q
  proof (cases "ws_documents ws2 q = ws_documents ws1 q")
    case True
    with q d(1) [of q] t(1) show ?thesis by auto
  next
    case False
    with d(2) [of q] t(2) show ?thesis by auto
  qed
  moreover have "set (ws_tree ws) - set (ws_tree ws2) \<subseteq> path ` set (ms @ ns)"
    using t(3,4) by auto
  ultimately show ?thesis using assms t(1,2) by (auto simp: removed_only_def)
qed

lemma remove_each_only:
  "list_all (\<lambda>m. rt_others (turn m) = id) ms \<Longrightarrow> remove_each turn ms ws = (rs, ws') \<Longrightarrow>
     removed_only ms ws ws' \<and> length rs = length ms"
proof (induction ms arbitrary: ws rs)
  case (Cons m ms)
  obtain r ws1 rs1 where one: "remove_one (rt_before (turn m)) (rt_after (turn m)) m ws = (r, ws1)"
    and rest: "remove_each turn ms ws1 = (rs1, ws')" "rs = r # rs1"
    using Cons.prems by (auto split: prod.splits)
  show ?case
    using removed_only_trans [OF remove_one_only [OF one], of ms ws'] Cons.IH [OF _ rest(1)] Cons.prems(1) rest(2) by simp
qed (simp add: removed_only_def)

lemma refuse_batch_refuses: "length (refuse_batch reason ms) = length ms \<and> list_all (\<lambda>r. \<not> ro_removed r) (refuse_batch reason ms)"
  by (auto simp: refuse_batch_def list_all_iff ro_removed_def outcome_of_def)


text \<open>Nothing protects a job whose placement runs through the payload that is removed.\<close>

theorem removal_takes_nested_jobs:
  assumes "payload_safe before m" and "payload_safe after m" and "path m \<in> set (ws_tree ws)"
    and "after (payload_path (placement m) (job_key m)) = Real_Directory"
    and "placement other = payload_path (placement m) (job_key m) @ rest" and "path other \<noteq> path m"
    and "path other \<in> set (ws_tree ws)" and "remove_one before after m ws = (r, ws')"
  shows "path other \<in> set (ws_tree ws') \<and> load_job ws' other = Inl FormatError"
proof -
  have "starts_with (payload_path (placement m) (job_key m)) (payload_path (placement other) (job_key other))"
    unfolding assms(5) by (simp add: payload_path_def starts_with_def)
  then have "ws_documents ws' (payload_path (placement other) (job_key other)) = None"
    using assms by (auto simp: remove_one_def remove_payload_def Let_def)
  moreover have "path other \<in> set (ws_tree ws')"
    using assms by (auto simp: remove_one_def remove_payload_def Let_def)
  ultimately show ?thesis by (simp add: load_job_def job_from_path_def)
qed

section \<open>Removing the finished job\<close>

definition example_turn :: "marker \<Rightarrow> removal_turn" where
  "example_turn m = \<lparr>rt_before = (\<lambda>_. Real_Directory), rt_after = (\<lambda>_. Real_Directory), rt_others = id\<rparr>"

definition finished_workspace :: workspace where
  "finished_workspace = example_workspace\<lparr>ws_tree := [path finished_marker]\<rparr>"


end
