(* ===== verification/Collector.thy ===== *)
theory Collector
  imports Removal
begin

text \<open>
  The collector of journal history (\<open>src/src/httk/workflow/gc.py\<close>): which managers are alive,
  which segments current history protects, and which aged segments and manager directories are
  removed. The other categories delete scratch that no part of the model reads.
\<close>

section \<open>Names in the journal directory\<close>

text \<open>\<open>int(text, 36)\<close>, for ASCII text.\<close>

definition lower_char :: "char \<Rightarrow> char" where
  "lower_char c = (if c \<in> set upper_chars then lower_chars ! index_of c upper_chars else c)"

fun base36_groups :: "string \<Rightarrow> string option" where
  "base36_groups [] = None"
| "base36_groups [c] = (if lower_char c \<in> set base36_chars then Some [lower_char c] else None)"
| "base36_groups (c # d # s) =
     (if lower_char c \<notin> set base36_chars then None
      else if d = CHR ''_'' then map_option ((#) (lower_char c)) (base36_groups s)
      else map_option ((#) (lower_char c)) (base36_groups (d # s)))"

definition int_of_base36 :: "string \<Rightarrow> int option" where
  "int_of_base36 text =
     (let s = py_strip text;
          (neg, body) = (case s of
             [] \<Rightarrow> (False, [])
           | c # r \<Rightarrow> if c = CHR ''-'' then (True, r) else if c = CHR ''+'' then (False, r) else (False, s))
      in map_option (\<lambda>ds. let n = int (of_base36 ds) in if neg then - n else n) (base36_groups body))"

text \<open>\<open>path.suffix == ".hwj"\<close> and \<open>_segment_number\<close> of its stem.\<close>

definition is_segment_name :: "string \<Rightarrow> bool" where
  "is_segment_name name \<longleftrightarrow> length name > 4 \<and> drop (length name - 4) name = ''.hwj''"

definition segment_number :: "string \<Rightarrow> int option" where
  "segment_number name = int_of_base36 (take (length name - 4) name)"

text \<open>\<open>_marker_record_ref\<close>.\<close>

definition marker_record_ref :: "string \<Rightarrow> string option" where
  "marker_record_ref name =
     (let reference = (case rsplit1 (CHR ''.'') name of None \<Rightarrow> name | Some (_, r) \<Rightarrow> r)
      in if reference = ''init'' then None else Some reference)"

section \<open>What a collection observes\<close>

text \<open>
  The manager directories with the journal writer their \<open>manager.json\<close> names, the age of their
  heartbeats, the entries and ages of the journal directory, the ledgers of transfers (an error
  when unreadable), and what may be removed. \<open>gv_views\<close> is what the file server shows to the
  successive attempts to read a record.
\<close>

record gc_view =
  gv_managers :: "(string \<times> string option) list"
  gv_heartbeat_age :: "string \<Rightarrow> rat option"
  gv_manager_age :: "string \<Rightarrow> rat option"
  gv_manager_owned :: "string \<Rightarrow> bool"
  gv_lease :: pyfloat
  gv_writers :: "string list"
  gv_entries :: "string \<Rightarrow> string list"
  gv_entry_age :: "string \<Rightarrow> string \<Rightarrow> rat option"
  gv_owned :: "string \<Rightarrow> string \<Rightarrow> bool"
  gv_directory_owned :: "string \<Rightarrow> bool"
  gv_ledgers :: "obj res list"
  gv_journal_days :: "pyfloat option"
  gv_dry_run :: bool

text \<open>\<open>modified <= now - days * 86400\<close>.\<close>

definition aged :: "pyfloat \<Rightarrow> rat option \<Rightarrow> bool" where
  "aged days age =
     (case age of
        None \<Rightarrow> False
      | Some a \<Rightarrow> (case days of Fin d \<Rightarrow> a \<ge> d * 86400 | Inf positive \<Rightarrow> \<not> positive | NaN \<Rightarrow> False))"

definition live_managers :: "gc_view \<Rightarrow> string option \<Rightarrow> (string \<times> string option) list" where
  "live_managers view caller =
     filter (\<lambda>(name, writer).
         caller \<noteq> None \<and> writer = caller \<or> manager_alive (gv_heartbeat_age view name) (gv_lease view))
       (gv_managers view)"

definition opaque_live_manager :: "gc_view \<Rightarrow> string option \<Rightarrow> bool" where
  "opaque_live_manager view caller \<longleftrightarrow> list_ex (\<lambda>(_, writer). writer = None) (live_managers view caller)"

definition live_writers :: "gc_view \<Rightarrow> string option \<Rightarrow> string list" where
  "live_writers view caller =
     List.map_filter snd (live_managers view caller) @ (case caller of None \<Rightarrow> [] | Some w \<Rightarrow> [w])"

section \<open>Protected segments\<close>

type_synonym segment = "string \<times> nat"

fun chain_segments :: "(string \<times> obj option) list \<Rightarrow> segment list" where
  "chain_segments [] = []"
| "chain_segments ((ref, f) # rest) =
     (case parse_record_ref ref of
        Inl _ \<Rightarrow> []
      | Inr (writer_id, number, _) \<Rightarrow>
          (writer_id, number) # (case f of None \<Rightarrow> [] | Some _ \<Rightarrow> chain_segments rest))"

definition protect :: "(string \<Rightarrow> journal list) \<Rightarrow> bool \<Rightarrow> string \<Rightarrow> segment list" where
  "protect views walk ref =
     (case parse_record_ref ref of
        Inl _ \<Rightarrow> []
      | Inr (writer_id, number, _) \<Rightarrow>
          (writer_id, number) # (if walk then chain_segments (iter_record_chain views ref) else []))"

definition protect_marker :: "(string \<Rightarrow> journal list) \<Rightarrow> marker \<Rightarrow> segment list" where
  "protect_marker views m =
     (case marker_record_ref (last (path m)) of
        None \<Rightarrow> []
      | Some ref \<Rightarrow> protect views (kind m \<notin> set TERMINAL_KINDS) ref)"

definition protect_ledger :: "(string \<Rightarrow> journal list) \<Rightarrow> obj res \<Rightarrow> segment list" where
  "protect_ledger views ledger =
     (case ledger of
        Inl _ \<Rightarrow> []
      | Inr l \<Rightarrow>
          (case get l ''sealed_marker'' of
             JStr name \<Rightarrow>
               if eq_str (get l ''status'') ''sealed'' then
                 (case marker_record_ref name of None \<Rightarrow> [] | Some ref \<Rightarrow> protect views True ref)
               else []
           | _ \<Rightarrow> []))"

definition referenced_segments :: "(string \<Rightarrow> journal list) \<Rightarrow> gc_view \<Rightarrow> marker list \<Rightarrow> segment list" where
  "referenced_segments views view ms =
     concat (map (protect_marker views) ms) @ concat (map (protect_ledger views) (gv_ledgers view))"

section \<open>Collecting segments\<close>

text \<open>
  Whether a segment stays. \<open>retired\<close> are the segments of a retired transfer when only those are
  to go, whatever their age.
\<close>

definition segment_survives ::
  "gc_view \<Rightarrow> pyfloat \<Rightarrow> segment list \<Rightarrow> segment list option \<Rightarrow> string \<Rightarrow> string \<Rightarrow> bool" where
  "segment_survives view days referenced retired writer_id name \<longleftrightarrow>
     (case segment_number name of
        None \<Rightarrow> True
      | Some n \<Rightarrow>
          list_ex (\<lambda>(w, k). w = writer_id \<and> int k = n) referenced \<or>
          (case retired of
             None \<Rightarrow> \<not> aged days (gv_entry_age view writer_id name)
           | Some segs \<Rightarrow> \<not> list_ex (\<lambda>(w, k). w = writer_id \<and> int k = n) segs))"

text \<open>
  One writer directory of a writer that is not alive: the number of its segments that survive,
  and the journal after the others, and the emptied directory, were removed.
\<close>

definition collect_writer ::
  "gc_view \<Rightarrow> pyfloat \<Rightarrow> segment list \<Rightarrow> segment list option \<Rightarrow> string \<Rightarrow> journal \<Rightarrow> nat \<times> journal" where
  "collect_writer view days referenced retired writer_id J =
     (let entries = gv_entries view writer_id;
          doomed = filter (\<lambda>n. is_segment_name n \<and> \<not> segment_survives view days referenced retired writer_id n) entries;
          surviving = length (filter is_segment_name entries) - length doomed;
          gone = (if gv_dry_run view then [] else filter (gv_owned view writer_id) doomed);
          emptied = (surviving = 0 \<and> \<not> gv_dry_run view \<and> gv_directory_owned view writer_id \<and>
            list_all (\<lambda>n. n \<in> set gone) entries)
      in (surviving,
          case J writer_id of
            None \<Rightarrow> J
          | Some files \<Rightarrow>
              if emptied then J(writer_id := None)
              else J(writer_id \<mapsto> (\<lambda>n. if n \<in> set gone then None else files n))))"

fun collect_writers ::
  "gc_view \<Rightarrow> pyfloat \<Rightarrow> string list \<Rightarrow> segment list \<Rightarrow> segment list option \<Rightarrow> string list \<Rightarrow>
     (string \<times> nat) list \<Rightarrow> journal \<Rightarrow> (string \<times> nat) list \<times> journal" where
  "collect_writers view days alive referenced retired [] surviving J = (surviving, J)"
| "collect_writers view days alive referenced retired (w # ws) surviving J =
     (if \<not> uuid_pattern w \<or> w \<notin> set (gv_writers view) then
        collect_writers view days alive referenced retired ws surviving J
      else if w \<in> set alive then
        collect_writers view days alive referenced retired ws
          (dict_set w (length (filter is_segment_name (gv_entries view w))) surviving) J
      else case collect_writer view days referenced retired w J of
        (n, J') \<Rightarrow> collect_writers view days alive referenced retired ws (dict_set w n surviving) J')"

definition count_all_segments :: "gc_view \<Rightarrow> (string \<times> nat) list" where
  "count_all_segments view =
     map (\<lambda>w. (w, length (filter is_segment_name (gv_entries view w))))
       (filter uuid_pattern (gv_writers view))"

text \<open>
  \<open>collect_journal_segments\<close>: how many segments of each writer survive, and the journal. A live
  manager that does not name its writer makes the collection stand down.
\<close>

definition collect_journal_segments ::
  "gc_view \<Rightarrow> string option \<Rightarrow> segment list option \<Rightarrow> marker list \<Rightarrow> journal \<Rightarrow>
     (string \<times> nat) list \<times> journal" where
  "collect_journal_segments view caller retired ms J =
     (case gv_journal_days view of
        None \<Rightarrow> (if retired = None then count_all_segments view else [], J)
      | Some days \<Rightarrow>
          if opaque_live_manager view caller then
            (if retired = None then count_all_segments view else [], J)
          else
            collect_writers view days (live_writers view caller)
              (referenced_segments (\<lambda>_. [J]) view ms) retired
              (case retired of None \<Rightarrow> gv_writers view | Some segs \<Rightarrow> sort (remdups (map fst segs))) [] J)"

text \<open>\<open>collect_manager_directories\<close>: the directories that are removed.\<close>

definition collect_manager_directories ::
  "gc_view \<Rightarrow> string option \<Rightarrow> (string \<times> nat) list \<Rightarrow> string list" where
  "collect_manager_directories view caller surviving =
     (case gv_journal_days view of
        None \<Rightarrow> []
      | Some days \<Rightarrow>
          map fst (filter (\<lambda>(name, writer).
            name \<notin> set (map fst (live_managers view caller)) \<and> aged days (gv_manager_age view name) \<and>
            gv_manager_owned view name \<and> \<not> gv_dry_run view \<and>
            (case writer of
               None \<Rightarrow> False
             | Some w \<Rightarrow> (case map_of surviving w of None \<Rightarrow> True | Some n \<Rightarrow> n = 0)))
            (gv_managers view)))"

section \<open>What a collection keeps\<close>

text \<open>The canonical name of a segment is read back as its number.\<close>

lemma lower_char_base36: "c \<in> set base36_chars \<Longrightarrow> lower_char c = c"
  by (auto simp: lower_char_def upper_chars_def base36_chars_def)

lemma base36_groups_plain: "all_in base36_chars s \<Longrightarrow> s \<noteq> [] \<Longrightarrow> base36_groups s = Some s"
proof (induction s rule: base36_groups.induct)
  case (3 c d s)
  moreover from 3 have "d \<noteq> CHR ''_''" by (auto simp: base36_chars_def)
  ultimately show ?case by (simp add: lower_char_base36)
qed (simp_all add: lower_char_base36)

lemma int_of_base36_text [simp]: "int_of_base36 (base36_text n) = Some (int n)"
proof -
  have plain: "all_in base36_chars (base36_text n)" by (rule base36_text_all_in)
  have sp: "\<not> py_space c" "c \<noteq> CHR ''-''" "c \<noteq> CHR ''+''" if "c \<in> set base36_chars" for c
    using that by (auto simp: base36_chars_def py_space_def)
  have "py_strip (base36_text n) = base36_text n"
  proof -
    have "\<forall>c\<in>set (base36_text n). \<not> py_space c" using plain sp by (auto simp: all_in_iff)
    then have "dropWhile py_space (base36_text n) = base36_text n"
      "dropWhile py_space (rev (base36_text n)) = rev (base36_text n)"
      by (metis dropWhile_eq_self_iff base36_text_ne hd_in_set, metis dropWhile_eq_self_iff base36_text_ne hd_in_set rev_is_Nil_conv set_rev)
    then show ?thesis by (simp add: py_strip_def)
  qed
  moreover obtain c r where c: "base36_text n = c # r" using base36_text_ne [of n] by (cases "base36_text n") auto
  moreover have "c \<noteq> CHR ''-''" "c \<noteq> CHR ''+''" using plain c sp by auto
  moreover have "base36_groups (base36_text n) = Some (base36_text n)" by (rule base36_groups_plain [OF plain base36_text_ne])
  ultimately show ?thesis by (simp add: int_of_base36_def Let_def del: of_base36_text) (metis of_base36_text)
qed

lemma segment_file_name [simp]: "is_segment_name (segment_file n)" "segment_number (segment_file n) = Some (int n)"
  by (simp_all add: is_segment_name_def segment_number_def segment_file_def)

text \<open>The listing of the journal directory that the collection walks misses no file.\<close>

definition listed :: "gc_view \<Rightarrow> journal \<Rightarrow> bool" where
  "listed view J \<longleftrightarrow>
     (\<forall>w files. J w = Some files \<longrightarrow> w \<in> set (gv_writers view) \<and> dom files \<subseteq> set (gv_entries view w))"

text \<open>The segments that go, of a writer that is not alive.\<close>

definition collected :: "gc_view \<Rightarrow> pyfloat \<Rightarrow> segment list \<Rightarrow> segment list option \<Rightarrow> segment \<Rightarrow> bool" where
  "collected view days referenced retired seg \<longleftrightarrow>
     (case seg of (w, n) \<Rightarrow>
        segment_file n \<in> set (gv_entries view w) \<and>
        \<not> segment_survives view days referenced retired w (segment_file n) \<and>
        gv_owned view w (segment_file n) \<and> \<not> gv_dry_run view)"

lemma collect_writer_bytes:
  assumes "collect_writer view days referenced retired w J = (k, J')" and "listed view J"
  shows "segment_bytes J' w' n = (if w' = w \<and> collected view days referenced retired (w, n) then None
      else segment_bytes J w' n) \<and> listed view J'"
proof (cases "J w")
  case None
  then have "J' = J" using assms(1) by (auto simp: collect_writer_def Let_def)
  with None assms(2) show ?thesis by (simp add: segment_bytes_def)
next
  case (Some files)
  let ?doomed = "filter (\<lambda>n. is_segment_name n \<and> \<not> segment_survives view days referenced retired w n) (gv_entries view w)"
  let ?gone = "if gv_dry_run view then [] else filter (gv_owned view w) ?doomed"
  have gone: "segment_file n \<in> set ?gone \<longleftrightarrow> collected view days referenced retired (w, n)"
    by (auto simp: collected_def)
  have dom: "dom files \<subseteq> set (gv_entries view w)" "w \<in> set (gv_writers view)"
    using assms(2) Some by (auto simp: listed_def)
  consider "J' = J(w := None)" "list_all (\<lambda>n. n \<in> set ?gone) (gv_entries view w)"
    | "J' = J(w \<mapsto> (\<lambda>n. if n \<in> set ?gone then None else files n))"
    using assms(1) Some by (auto simp: collect_writer_def Let_def split: if_splits)
  then show ?thesis
  proof cases
    case 1
    have "files (segment_file n) = None" if "\<not> collected view days referenced retired (w, n)"
      using 1(2) dom(1) that gone by (auto simp: list_all_iff domIff)
    with 1(1) Some assms(2) show ?thesis by (auto simp: segment_bytes_def listed_def)
  next
    case 2
    with Some gone dom assms(2) show ?thesis
      by (auto simp: segment_bytes_def listed_def dom_def simp del: set_filter split: if_splits)
  qed
qed

lemma collect_writers_bytes:
  assumes "collect_writers view days alive referenced retired ws surviving J = (surviving', J')" and "listed view J"
  shows "segment_bytes J' w n =
      (if w \<in> set ws \<and> uuid_pattern w \<and> w \<in> set (gv_writers view) \<and> w \<notin> set alive \<and>
          collected view days referenced retired (w, n) then None
       else segment_bytes J w n) \<and> listed view J'"
  using assms
proof (induction ws arbitrary: surviving J)
  case (Cons x ws)
  show ?case
  proof (cases "\<not> uuid_pattern x \<or> x \<notin> set (gv_writers view) \<or> x \<in> set alive")
    case True
    with Cons show ?thesis by (auto split: if_splits)
  next
    case False
    obtain k J1 where c: "collect_writer view days referenced retired x J = (k, J1)"
      by (cases "collect_writer view days referenced retired x J")
    with False Cons.prems(1) have r: "collect_writers view days alive referenced retired ws (dict_set x k surviving) J1 = (surviving', J')"
      by simp
    note b = collect_writer_bytes [OF c Cons.prems(2)]
    from Cons.IH [OF r] b False show ?thesis by auto
  qed
qed simp

text \<open>The candidates of a collection and the writers it walks.\<close>

definition candidate_writers :: "gc_view \<Rightarrow> segment list option \<Rightarrow> string list" where
  "candidate_writers view retired =
     (case retired of None \<Rightarrow> gv_writers view | Some segs \<Rightarrow> sort (remdups (map fst segs)))"

lemma collect_journal_bytes:
  assumes "collect_journal_segments view caller retired ms J = (surviving, J')" and "listed view J"
  shows "segment_bytes J' w n =
      (if w \<in> set (candidate_writers view retired) \<and> uuid_pattern w \<and> w \<in> set (gv_writers view) \<and>
          w \<notin> set (live_writers view caller) \<and> \<not> opaque_live_manager view caller \<and>
          (\<exists>days. gv_journal_days view = Some days \<and>
             collected view days (referenced_segments (\<lambda>_. [J]) view ms) retired (w, n)) then None
       else segment_bytes J w n)"
proof (cases "gv_journal_days view")
  case (Some days)
  show ?thesis
  proof (cases "opaque_live_manager view caller")
    case False
    with Some assms(1) have "collect_writers view days (live_writers view caller)
        (referenced_segments (\<lambda>_. [J]) view ms) retired (candidate_writers view retired) [] J = (surviving, J')"
      by (simp add: collect_journal_segments_def candidate_writers_def)
    from collect_writers_bytes [OF this assms(2)] Some False show ?thesis by auto
  qed (use assms Some in \<open>auto simp: collect_journal_segments_def\<close>)
qed (use assms in \<open>auto simp: collect_journal_segments_def\<close>)

lemma referenced_kept:
  assumes "collect_journal_segments view caller retired ms J = (surviving, J')" and "listed view J"
    and "(w, n) \<in> set (referenced_segments (\<lambda>_. [J]) view ms)"
  shows "segment_bytes J' w n = segment_bytes J w n"
proof -
  have "\<not> collected view days (referenced_segments (\<lambda>_. [J]) view ms) retired (w, n)" for days
    using assms(3) by (auto simp: collected_def segment_survives_def list_ex_iff)
  then show ?thesis using collect_journal_bytes [OF assms(1,2)] by simp
qed

lemma live_kept:
  assumes "collect_journal_segments view caller retired ms J = (surviving, J')" and "listed view J"
    and "w \<in> set (live_writers view caller)"
  shows "segment_bytes J' w n = segment_bytes J w n"
  using collect_journal_bytes [OF assms(1,2)] assms(3) by simp

section \<open>Chains of frames\<close>

lemma read_same_segment:
  assumes "\<And>w n x. parse_record_ref ref = Inr (w, n, x) \<Longrightarrow> segment_bytes J' w n = segment_bytes J w n"
  shows "read_record [J'] ref = read_record [J] ref"
  using assms by (cases "parse_record_ref ref") (auto simp: read_record_def)

lemma chain_walk_segments:
  "(ref, f) \<in> set (chain_walk views visited c) \<Longrightarrow> parse_record_ref ref = Inr (w, n, x) \<Longrightarrow>
    (w, n) \<in> set (chain_segments (chain_walk views visited c))"
proof (induction views visited c rule: chain_walk_induct)
  case (walk views visited c)
  show ?case
  proof (rule chain_walk_cases [of views visited c])
    fix g p
    assume *: "chain_walk views visited c = (c, Some g) # chain_walk views (c # visited) p"
      "c \<noteq> ''init''" "c \<notin> set visited" "read_record (views c) c = Inr g"
    obtain w' n' x' where "parse_record_ref c = Inr (w', n', x')"
      using *(4) by (cases "parse_record_ref c") (auto simp: read_record_def)
    then show ?thesis using * walk by auto
  qed (use walk.prems in auto)
qed

lemma chain_walk_same:
  "(\<And>w n. (w, n) \<in> set (chain_segments (chain_walk (\<lambda>_. [J]) visited c)) \<Longrightarrow>
      segment_bytes J' w n = segment_bytes J w n) \<Longrightarrow>
    chain_walk (\<lambda>_. [J']) visited c = chain_walk (\<lambda>_. [J]) visited c"
proof (induction "\<lambda>_ :: string. [J]" visited c rule: chain_walk_induct)
  case (walk visited c)
  show ?case
  proof (cases "c = ''init'' \<or> c \<in> set visited")
    case True
    then show ?thesis by (simp add: chain_walk.simps)
  next
    case False
    have in_walk: "\<exists>f. (c, f) \<in> set (chain_walk (\<lambda>_. [J]) visited c)"
      using False by (simp add: chain_walk.simps [of _ visited c] split: sum.splits) blast
    then have "segment_bytes J' w n = segment_bytes J w n" if "parse_record_ref c = Inr (w, n, x)" for w n x
      using walk.prems chain_walk_segments [OF _ that] by blast
    then have r: "read_record [J'] c = read_record [J] c" by (rule read_same_segment)
    show ?thesis
    proof (cases "read_record [J] c")
      case (Inl e)
      with False r show ?thesis by (simp add: chain_walk.simps)
    next
      case (Inr g)
      obtain w' n' x' where p: "parse_record_ref c = Inr (w', n', x')"
        using Inr by (cases "parse_record_ref c") (auto simp: read_record_def)
      have "chain_walk (\<lambda>_. [J']) (c # visited) p = chain_walk (\<lambda>_. [J]) (c # visited) p"
        if "get g ''previous_record_ref'' = JStr p" "p \<noteq> ''init''" for p
        using walk.hyps [of g p] walk.prems False Inr that p
        by (simp add: chain_walk.simps [of _ visited c])
      with False r Inr show ?thesis
        by (simp add: chain_walk.simps [of _ visited c] split: json.splits)
    qed
  qed
qed

lemma marker_record_ref_path:
  assumes "marker_from_path (path m) = Inr m"
  shows "marker_record_ref (last (path m)) = (if record_ref m = ''init'' then None else Some (record_ref m))"
proof -
  obtain prio gen where n: "parse_marker_name (last (path m)) = Some (job_key m, prio, gen, record_ref m)"
    using marker_from_path_name [OF assms] by blast
  have "CHR ''.'' \<notin> set (record_ref m)"
    using marker_from_path_wf [OF assms] by (auto simp: wf_marker_def dest: ref_pattern_no_dot)
  then have "rsplit1 (CHR ''.'') (last (path m)) = Some (job_key m @ ''.p'' @ prio @ ''.g'' @ gen, record_ref m)"
    using parse_marker_name_Some [OF n] rsplit1_append [of "CHR ''.''" "record_ref m" "job_key m @ ''.p'' @ prio @ ''.g'' @ gen"]
    by simp
  then show ?thesis by (simp add: marker_record_ref_def Let_def)
qed

lemma marker_segments:
  assumes "marker_from_path (path m) = Inr m" and "m \<in> set ms" and "parse_record_ref (record_ref m) = Inr (w, n, x)"
  shows "(w, n) \<in> set (referenced_segments views view ms)"
    and "kind m \<notin> set TERMINAL_KINDS \<Longrightarrow>
      set (chain_segments (iter_record_chain views (record_ref m))) \<subseteq> set (referenced_segments views view ms)"
proof -
  have "record_ref m \<noteq> ''init''" using assms(3) init_not_ref by auto
  then have "protect_marker views m = protect views (kind m \<notin> set TERMINAL_KINDS) (record_ref m)"
    using marker_record_ref_path [OF assms(1)] by (simp add: protect_marker_def)
  with assms(2,3) show "(w, n) \<in> set (referenced_segments views view ms)"
    "kind m \<notin> set TERMINAL_KINDS \<Longrightarrow>
      set (chain_segments (iter_record_chain views (record_ref m))) \<subseteq> set (referenced_segments views view ms)"
    by (force simp: referenced_segments_def protect_def)+
qed


section \<open>History survives a collection\<close>


text \<open>
  The view of a workspace whose only writer is gone: its first segment is older than the limit, so
  the collection removes it, and the submitted job is read as before.
\<close>

definition example_gc_view :: gc_view where
  "example_gc_view =
     \<lparr>gv_managers = [], gv_heartbeat_age = (\<lambda>_. None), gv_manager_age = (\<lambda>_. None),
      gv_manager_owned = (\<lambda>_. True), gv_lease = Fin 60, gv_writers = [example_writer],
      gv_entries = (\<lambda>_. [segment_file 0]), gv_entry_age = (\<lambda>_ _. Some 90000), gv_owned = (\<lambda>_ _. True),
      gv_directory_owned = (\<lambda>_. True), gv_ledgers = [], gv_journal_days = Some (Fin 1),
      gv_dry_run = False\<rparr>"

lemma example_listed: "listed example_gc_view (ws_journal example_workspace)"
  unfolding listed_def example_workspace_def example_store_def journal_writer_init_def example_gc_view_def
  by (auto simp: Let_def example_ids open_segment_def segment_bytes_def set_segment_def split: if_splits)

lemma example_gc_removes:
  "segment_bytes (snd (collect_journal_segments example_gc_view None None
     (scan_markers (ws_tree example_workspace) STATE_KINDS) (ws_journal example_workspace))) example_writer 0 = None"
  (is "segment_bytes (snd ?c) _ _ = None")
proof -
  have "record_ref m = ''init''" if "m \<in> set (scan_markers (ws_tree example_workspace) STATE_KINDS)" for m
    using that example_marker_read by (auto simp: scan_markers_set example_workspace_def example_marker_def)
  then have "(w, n) \<notin> set (referenced_segments (\<lambda>_. [ws_journal example_workspace]) example_gc_view
      (scan_markers (ws_tree example_workspace) STATE_KINDS))" for w n
    using marker_record_ref_path [of example_marker] example_marker_read
    by (auto simp: referenced_segments_def protect_marker_def example_gc_view_def scan_markers_set
        example_workspace_def example_marker_def split: option.splits)
  then have "collected example_gc_view (Fin 1) (referenced_segments (\<lambda>_. [ws_journal example_workspace]) example_gc_view
      (scan_markers (ws_tree example_workspace) STATE_KINDS)) None (example_writer, 0)"
    by (auto simp: collected_def segment_survives_def list_ex_iff example_gc_view_def aged_def)
  then show ?thesis
    using collect_journal_bytes [of example_gc_view None None _ _ "fst ?c" "snd ?c" example_writer 0] example_listed
    by (simp add: example_gc_view_def candidate_writers_def example_ids live_writers_def live_managers_def
        opaque_live_manager_def List.map_filter_simps)
qed


end
