(* ===== verification/Payload_Digest.thy ===== *)
theory Payload_Digest
  imports Paths Sha256
begin

text \<open>
  The digest of a payload tree (\<open>_payload_digest\<close> and its helpers of
  \<open>src/src/httk/workflow/transfers.py\<close>): which entries it covers, the bytes it hashes, and the
  symbolic links it refuses.
\<close>

section \<open>Payload trees\<close>

text \<open>
  Every entry below a payload by its path, as \<open>lstat\<close> sees it: a link with its target, a
  directory, a regular file with whether any execute bit is set and its content, or another kind.
\<close>

datatype tree_node = Link string | Directory | Regular bool string | Special

type_synonym tree = "(string list \<times> tree_node) list"

definition excluded_from_bundle :: "string \<Rightarrow> bool" where
  "excluded_from_bundle name \<longleftrightarrow> name = ''.httk-transfer'' \<or> is_payload_private name"

text \<open>The loop over the components of a target; \<open>place\<close> is where it has come to.\<close>

fun climb :: "string list \<Rightarrow> string list \<Rightarrow> bool" where
  "climb place [] \<longleftrightarrow> True"
| "climb place (part # ps) \<longleftrightarrow>
     (if part = [] \<or> part = ''.'' then climb place ps
      else if part \<noteq> ''..'' then climb (place @ [part]) ps
      else place \<noteq> [] \<and> climb (butlast place) ps)"

definition contained_symlink_target :: "string list \<Rightarrow> string \<Rightarrow> string res" where
  "contained_symlink_target entry target =
     (let p = pure_posix_path target
      in if absolute p then Inl FormatError
         else if \<not> climb (butlast entry) (parts p) then Inl FormatError
         else Inr target)"

definition covered_entries :: "tree \<Rightarrow> tree" where
  "covered_entries t =
     sort_key (\<lambda>e. as_posix (fst e)) (filter (\<lambda>(p, _). p \<noteq> [] \<and> \<not> excluded_from_bundle (hd p)) t)"

text \<open>
  What is hashed for one entry, as the fields that a zero byte ends each. \<open>dg\<close> is
  \<open>sha256_file\<close>, by content.
\<close>

fun entry_fields :: "(string \<Rightarrow> string) \<Rightarrow> string list \<times> tree_node \<Rightarrow> string list res" where
  "entry_fields dg (p, Link target) =
     bindr (contained_symlink_target p target) (\<lambda>t. Inr [''L'', as_posix p, t])"
| "entry_fields dg (p, Directory) = Inr [''D'', as_posix p]"
| "entry_fields dg (p, Regular executable content) =
     Inr [''F'', as_posix p, if executable then ''x'' else ''-'', dg content]"
| "entry_fields dg (p, Special) = Inl FormatError"

definition terminated :: "string list \<Rightarrow> string" where
  "terminated fs = concat (map (\<lambda>f. f @ [NUL]) fs)"

definition PAYLOAD_DIGEST_DOMAIN :: string where
  "PAYLOAD_DIGEST_DOMAIN = ''httk-workflow-transfer-payload-v2'' @ [NUL]"

definition payload_preimage :: "(string \<Rightarrow> string) \<Rightarrow> tree \<Rightarrow> string res" where
  "payload_preimage dg t =
     bindr (mapr (entry_fields dg) (covered_entries t)) (\<lambda>fss.
       Inr (PAYLOAD_DIGEST_DOMAIN @ concat (map terminated fss)))"

definition payload_digest :: "(string \<Rightarrow> string) \<Rightarrow> tree \<Rightarrow> string res" where
  "payload_digest dg t = bindr (payload_preimage dg t) (\<lambda>b. Inr (hex_text (sha256 b)))"

section \<open>What the digest pins\<close>

text \<open>The entries of a tree as a directory listing can have them.\<close>

definition wf_tree :: "tree \<Rightarrow> bool" where
  "wf_tree t \<longleftrightarrow> distinct (map fst t) \<and>
     list_all (\<lambda>(p, n). p \<noteq> [] \<and> list_all (\<lambda>c. c \<notin> {[], ''.'', ''..''} \<and> CHR ''/'' \<notin> set c \<and> NUL \<notin> set c) p \<and>
       (case n of Link target \<Rightarrow> NUL \<notin> set target | _ \<Rightarrow> True)) t"

text \<open>What the digest sees of an entry.\<close>

definition seen :: "(string \<Rightarrow> string) \<Rightarrow> string list \<times> tree_node \<Rightarrow> string list \<times> tree_node" where
  "seen dg e = (fst e, case snd e of Regular executable content \<Rightarrow> Regular executable (dg content) | n \<Rightarrow> n)"

lemma mapr_Inr: "mapr f xs = Inr ys \<longleftrightarrow> map f xs = map Inr ys"
proof (induction xs arbitrary: ys)
  case (Cons x xs)
  then show ?case by (cases ys) (auto simp: res_simps)
qed auto

lemma as_posix_split:
  assumes "p \<noteq> []" and "list_all (\<lambda>c. c \<noteq> [] \<and> CHR ''/'' \<notin> set c \<and> NUL \<notin> set c) p"
  shows "split_on CHR ''/'' (as_posix p) = p" and "NUL \<notin> set (as_posix p)"
proof -
  have "NUL \<notin> set (join_with ''/'' p)" if "list_all (\<lambda>c. NUL \<notin> set c) p" for p :: "string list"
    using that by (induction "''/''" p rule: join_with.induct) (auto simp: NUL_def)
  then show "NUL \<notin> set (as_posix p)" using assms by (auto simp: as_posix_def list_all_iff)
  show "split_on CHR ''/'' (as_posix p) = p"
    using assms by (simp add: as_posix_def split_on_join_with list_all_iff)
qed

lemma split_terminated: "list_all (\<lambda>f. NUL \<notin> set f) fs \<Longrightarrow> split_on NUL (terminated fs) = fs @ [[]]"
  by (induction fs) (auto simp: terminated_def)

lemma terminated_concat: "concat (map terminated fss) = terminated (concat fss)"
  by (induction fss) (auto simp: terminated_def)

text \<open>A well-formed entry that is accepted, its fields, and reading them back.\<close>

definition good_entry :: "string list \<times> tree_node \<Rightarrow> bool" where
  "good_entry e \<longleftrightarrow> fst e \<noteq> [] \<and> list_all (\<lambda>c. c \<noteq> [] \<and> CHR ''/'' \<notin> set c \<and> NUL \<notin> set c) (fst e) \<and>
     (case snd e of Link target \<Rightarrow> NUL \<notin> set target | _ \<Rightarrow> True)"

lemma good_split: "good_entry e \<Longrightarrow> split_on CHR ''/'' (as_posix (fst e)) = fst e"
  unfolding good_entry_def by (rule as_posix_split(1)) blast+

lemma contained_Inr: "contained_symlink_target p t = Inr r \<Longrightarrow> r = t"
  by (auto simp: contained_symlink_target_def Let_def split: if_splits)

text \<open>The entry is read back from its fields.\<close>

definition read_back :: "string list \<Rightarrow> (string list \<times> tree_node) \<times> string list" where
  "read_back fs =
     (case fs of
        k # a # r \<Rightarrow>
          if k = ''D'' then ((split_on CHR ''/'' a, Directory), r)
          else if k = ''L'' then ((split_on CHR ''/'' a, Link (hd r)), tl r)
          else ((split_on CHR ''/'' a, Regular (hd r = ''x'') (hd (tl r))), tl (tl r))
      | _ \<Rightarrow> (([], Special), []))"

lemma fields_read:
  assumes "entry_fields dg e = Inr fs" and "good_entry e"
  shows "read_back (fs @ rest) = (seen dg e, rest)"
proof (cases "(dg, e)" rule: entry_fields.cases)
  case (1 dg1 q target)
  with assms(1) have "fs = [''L'', as_posix q, target]" by (auto simp: res_simps dest: contained_Inr)
  with 1 good_split [OF assms(2)] show ?thesis by (simp add: read_back_def seen_def)
next
  case (2 dg1 q)
  with assms good_split [OF assms(2)] show ?thesis by (auto simp: read_back_def seen_def)
next
  case (3 dg1 q x c)
  with assms good_split [OF assms(2)] show ?thesis by (auto simp: read_back_def seen_def)
qed (use assms in simp)

lemma fields_seen:
  assumes "seen dg e = seen dg e'"
  shows "entry_fields dg e = entry_fields dg e'"
  using assms by (cases "(dg, e)" rule: entry_fields.cases; cases "(dg, e')" rule: entry_fields.cases)
    (auto simp: seen_def)

lemma all_fields_read:
  assumes "mapr (entry_fields dg) es = Inr fss" and "mapr (entry_fields dg) es' = Inr fss'"
    and "list_all good_entry es" and "list_all good_entry es'" and "concat fss = concat fss'"
  shows "map (seen dg) es = map (seen dg) es'"
  using assms
proof (induction es arbitrary: es' fss fss')
  case Nil
  show ?case
  proof (cases es')
    case (Cons e' r')
    then obtain fs' where f: "entry_fields dg e' = Inr fs'" "set fs' \<subseteq> set (concat fss')"
      using Nil.prems(2) by (auto simp: res_simps)
    then have "fs' \<noteq> []" by (cases "(dg, e')" rule: entry_fields.cases) (auto simp: res_simps)
    with f(2) Nil.prems(1,5) show ?thesis by (cases fs') auto
  qed simp
next
  case (Cons e r)
  obtain fs gss where f: "entry_fields dg e = Inr fs" "mapr (entry_fields dg) r = Inr gss" "fss = fs # gss"
    using Cons.prems(1) by (auto simp: res_simps)
  have "fs \<noteq> []" using f(1) by (cases "(dg, e)" rule: entry_fields.cases) (auto simp: res_simps)
  then have "es' \<noteq> []" using Cons.prems(2,5) f(3) by auto
  then obtain e' r' where es': "es' = e' # r'" by (cases es') auto
  obtain fs' gss' where f': "entry_fields dg e' = Inr fs'" "mapr (entry_fields dg) r' = Inr gss'" "fss' = fs' # gss'"
    using Cons.prems(2) es' by (auto simp: res_simps)
  have "seen dg e = seen dg e' \<and> concat gss = concat gss'"
    using fields_read [OF f(1), of "concat gss"] fields_read [OF f'(1), of "concat gss'"] Cons.prems(3-5) es' f(3) f'(3)
    by simp
  with Cons.IH [OF f(2) f'(2)] Cons.prems(3,4) es' show ?case by simp
qed

lemma fields_no_nul:
  assumes "entry_fields dg e = Inr fs" and "good_entry e" and "\<And>c. NUL \<notin> set (dg c)"
  shows "list_all (\<lambda>f. NUL \<notin> set f) fs"
  using assms as_posix_split(2) [of "fst e"]
  by (cases "(dg, e)" rule: entry_fields.cases)
    (auto simp: good_entry_def res_simps NUL_def dest!: contained_Inr)

lemma covered_good: "wf_tree t \<Longrightarrow> list_all good_entry (covered_entries t)"
  by (auto simp: wf_tree_def covered_entries_def good_entry_def list_all_iff)

lemma mapr_fields_no_nul:
  assumes "mapr (entry_fields dg) es = Inr fss" and "list_all good_entry es" and "\<And>c. NUL \<notin> set (dg c)"
  shows "list_all (\<lambda>f. NUL \<notin> set f) (concat fss)"
  using assms(1,2)
proof (induction es arbitrary: fss)
  case (Cons e es)
  then show ?case using fields_no_nul [of dg e, OF _ _ assms(3)] by (auto simp: res_simps)
qed simp

text \<open>Entries in the order of their paths are determined by the set of them.\<close>

lemma covered_sorted:
  assumes "wf_tree t"
  shows "sorted (map (\<lambda>e. as_posix (fst e)) (covered_entries t)) \<and> distinct (map (\<lambda>e. as_posix (fst e)) (covered_entries t))"
proof -
  have g: "list_all good_entry (covered_entries t)" by (rule covered_good [OF assms])
  have "distinct (map fst (covered_entries t))"
    using assms by (auto simp: wf_tree_def covered_entries_def distinct_map intro: inj_on_subset)
  moreover have "inj_on as_posix (fst ` set (covered_entries t))"
    by (rule inj_on_inverseI [where g = "split_on CHR ''/''"]) (use g good_split in \<open>auto simp: list_all_iff\<close>)
  ultimately have "distinct (map as_posix (map fst (covered_entries t)))"
    by (subst distinct_map) simp
  then show ?thesis by (simp add: covered_entries_def comp_def)
qed

lemma covered_determined:
  assumes "wf_tree t" and "wf_tree t'"
    and "seen dg ` set (covered_entries t) = seen dg ` set (covered_entries t')"
  shows "map (seen dg) (covered_entries t) = map (seen dg) (covered_entries t')"
proof -
  let ?k = "\<lambda>e :: string list \<times> tree_node. as_posix (fst e)"
  have k: "?k (seen dg e) = ?k e" for e by (simp add: seen_def)
  have s: "sorted (map ?k (map (seen dg) (covered_entries u)))" "distinct (map ?k (map (seen dg) (covered_entries u)))"
    if "wf_tree u" for u
    using covered_sorted [OF that] by (simp_all add: comp_def k)
  have i: "inj_on ?k (set (map (seen dg) (covered_entries u)))" if "wf_tree u" for u
    using s(2) [OF that] unfolding distinct_map by simp
  show ?thesis
    by (rule map_sorted_distinct_set_unique [where f = ?k])
      (use s [OF assms(1)] s [OF assms(2)] i [OF assms(1)] assms(3) in \<open>simp_all\<close>)
qed

text \<open>
  C24. The digest pins the payload. Two accepted payload trees are hashed from the same bytes
  precisely when they have the same entries outside the private and transfer directories: the
  same names, kinds and link targets, and files of the same executable bit and content digest.
\<close>

theorem payload_digest_pins:
  assumes "wf_tree t" and "wf_tree t'" and "\<And>c. NUL \<notin> set (dg c)"
    and "payload_preimage dg t = Inr b" and "payload_preimage dg t' = Inr b'"
  shows "b = b' \<longleftrightarrow> seen dg ` set (covered_entries t) = seen dg ` set (covered_entries t')"
proof
  obtain fss fss' where f: "mapr (entry_fields dg) (covered_entries t) = Inr fss"
    "mapr (entry_fields dg) (covered_entries t') = Inr fss'"
    and b: "b = PAYLOAD_DIGEST_DOMAIN @ terminated (concat fss)" "b' = PAYLOAD_DIGEST_DOMAIN @ terminated (concat fss')"
    using assms(4,5) by (auto simp: payload_preimage_def res_simps terminated_concat)
  show "seen dg ` set (covered_entries t) = seen dg ` set (covered_entries t')" if "b = b'"
  proof -
    have "split_on NUL (terminated (concat fss)) = split_on NUL (terminated (concat fss'))" using that b by simp
    then have "concat fss = concat fss'"
      using split_terminated [OF mapr_fields_no_nul [OF f(1) covered_good [OF assms(1)] assms(3)]]
        split_terminated [OF mapr_fields_no_nul [OF f(2) covered_good [OF assms(2)] assms(3)]] by simp
    from all_fields_read [OF f covered_good [OF assms(1)] covered_good [OF assms(2)] this]
    show ?thesis by (metis list.set_map)
  qed
  show "b = b'" if "seen dg ` set (covered_entries t) = seen dg ` set (covered_entries t')"
  proof -
    have "map (entry_fields dg) (covered_entries t) = map (entry_fields dg) (covered_entries t')"
    proof (rule nth_equalityI)
      note m = covered_determined [OF assms(1,2) that]
      then show l: "length (map (entry_fields dg) (covered_entries t)) = length (map (entry_fields dg) (covered_entries t'))"
        by (metis length_map)
      show "map (entry_fields dg) (covered_entries t) ! i = map (entry_fields dg) (covered_entries t') ! i"
        if "i < length (map (entry_fields dg) (covered_entries t))" for i
        using that l m by (simp, metis fields_seen nth_map)
    qed
    with f have "fss = fss'" by (simp add: mapr_Inr)
    with b show ?thesis by simp
  qed
qed


section \<open>Where a link leads\<close>

text \<open>
  The walk of a path by the operating system, from a directory inside the payload: it follows a
  link where it meets one. \<open>links\<close> bounds how many.
\<close>

datatype place = Inside "string list" | Outside | Too_Many_Links

function walk :: "nat \<Rightarrow> (string list \<Rightarrow> tree_node option) \<Rightarrow> string list \<Rightarrow> string list \<Rightarrow> place" where
  "walk links look place [] = Inside place"
| "walk links look place (part # ps) =
     (if part = [] \<or> part = ''.'' then walk links look place ps
      else if part = ''..'' then (if place = [] then Outside else walk links look (butlast place) ps)
      else case look (place @ [part]) of
        Some (Link target) \<Rightarrow>
          (case links of
             0 \<Rightarrow> Too_Many_Links
           | Suc n \<Rightarrow>
               if absolute (pure_posix_path target) then Outside
               else walk n look place (parts (pure_posix_path target) @ ps))
      | _ \<Rightarrow> walk links look (place @ [part]) ps)"
  by pat_completeness auto
termination
  by (relation "measures [\<lambda>(links, _, _, _). links, \<lambda>(_, _, _, ps). length ps]") auto

text \<open>Where a path leads by its text alone.\<close>

fun lexical :: "string list \<Rightarrow> string list \<Rightarrow> string list" where
  "lexical place [] = place"
| "lexical place (part # ps) =
     (if part = [] \<or> part = ''.'' then lexical place ps
      else if part = ''..'' then lexical (butlast place) ps
      else lexical (place @ [part]) ps)"

text \<open>No directory that a path goes through is itself a link.\<close>

definition straight :: "(string list \<Rightarrow> tree_node option) \<Rightarrow> string list \<Rightarrow> string list \<Rightarrow> bool" where
  "straight look place ps \<longleftrightarrow>
     (\<forall>k < length ps. \<forall>target. look (lexical place (take k ps)) \<noteq> Some (Link target))"

definition accepted_links :: "(string list \<Rightarrow> tree_node option) \<Rightarrow> bool" where
  "accepted_links look \<longleftrightarrow>
     (\<forall>q target. look q = Some (Link target) \<longrightarrow>
        q \<noteq> [] \<and> contained_symlink_target q target = Inr target \<and> straight look (butlast q) (parts (pure_posix_path target)))"

lemma straight_step:
  assumes "straight look place (part # ps)"
  shows "part = [] \<or> part = ''.'' \<Longrightarrow> straight look place ps"
    and "part = ''..'' \<Longrightarrow> straight look (butlast place) ps"
    and "part \<notin> {[], ''.'', ''..''} \<Longrightarrow> straight look (place @ [part]) ps"
proof -
  have *: "look (lexical place (part # take k ps)) \<noteq> Some (Link target)" if "k < length ps" for k target
    using assms that unfolding straight_def by (metis Suc_less_eq length_Cons take_Suc_Cons)
  show "part = [] \<or> part = ''.'' \<Longrightarrow> straight look place ps"
    and "part = ''..'' \<Longrightarrow> straight look (butlast place) ps"
    and "part \<notin> {[], ''.'', ''..''} \<Longrightarrow> straight look (place @ [part]) ps"
    unfolding straight_def using * by auto
qed

lemma pure_parts: "part \<in> set (parts (pure_posix_path s)) \<Longrightarrow> part \<noteq> [] \<and> part \<noteq> ''.''"
  by (simp add: pure_posix_path_def)

text \<open>Only the last component of a straight path can be a link.\<close>

lemma straight_last:
  assumes "straight look place (part # ps)" and "part \<notin> {[], ''.'', ''..''}"
    and "look (place @ [part]) = Some (Link target)"
  shows "ps = []"
proof (rule ccontr)
  assume "ps \<noteq> []"
  then have "1 < length (part # ps)" by simp
  then have "look (lexical place (take 1 (part # ps))) \<noteq> Some (Link target)"
    using assms(1) unfolding straight_def by blast
  then show False using assms(2,3) by simp
qed

lemma walk_name:
  assumes "part \<notin> {[], ''.'', ''..''}" and "\<And>target. look (place @ [part]) \<noteq> Some (Link target)"
  shows "walk links look place (part # ps) = walk links look (place @ [part]) ps"
  using assms by (cases "look (place @ [part])"; cases "the (look (place @ [part]))") auto

lemma walk_inside:
  assumes "accepted_links look"
  shows "climb place ps \<Longrightarrow> straight look place ps \<Longrightarrow> walk links look place ps \<noteq> Outside"
proof (induction links arbitrary: place ps rule: less_induct)
  case (less links)
  from less.prems show ?case
  proof (induction ps arbitrary: place)
    case (Cons part ps)
    note s = straight_step [OF Cons.prems(2)]
    consider "part = [] \<or> part = ''.''" | "part = ''..''" | "part \<notin> {[], ''.'', ''..''}" by auto
    then show ?case
    proof cases
      case 1
      then show ?thesis using Cons.IH Cons.prems(1) s(1) by auto
    next
      case 2
      then show ?thesis using Cons.IH Cons.prems(1) s(2) by auto
    next
      case 3
      then have c: "climb (place @ [part]) ps" using Cons.prems(1) by (auto split: if_splits)
      show ?thesis
      proof (cases "\<exists>target. look (place @ [part]) = Some (Link target)")
        case True
        then obtain target where t: "look (place @ [part]) = Some (Link target)" by blast
        then have a: "contained_symlink_target (place @ [part]) target = Inr target"
          "straight look place (parts (pure_posix_path target))"
          using assms unfolding accepted_links_def by (metis butlast_snoc)+
        have "ps = []" by (rule straight_last [OF Cons.prems(2) 3 t])
        moreover have "\<not> absolute (pure_posix_path target)" "climb place (parts (pure_posix_path target))"
          using a(1) by (auto simp: contained_symlink_target_def Let_def split: if_splits)
        moreover from this have "walk n look place (parts (pure_posix_path target)) \<noteq> Outside" if "links = Suc n" for n
          using less.IH [of n] that a(2) by simp
        ultimately show ?thesis using 3 t by (auto split: nat.splits)
      next
        case False
        then have "walk links look place (part # ps) = walk links look (place @ [part]) ps"
          by (intro walk_name [OF 3]) blast
        with Cons.IH [OF c s(3) [OF 3]] show ?thesis by simp
      qed
    qed
  qed simp
qed



text \<open>A small payload: a script, a directory, and a link from inside the directory to the script.\<close>

definition example_payload :: tree where
  "example_payload =
     [([''run''], Regular True ''#!/bin/sh''), ([''bin''], Directory), ([''bin'', ''go''], Link ''../run''),
      ([''logs''], Directory)]"

lemma example_payload_accepted: "wf_tree example_payload \<and> payload_preimage (\<lambda>_. ''d'') example_payload =
    Inr (PAYLOAD_DIGEST_DOMAIN @ terminated [''D'', ''bin'', ''L'', ''bin/go'', ''../run'', ''F'', ''run'', ''x'', ''d''])"
  by code_simp

theorem payload_digest_pins_witness:
  "seen (\<lambda>_. ''d'') ` set (covered_entries example_payload) =
   seen (\<lambda>_. ''d'') ` set (covered_entries (butlast example_payload @ [([''logs'', ''x''], Special)]))"
proof -
  let ?t = "butlast example_payload @ [([''logs'', ''x''], Special)]"
  have "wf_tree ?t" "payload_preimage (\<lambda>_. ''d'') ?t = payload_preimage (\<lambda>_. ''d'') example_payload" by code_simp+
  then show ?thesis
    using example_payload_accepted payload_digest_pins [of example_payload ?t "\<lambda>_. ''d''"] by (simp add: NUL_def)
qed


end
