(* ===== verification/Transfer_State.thy ===== *)
theory Transfer_State
  imports Payload_Digest Transfer_Receipts Collector Workspace_Protocol
begin

text \<open>
  The state that the transfers of \<open>src/src/httk/workflow/transfers.py\<close> work on, and programs over
  it that can be killed: a program runs with a number of changes of the file system that it may
  still make before the process ends. A change is one that the code makes atomic (a rename, an
  atomic write); copies and removals of trees are sequences of changes.
\<close>

section \<open>Payloads and sites\<close>

text \<open>
  The directory \<open>.httk-transfer\<close> of a payload: the manifest, the runners below \<open>runners/\<close> by
  their path, and its other files. The content of a runner stands for a file or a whole tree.
\<close>

record transfer_dir =
  td_manifest :: "obj option"
  td_files :: "string dict"
  td_runners :: "string dict"

text \<open>A payload: its entries, what reading \<open>job.json\<close> gives, and the transfer directory.\<close>

record payload =
  pl_entries :: tree
  pl_document :: "string option"
  pl_transfer :: "transfer_dir option"

text \<open>
  A workspace with its files of transfers: payloads by the text of their path below the root
  \<open>si_root\<close>, the staging trees of imports and the retired bundles by transfer identifier, the
  ledgers, acknowledgements and import records, the files of the sequence protocol with what
  processes remember of it, the pending segments of retired transfers, the runner store and the
  seals of jobs.
\<close>

record site =
  si_root :: string
  si_ws :: workspace
  si_payloads :: "payload dict"
  si_staging :: "payload dict"
  si_retired :: "payload dict"
  si_ledgers :: "obj dict"
  si_acks :: "obj dict"
  si_imported :: "obj dict"
  si_protocol :: protocol_files
  si_session :: session
  si_received :: "ranges dict"
  si_pending :: "string dict"
  si_runners :: "string dict"
  si_seals :: "string dict"

definition payload_key :: "string list \<Rightarrow> string \<Rightarrow> string" where
  "payload_key pl key = as_posix (payload_path pl key)"

text \<open>The text of a payload path, and the payload that a text names.\<close>

definition payload_text :: "site \<Rightarrow> string \<Rightarrow> string" where
  "payload_text s k = si_root s @ ''/'' @ k"

definition key_of_text :: "site \<Rightarrow> string \<Rightarrow> string option" where
  "key_of_text s text =
     (if starts_with (si_root s @ ''/'') text then Some (drop (length (si_root s) + 1) text) else None)"

definition payload_at :: "site \<Rightarrow> string \<Rightarrow> payload option" where
  "payload_at s text = (case key_of_text s text of None \<Rightarrow> None | Some k \<Rightarrow> map_of (si_payloads s) k)"

definition transfer_at :: "string \<Rightarrow> site \<Rightarrow> transfer_dir option" where
  "transfer_at k s = (case map_of (si_payloads s) k of None \<Rightarrow> None | Some pl \<Rightarrow> pl_transfer pl)"

definition set_transfer :: "string \<Rightarrow> transfer_dir option \<Rightarrow> site \<Rightarrow> site" where
  "set_transfer k td s =
     (case map_of (si_payloads s) k of
        None \<Rightarrow> s
      | Some pl \<Rightarrow> s\<lparr>si_payloads := dict_set k (pl\<lparr>pl_transfer := td\<rparr>) (si_payloads s)\<rparr>)"

definition change_transfer :: "string \<Rightarrow> (transfer_dir \<Rightarrow> transfer_dir) \<Rightarrow> site \<Rightarrow> site" where
  "change_transfer k f s =
     (case transfer_at k s of None \<Rightarrow> s | Some td \<Rightarrow> set_transfer k (Some (f td)) s)"

definition with_ws :: "(workspace \<Rightarrow> workspace) \<Rightarrow> site \<Rightarrow> site" where
  "with_ws f s = s\<lparr>si_ws := f (si_ws s)\<rparr>"

section \<open>Programs that can be killed\<close>

type_synonym 'a io = "nat \<Rightarrow> site \<Rightarrow> 'a res \<times> nat \<times> site"

definition liftio :: "'a res \<Rightarrow> 'a io" where
  "liftio r = (\<lambda>n s. (r, n, s))"

definition give :: "'a \<Rightarrow> 'a io" where
  "give x = liftio (Inr x)"

definition fail :: "error \<Rightarrow> 'a io" where
  "fail e = liftio (Inl e)"

definition bindio :: "'a io \<Rightarrow> ('a \<Rightarrow> 'b io) \<Rightarrow> 'b io" where
  "bindio p q = (\<lambda>n s. case p n s of (Inl e, n', s') \<Rightarrow> (Inl e, n', s') | (Inr x, n', s') \<Rightarrow> q x n' s')"

definition observe :: "(site \<Rightarrow> 'a) \<Rightarrow> 'a io" where
  "observe f = (\<lambda>n s. (Inr (f s), n, s))"

text \<open>A change of memory only, such as the lookup cache.\<close>

definition volatile :: "(site \<Rightarrow> 'a res \<times> site) \<Rightarrow> 'a io" where
  "volatile f = (\<lambda>n s. case f s of (r, s') \<Rightarrow> (r, n, s'))"

text \<open>One change of the file system.\<close>

definition change :: "(site \<Rightarrow> 'a res \<times> site) \<Rightarrow> 'a io" where
  "change f = (\<lambda>n s. case n of 0 \<Rightarrow> (Inl Interrupted, 0, s) | Suc k \<Rightarrow> (case f s of (r, s') \<Rightarrow> (r, k, s')))"

definition effect :: "(site \<Rightarrow> site) \<Rightarrow> unit io" where
  "effect f = change (\<lambda>s. (Inr (), f s))"

fun each :: "('a \<Rightarrow> unit io) \<Rightarrow> 'a list \<Rightarrow> unit io" where
  "each p [] = give ()"
| "each p (x # xs) = bindio (p x) (\<lambda>_. each p xs)"

text \<open>An exception handler that raises the exception again; a killed process runs none.\<close>

definition on_error :: "'a io \<Rightarrow> unit io \<Rightarrow> 'a io" where
  "on_error p handler = (\<lambda>n s.
     case p n s of
       (Inr x, n', s') \<Rightarrow> (Inr x, n', s')
     | (Inl e, n', s') \<Rightarrow>
         if e = Interrupted then (Inl e, n', s')
         else (case handler n' s' of
           (Inl e', n'', s'') \<Rightarrow> (Inl e', n'', s'') | (Inr _, n'', s'') \<Rightarrow> (Inl e, n'', s'')))"

section \<open>Crash specifications\<close>

text \<open>
  From a state with \<open>P\<close> a program that returns ends in a state with \<open>Q\<close>; one that raises or is
  killed, at whatever change, ends in a state with \<open>C\<close>.
\<close>

definition spec :: "(site \<Rightarrow> bool) \<Rightarrow> 'a io \<Rightarrow> ('a \<Rightarrow> site \<Rightarrow> bool) \<Rightarrow> (site \<Rightarrow> bool) \<Rightarrow> bool" where
  "spec P p Q C \<longleftrightarrow>
     (\<forall>n s. P s \<longrightarrow> (case p n s of (Inr x, _, s') \<Rightarrow> Q x s' | (Inl _, _, s') \<Rightarrow> C s'))"

lemma specD:
  assumes "spec P p Q C" and "P s" and "p n s = (r, n', s')"
  shows "case r of Inr x \<Rightarrow> Q x s' | Inl _ \<Rightarrow> C s'"
proof -
  have "case p n s of (Inr x, _, s') \<Rightarrow> Q x s' | (Inl _, _, s') \<Rightarrow> C s'"
    using assms(1) [unfolded spec_def, rule_format, OF assms(2)] .
  then show ?thesis using assms(3) by (simp split: sum.splits)
qed

lemma spec_liftio:
  assumes "\<And>x s. r = Inr x \<Longrightarrow> P s \<Longrightarrow> Q x s" and "\<And>e s. r = Inl e \<Longrightarrow> P s \<Longrightarrow> C s"
  shows "spec P (liftio r) Q C"
  using assms by (cases r) (auto simp: spec_def liftio_def)

lemma spec_give: "(\<And>s. P s \<Longrightarrow> Q x s) \<Longrightarrow> spec P (give x) Q C"
  by (simp add: spec_def give_def liftio_def)

lemma spec_fail: "(\<And>s. P s \<Longrightarrow> C s) \<Longrightarrow> spec P (fail e) Q C"
  by (simp add: spec_def fail_def liftio_def)

lemma spec_bind:
  assumes "spec P p R C" and "\<And>x. spec (R x) (q x) Q C"
  shows "spec P (bindio p q) Q C"
  unfolding spec_def
proof (intro allI impI)
  fix n s assume "P s"
  obtain r m t where p: "p n s = (r, m, t)" by (cases "p n s")
  from specD [OF assms(1) \<open>P s\<close> p] assms(2)
  show "case bindio p q n s of (Inr x, _, s') \<Rightarrow> Q x s' | (Inl _, _, s') \<Rightarrow> C s'"
    by (cases r) (auto simp: bindio_def p spec_def)
qed

lemma spec_observe: "(\<And>s. P s \<Longrightarrow> Q (f s) s) \<Longrightarrow> spec P (observe f) Q C"
  by (simp add: spec_def observe_def)

text \<open>Observing and going on: what was observed is a fact about the state.\<close>

lemma spec_observe_bind:
  assumes "\<And>x. spec (\<lambda>s. P s \<and> f s = x) (q x) Q C"
  shows "spec P (bindio (observe f) q) Q C"
  by (rule spec_bind [OF spec_observe [where Q = "\<lambda>x s. P s \<and> f s = x"]]) (use assms in auto)

lemma spec_volatile:
  assumes "\<And>s r s'. P s \<Longrightarrow> f s = (r, s') \<Longrightarrow> (case r of Inr x \<Rightarrow> Q x s' | Inl _ \<Rightarrow> C s')"
  shows "spec P (volatile f) Q C"
  unfolding spec_def volatile_def using assms by (fastforce split: sum.splits prod.splits)

lemma spec_change:
  assumes "\<And>s. P s \<Longrightarrow> C s"
    and "\<And>s r s'. P s \<Longrightarrow> f s = (r, s') \<Longrightarrow> (case r of Inr x \<Rightarrow> Q x s' | Inl _ \<Rightarrow> C s')"
  shows "spec P (change f) Q C"
  unfolding spec_def change_def using assms by (fastforce split: sum.splits prod.splits nat.splits)

lemma spec_effect:
  assumes "\<And>s. P s \<Longrightarrow> C s" and "\<And>s. P s \<Longrightarrow> Q () (f s)"
  shows "spec P (effect f) Q C"
  unfolding effect_def by (rule spec_change) (use assms in auto)

lemma spec_weaken:
  assumes "spec P' p Q' C'" and "\<And>s. P s \<Longrightarrow> P' s" and "\<And>x s. Q' x s \<Longrightarrow> Q x s" and "\<And>s. C' s \<Longrightarrow> C s"
  shows "spec P p Q C"
  unfolding spec_def
proof (intro allI impI)
  fix n s assume "P s"
  obtain r m t where p: "p n s = (r, m, t)" by (cases "p n s")
  from specD [OF assms(1) assms(2) [OF \<open>P s\<close>] p] assms(3,4)
  show "case p n s of (Inr x, _, s') \<Rightarrow> Q x s' | (Inl _, _, s') \<Rightarrow> C s'" by (cases r) (auto simp: p)
qed

text \<open>A fact about the precondition that does not depend on the state can be assumed.\<close>

lemma spec_pure: "(b \<Longrightarrow> spec P p Q C) \<Longrightarrow> spec (\<lambda>s. P s \<and> b) p Q C"
  by (simp add: spec_def)

lemma spec_false: "(\<And>s. P s \<Longrightarrow> False) \<Longrightarrow> spec P p Q C"
  by (auto simp: spec_def)

text \<open>Invariants: what holds at every point of a run, however it ends.\<close>

definition always :: "(site \<Rightarrow> bool) \<Rightarrow> 'a io \<Rightarrow> bool" where
  "always I p \<longleftrightarrow> spec I p (\<lambda>_. I) I"

lemma always_liftio [intro!, simp]: "always I (liftio r)"
  unfolding always_def by (rule spec_liftio)

lemma always_give [intro!, simp]: "always I (give x)"
  by (simp add: give_def)

lemma always_fail [intro!, simp]: "always I (fail e)"
  by (simp add: fail_def)

lemma always_bind: "always I p \<Longrightarrow> (\<And>x. always I (q x)) \<Longrightarrow> always I (bindio p q)"
  unfolding always_def by (rule spec_bind)

lemma always_observe [intro!, simp]: "always I (observe f)"
  unfolding always_def by (rule spec_observe)

lemma always_volatile: "(\<And>s. I s \<Longrightarrow> I (snd (f s))) \<Longrightarrow> always I (volatile f)"
  unfolding always_def by (rule spec_volatile) (metis snd_conv sum.case_eq_if)

lemma always_change: "(\<And>s. I s \<Longrightarrow> I (snd (f s))) \<Longrightarrow> always I (change f)"
  unfolding always_def by (rule spec_change) (simp, metis snd_conv sum.case_eq_if)

lemma always_effect: "(\<And>s. I s \<Longrightarrow> I (f s)) \<Longrightarrow> always I (effect f)"
  unfolding effect_def by (rule always_change) simp

lemma always_each: "(\<And>x. x \<in> set xs \<Longrightarrow> always I (p x)) \<Longrightarrow> always I (each p xs)"
  by (induction xs) (auto intro!: always_bind)

lemma always_on_error:
  assumes "always I p" and "always I h"
  shows "always I (on_error p h)"
  unfolding always_def spec_def
proof (intro allI impI)
  fix n s assume "I s"
  obtain r m t where p: "p n s = (r, m, t)" by (cases "p n s")
  have t: "I t" using specD [OF assms(1) [unfolded always_def] \<open>I s\<close> p] by (cases r) auto
  obtain r' m' t' where h: "h m t = (r', m', t')" by (cases "h m t")
  have "I t'" using specD [OF assms(2) [unfolded always_def] t h] by (cases r') auto
  with t show "case on_error p h n s of (Inr x, _, s') \<Rightarrow> I s' | (Inl _, _, s') \<Rightarrow> I s'"
    by (auto simp: on_error_def p h split: sum.splits)
qed

lemma alwaysD: "always I p \<Longrightarrow> I s \<Longrightarrow> p n s = (r, n', s') \<Longrightarrow> I s'"
  unfolding always_def by (drule specD) (auto split: sum.splits)

end
