(* ===== verification/Transfers.thy ===== *)
theory Transfers
  imports Transfer_State
begin

text \<open>
  Detached transfers (\<open>src/src/httk/workflow/transfers.py\<close>): fencing and sealing a job at its
  source, validating a bundle, importing it at its destination, acknowledging it, and retiring it
  at the source. Each operation is a program that can be killed between any two changes of the
  file system.

  Manifests, ledgers, acknowledgements and receipts are the JSON objects they are written from; a
  JSON document that is read back has the same members.
\<close>

section \<open>What a call observes\<close>

text \<open>
  Clock, fresh identifiers, process and host, outcomes of renames, the digest functions of
  \<open>httk.core\<close>, \<open>str()\<close> of a value that is not a string, the signing and verification of
  documents, whether an identity can sign, the states in which copies and removals of trees can
  be seen, whether the runner store accepts a runner, the maximum segment size, and what a
  collection of the journal would see.
\<close>

record transfer_world =
  tw_now :: string
  tw_identifier :: string
  tw_epoch :: string
  tw_pid :: nat
  tw_origin :: origin
  tw_writer :: string
  tw_segment_bytes :: nat
  tw_rename :: rename_env
  tw_publish :: "bool list"
  tw_str :: "json \<Rightarrow> string"
  tw_file_digest :: "string \<Rightarrow> string"
  tw_runner_digest :: "string \<Rightarrow> string"
  tw_identity :: "unit res"
  tw_sign :: "obj \<Rightarrow> obj"
  tw_verify :: "obj \<Rightarrow> bool \<times> bool"
  tw_copies :: "payload list"
  tw_removals :: "transfer_dir list"
  tw_runner_copies :: "string option list"
  tw_retired_removals :: "payload list"
  tw_publish_runner :: "string \<Rightarrow> unit res"
  tw_trash_days :: "pyfloat option"
  tw_gc :: gc_view

definition str_text :: "transfer_world \<Rightarrow> json \<Rightarrow> string" where
  "str_text w v = (case v of JStr s \<Rightarrow> s | _ \<Rightarrow> tw_str w v)"

text \<open>\<open>mapping[name]\<close>.\<close>

definition member :: "obj \<Rightarrow> string \<Rightarrow> json res" where
  "member m name = (case map_of m name of None \<Rightarrow> Inl KeyError | Some v \<Rightarrow> Inr v)"

definition QUIESCENT_KINDS :: "kind list" where
  "QUIESCENT_KINDS = [Submitted, Ready, Waiting, Paused, Failed, Succeeded, Cancelled]"

section \<open>Validation of a bundle\<close>

definition runner_entry :: "json \<Rightarrow> (string \<times> string) res" where
  "runner_entry item =
     (case item of
        JObj o' \<Rightarrow>
          bindr (validate_runner_path (get o' ''path'') ''workspace'') (\<lambda>relative.
          bindr (validate_sha256 (get o' ''sha256'')) (\<lambda>digest. Inr (as_posix relative, digest)))
      | _ \<Rightarrow> Inl FormatError)"

definition manifest_runners :: "obj \<Rightarrow> (string \<times> string) list res" where
  "manifest_runners m =
     (case get_default m ''runners'' (JArr []) of JArr items \<Rightarrow> mapr runner_entry items | _ \<Rightarrow> Inl FormatError)"

definition carried_runners :: "transfer_world \<Rightarrow> transfer_dir \<Rightarrow> (string \<times> string) list \<Rightarrow> bool" where
  "carried_runners w td rs \<longleftrightarrow>
     list_all (\<lambda>(p, d). case map_of (td_runners td) p of None \<Rightarrow> False | Some c \<Rightarrow> tw_runner_digest w c = d) rs"

definition carried_seal :: "transfer_world \<Rightarrow> transfer_dir \<Rightarrow> json \<Rightarrow> bool" where
  "carried_seal w td entry \<longleftrightarrow>
     (case entry of
        JNull \<Rightarrow> True
      | JObj e \<Rightarrow>
          (case map_of (td_files td) (str_text w (get e ''path'')) of
             None \<Rightarrow> False
           | Some c \<Rightarrow> eq_str (get e ''sha256'') (tw_file_digest w c))
      | _ \<Rightarrow> False)"

text \<open>\<open>validate_bundle\<close>; \<open>None\<close> is a path where nothing is.\<close>

definition validate_bundle :: "transfer_world \<Rightarrow> payload option \<Rightarrow> obj res" where
  "validate_bundle w bundle =
     (case bundle of
        None \<Rightarrow> Inl FormatError
      | Some pl \<Rightarrow>
     (case pl_transfer pl of
        None \<Rightarrow> Inl FormatError
      | Some td \<Rightarrow>
     (case td_manifest td of
        None \<Rightarrow> Inl FormatError
      | Some m \<Rightarrow>
     bindr (guardr (eq_str (get m ''format'') ''httk-workflow-detached-transfer'' \<and>
         eq_str (get m ''core_profile'') ''core-v2'' \<and> eq_int (get m ''format_version'') 2) FormatError) (\<lambda>_.
     bindr (canonical_uuid (get m ''transfer_id'')) (\<lambda>_.
     bindr (canonical_uuid (get m ''source_workspace_id'')) (\<lambda>_.
     bindr (canonical_uuid (get m ''destination_workspace_id'')) (\<lambda>_.
     bindr (canonical_uuid (get m ''job_id'')) (\<lambda>_.
     bindr (normalize_placement (str_text w (get m ''destination_placement''))) (\<lambda>_.
     bindr (case get m ''sealed_marker'' of
         JStr name \<Rightarrow> guardr (map_of (td_files td) name \<noteq> None) FormatError | _ \<Rightarrow> Inl FormatError) (\<lambda>_.
     bindr (payload_digest (tw_file_digest w) (pl_entries pl)) (\<lambda>digest.
     bindr (guardr (eq_str (get m ''payload_sha256'') digest) FormatError) (\<lambda>_.
     bindr (manifest_runners m) (\<lambda>rs.
     bindr (guardr (carried_runners w td rs) FormatError) (\<lambda>_.
     bindr (guardr (carried_seal w td (get m ''seal'')) FormatError) (\<lambda>_.
     Inr m)))))))))))))))"

section \<open>Steps shared by the operations\<close>

definition find_job :: "string \<Rightarrow> marker option io" where
  "find_job i = volatile (\<lambda>s.
     case find_marker_by_id (ws_tree (si_ws s)) i (ws_index (si_ws s)) of
       (r, idx) \<Rightarrow> (r, with_ws (\<lambda>ws. ws\<lparr>ws_index := idx\<rparr>) s))"

definition read_job_state :: "marker \<Rightarrow> obj io" where
  "read_job_state m = bindio (observe (\<lambda>s. read_state (si_ws s) m)) liftio"

definition open_writer :: "transfer_world \<Rightarrow> journal_writer io" where
  "open_writer w = change (\<lambda>s.
     case journal_writer_init (tw_writer w) (tw_segment_bytes w) (ws_journal (si_ws s)) of
       (r, jw, J) \<Rightarrow> (bindr r (\<lambda>_. Inr jw), with_ws (\<lambda>ws. ws\<lparr>ws_journal := J\<rparr>) s))"

definition append_frame :: "journal_writer \<Rightarrow> obj \<Rightarrow> string io" where
  "append_frame jw f = change (\<lambda>s.
     case append_record jw f (ws_journal (si_ws s)) of
       (r, _, J) \<Rightarrow> (r, with_ws (\<lambda>ws. ws\<lparr>ws_journal := J\<rparr>) s))"

text \<open>\<open>Workspace.transition\<close> with \<open>allow_sealed\<close>: the frame is appended, then the marker renamed.\<close>

definition transition_io ::
  "transfer_world \<Rightarrow> journal_writer \<Rightarrow> marker \<Rightarrow> kind \<Rightarrow> obj \<Rightarrow> marker io" where
  "transition_io w jw m k updates =
     bindio (bindio (observe (\<lambda>s. require_unsealed (si_ws s) None)) liftio) (\<lambda>_.
     if int (generation m) + 1 > 2 ^ 64 - 1 then fail WorkspaceCorruptionError
     else
       bindio (bindio (observe (\<lambda>s. dict_update
           (transition_envelope (si_ws s) m k (int (priority m)) (tw_now w)) updates)) (append_frame jw)) (\<lambda>ref.
       bindio (liftio (marker_path k (placement m) (job_key m) (int (priority m)) (int (generation m) + 1) ref)) (\<lambda>dst.
       change (\<lambda>s. case verified_marker_rename (tw_rename w) m dst (si_ws s) of
         (r, ws) \<Rightarrow> (r, s\<lparr>si_ws := ws\<rparr>)))))"

text \<open>\<open>_remove_tree\<close> of a transfer directory, through the states the world lists.\<close>

definition remove_transfer :: "transfer_world \<Rightarrow> string \<Rightarrow> unit io" where
  "remove_transfer w k =
     bindio (each (\<lambda>td. effect (set_transfer k (Some td))) (tw_removals w)) (\<lambda>_. effect (set_transfer k None))"

text \<open>\<open>_install_bundled_seal\<close>; \<open>td\<close> is the transfer directory as it is now.\<close>

definition install_seal :: "transfer_world \<Rightarrow> transfer_dir \<Rightarrow> obj \<Rightarrow> unit io" where
  "install_seal w td m =
     (case get m ''seal'' of
        JNull \<Rightarrow> give ()
      | JObj e \<Rightarrow>
          bindio (liftio (member e ''path'')) (\<lambda>name.
          case map_of (td_files td) (str_text w name) of
            None \<Rightarrow> fail FormatError
          | Some content \<Rightarrow>
              bindio (liftio (member m ''job_key'')) (\<lambda>key.
              bindio (observe (\<lambda>s. map_of (si_seals s) (str_text w key))) (\<lambda>existing.
              case existing of
                Some c \<Rightarrow>
                  bindio (liftio (member e ''sha256'')) (\<lambda>d.
                  if tw_file_digest w c = str_text w d then give () else fail WorkspaceCorruptionError)
              | None \<Rightarrow> effect (\<lambda>s. s\<lparr>si_seals := dict_set (str_text w key) content (si_seals s)\<rparr>))))
      | _ \<Rightarrow> fail FormatError)"

definition remember_io :: "transfer_world \<Rightarrow> obj \<Rightarrow> unit io" where
  "remember_io w m = change (\<lambda>s.
     case remember (tw_str w) m (si_received s) of
       Inl e \<Rightarrow> (Inl e, s) | Inr streams \<Rightarrow> (Inr (), s\<lparr>si_received := streams\<rparr>))"

definition prune_receipts :: "string \<Rightarrow> unit io" where
  "prune_receipts t =
     bindio (effect (\<lambda>s. s\<lparr>si_acks := dict_del t (si_acks s)\<rparr>)) (\<lambda>_.
     effect (\<lambda>s. s\<lparr>si_imported := dict_del t (si_imported s)\<rparr>))"

definition finish_incoming_receipt :: "transfer_world \<Rightarrow> marker \<Rightarrow> obj \<Rightarrow> unit io" where
  "finish_incoming_receipt w m state =
     (let k = payload_key (placement m) (job_key m)
      in case get state ''transfer'' of
           JObj provenance \<Rightarrow>
             bindio (liftio (sequence_of provenance)) (\<lambda>sequence.
             case sequence of
               None \<Rightarrow> give ()
             | Some _ \<Rightarrow>
                 bindio (observe (transfer_at k)) (\<lambda>found.
                 bindio (case found of
                     None \<Rightarrow> give ()
                   | Some td \<Rightarrow>
                       (case td_manifest td of
                          None \<Rightarrow> fail FormatError
                        | Some manifest \<Rightarrow>
                            bindio (install_seal w td manifest) (\<lambda>_. remove_transfer w k))) (\<lambda>_.
                 bindio (bindio (observe (\<lambda>s. received (tw_str w) provenance (si_received s))) liftio) (\<lambda>known.
                 bindio (if known then give () else remember_io w provenance) (\<lambda>_.
                 bindio (liftio (member provenance ''transfer_id'')) (\<lambda>t.
                 prune_receipts (str_text w t)))))))
         | _ \<Rightarrow> give ())"

text \<open>The protocol files of sequence numbers; two atomic writes each.\<close>

definition reserve_io :: "transfer_world \<Rightarrow> string \<Rightarrow> string \<Rightarrow> string \<Rightarrow> (string \<times> int \<times> string) io" where
  "reserve_io w peer job t = (\<lambda>n s.
     case reserve_sequence (tw_epoch w) n (tw_pid w) (tw_origin w) peer job t (si_protocol s) (si_session s) of
       (r, files, session) \<Rightarrow>
         (if r = Inl OSError then Inl Interrupted else r, n - 2, s\<lparr>si_protocol := files, si_session := session\<rparr>))"

definition fencing_io :: "transfer_world \<Rightarrow> string \<Rightarrow> string \<Rightarrow> unit io" where
  "fencing_io w peer t = volatile (\<lambda>s.
     (Inr (), s\<lparr>si_session := fencing (tw_pid w) (tw_origin w) peer t (si_session s)\<rparr>))"

definition sealed_io :: "transfer_world \<Rightarrow> string \<Rightarrow> string \<Rightarrow> unit io" where
  "sealed_io w peer t = (\<lambda>n s.
     case seal_reservation n (tw_pid w) (tw_origin w) peer t (si_protocol s) (si_session s) of
       (r, files, session) \<Rightarrow>
         (if r = Inl OSError then Inl Interrupted else r, n - 2, s\<lparr>si_protocol := files, si_session := session\<rparr>))"

section \<open>Sealing\<close>

text \<open>\<open>_bundled_runners\<close>: the runner of the job is copied next to the manifest.\<close>

definition set_runner :: "string \<Rightarrow> string \<Rightarrow> string option \<Rightarrow> site \<Rightarrow> site" where
  "set_runner k rel content =
     change_transfer k (\<lambda>td. td\<lparr>td_runners :=
       (case content of None \<Rightarrow> dict_del rel (td_runners td) | Some c \<Rightarrow> dict_set rel c (td_runners td))\<rparr>)"

definition bundled_runners :: "transfer_world \<Rightarrow> string \<Rightarrow> json list io" where
  "bundled_runners w k =
     bindio (bindio (observe (\<lambda>s. job_from_path
         (case map_of (si_payloads s) k of None \<Rightarrow> None | Some pl \<Rightarrow> pl_document pl))) liftio) (\<lambda>job.
     case jd_runner_sha256 job of
       None \<Rightarrow> give []
     | Some pinned \<Rightarrow>
         if jd_runner_source job \<noteq> ''workspace'' then give []
         else
           (let rel = as_posix (jd_runner_path job);
                entry = JObj [(''path'', JStr rel), (''sha256'', JStr pinned)]
            in bindio (observe (\<lambda>s. map_of (si_runners s) rel)) (\<lambda>source.
               case source of
                 None \<Rightarrow> fail FormatError
               | Some c \<Rightarrow>
                   if tw_runner_digest w c \<noteq> pinned then fail WorkspaceCorruptionError
                   else
                     bindio (observe (\<lambda>s. case transfer_at k s of
                         None \<Rightarrow> None | Some td \<Rightarrow> map_of (td_runners td) rel)) (\<lambda>embedded.
                     if (case embedded of None \<Rightarrow> False | Some c' \<Rightarrow> tw_runner_digest w c' = pinned)
                     then give [entry]
                     else
                       bindio (each (\<lambda>x. effect (set_runner k rel x)) (tw_runner_copies w)) (\<lambda>_.
                       bindio (effect (set_runner k rel (Some c))) (\<lambda>_. give [entry]))))))"

text \<open>\<open>_bundled_seal\<close>.\<close>

definition bundled_seal :: "transfer_world \<Rightarrow> string \<Rightarrow> string \<Rightarrow> json io" where
  "bundled_seal w k key =
     bindio (observe (\<lambda>s. map_of (si_seals s) key)) (\<lambda>found.
     case found of
       None \<Rightarrow> give JNull
     | Some c \<Rightarrow>
         bindio (effect (change_transfer k (\<lambda>td. td\<lparr>td_files := dict_set ''seal.json'' c (td_files td)\<rparr>))) (\<lambda>_.
         give (JObj [(''path'', JStr ''seal.json''), (''sha256'', JStr (tw_file_digest w c))])))"

definition transfer_manifest ::
  "string \<Rightarrow> marker \<Rightarrow> obj \<Rightarrow> string \<Rightarrow> string \<Rightarrow> string \<Rightarrow> string \<Rightarrow> json list \<Rightarrow> json \<Rightarrow> string \<Rightarrow> obj \<Rightarrow> obj" where
  "transfer_manifest source m state transfer_id destination target digest runners seal prior_kind prior =
     [(''format'', JStr ''httk-workflow-detached-transfer''), (''format_version'', JInt 2),
      (''core_profile'', JStr ''core-v2''), (''transfer_id'', JStr transfer_id),
      (''source_workspace_id'', JStr source), (''destination_workspace_id'', JStr destination),
      (''destination_remote'', get state ''destination_remote''), (''job_id'', JStr (job_id m)),
      (''job_key'', JStr (job_key m)), (''source_placement'', JStr (as_posix (placement m))),
      (''destination_placement'', JStr target), (''payload_sha256'', JStr digest),
      (''runners'', JArr runners), (''seal'', seal), (''prior_kind'', JStr prior_kind),
      (''prior_state'', JObj prior), (''priority'', JInt (int (priority m))),
      (''source_generation'', JInt (int (generation m))), (''sealed_marker'', JStr (last (path m)))] @
     (if has_key state ''transfer_sequence'' then [(''transfer_sequence'', get state ''transfer_sequence'')] else []) @
     (if has_key state ''transfer_epoch'' then [(''transfer_epoch'', get state ''transfer_epoch'')] else [])"

text \<open>Objects compare without the order of their members.\<close>

definition same_members :: "obj \<Rightarrow> obj \<Rightarrow> bool" where
  "same_members a b \<longleftrightarrow> canon (JObj a) = canon (JObj b)"

definition sealed_ledger :: "obj \<Rightarrow> string \<Rightarrow> string \<Rightarrow> obj" where
  "sealed_ledger manifest bundle now =
     dict_update manifest [(''status'', JStr ''sealed''), (''bundle'', JStr bundle), (''updated_at'', JStr now)]"

text \<open>\<open>_seal_transferring\<close>: the text of the path of the bundle.\<close>

definition seal_transferring :: "transfer_world \<Rightarrow> marker \<Rightarrow> obj \<Rightarrow> string io" where
  "seal_transferring w m state =
     (let k = payload_key (placement m) (job_key m); name = last (path m)
      in bindio (change (\<lambda>s.
           case map_of (si_payloads s) k of
             None \<Rightarrow> (Inl FileNotFoundError, s)
           | Some pl \<Rightarrow> (Inr (), if pl_transfer pl = None
               then set_transfer k (Some \<lparr>td_manifest = None, td_files = [], td_runners = []\<rparr>) s else s))) (\<lambda>_.
         bindio (liftio (canonical_uuid (get state ''transfer_id''))) (\<lambda>transfer_id.
         bindio (liftio (canonical_uuid (get state ''destination_workspace_id''))) (\<lambda>destination.
         case get state ''prior_state'' of
           JObj prior \<Rightarrow>
             bindio (bundled_runners w k) (\<lambda>runners.
             bindio (bundled_seal w k (job_key m)) (\<lambda>seal.
             bindio (liftio (member state ''destination_placement'')) (\<lambda>pl_value.
             bindio (bindio (observe (\<lambda>s. case map_of (si_payloads s) k of
                 None \<Rightarrow> Inl FileNotFoundError
               | Some pl \<Rightarrow> payload_digest (tw_file_digest w) (pl_entries pl))) liftio) (\<lambda>digest.
             bindio (observe (\<lambda>s. transfer_manifest (ws_id (si_ws s)) m state transfer_id destination
                 (str_text w pl_value) digest runners seal (str_text w (get state ''prior_kind'')) prior)) (\<lambda>manifest.
             bindio (observe (\<lambda>s. case transfer_at k s of None \<Rightarrow> None | Some td \<Rightarrow> td_manifest td)) (\<lambda>existing.
             bindio (case existing of
                 Some x \<Rightarrow> if same_members x manifest then give () else fail WorkspaceCorruptionError
               | None \<Rightarrow> effect (change_transfer k (\<lambda>td. td\<lparr>td_manifest := Some manifest\<rparr>))) (\<lambda>_.
             bindio (observe (\<lambda>s. path m \<in> set (ws_tree (si_ws s)))) (\<lambda>in_tree.
             bindio (observe (\<lambda>s. case transfer_at k s of None \<Rightarrow> False | Some td \<Rightarrow> map_of (td_files td) name \<noteq> None)) (\<lambda>embedded.
             bindio (if in_tree then
                 effect (\<lambda>s. change_transfer k (\<lambda>td. td\<lparr>td_files := dict_set name [] (td_files td)\<rparr>)
                   (with_ws (\<lambda>ws. ws\<lparr>ws_tree := filter (\<lambda>p. p \<noteq> path m) (ws_tree ws)\<rparr>) s))
               else if embedded then give () else fail WorkspaceCorruptionError) (\<lambda>_.
             bindio (observe (\<lambda>s. payload_text s k)) (\<lambda>bundle.
             bindio (effect (\<lambda>s. s\<lparr>si_ledgers := dict_set transfer_id (sealed_ledger manifest bundle (tw_now w)) (si_ledgers s)\<rparr>)) (\<lambda>_.
             bindio (sealed_io w destination transfer_id) (\<lambda>_.
             give bundle)))))))))))))
         | _ \<Rightarrow> fail FormatError))))"

section \<open>Detaching\<close>

text \<open>\<open>_waiting_parent_map\<close>, as the pairs of a child and a parent that waits for it.\<close>

definition waited_children :: "workspace \<Rightarrow> obj \<Rightarrow> string list" where
  "waited_children ws state =
     (case get state ''join'' of
        JObj join \<Rightarrow>
          (case get_default join ''children'' (JArr []) of
             JArr cs \<Rightarrow>
               List.map_filter (\<lambda>c. case c of
                   JObj child \<Rightarrow>
                     if eq_str (get child ''workspace_id'') (ws_id ws) then
                       (case get child ''job_id'' of JStr i \<Rightarrow> Some i | _ \<Rightarrow> None)
                     else None
                 | _ \<Rightarrow> None) cs
           | _ \<Rightarrow> [])
      | _ \<Rightarrow> [])"

definition waiting_parent_map :: "workspace \<Rightarrow> (string \<times> string) list res" where
  "waiting_parent_map ws =
     bindr (mapr (\<lambda>m. bindr (read_state ws m) (\<lambda>f. Inr (map (\<lambda>c. (c, job_id m)) (waited_children ws f))))
       (scan_markers (ws_tree ws) [Waiting])) (\<lambda>xs. Inr (concat xs))"

definition unresolved_join_reference ::
  "workspace \<Rightarrow> marker \<Rightarrow> (string \<times> string) list option \<Rightarrow> bool res" where
  "unresolved_join_reference ws m parents =
     (if kind m = Waiting then Inr True
      else bindr (case parents of None \<Rightarrow> waiting_parent_map ws | Some ps \<Rightarrow> Inr ps) (\<lambda>ps.
        Inr (job_id m \<in> set (map fst ps))))"

text \<open>The source marker: the one the caller knows, the current one, or an interrupted transfer.\<close>

definition source_marker :: "string \<Rightarrow> marker option \<Rightarrow> marker io" where
  "source_marker i known =
     (case known of
        Some m \<Rightarrow> if job_id m \<noteq> i then fail ValueError else give m
      | None \<Rightarrow>
          bindio (find_job i) (\<lambda>found.
          case found of
            Some m \<Rightarrow> give m
          | None \<Rightarrow>
              bindio (observe (\<lambda>s. filter (\<lambda>m. job_id m = i)
                  (scan_markers (ws_tree (si_ws s)) [Transferring]))) (\<lambda>interrupted.
              case interrupted of [m] \<Rightarrow> give m | _ \<Rightarrow> fail ValueError)))"

definition transfer_updates ::
  "string \<Rightarrow> int \<Rightarrow> string \<Rightarrow> string \<Rightarrow> string \<Rightarrow> string option \<Rightarrow> string \<Rightarrow> marker \<Rightarrow> obj \<Rightarrow> obj" where
  "transfer_updates t sequence epoch source destination remote target m prior =
     [(''transfer_id'', JStr t), (''transfer_sequence'', JInt sequence), (''transfer_epoch'', JStr epoch),
      (''source_workspace_id'', JStr source), (''destination_workspace_id'', JStr destination),
      (''destination_remote'', of_opt_str remote), (''destination_placement'', JStr target),
      (''prior_kind'', JStr (kind_name (kind m))), (''prior_state'', JObj prior),
      (''reason'', JStr ''detached_transfer'')]"

text \<open>
  \<open>collect_retired_journal\<close> without a batch, and its use after a transition that failed: the
  segment of the operation's writer goes if it holds nothing but its header.
\<close>

definition collect_retired_journal :: "transfer_world \<Rightarrow> segment list \<Rightarrow> site \<Rightarrow> site" where
  "collect_retired_journal w segs s =
     (if tw_trash_days w = None \<or> gv_journal_days (tw_gc w) = None \<or> segs = [] then s
      else with_ws (\<lambda>ws. ws\<lparr>ws_journal := snd (collect_journal_segments (tw_gc w) None (Some segs)
        (scan_markers (ws_tree ws) STATE_KINDS) (ws_journal ws))\<rparr>) s)"

definition discard_writer :: "transfer_world \<Rightarrow> unit io" where
  "discard_writer w =
     bindio (observe (\<lambda>s. segment_bytes (ws_journal (si_ws s)) (tw_writer w) 0)) (\<lambda>bytes.
     if bytes = Some SEGMENT_HEADER then effect (collect_retired_journal w [(tw_writer w, 0)]) else give ())"

definition detach_job ::
  "transfer_world \<Rightarrow> string \<Rightarrow> marker option \<Rightarrow> (string \<times> string) list option \<Rightarrow> string \<Rightarrow> string option \<Rightarrow>
     string option \<Rightarrow> string option \<Rightarrow> string io" where
  "detach_job w i known parents destination_workspace_id remote destination_placement transfer_id =
     bindio (liftio (canonical_uuid (JStr destination_workspace_id))) (\<lambda>destination.
     bindio (case transfer_id of None \<Rightarrow> give (tw_identifier w) | Some t \<Rightarrow> liftio (canonical_uuid (JStr t))) (\<lambda>identifier.
     bindio (observe (\<lambda>s. map_of (si_ledgers s) identifier)) (\<lambda>existing.
     case existing of
       Some ledger \<Rightarrow>
         if \<not> eq_str (get ledger ''destination_workspace_id'') destination then fail WorkspaceCorruptionError
         else liftio (bindr (member ledger ''bundle'') (\<lambda>b. Inr (str_text w b)))
     | None \<Rightarrow>
         bindio (source_marker i known) (\<lambda>m.
         if kind m = Transferring then
           bindio (read_job_state m) (\<lambda>state.
           if \<not> eq_str (get state ''transfer_id'') identifier \<or>
              \<not> eq_str (get state ''destination_workspace_id'') destination then fail ValueError
           else seal_transferring w m state)
         else if kind m \<notin> set QUIESCENT_KINDS then fail ValueError
         else
           bindio (bindio (observe (\<lambda>s. unresolved_join_reference (si_ws s) m parents)) liftio) (\<lambda>joined.
           if joined then fail ValueError
           else
             bindio (liftio (case destination_placement of
                 None \<Rightarrow> normalize_placement (as_posix (placement m))
               | Some text \<Rightarrow> normalize_placement (if text = [] then as_posix (placement m) else text))) (\<lambda>target.
             bindio (read_job_state m) (\<lambda>prior.
             bindio (finish_incoming_receipt w m prior) (\<lambda>_.
             bindio (reserve_io w destination i identifier) (\<lambda>(t, sequence, epoch).
             bindio (open_writer w) (\<lambda>jw.
             bindio (observe (\<lambda>s. ws_id (si_ws s))) (\<lambda>source.
             bindio (on_error (bindio (fencing_io w destination t) (\<lambda>_.
                 transition_io w jw m Transferring
                   (transfer_updates t sequence epoch source destination remote (as_posix target) m prior)))
               (discard_writer w)) (\<lambda>transferring.
             bindio (read_job_state transferring) (\<lambda>state.
             seal_transferring w transferring state)))))))))))))"

section \<open>Importing\<close>

text \<open>
  \<open>_verified_marker_rename\<close> of the marker embedded in the payload \<open>k\<close>: per attempt, whether the
  server performed the rename. A name that is not in the transfer directory cannot be renamed.
\<close>

fun publish_marker ::
  "bool list \<Rightarrow> string \<Rightarrow> string \<Rightarrow> string \<Rightarrow> string list \<Rightarrow> site \<Rightarrow> marker res \<times> site" where
  "publish_marker [] k key name dst s = (Inl WorkspaceUnavailableError, s)"
| "publish_marker (performed # env) k key name dst s =
     (let there = (\<lambda>s. case transfer_at k s of None \<Rightarrow> False | Some td \<Rightarrow> map_of (td_files td) name \<noteq> None);
          s1 = (if performed \<and> there s
                then change_transfer k (\<lambda>td. td\<lparr>td_files := dict_del name (td_files td)\<rparr>)
                  (with_ws (\<lambda>ws. ws\<lparr>ws_tree := dst # filter (\<lambda>p. p \<noteq> dst) (ws_tree ws)\<rparr>) s)
                else s);
          ws = si_ws s1;
          note = (\<lambda>idx. with_ws (\<lambda>ws. ws\<lparr>ws_index := idx\<rparr>) s1)
      in if dst \<in> set (ws_tree ws) then
           (case marker_from_path dst of
              Inl e \<Rightarrow> (Inl e, s1)
            | Inr moved \<Rightarrow> (Inr moved, note (index_note moved (ws_index ws))))
         else if there s1 then publish_marker env k key name dst s1
         else case find_markers (ws_tree ws) key CORE_STATE_KINDS (ws_index ws) of
           (Inl e, idx) \<Rightarrow> (Inl e, note idx)
         | (Inr [], idx) \<Rightarrow> publish_marker env k key name dst (note idx)
         | (Inr [c], idx) \<Rightarrow> (Inl TransitionLostError, note idx)
         | (Inr _, idx) \<Rightarrow> (Inl WorkspaceCorruptionError, note idx))"

text \<open>\<open>_install_bundled_runners\<close>.\<close>

definition install_runner :: "transfer_world \<Rightarrow> transfer_dir \<Rightarrow> string \<times> string \<Rightarrow> unit io" where
  "install_runner w td r =
     (case r of (rel, digest) \<Rightarrow>
        bindio (observe (\<lambda>s. map_of (si_runners s) rel)) (\<lambda>existing.
        case existing of
          Some c \<Rightarrow> if tw_runner_digest w c = digest then give () else fail WorkspaceCorruptionError
        | None \<Rightarrow>
            (case map_of (td_runners td) rel of
               None \<Rightarrow> fail FormatError
             | Some c \<Rightarrow>
                 bindio (bindio (observe (\<lambda>s. require_unsealed (si_ws s) None)) liftio) (\<lambda>_.
                 bindio (liftio (tw_publish_runner w rel)) (\<lambda>_.
                 effect (\<lambda>s. s\<lparr>si_runners := dict_set rel c (si_runners s)\<rparr>))))))"

definition install_runners :: "transfer_world \<Rightarrow> transfer_dir \<Rightarrow> obj \<Rightarrow> unit io" where
  "install_runners w td m = bindio (liftio (manifest_runners m)) (each (install_runner w td))"

text \<open>The acknowledgement of one transfer, and the one that a sequenced manifest determines.\<close>

definition acknowledgement ::
  "transfer_world \<Rightarrow> string \<Rightarrow> obj \<Rightarrow> string \<Rightarrow> string \<Rightarrow> json \<Rightarrow> string \<Rightarrow> obj res" where
  "acknowledgement w site_id m transfer_id digest place state =
     bindr (member m ''source_workspace_id'') (\<lambda>source.
     bindr (member m ''job_id'') (\<lambda>i.
     bindr (member m ''job_key'') (\<lambda>key.
     Inr (tw_sign w
       [(''format'', JStr ''httk-workflow-transfer-acknowledgement''), (''format_version'', JInt 2),
        (''transfer_id'', JStr transfer_id), (''source_workspace_id'', source),
        (''destination_workspace_id'', JStr site_id), (''payload_sha256'', JStr digest), (''job_id'', i),
        (''job_key'', key), (''placement'', place), (''state'', JStr state),
        (''acknowledged_at'', JStr (tw_now w))]))))"

definition sequence_ack :: "transfer_world \<Rightarrow> string \<Rightarrow> obj \<Rightarrow> obj res" where
  "sequence_ack w site_id m =
     bindr (mapr (member m) [''transfer_id'', ''transfer_sequence'', ''source_workspace_id'', ''payload_sha256'',
       ''job_id'', ''job_key'', ''destination_placement'', ''prior_kind'']) (\<lambda>_.
     Inr (tw_sign w
       ([(''format'', JStr ''httk-workflow-transfer-acknowledgement''), (''format_version'', JInt 2),
         (''transfer_id'', get m ''transfer_id''), (''transfer_sequence'', get m ''transfer_sequence'')] @
        (if has_key m ''transfer_epoch'' then [(''transfer_epoch'', get m ''transfer_epoch'')] else []) @
        [(''source_workspace_id'', get m ''source_workspace_id''), (''destination_workspace_id'', JStr site_id),
         (''payload_sha256'', get m ''payload_sha256''), (''job_id'', get m ''job_id''),
         (''job_key'', get m ''job_key''), (''placement'', get m ''destination_placement''),
         (''state'', get m ''prior_kind'')])))"

text \<open>The frame of the imported job: the prior state with a new envelope and its provenance.\<close>

definition imported_frame ::
  "transfer_world \<Rightarrow> string \<Rightarrow> obj \<Rightarrow> obj \<Rightarrow> string \<Rightarrow> string list \<Rightarrow> int \<Rightarrow> int \<Rightarrow> string \<Rightarrow> string \<Rightarrow> obj" where
  "imported_frame w site_id m prior prior_kind target gen prio transfer_id digest =
     dict_update
       (filter (\<lambda>(k, _). k \<notin> {''workspace_id'', ''state_generation'', ''kind'', ''previous_record_ref'',
          ''created_at'', ''placement'', ''priority''}) prior)
       [(''format'', JStr ''httk-workflow-state''), (''format_version'', JInt 2),
        (''workspace_id'', JStr site_id), (''job_id'', get m ''job_id''), (''job_key'', get m ''job_key''),
        (''placement'', JStr (as_posix target)), (''state_generation'', JInt gen), (''kind'', JStr prior_kind),
        (''previous_record_ref'', JNull), (''created_at'', JStr (tw_now w)), (''priority'', JInt prio),
        (''transfer'', JObj
          ([(''transfer_id'', JStr transfer_id)] @
           (if has_key m ''transfer_sequence'' then [(''transfer_sequence'', get m ''transfer_sequence'')] else []) @
           (if has_key m ''transfer_epoch'' then [(''transfer_epoch'', get m ''transfer_epoch'')] else []) @
           [(''source_workspace_id'', get m ''source_workspace_id''), (''payload_sha256'', JStr digest)]))]"

text \<open>The payload is put in place, unless an earlier import already did.\<close>

definition stage_payload :: "transfer_world \<Rightarrow> payload \<Rightarrow> string \<Rightarrow> string \<Rightarrow> string list \<Rightarrow> unit io" where
  "stage_payload w bundle transfer_id digest p =
     bindio (observe (\<lambda>s. map_of (si_payloads s) (as_posix p))) (\<lambda>target.
     case target of
       Some pl \<Rightarrow>
         bindio (liftio (validate_bundle w (Some pl))) (\<lambda>m.
         if \<not> eq_str (get m ''payload_sha256'') digest then fail FileExistsError else give ())
     | None \<Rightarrow>
         bindio (observe (\<lambda>s. map_of (si_staging s) transfer_id)) (\<lambda>staged.
         bindio (case staged of
             Some pl \<Rightarrow>
               bindio (liftio (validate_bundle w (Some pl))) (\<lambda>m.
               if \<not> eq_str (get m ''payload_sha256'') digest then fail WorkspaceCorruptionError else give ())
           | None \<Rightarrow>
               each (\<lambda>pl. effect (\<lambda>s. s\<lparr>si_staging := dict_set transfer_id pl (si_staging s)\<rparr>))
                 (tw_copies w @ [bundle])) (\<lambda>_.
         bindio (bindio (observe (\<lambda>s. case map_of (si_staging s) transfer_id of
             None \<Rightarrow> Inl FileNotFoundError
           | Some pl \<Rightarrow> payload_digest (tw_file_digest w) (pl_entries pl))) liftio) (\<lambda>copied.
         if copied \<noteq> digest then fail FormatError
         else if True \<notin> set (tw_publish w) then fail WorkspaceUnavailableError
         else effect (\<lambda>s. case map_of (si_staging s) transfer_id of
             None \<Rightarrow> s
           | Some pl \<Rightarrow> with_ws (\<lambda>ws. ws\<lparr>ws_documents := (ws_documents ws)(p := pl_document pl)\<rparr>)
               (s\<lparr>si_staging := dict_del transfer_id (si_staging s),
                  si_payloads := dict_set (as_posix p) pl (si_payloads s)\<rparr>))))))"

text \<open>The tail of an import: the seal is installed and the transfer directory removed, if it is there.\<close>

definition finish_directory :: "transfer_world \<Rightarrow> string \<Rightarrow> obj \<Rightarrow> unit io" where
  "finish_directory w k m =
     bindio (observe (transfer_at k)) (\<lambda>found.
     case found of
       None \<Rightarrow> give ()
     | Some td \<Rightarrow> bindio (install_seal w td m) (\<lambda>_. remove_transfer w k))"

definition write_ack :: "string \<Rightarrow> obj \<Rightarrow> obj io" where
  "write_ack transfer_id ack =
     bindio (effect (\<lambda>s. s\<lparr>si_acks := dict_set transfer_id ack (si_acks s)\<rparr>)) (\<lambda>_. give ack)"

text \<open>An import that an earlier one of the same transfer already published.\<close>

definition import_duplicate ::
  "transfer_world \<Rightarrow> obj \<Rightarrow> string \<Rightarrow> string \<Rightarrow> marker \<Rightarrow> obj io" where
  "import_duplicate w m transfer_id digest duplicate =
     bindio (read_job_state duplicate) (\<lambda>state.
     case get state ''transfer'' of
       JObj provenance \<Rightarrow>
         if \<not> eq_str (get provenance ''transfer_id'') transfer_id then fail FileExistsError
         else if \<not> eq_str (get provenance ''payload_sha256'') digest then fail WorkspaceCorruptionError
         else
           bindio (liftio (member state ''placement'')) (\<lambda>place.
           bindio (bindio (observe (\<lambda>s. ws_id (si_ws s))) (\<lambda>site_id.
             liftio (acknowledgement w site_id m transfer_id digest place (kind_name (kind duplicate))))) (\<lambda>ack.
           bindio (finish_directory w (payload_key (placement duplicate) (job_key duplicate)) m) (\<lambda>_.
           write_ack transfer_id ack)))
     | _ \<Rightarrow> fail FileExistsError)"

text \<open>Publishing the prior state of the job whose payload is in place.\<close>

definition publish_import ::
  "transfer_world \<Rightarrow> obj \<Rightarrow> string \<Rightarrow> string \<Rightarrow> string list \<Rightarrow> string \<Rightarrow> obj io" where
  "publish_import w m transfer_id digest target key =
     (let k = payload_key target key
      in case get m ''prior_state'' of
           JObj prior \<Rightarrow>
             bindio (bindio (liftio (member m ''prior_kind'')) (\<lambda>v. give (str_text w v))) (\<lambda>prior_kind.
             case kind_of_name prior_kind of
               None \<Rightarrow> fail FormatError
             | Some pk \<Rightarrow>
                 if pk \<notin> set QUIESCENT_KINDS then fail FormatError
                 else
                   bindio (liftio (bindr (member m ''source_generation'') py_int)) (\<lambda>source_gen.
                   bindio (liftio (bindr (member m ''priority'') py_int)) (\<lambda>prio.
                   bindio (open_writer w) (\<lambda>jw.
                   bindio (bindio (observe (\<lambda>s. imported_frame w (ws_id (si_ws s)) m prior prior_kind target
                       (source_gen + 1) prio transfer_id digest)) (append_frame jw)) (\<lambda>ref.
                   bindio (liftio (marker_path pk target key prio (source_gen + 1) ref)) (\<lambda>dst.
                   bindio (liftio (bindr (member m ''source_placement'') (\<lambda>v. normalize_placement (str_text w v)))) (\<lambda>_.
                   bindio (liftio (bindr (member m ''sealed_marker'') (\<lambda>v. Inr (str_text w v)))) (\<lambda>name.
                   bindio (change (publish_marker (tw_publish w) k key name dst)) (\<lambda>imported.
                   bindio (effect (\<lambda>s. s\<lparr>si_imported := dict_set transfer_id
                       (dict_update m [(''status'', JStr ''imported''), (''marker'', JStr (as_posix (path imported))),
                         (''imported_at'', JStr (tw_now w))]) (si_imported s)\<rparr>)) (\<lambda>_.
                   bindio (bindio (observe (transfer_at k)) (\<lambda>found. case found of
                       None \<Rightarrow> (case get m ''seal'' of JNull \<Rightarrow> fail FileNotFoundError | _ \<Rightarrow> fail FormatError)
                     | Some td \<Rightarrow> bindio (install_seal w td m) (\<lambda>_. remove_transfer w k))) (\<lambda>_.
                   bindio (bindio (observe (\<lambda>s. ws_id (si_ws s))) (\<lambda>site_id.
                     liftio (acknowledgement w site_id m transfer_id digest (JStr (as_posix target)) prior_kind))) (\<lambda>ack.
                   write_ack transfer_id ack))))))))))))
         | _ \<Rightarrow> fail FormatError)"

text \<open>\<open>_import_bundle\<close>, for a marker that was looked up.\<close>

definition import_bundle :: "transfer_world \<Rightarrow> payload option \<Rightarrow> marker option \<Rightarrow> obj io" where
  "import_bundle w bundle known =
     bindio (liftio (validate_bundle w bundle)) (\<lambda>m.
     let transfer_id = str_text w (get m ''transfer_id''); digest = str_text w (get m ''payload_sha256'')
     in bindio (observe (\<lambda>s. map_of (si_acks s) transfer_id)) (\<lambda>existing.
        case existing of
          Some ack \<Rightarrow> if \<not> eq_str (get ack ''payload_sha256'') digest then fail WorkspaceCorruptionError else give ack
        | None \<Rightarrow>
            bindio (observe (\<lambda>s. ws_id (si_ws s))) (\<lambda>site_id.
            if \<not> eq_str (get m ''destination_workspace_id'') site_id then fail ValueError
            else
              bindio (liftio (tw_identity w)) (\<lambda>_.
              bindio (install_runners w (the (pl_transfer (the bundle))) m) (\<lambda>_.
              case known of
                Some duplicate \<Rightarrow> import_duplicate w m transfer_id digest duplicate
              | None \<Rightarrow>
                  bindio (liftio (normalize_placement (str_text w (get m ''destination_placement'')))) (\<lambda>target.
                  bindio (liftio (bindr (member m ''job_key'') (\<lambda>v. Inr (str_text w v)))) (\<lambda>key.
                  bindio (stage_payload w (the bundle) transfer_id digest (payload_path target key)) (\<lambda>_.
                  publish_import w m transfer_id digest target key))))))))"

text \<open>Whether the marker of a job records the transfer of a manifest.\<close>

definition same_provenance :: "obj \<Rightarrow> obj \<Rightarrow> bool" where
  "same_provenance state m \<longleftrightarrow>
     (case get state ''transfer'' of
        JObj provenance \<Rightarrow>
          list_all (\<lambda>k. get provenance k = get m k) [''transfer_id'', ''payload_sha256'', ''transfer_epoch'']
      | _ \<Rightarrow> False)"

text \<open>\<open>_import_one\<close>; \<open>known\<close> is the marker of the job when the caller looked it up.\<close>

definition import_known :: "transfer_world \<Rightarrow> payload option \<Rightarrow> marker option option \<Rightarrow> obj io" where
  "import_known w bundle known =
     bindio (liftio (validate_bundle w bundle)) (\<lambda>m.
     bindio (observe (\<lambda>s. ws_id (si_ws s))) (\<lambda>site_id.
     if \<not> eq_str (get m ''destination_workspace_id'') site_id then fail ValueError
     else
       bindio (case known of None \<Rightarrow> find_job (str_text w (get m ''job_id'')) | Some x \<Rightarrow> give x) (\<lambda>found.
       bindio (liftio (sequence_of m)) (\<lambda>sequence.
       case sequence of
         None \<Rightarrow> import_bundle w bundle found
       | Some _ \<Rightarrow>
           bindio (liftio (tw_identity w)) (\<lambda>_.
           bindio (bindio (observe (\<lambda>s. received (tw_str w) m (si_received s))) liftio) (\<lambda>replayed.
           bindio
             (if replayed then
                (case found of
                   Some marker \<Rightarrow>
                     bindio (read_job_state marker) (\<lambda>state.
                     if same_provenance state m then give () else fail WorkspaceCorruptionError)
                 | None \<Rightarrow>
                     bindio (liftio (epoch_of m)) (\<lambda>epoch.
                     if epoch = None then fail WorkspaceCorruptionError else give ()))
              else bindio (import_bundle w bundle found) (\<lambda>_. remember_io w m)) (\<lambda>_.
           bindio (prune_receipts (str_text w (get m ''transfer_id''))) (\<lambda>_.
           liftio (sequence_ack w site_id m)))))))))"

text \<open>\<open>import_bundle\<close> of the code, and \<open>import_bundles\<close> of a list that is scanned for once.\<close>

definition import_one :: "transfer_world \<Rightarrow> payload option \<Rightarrow> obj io" where
  "import_one w bundle = import_known w bundle None"

fun import_each ::
  "transfer_world \<Rightarrow> marker list \<Rightarrow> string list \<Rightarrow> payload option list \<Rightarrow> obj list io" where
  "import_each w ms seen_ids [] = give []"
| "import_each w ms seen_ids (b # bs) =
     bindio (liftio (bindr (validate_bundle w b) (\<lambda>m. Inr (str_text w (get m ''job_id''))))) (\<lambda>i.
     bindio (import_known w b (if i \<in> set seen_ids then None else Some (List.find (\<lambda>m. job_id m = i) ms))) (\<lambda>r.
     bindio (import_each w ms (i # seen_ids) bs) (\<lambda>rs. give (r # rs))))"

definition import_bundles :: "transfer_world \<Rightarrow> payload option list \<Rightarrow> obj list io" where
  "import_bundles w bs =
     (case bs of
        [] \<Rightarrow> give []
      | [b] \<Rightarrow> bindio (import_one w b) (\<lambda>r. give [r])
      | _ \<Rightarrow>
          bindio (observe (\<lambda>s. scan_markers (ws_tree (si_ws s)) STATE_KINDS)) (\<lambda>ms.
          if \<not> distinct (map job_id ms) then fail WorkspaceCorruptionError else import_each w ms [] bs))"

section \<open>Retiring\<close>

definition segment_key :: "string \<Rightarrow> nat \<Rightarrow> string" where
  "segment_key writer n = writer @ ''/'' @ nat_text n"

text \<open>\<open>_retired_journal_refs\<close>: one reference per segment of the readable history.\<close>

fun chain_refs :: "(string \<times> obj option) list \<Rightarrow> string dict \<Rightarrow> string dict" where
  "chain_refs [] acc = acc"
| "chain_refs ((ref, None) # rest) acc = acc"
| "chain_refs ((ref, Some f) # rest) acc =
     (case parse_record_ref ref of
        Inl _ \<Rightarrow> acc
      | Inr (writer, n, _) \<Rightarrow> chain_refs rest (dict_set (segment_key writer n) ref acc))"

definition retired_journal_refs :: "transfer_world \<Rightarrow> workspace \<Rightarrow> obj \<Rightarrow> string list" where
  "retired_journal_refs w ws ledger =
     (let name = str_text w (get_default ledger ''sealed_marker'' (JStr ''init''));
          ref = (case rsplit1 CHR ''.'' name of None \<Rightarrow> name | Some (_, r) \<Rightarrow> r)
      in map snd (chain_refs (iter_record_chain (\<lambda>_. [ws_journal ws]) ref) []))"

definition retired_text :: "site \<Rightarrow> string \<Rightarrow> string" where
  "retired_text s t = si_root s @ ''/.httk-workspace/transfers/retired/'' @ t @ ''/bundle''"

definition set_ledger :: "string \<Rightarrow> obj \<Rightarrow> site \<Rightarrow> site" where
  "set_ledger t l s = s\<lparr>si_ledgers := dict_set t l (si_ledgers s)\<rparr>"

text \<open>\<open>_reclaim_retired_transfer\<close>.\<close>

definition reclaim_retired :: "transfer_world \<Rightarrow> string \<Rightarrow> unit io" where
  "reclaim_retired w t =
     (if tw_trash_days w = None then give ()
      else bindio (observe (\<lambda>s. map_of (si_retired s) t)) (\<lambda>found.
        case found of
          None \<Rightarrow> give ()
        | Some _ \<Rightarrow>
            bindio (each (\<lambda>pl. effect (\<lambda>s. s\<lparr>si_retired := dict_set t pl (si_retired s)\<rparr>)) (tw_retired_removals w)) (\<lambda>_.
            effect (\<lambda>s. s\<lparr>si_retired := dict_del t (si_retired s)\<rparr>))))"

text \<open>\<open>_remember_pending_journal\<close>.\<close>

fun add_pending :: "json list \<Rightarrow> string dict \<Rightarrow> string dict res" where
  "add_pending [] pending = Inr pending"
| "add_pending (v # vs) pending =
     (case v of
        JStr ref \<Rightarrow> bindr (parse_record_ref ref) (\<lambda>(writer, n, _). add_pending vs (dict_set (segment_key writer n) ref pending))
      | _ \<Rightarrow> Inl FormatError)"

definition reference_segments :: "string list \<Rightarrow> segment list" where
  "reference_segments refs =
     List.map_filter (\<lambda>ref. case parse_record_ref ref of Inl _ \<Rightarrow> None | Inr (writer, n, _) \<Rightarrow> Some (writer, n)) refs"

definition segment_exists :: "site \<Rightarrow> string \<Rightarrow> bool" where
  "segment_exists s ref =
     (case parse_record_ref ref of
        Inl _ \<Rightarrow> False | Inr (writer, n, _) \<Rightarrow> segment_bytes (ws_journal (si_ws s)) writer n \<noteq> None)"

definition remember_pending_journal :: "transfer_world \<Rightarrow> json list \<Rightarrow> unit io" where
  "remember_pending_journal w refs =
     bindio (bindio (observe (\<lambda>s. add_pending refs (si_pending s))) liftio) (\<lambda>pending.
     if pending = [] then give ()
     else
       bindio (effect (\<lambda>s. s\<lparr>si_pending := pending\<rparr>)) (\<lambda>_.
       bindio (each (\<lambda>seg. effect (collect_retired_journal w [seg])) (reference_segments (map snd pending))) (\<lambda>_.
       effect (\<lambda>s. s\<lparr>si_pending := filter (\<lambda>(_, ref). segment_exists s ref) pending\<rparr>))))"

text \<open>The active bundle moves aside; \<open>k\<close> is its key.\<close>

definition move_aside :: "string \<Rightarrow> string \<Rightarrow> site \<Rightarrow> site" where
  "move_aside k t s =
     (case map_of (si_payloads s) k of
        None \<Rightarrow> s
      | Some pl \<Rightarrow>
          with_ws (\<lambda>ws. ws\<lparr>ws_documents := (ws_documents ws)(split_on CHR ''/'' k := None)\<rparr>)
            (s\<lparr>si_payloads := dict_del k (si_payloads s), si_retired := dict_set t pl (si_retired s)\<rparr>))"

text \<open>\<open>_retire_sealed_bundle\<close>: the text of the path of the retired bundle.\<close>

definition retire_sealed_bundle :: "transfer_world \<Rightarrow> string \<Rightarrow> obj \<Rightarrow> string io" where
  "retire_sealed_bundle w t provenance =
     bindio (observe (\<lambda>s. map_of (si_ledgers s) t)) (\<lambda>found.
     case found of
       None \<Rightarrow> observe (\<lambda>s. retired_text s t)
     | Some ledger \<Rightarrow>
         bindio (liftio (member ledger ''destination_workspace_id'')) (\<lambda>destination.
         bindio (liftio (member ledger ''transfer_id'')) (\<lambda>identifier.
         bindio (sealed_io w (str_text w destination) (str_text w identifier)) (\<lambda>_.
         bindio
           (if \<not> eq_str (get ledger ''status'') ''retired'' then
              bindio (liftio (member ledger ''bundle'')) (\<lambda>b.
              let text = str_text w b in
              bindio (observe (\<lambda>s. payload_at s text)) (\<lambda>active.
              bindio (observe (\<lambda>s. map_of (si_retired s) t)) (\<lambda>retired.
              bindio
                (case retired of
                   Some _ \<Rightarrow> if active \<noteq> None then fail WorkspaceCorruptionError else give ()
                 | None \<Rightarrow>
                     bindio (liftio (validate_bundle w active)) (\<lambda>_.
                     effect (\<lambda>s. case key_of_text s text of None \<Rightarrow> s | Some k \<Rightarrow> move_aside k t s))) (\<lambda>_.
              bindio (liftio (member ledger ''job_key'')) (\<lambda>key.
              bindio (effect (\<lambda>s. s\<lparr>si_seals := dict_del (str_text w key) (si_seals s)\<rparr>)) (\<lambda>_.
              bindio (observe (\<lambda>s. dict_update (dict_update ledger
                  [(''status'', JStr ''retired''), (''retired_bundle'', JStr (retired_text s t)),
                   (''retired_journal_refs'', JArr (map JStr (retired_journal_refs w (si_ws s) ledger))),
                   (''updated_at'', JStr (tw_now w))]) provenance)) (\<lambda>ledger'.
              bindio (effect (set_ledger t ledger')) (\<lambda>_. give ledger'))))))))
            else if \<not> has_key ledger ''retired_journal_refs'' then
              bindio (observe (\<lambda>s. dict_set ''retired_journal_refs''
                  (JArr (map JStr (retired_journal_refs w (si_ws s) ledger))) ledger)) (\<lambda>ledger'.
              bindio (effect (set_ledger t ledger')) (\<lambda>_. give ledger'))
            else give ledger) (\<lambda>ledger'.
         bindio (reclaim_retired w t) (\<lambda>_.
         bindio
           (if tw_trash_days w = None then give ()
            else bindio (remember_pending_journal w
                (case get_default ledger' ''retired_journal_refs'' (JArr []) of JArr vs \<Rightarrow> vs | _ \<Rightarrow> [])) (\<lambda>_.
              effect (\<lambda>s. s\<lparr>si_ledgers := dict_del t (si_ledgers s)\<rparr>))) (\<lambda>_.
         liftio (bindr (member ledger' ''retired_bundle'') (\<lambda>v. Inr (str_text w v))))))))))"

text \<open>\<open>_acknowledge_transfer\<close>.\<close>

definition ack_agrees :: "obj \<Rightarrow> obj \<Rightarrow> bool" where
  "ack_agrees ack ledger \<longleftrightarrow>
     (has_key ack ''transfer_sequence'' \<longrightarrow>
        (case get ledger ''transfer_sequence'' of
           JInt n \<Rightarrow> eq_int (get ack ''transfer_sequence'') n | v \<Rightarrow> get ack ''transfer_sequence'' = v)) \<and>
     list_all (\<lambda>k. get ack k = get ledger k)
       [''source_workspace_id'', ''destination_workspace_id'', ''payload_sha256'', ''job_id'', ''job_key'',
        ''transfer_epoch'']"

definition acknowledge_transfer :: "transfer_world \<Rightarrow> obj \<Rightarrow> string io" where
  "acknowledge_transfer w ack =
     (if \<not> eq_str (get ack ''format'') ''httk-workflow-transfer-acknowledgement'' then fail FormatError
      else if fst (tw_verify w ack) \<and> \<not> snd (tw_verify w ack) then fail FormatError
      else
        bindio (liftio (canonical_uuid (get ack ''transfer_id''))) (\<lambda>t.
        bindio (observe (\<lambda>s. map_of (si_ledgers s) t)) (\<lambda>found.
        case found of
          None \<Rightarrow> observe (\<lambda>s. retired_text s t)
        | Some ledger \<Rightarrow>
            if \<not> ack_agrees ack ledger then fail FormatError
            else retire_sealed_bundle w t [(''acknowledgement'', JObj ack)])))"

text \<open>\<open>recover_transfers\<close>: the bundles by transfer identifier.\<close>

definition recover_transfers :: "transfer_world \<Rightarrow> unit io" where
  "recover_transfers w =
     bindio (bindio (observe (\<lambda>s. sort_key fst (si_ledgers s))) (each (\<lambda>(_, ledger).
         bindio (liftio (member ledger ''transfer_id'')) (\<lambda>v. let t = str_text w v in
         if eq_str (get ledger ''status'') ''retired'' then bindio (retire_sealed_bundle w t []) (\<lambda>_. give ())
         else bindio (liftio (member ledger ''destination_workspace_id'')) (\<lambda>d. sealed_io w (str_text w d) t))))) (\<lambda>_.
     bindio (bindio (observe (\<lambda>s. scan_markers (ws_tree (si_ws s)) [Transferring])) (each (\<lambda>m.
         bindio (read_job_state m) (\<lambda>state. bindio (seal_transferring w m state) (\<lambda>_. give ()))))) (\<lambda>_.
     bindio (observe (\<lambda>s. filter (\<lambda>(_, pl). case pl_transfer pl of
         None \<Rightarrow> False | Some td \<Rightarrow> td_manifest td \<noteq> None) (si_payloads s))) (each (\<lambda>(k, pl).
       bindio (liftio (validate_bundle w (Some pl))) (\<lambda>m. let t = str_text w (get m ''transfer_id'') in
       bindio (observe (\<lambda>s. map_of (si_ledgers s) t)) (\<lambda>found.
       bindio (observe (\<lambda>s. payload_text s k)) (\<lambda>text.
       if found \<noteq> None then give () else effect (set_ledger t (sealed_ledger m text (tw_now w))))))))))"

text \<open>\<open>retire_transfers\<close>; the ledgers were read when it started.\<close>

definition retire_one :: "transfer_world \<Rightarrow> string option \<Rightarrow> obj list \<Rightarrow> string \<Rightarrow> unit io" where
  "retire_one w destination ledgers job =
     bindio (liftio (canonical_uuid (JStr job))) (\<lambda>i.
     let matches = filter (\<lambda>l. eq_str (get l ''job_id'') i \<and>
           (case destination of None \<Rightarrow> True | Some d \<Rightarrow> eq_str (get l ''destination_workspace_id'') d)) ledgers;
         active = filter (\<lambda>l. \<not> eq_str (get l ''status'') ''retired'') matches
     in if matches = [] then
          bindio (find_job i) (\<lambda>found. if found \<noteq> None then fail ValueError else give ())
        else if length active > 1 then fail WorkspaceCorruptionError
        else
          bindio (liftio (member (if active \<noteq> [] then hd active else last matches) ''transfer_id'')) (\<lambda>v.
          bindio (retire_sealed_bundle w (str_text w v) [(''retired_by'', JStr ''fetch'')]) (\<lambda>_. give ())))"

definition retire_transfers :: "transfer_world \<Rightarrow> string list \<Rightarrow> string option \<Rightarrow> unit io" where
  "retire_transfers w jobs destination =
     bindio (liftio (case destination of None \<Rightarrow> Inr None | Some d \<Rightarrow> bindr (canonical_uuid (JStr d)) (\<lambda>x. Inr (Some x)))) (\<lambda>d.
     bindio (observe (\<lambda>s. map snd (sort_key fst (si_ledgers s)))) (\<lambda>ledgers.
     each (retire_one w d ledgers) jobs))"

end
