(* ===== verification/Transfer_Safety.thy ===== *)
theory Transfer_Safety
  imports Transfers Manager_Jobs
begin

text \<open>
  What the operations of transfers promise. However often an import is killed, at whatever
  change, and started again, it publishes its job at most once, and exactly once when it returns;
  detaching the imported job onward preserves that, because it first records the receipt, as
  long as the state of the job keeps the record of the transfer. Where the code drops that
  record, the theorems at the end show what follows.
\<close>

section \<open>Programs under which a site grows\<close>

text \<open>
  Every operation works on a well-formed site: distinct paths, at most one marker per job, a
  cache within its bounds, and canonical ranges.
\<close>

definition site_ok :: "site \<Rightarrow> bool" where
  "site_ok s \<longleftrightarrow>
     distinct (ws_tree (si_ws s)) \<and> one_marker (ws_tree (si_ws s)) \<and> index_inv (ws_index (si_ws s)) \<and>
     (\<forall>k. canonical (stream_ranges (si_received s) k))"

text \<open>
  A site grows when the state tree stays, the journal is only extended and receipts are only
  added. It is still when, besides, receipts and acknowledgements stay. Changes of all other
  files are calm.
\<close>

definition grows :: "site \<Rightarrow> site \<Rightarrow> bool" where
  "grows s s' \<longleftrightarrow>
     ws_tree (si_ws s') = ws_tree (si_ws s) \<and> ws_id (si_ws s') = ws_id (si_ws s) \<and>
     journal_extends (ws_journal (si_ws s)) (ws_journal (si_ws s')) \<and>
     (\<forall>k. covered (stream_ranges (si_received s) k) \<subseteq> covered (stream_ranges (si_received s') k))"

definition still :: "site \<Rightarrow> site \<Rightarrow> bool" where
  "still s s' \<longleftrightarrow>
     ws_tree (si_ws s') = ws_tree (si_ws s) \<and> ws_id (si_ws s') = ws_id (si_ws s) \<and>
     journal_extends (ws_journal (si_ws s)) (ws_journal (si_ws s')) \<and>
     si_received s' = si_received s \<and> si_acks s' = si_acks s"

definition calm :: "site \<Rightarrow> site \<Rightarrow> bool" where
  "calm s s' \<longleftrightarrow>
     ws_tree (si_ws s') = ws_tree (si_ws s) \<and> ws_id (si_ws s') = ws_id (si_ws s) \<and>
     ws_journal (si_ws s') = ws_journal (si_ws s) \<and> ws_index (si_ws s') = ws_index (si_ws s) \<and>
     si_received s' = si_received s \<and> si_acks s' = si_acks s"

lemma calm_still: "calm s s' \<Longrightarrow> still s s'"
  by (simp add: calm_def still_def)

lemma calm_ok: "calm s s' \<Longrightarrow> site_ok s \<Longrightarrow> site_ok s'"
  by (simp add: calm_def site_ok_def)

lemma still_ok: "still s s' \<Longrightarrow> site_ok s \<Longrightarrow> index_inv (ws_index (si_ws s')) \<Longrightarrow> site_ok s'"
  by (simp add: still_def site_ok_def)

definition inert :: "(site \<Rightarrow> site \<Rightarrow> bool) \<Rightarrow> 'a io \<Rightarrow> bool" where
  "inert R p \<longleftrightarrow> (\<forall>n s r n' s'. site_ok s \<longrightarrow> p n s = (r, n', s') \<longrightarrow> R s s' \<and> site_ok s')"

lemma inertD: "inert R p \<Longrightarrow> site_ok s \<Longrightarrow> p n s = (r, n', s') \<Longrightarrow> R s s' \<and> site_ok s'"
  unfolding inert_def by blast

named_theorems calm_simps \<open>updates of a site that are calm\<close>

lemma set_transfer_calm [calm_simps, simp]: "calm s (set_transfer k td s)"
  by (simp add: calm_def set_transfer_def split: option.splits)

lemma change_transfer_calm [calm_simps, simp]: "calm s (change_transfer k f s)"
  by (auto simp: change_transfer_def calm_def set_transfer_def split: option.splits)

lemma set_runner_calm [calm_simps, simp]: "calm s (set_runner k r c s)"
  by (simp add: set_runner_def)

lemma site_fields_calm [calm_simps, simp]:
  "calm s (s\<lparr>si_imported := a\<rparr>)" "calm s (s\<lparr>si_seals := c\<rparr>)" "calm s (s\<lparr>si_runners := c\<rparr>)"
  "calm s (s\<lparr>si_staging := g\<rparr>)" "calm s (s\<lparr>si_ledgers := a\<rparr>)" "calm s (s\<lparr>si_protocol := x, si_session := y\<rparr>)"
  "calm s (s\<lparr>si_session := y\<rparr>)"
  by (simp_all add: calm_def)

lemma journal_writer_init_extends:
  assumes "journal_writer_init i n J = (r, jw, J')"
  shows "journal_extends J J'"
  using assms
  by (auto simp: journal_writer_init_def open_segment_def Let_def journal_extends_def segment_bytes_def
      set_segment_def split: if_splits option.splits)

text \<open>
  What a proof that only such programs ran may use: the relation holds of calm and still changes
  and composes.
\<close>

locale growth =
  fixes R :: "site \<Rightarrow> site \<Rightarrow> bool"
  assumes still_R: "still s s' \<Longrightarrow> R s s'"
    and R_trans: "R s s' \<Longrightarrow> R s' s'' \<Longrightarrow> R s s''"
begin

lemma R_refl: "R s s"
  by (rule still_R) (simp add: still_def)

lemma inert_liftio: "inert R (liftio r)"
  by (simp add: inert_def liftio_def R_refl)

lemma inert_give: "inert R (give x)"
  unfolding give_def by (rule inert_liftio)

lemma inert_fail: "inert R (fail e)"
  unfolding fail_def by (rule inert_liftio)

lemma inert_observe: "inert R (observe f)"
  by (simp add: inert_def observe_def R_refl)

lemma inert_bind:
  assumes "inert R p" and "\<And>x. inert R (q x)"
  shows "inert R (bindio p q)"
  unfolding inert_def
proof (intro allI impI)
  fix n s r n' s' assume ok: "site_ok s" and run: "bindio p q n s = (r, n', s')"
  obtain y m t where p: "p n s = (y, m, t)" by (cases "p n s")
  note t = inertD [OF assms(1) ok p]
  show "R s s' \<and> site_ok s'"
  proof (cases y)
    case (Inl e)
    with run p t show ?thesis by (simp add: bindio_def)
  next
    case (Inr x)
    then have "q x m t = (r, n', s')" using run p by (simp add: bindio_def)
    from inertD [OF assms(2) conjunct2 [OF t] this] t R_trans show ?thesis by blast
  qed
qed

lemma inert_change:
  assumes "\<And>s r s'. site_ok s \<Longrightarrow> f s = (r, s') \<Longrightarrow> R s s' \<and> site_ok s'"
  shows "inert R (change f)"
  unfolding inert_def
proof (intro allI impI)
  fix n s r n' s' assume ok: "site_ok s" and run: "change f n s = (r, n', s')"
  obtain y t where f: "f s = (y, t)" by (cases "f s")
  from assms [OF ok f] ok run f R_refl [of s] show "R s s' \<and> site_ok s'"
    by (cases n) (auto simp: change_def)
qed

lemma inert_volatile:
  assumes "\<And>s r s'. site_ok s \<Longrightarrow> f s = (r, s') \<Longrightarrow> R s s' \<and> site_ok s'"
  shows "inert R (volatile f)"
  unfolding inert_def
proof (intro allI impI)
  fix n s r n' s' assume ok: "site_ok s" and run: "volatile f n s = (r, n', s')"
  obtain y t where f: "f s = (y, t)" by (cases "f s")
  from assms [OF ok f] run f show "R s s' \<and> site_ok s'" by (simp add: volatile_def)
qed

lemma inert_effect:
  assumes "\<And>s. calm s (f s)"
  shows "inert R (effect f)"
  unfolding effect_def
proof (rule inert_change)
  fix s r s' assume ok: "site_ok s" and "(Inr (), f s) = (r, s')"
  then have "calm s s'" using assms [of s] by simp
  with ok show "R s s' \<and> site_ok s'" by (blast intro: still_R calm_still calm_ok)
qed

lemma inert_each: "(\<And>x. inert R (p x)) \<Longrightarrow> inert R (each p xs)"
  by (induction xs) (simp_all add: inert_give inert_bind)

lemmas inert_rules = inert_liftio inert_give inert_fail inert_observe inert_bind inert_effect inert_each

lemma inert_remove_transfer: "inert R (remove_transfer w k)"
  unfolding remove_transfer_def by (intro inert_rules) simp_all

lemma inert_install_seal: "inert R (install_seal w td m)"
  unfolding install_seal_def by (auto intro!: inert_rules split: json.splits option.splits)

lemma inert_finish_directory: "inert R (finish_directory w k m)"
  unfolding finish_directory_def
  by (auto intro!: inert_rules inert_install_seal inert_remove_transfer split: option.splits)

lemma inert_read_state: "inert R (read_job_state m)"
  unfolding read_job_state_def by (intro inert_rules)

lemma inert_install_runners: "inert R (install_runners w td m)"
  unfolding install_runners_def install_runner_def by (auto intro!: inert_rules split: option.splits)

lemma inert_stage_payload: "inert R (stage_payload w b t d p)"
  unfolding stage_payload_def
  by (auto intro!: inert_rules simp: calm_def with_ws_def split: option.splits)

lemma inert_find_job: "inert R (find_job i)"
  unfolding find_job_def
proof (rule inert_volatile)
  fix s r s'
  assume ok: "site_ok s" and f: "(case find_marker_by_id (ws_tree (si_ws s)) i (ws_index (si_ws s)) of
    (r, idx) \<Rightarrow> (r, with_ws (\<lambda>ws. ws\<lparr>ws_index := idx\<rparr>) s)) = (r, s')"
  obtain y idx where y: "find_marker_by_id (ws_tree (si_ws s)) i (ws_index (si_ws s)) = (y, idx)"
    by (cases "find_marker_by_id (ws_tree (si_ws s)) i (ws_index (si_ws s))")
  have d: "distinct (ws_tree (si_ws s))" "index_inv (ws_index (si_ws s))" using ok unfolding site_ok_def by blast+
  have "index_inv idx" using find_marker_by_id_cases [OF d y] by blast
  then have "still s s'" "index_inv (ws_index (si_ws s'))" using f y by (auto simp: still_def with_ws_def)
  with ok show "R s s' \<and> site_ok s'" by (blast intro: still_R still_ok)
qed

lemma inert_open_writer: "inert R (open_writer w)"
  unfolding open_writer_def
proof (rule inert_change)
  fix s r s'
  assume ok: "site_ok s" and f: "(case journal_writer_init (tw_writer w) (tw_segment_bytes w) (ws_journal (si_ws s)) of
    (r, jw, J) \<Rightarrow> (bindr r (\<lambda>_. Inr jw), with_ws (\<lambda>ws. ws\<lparr>ws_journal := J\<rparr>) s)) = (r, s')"
  obtain x jw J where j: "journal_writer_init (tw_writer w) (tw_segment_bytes w) (ws_journal (si_ws s)) = (x, jw, J)"
    by (cases "journal_writer_init (tw_writer w) (tw_segment_bytes w) (ws_journal (si_ws s))")
  have "journal_extends (ws_journal (si_ws s)) J"
    by (rule journal_writer_init_extends [OF j])
  then have "still s s'" "ws_index (si_ws s') = ws_index (si_ws s)" using f j by (auto simp: still_def with_ws_def)
  with ok show "R s s' \<and> site_ok s'" using still_R still_ok unfolding site_ok_def by metis
qed

end

interpretation growing: growth grows
proof
  show "grows s s'" if "still s s'" for s s' using that by (simp add: still_def grows_def)
  show "grows s s''" if "grows s s'" "grows s' s''" for s s' s''
    using that unfolding grows_def by (metis journal_extends_trans subset_trans)
qed

interpretation staying: growth still
  by unfold_locales (auto simp: still_def intro: journal_extends_trans)


text \<open>Assertions that survive the growth survive the programs.\<close>

lemma spec_inert:
  assumes "inert R p" and "\<And>s s'. R s s' \<Longrightarrow> P s \<Longrightarrow> P s'"
  shows "spec (\<lambda>s. site_ok s \<and> P s) p (\<lambda>_ s. site_ok s \<and> P s) (\<lambda>s. site_ok s \<and> P s)"
  unfolding spec_def
proof (intro allI impI)
  fix n s assume s: "site_ok s \<and> P s"
  obtain r m t where p: "p n s = (r, m, t)" by (cases "p n s")
  with inertD [OF assms(1)] assms(2) s have "site_ok t \<and> P t" by blast
  with p show "case p n s of (Inr x, _, s') \<Rightarrow> site_ok s' \<and> P s' | (Inl _, _, s') \<Rightarrow> site_ok s' \<and> P s'"
    by (cases r) auto
qed

lemma spec_then:
  assumes "spec P p (\<lambda>_. P) P" and "\<And>x. spec P (q x) Q C" and "\<And>s. P s \<Longrightarrow> C s"
  shows "spec P (bindio p q) Q C"
  by (rule spec_bind [OF spec_weaken [OF assms(1)] assms(2)]) (use assms(3) in auto)

text \<open>What a pure step returned is known from then on.\<close>

lemma spec_pure_bind:
  assumes "\<And>x. r = Inr x \<Longrightarrow> spec P (q x) Q C" and "\<And>s. P s \<Longrightarrow> C s"
  shows "spec P (bindio (liftio r) q) Q C"
  using assms by (cases r) (auto simp: spec_def bindio_def liftio_def)

section \<open>Receipts of a manifest\<close>

definition recorded :: "obj \<Rightarrow> site \<Rightarrow> bool" where
  "recorded m s \<longleftrightarrow>
     (case manifest_number (\<lambda>_. []) m of None \<Rightarrow> False | Some (k, n) \<Rightarrow> n \<in> covered (stream_ranges (si_received s) k))"

lemma recorded_grows: "grows s s' \<Longrightarrow> recorded m s \<Longrightarrow> recorded m s'"
  unfolding recorded_def grows_def by (auto split: option.splits)

lemma recorded_still: "still s s' \<Longrightarrow> recorded m s' = recorded m s"
  by (cases "manifest_number (\<lambda>_. []) m") (auto simp: recorded_def still_def)

lemma stream_key_str: "get m ''source_workspace_id'' = JStr x \<Longrightarrow> stream_key f m = stream_key g m"
  by (auto simp: stream_key_def get_def split: option.splits)

lemma number_str: "get m ''source_workspace_id'' = JStr x \<Longrightarrow> manifest_number f m = manifest_number g m"
  using stream_key_str [of m x f g] by (simp add: manifest_number_def)

lemma received_recorded:
  assumes "received f m (si_received s) = Inr b" and "get m ''source_workspace_id'' = JStr x"
    and "sequence_of m = Inr (Some n)"
  shows "b \<longleftrightarrow> recorded m s"
  using assms number_str [OF assms(2), of "\<lambda>_. []" f]
  by (auto simp: received_def recorded_def manifest_number_def res_simps in_ranges_covered split: sum.splits option.splits)

lemma remember_recorded:
  assumes "remember f m (si_received s) = Inr streams" and "get m ''source_workspace_id'' = JStr x"
    and "sequence_of m = Inr (Some n)" and "\<And>k. canonical (stream_ranges (si_received s) k)"
  shows "recorded m (s\<lparr>si_received := streams\<rparr>)"
proof -
  obtain k where "stream_key f m = Inr k" using assms(1,3) by (auto simp: remember_def res_simps)
  then have "manifest_number f m = Some (k, n)" using assms(3) by (simp add: manifest_number_def)
  with remember_covered [OF assms(1,4), of k n] number_str [OF assms(2), of "\<lambda>_. []" f] show ?thesis
    by (simp add: recorded_def)
qed

lemma inert_remember: "inert grows (remember_io w m)"
  unfolding remember_io_def
proof (rule growing.inert_change)
  fix s r s'
  assume ok: "site_ok s" and f: "(case remember (tw_str w) m (si_received s) of
    Inl e \<Rightarrow> (Inl e, s) | Inr streams \<Rightarrow> (Inr (), s\<lparr>si_received := streams\<rparr>)) = (r, s')"
  have c: "\<And>k. canonical (stream_ranges (si_received s) k)" using ok unfolding site_ok_def by blast
  show "grows s s' \<and> site_ok s'"
  proof (cases "remember (tw_str w) m (si_received s)")
    case (Inl e)
    with f ok show ?thesis by (simp add: growing.R_refl)
  next
    case (Inr streams)
    then have "s' = s\<lparr>si_received := streams\<rparr>" using f by simp
    with remember_covered [OF Inr c] ok show ?thesis
      by (auto simp: grows_def site_ok_def subset_iff)
  qed
qed

lemma spec_remember:
  assumes "get m ''source_workspace_id'' = JStr x" and "sequence_of m = Inr (Some n)"
    and "\<And>s s'. grows s s' \<Longrightarrow> P s \<Longrightarrow> P s'"
  shows "spec (\<lambda>s. site_ok s \<and> P s) (remember_io w m)
    (\<lambda>_ s. site_ok s \<and> P s \<and> recorded m s) (\<lambda>s. site_ok s \<and> P s)"
  unfolding spec_def
proof (intro allI impI)
  fix k s assume s: "site_ok s \<and> P s"
  obtain r l t where p: "remember_io w m k s = (r, l, t)" by (cases "remember_io w m k s")
  have t: "site_ok t \<and> P t" using inertD [OF inert_remember _ p] assms(3) s by blast
  have c: "\<And>k. canonical (stream_ranges (si_received s) k)" using s unfolding site_ok_def by blast
  have "recorded m t" if "r = Inr u" for u
    using p that remember_recorded [OF _ assms(1,2) c]
    by (auto simp: remember_io_def change_def split: nat.splits sum.splits)
  with t p show "case remember_io w m k s of
      (Inr x, _, s') \<Rightarrow> site_ok s' \<and> P s' \<and> recorded m s' | (Inl _, _, s') \<Rightarrow> site_ok s' \<and> P s'"
    by (cases r) auto
qed

section \<open>An import that finds the job or its receipt\<close>

lemma grows_acks: "grows s (s\<lparr>si_acks := a\<rparr>)" "site_ok (s\<lparr>si_acks := a\<rparr>) = site_ok s"
  by (simp_all add: grows_def site_ok_def)

lemma inert_acks: "inert grows (effect (\<lambda>s. s\<lparr>si_acks := f s\<rparr>))"
  unfolding effect_def by (rule growing.inert_change) (auto simp: grows_acks)

lemma inert_prune: "inert grows (prune_receipts t)"
  unfolding prune_receipts_def by (intro growing.inert_rules inert_acks) simp_all

lemma inert_write_ack: "inert grows (write_ack t a)"
  unfolding write_ack_def by (intro growing.inert_rules inert_acks)

lemmas growing_rules = growing.inert_rules growing.inert_read_state growing.inert_install_runners
  growing.inert_install_seal growing.inert_remove_transfer growing.inert_finish_directory inert_remember
  inert_prune inert_write_ack

lemma inert_import_duplicate: "inert grows (import_duplicate w m t d x)"
  unfolding import_duplicate_def by (auto intro!: growing_rules split: json.splits)

lemma inert_import_bundle: "inert grows (import_bundle w b (Some x))"
  unfolding import_bundle_def Let_def
  by (auto intro!: growing_rules inert_import_duplicate split: option.splits)

text \<open>An import of a job that has a marker changes no marker.\<close>

lemma bindio_give [simp]: "bindio (give x) q = q x"
  by (simp add: bindio_def give_def liftio_def)

lemma bindio_fail [simp]: "bindio (fail e) q = fail e"
  by (simp add: bindio_def fail_def liftio_def)

lemma inert_import_known: "inert grows (import_known w b (Some (Some x)))"
  unfolding import_known_def option.case bindio_give
  by (auto intro!: growing_rules inert_import_bundle split: option.splits)


text \<open>A program that starts by looking the job up goes on with what is there.\<close>

lemma find_job_current:
  assumes "site_ok s" and "find_job i n s = (r, n', s')"
  shows "still s s' \<and> site_ok s'"
    and "current_markers (ws_tree (si_ws s)) i = [] \<Longrightarrow> r = Inr None"
    and "live (si_ws s) x \<Longrightarrow> job_id x = i \<Longrightarrow> r = Inr (Some x)"
proof -
  show "still s s' \<and> site_ok s'" by (rule inertD [OF staying.inert_find_job assms])
  obtain idx where y: "find_marker_by_id (ws_tree (si_ws s)) i (ws_index (si_ws s)) = (r, idx)"
    using assms(2) by (auto simp: find_job_def volatile_def split: prod.splits)
  have d: "distinct (ws_tree (si_ws s))" "one_marker (ws_tree (si_ws s))" "index_inv (ws_index (si_ws s))"
    using assms(1) unfolding site_ok_def by blast+
  note f = find_marker_by_id_cases [OF d(1,3) y]
  show "r = Inr None" if "current_markers (ws_tree (si_ws s)) i = []" using f that by blast
  show "r = Inr (Some x)" if "live (si_ws s) x" "job_id x = i"
    using f current_markers_single [OF d(1,2) that(1)] that(2) by blast
qed

lemma spec_find_live:
  assumes "\<And>s. P s \<Longrightarrow> live (si_ws s) x" and "job_id x = i" and "\<And>s s'. still s s' \<Longrightarrow> P s \<Longrightarrow> P s'"
    and "spec (\<lambda>s. site_ok s \<and> P s) (q (Some x)) Q C" and "\<And>s. site_ok s \<Longrightarrow> P s \<Longrightarrow> C s"
  shows "spec (\<lambda>s. site_ok s \<and> P s) (bindio (find_job i) q) Q C"
  unfolding spec_def
proof (intro allI impI)
  fix n s assume s: "site_ok s \<and> P s"
  obtain r m t where p: "find_job i n s = (r, m, t)" by (cases "find_job i n s")
  from find_job_current [OF conjunct1 [OF s] p] assms(1-3) s
  have "r = Inr (Some x)" "site_ok t \<and> P t" by blast+
  with p assms(4) show "case bindio (find_job i) q n s of (Inr x, _, s') \<Rightarrow> Q x s' | (Inl _, _, s') \<Rightarrow> C s'"
    by (simp add: bindio_def spec_def)
qed

lemma spec_find_none:
  assumes "\<And>s. P s \<Longrightarrow> current_markers (ws_tree (si_ws s)) i = []" and "\<And>s s'. still s s' \<Longrightarrow> P s \<Longrightarrow> P s'"
    and "spec (\<lambda>s. site_ok s \<and> P s) (q None) Q C"
  shows "spec (\<lambda>s. site_ok s \<and> P s) (bindio (find_job i) q) Q C"
  unfolding spec_def
proof (intro allI impI)
  fix n s assume s: "site_ok s \<and> P s"
  obtain r m t where p: "find_job i n s = (r, m, t)" by (cases "find_job i n s")
  from find_job_current [OF conjunct1 [OF s] p] assms(1,2) s
  have "r = Inr None" "site_ok t \<and> P t" by blast+
  with p assms(3) show "case bindio (find_job i) q n s of (Inr x, _, s') \<Rightarrow> Q x s' | (Inl _, _, s') \<Rightarrow> C s'"
    by (simp add: bindio_def spec_def)
qed

section \<open>Manifests\<close>

lemma eq_str_iff: "eq_str v t \<longleftrightarrow> v = JStr t"
  by (cases v) auto

text \<open>What every validated manifest holds.\<close>

lemma validated:
  assumes "validate_bundle w b = Inr m"
  obtains t x i d where "get m ''transfer_id'' = JStr t" "get m ''source_workspace_id'' = JStr x"
    "get m ''job_id'' = JStr i" "get m ''payload_sha256'' = JStr d" "uuid_pattern i"
proof -
  have "\<exists>t x i d. get m ''transfer_id'' = JStr t \<and> get m ''source_workspace_id'' = JStr x \<and>
      get m ''job_id'' = JStr i \<and> get m ''payload_sha256'' = JStr d \<and> uuid_pattern i"
    using assms
    by (auto simp: validate_bundle_def res_simps canonical_uuid_Inr eq_str_iff split: option.splits if_splits)
  with that show thesis by blast
qed


definition sequenced :: "obj \<Rightarrow> bool" where
  "sequenced m \<longleftrightarrow> manifest_number (\<lambda>_. []) m \<noteq> None"

lemma sequenced_facts:
  assumes "sequenced m"
  obtains n where "sequence_of m = Inr (Some n)" "get m ''transfer_sequence'' = JInt n"
    "get m ''transfer_epoch'' = JNull \<or> (\<exists>e. get m ''transfer_epoch'' = JStr e)"
proof -
  obtain n k where n: "sequence_of m = Inr (Some n)" "stream_key (\<lambda>_. []) m = Inr k"
    using assms by (auto simp: sequenced_def manifest_number_def split: sum.splits option.splits)
  have "get m ''transfer_sequence'' = JInt n"
    using n(1) by (auto simp: sequence_of_def split: json.splits if_splits)
  moreover have "get m ''transfer_epoch'' = JNull \<or> (\<exists>e. get m ''transfer_epoch'' = JStr e)"
    using n(2) by (auto simp: stream_key_def epoch_of_def res_simps canonical_uuid_Inr split: option.splits json.splits)
  ultimately show thesis using that n(1) by blast
qed

text \<open>The frame of a state carries the transfer of a manifest; a job was published by it.\<close>

definition carries :: "obj \<Rightarrow> obj \<Rightarrow> bool" where
  "carries f m \<longleftrightarrow>
     (case get f ''transfer'' of
        JObj p \<Rightarrow> list_all (\<lambda>k. get p k = get m k)
          [''transfer_id'', ''transfer_sequence'', ''transfer_epoch'', ''source_workspace_id'', ''payload_sha256'']
      | _ \<Rightarrow> False)"

definition published :: "obj \<Rightarrow> marker \<Rightarrow> site \<Rightarrow> bool" where
  "published m x s \<longleftrightarrow>
     live (si_ws s) x \<and> eq_str (get m ''job_id'') (job_id x) \<and>
     (case read_state (si_ws s) x of Inr f \<Rightarrow> carries f m | Inl _ \<Rightarrow> False)"

lemma grows_tree: "grows s s' \<Longrightarrow> ws_tree (si_ws s') = ws_tree (si_ws s)"
  by (simp add: grows_def)

lemma published_grows: "grows s s' \<Longrightarrow> published m x s \<Longrightarrow> published m x s'"
  using read_state_extends [of "si_ws s" x _ "si_ws s'"]
  by (auto simp: published_def grows_def live_def split: sum.splits)

section \<open>An import that publishes\<close>

lemma current_dst:
  assumes "current_markers T (job_id x) = []" and "marker_from_path dst = Inr x" and "kind x \<in> set CORE_STATE_KINDS"
  shows "dst \<notin> set T"
  using assms current_markers_set [of x T "job_id x"] by auto

lemma publish_outcome:
  assumes "site_ok s" and "current_markers (ws_tree (si_ws s)) (job_id x) = []"
    and "marker_from_path dst = Inr x" and "kind x \<in> set CORE_STATE_KINDS"
    and "publish_marker env k key name dst s = (r, s')"
  shows "(still s s' \<and> site_ok s' \<and> (\<exists>e. r = Inl e)) \<or>
    (r = Inr x \<and> site_ok s' \<and> ws_tree (si_ws s') = dst # ws_tree (si_ws s) \<and> ws_id (si_ws s') = ws_id (si_ws s) \<and>
     ws_journal (si_ws s') = ws_journal (si_ws s))"
  using assms
proof (induction env arbitrary: s)
  case Nil
  then show ?case by (auto simp: staying.R_refl)
next
  case (Cons performed env)
  let ?T = "ws_tree (si_ws s)"
  let ?there = "case transfer_at k s of None \<Rightarrow> False | Some td \<Rightarrow> map_of (td_files td) name \<noteq> None"
  have dst: "dst \<notin> set ?T" by (rule current_dst [OF Cons.prems(2-4)])
  have ok: "distinct ?T" "one_marker ?T" "index_inv (ws_index (si_ws s))"
    using Cons.prems(1) unfolding site_ok_def by blast+
  have filt: "filter (\<lambda>p. p \<noteq> dst) ?T = ?T" using dst by (auto simp: filter_id_conv)
  show ?case
  proof (cases "performed \<and> ?there")
    case True
    let ?s0 = "with_ws (\<lambda>ws. ws\<lparr>ws_tree := dst # ?T\<rparr>) s"
    let ?s1 = "change_transfer k (\<lambda>td. td\<lparr>td_files := dict_del name (td_files td)\<rparr>) ?s0"
    have c: "calm ?s0 ?s1" by simp
    then have s1: "ws_tree (si_ws ?s1) = dst # ?T" "ws_id (si_ws ?s1) = ws_id (si_ws s)"
      "ws_journal (si_ws ?s1) = ws_journal (si_ws s)" "ws_index (si_ws ?s1) = ws_index (si_ws s)"
      "si_received ?s1 = si_received s"
      by (simp_all add: calm_def with_ws_def)
    have s': "r = Inr x" "s' = with_ws (\<lambda>ws. ws\<lparr>ws_index := index_note x (ws_index (si_ws ?s1))\<rparr>) ?s1"
      using Cons.prems(5) True filt s1(1) Cons.prems(3) by (simp_all add: Let_def with_ws_def)
    have "one_marker (dst # ?T)" by (rule one_marker_insert [OF ok(2) Cons.prems(2,3)])
    then have "site_ok s'"
      using s1 s'(2) dst ok Cons.prems(1) index_note_inv by (simp add: site_ok_def with_ws_def)
    with s1 s' show ?thesis by (simp add: with_ws_def)
  next
    case False
    obtain y idx where y: "find_markers ?T key CORE_STATE_KINDS (ws_index (si_ws s)) = (y, idx)"
      by (cases "find_markers ?T key CORE_STATE_KINDS (ws_index (si_ws s))")
    let ?s1 = "with_ws (\<lambda>ws. ws\<lparr>ws_index := idx\<rparr>) s"
    have "index_inv idx" by (rule find_markers_inv [OF ok(1,3) y])
    then have s1: "still s ?s1" "site_ok ?s1" using Cons.prems(1) by (auto simp: still_def site_ok_def with_ws_def)
    have tree: "ws_tree (si_ws ?s1) = ?T" "ws_id (si_ws ?s1) = ws_id (si_ws s)"
      "ws_journal (si_ws ?s1) = ws_journal (si_ws s)" by (simp_all add: with_ws_def)
    consider "publish_marker env k key name dst s = (r, s')" | "publish_marker env k key name dst ?s1 = (r, s')"
      | "s' = ?s1 \<and> (\<exists>e. r = Inl e)"
      using Cons.prems(5) False dst y by (auto simp: Let_def split: if_splits sum.splits list.splits)
    then show ?thesis
    proof cases
      case 1
      then show ?thesis by (rule Cons.IH [OF Cons.prems(1-4)])
    next
      case 2
      have "current_markers (ws_tree (si_ws ?s1)) (job_id x) = []" using Cons.prems(2) tree by simp
      from Cons.IH [OF s1(2) this Cons.prems(3,4) 2] show ?thesis
        using tree s1 staying.R_trans by auto
    next
      case 3
      with s1 show ?thesis by blast
    qed
  qed
qed


text \<open>The frame that an import appends agrees with its marker and carries the transfer.\<close>

lemma imported_frame_get:
  "get (imported_frame w site_id m prior pk target gen prio t d) ''format'' = JStr ''httk-workflow-state''"
  "get (imported_frame w site_id m prior pk target gen prio t d) ''format_version'' = JInt 2"
  "get (imported_frame w site_id m prior pk target gen prio t d) ''workspace_id'' = JStr site_id"
  "get (imported_frame w site_id m prior pk target gen prio t d) ''job_key'' = get m ''job_key''"
  "get (imported_frame w site_id m prior pk target gen prio t d) ''state_generation'' = JInt gen"
  "get (imported_frame w site_id m prior pk target gen prio t d) ''kind'' = JStr pk"
  "get (imported_frame w site_id m prior pk target gen prio t d) ''transfer'' = JObj
     ([(''transfer_id'', JStr t)] @
      (if has_key m ''transfer_sequence'' then [(''transfer_sequence'', get m ''transfer_sequence'')] else []) @
      (if has_key m ''transfer_epoch'' then [(''transfer_epoch'', get m ''transfer_epoch'')] else []) @
      [(''source_workspace_id'', get m ''source_workspace_id''), (''payload_sha256'', JStr d)])"
  by (simp_all add: imported_frame_def get_def [of "dict_update _ _"])

lemma no_key: "\<not> has_key m k \<Longrightarrow> get m k = JNull"
  by (simp add: has_key_def get_def)

lemma imported_carries:
  assumes "storable f" and "f = imported_frame w site_id m prior pk target gen prio t d"
    and "get m ''transfer_id'' = JStr t" and "get m ''payload_sha256'' = JStr d"
    and "get m ''source_workspace_id'' = JStr x" and "sequenced m"
  shows "carries (stored f) m"
proof -
  obtain n where n: "get m ''transfer_sequence'' = JInt n"
    "get m ''transfer_epoch'' = JNull \<or> (\<exists>e. get m ''transfer_epoch'' = JStr e)"
    using sequenced_facts [OF assms(6)] by metis
  let ?p = "[(''transfer_id'', JStr t)] @
      (if has_key m ''transfer_sequence'' then [(''transfer_sequence'', get m ''transfer_sequence'')] else []) @
      (if has_key m ''transfer_epoch'' then [(''transfer_epoch'', get m ''transfer_epoch'')] else []) @
      [(''source_workspace_id'', get m ''source_workspace_id''), (''payload_sha256'', JStr d)]"
  have "distinct (map fst f)" using assms(1) by (simp add: storable_def)
  then have "get (stored f) ''transfer'' = canon (JObj ?p)"
    using stored_get [of f "''transfer''"] imported_frame_get(7) assms(2) by simp
  moreover obtain q where q: "canon (JObj ?p) = JObj q" using stored_canon by blast
  ultimately have f: "get (stored f) ''transfer'' = JObj q" by simp
  have d: "distinct (map fst ?p)" by simp
  have "get q ''transfer_id'' = get m ''transfer_id''" "get q ''transfer_sequence'' = get m ''transfer_sequence''"
    "get q ''transfer_epoch'' = get m ''transfer_epoch''" "get q ''source_workspace_id'' = get m ''source_workspace_id''"
    "get q ''payload_sha256'' = get m ''payload_sha256''"
    using assms(3-5) n no_key [of m "''transfer_sequence''"] no_key [of m "''transfer_epoch''"]
    by (auto simp: canon_obj_members(1) [OF d q] simp del: canon.simps(2))
  with f show ?thesis by (simp add: carries_def)
qed

lemma imported_agrees:
  assumes "storable f" and "f = imported_frame w (ws_id ws) m prior (kind_name (kind x)) target (int (generation x)) prio t d"
    and "get m ''job_key'' = JStr (job_key x)"
  shows "frame_agrees ws x (stored f)"
proof -
  have g: "get (stored f) k = canon (get f k)" for k
    using assms(1) by (intro stored_get) (simp add: storable_def)
  show ?thesis unfolding frame_agrees_def g unfolding assms(2) imported_frame_get assms(3) by simp
qed

text \<open>Appending the frame.\<close>

lemma spec_append:
  assumes "\<And>s s'. still s s' \<Longrightarrow> P s \<Longrightarrow> P s'"
  shows "spec (\<lambda>s. site_ok s \<and> P s \<and> writer_inv jw (ws_journal (si_ws s))) (append_frame jw f)
    (\<lambda>ref s. site_ok s \<and> P s \<and> marker_ref_pattern ref \<and> ref \<noteq> ''init'' \<and>
       (storable f \<longrightarrow> read_record [ws_journal (si_ws s)] ref = Inr (stored f))) (\<lambda>s. site_ok s \<and> P s)"
  unfolding append_frame_def
proof (rule spec_change)
  show "site_ok s \<and> P s" if "site_ok s \<and> P s \<and> writer_inv jw (ws_journal (si_ws s))" for s using that by blast
  fix s r s'
  assume s: "site_ok s \<and> P s \<and> writer_inv jw (ws_journal (si_ws s))"
    and f: "(case append_record jw f (ws_journal (si_ws s)) of
      (r, _, J) \<Rightarrow> (r, with_ws (\<lambda>ws. ws\<lparr>ws_journal := J\<rparr>) s)) = (r, s')"
  obtain jw' J where a: "append_record jw f (ws_journal (si_ws s)) = (r, jw', J)"
    "s' = with_ws (\<lambda>ws. ws\<lparr>ws_journal := J\<rparr>) s"
    using f by (cases "append_record jw f (ws_journal (si_ws s))") simp
  have j: "writer_inv jw (ws_journal (si_ws s))" using s by blast
  have ext: "journal_extends (ws_journal (si_ws s)) J" by (rule append_extends [OF j a(1)])
  then have st: "still s s'" "site_ok s'" using a(2) s by (auto simp: still_def site_ok_def with_ws_def)
  have "marker_ref_pattern ref \<and> ref \<noteq> ''init'' \<and>
    (storable f \<longrightarrow> read_record [ws_journal (si_ws s')] ref = Inr (stored f))" if "r = Inr ref" for ref
  proof -
    have "uuid_pattern (jw_writer_id jw)" using j by (simp add: writer_inv_def)
    moreover have "read_record [ws_journal (si_ws s')] ref = Inr (stored f)" if k: "storable f"
    proof -
      have "store_append (jw, ws_journal (si_ws s)) f = (Inr ref, (jw', J))"
        using a(1) \<open>r = Inr ref\<close> by (simp add: store_append_def)
      from js.app_read [OF _ k this] j a(2) show ?thesis by (simp add: store_inv_def store_read_def with_ws_def)
    qed
    ultimately show ?thesis using append_reference [OF a(1) [unfolded that]] by blast
  qed
  with st assms [OF st(1)] s show "case r of Inl _ \<Rightarrow> site_ok s' \<and> P s' | Inr ref \<Rightarrow>
      site_ok s' \<and> P s' \<and> marker_ref_pattern ref \<and> ref \<noteq> ''init'' \<and>
       (storable f \<longrightarrow> read_record [ws_journal (si_ws s')] ref = Inr (stored f))"
    by (cases r) auto
qed

lemma spec_open_writer:
  assumes "\<And>s s'. still s s' \<Longrightarrow> P s \<Longrightarrow> P s'" and "tw_segment_bytes w < 2 ^ 63"
  shows "spec (\<lambda>s. site_ok s \<and> P s) (open_writer w)
    (\<lambda>jw s. site_ok s \<and> P s \<and> writer_inv jw (ws_journal (si_ws s))) (\<lambda>s. site_ok s \<and> P s)"
  unfolding spec_def
proof (intro allI impI)
  fix n s assume s: "site_ok s \<and> P s"
  obtain r m t where p: "open_writer w n s = (r, m, t)" by (cases "open_writer w n s")
  have t: "site_ok t \<and> P t" using inertD [OF staying.inert_open_writer _ p] assms(1) s by blast
  have "writer_inv jw (ws_journal (si_ws t))" if "r = Inr jw" for jw
    using p that journal_writer_init_inv [OF _ assms(2)]
    by (auto simp: open_writer_def change_def with_ws_def res_simps split: nat.splits prod.splits)
  with t p show "case open_writer w n s of
      (Inr x, _, s') \<Rightarrow> site_ok s' \<and> P s' \<and> writer_inv x (ws_journal (si_ws s'))
    | (Inl _, _, s') \<Rightarrow> site_ok s' \<and> P s'"
    by (cases r) auto
qed


text \<open>
  The frame that an import will append, when the manifest has what it needs; and that the
  journal can keep it: text that is valid, at most so long.
\<close>

definition arriving_frame :: "transfer_world \<Rightarrow> string \<Rightarrow> obj \<Rightarrow> obj option" where
  "arriving_frame w site_id m =
     (case get m ''prior_state'' of
        JObj prior \<Rightarrow>
          (case bindr (member m ''source_generation'') py_int of
             Inl _ \<Rightarrow> None
           | Inr gen \<Rightarrow>
          (case bindr (member m ''priority'') py_int of
             Inl _ \<Rightarrow> None
           | Inr prio \<Rightarrow>
          (case normalize_placement (str_text w (get m ''destination_placement'')) of
             Inl _ \<Rightarrow> None
           | Inr target \<Rightarrow> Some (imported_frame w site_id m prior (str_text w (get m ''prior_kind'')) target (gen + 1)
               prio (str_text w (get m ''transfer_id'')) (str_text w (get m ''payload_sha256''))))))
      | _ \<Rightarrow> None)"

definition keepable :: "transfer_world \<Rightarrow> string \<Rightarrow> obj \<Rightarrow> bool" where
  "keepable w site_id m \<longleftrightarrow> (case arriving_frame w site_id m of None \<Rightarrow> True | Some f \<Rightarrow> storable f)"

text \<open>A manifest whose key names its job, as every manifest that a workspace writes.\<close>

definition names_job :: "obj \<Rightarrow> bool" where
  "names_job m \<longleftrightarrow>
     (case get m ''job_key'' of
        JStr key \<Rightarrow> (case parse_job_key key of Inr (tag, i) \<Rightarrow> eq_str (get m ''job_id'') i | Inl _ \<Rightarrow> False)
      | _ \<Rightarrow> False)"

text \<open>Before the import, and after it was published.\<close>

definition fresh :: "string \<Rightarrow> state_tree \<Rightarrow> string \<Rightarrow> obj \<Rightarrow> site \<Rightarrow> bool" where
  "fresh site_id T t m s \<longleftrightarrow>
     ws_id (si_ws s) = site_id \<and> ws_tree (si_ws s) = T \<and> map_of (si_acks s) t = None \<and> \<not> recorded m s"

definition imported :: "state_tree \<Rightarrow> obj \<Rightarrow> site \<Rightarrow> bool" where
  "imported T m s \<longleftrightarrow> (\<exists>x. ws_tree (si_ws s) = path x # T \<and> published m x s)"

lemma fresh_still: "still s s' \<Longrightarrow> fresh site_id T t m s \<Longrightarrow> fresh site_id T t m s'"
  using recorded_still [of s s' m] by (simp add: fresh_def still_def)

lemma imported_grows: "grows s s' \<Longrightarrow> imported T m s \<Longrightarrow> imported T m s'"
  unfolding imported_def using published_grows by (metis grows_def)

lemma spec_assume: "(\<And>s. P s \<Longrightarrow> b) \<Longrightarrow> (b \<Longrightarrow> spec P p Q C) \<Longrightarrow> spec P p Q C"
  by (cases b) (auto simp: spec_def)

lemma spec_observe_known:
  assumes "\<And>s. P s \<Longrightarrow> f s = c" and "spec P (q c) Q C"
  shows "spec P (bindio (observe f) q) Q C"
  using assms by (auto simp: spec_def bindio_def observe_def)

lemma spec_observe_any: "(\<And>x. spec P (q x) Q C) \<Longrightarrow> spec P (bindio (observe f) q) Q C"
  by (auto simp: spec_def bindio_def observe_def)

lemma spec_pre: "spec P' p Q C \<Longrightarrow> (\<And>s. P s \<Longrightarrow> P' s) \<Longrightarrow> spec P p Q C"
  by (auto simp: spec_def)

lemma bindio_assoc: "bindio (bindio p q) r = bindio p (\<lambda>x. bindio (q x) r)"
  by (auto simp: bindio_def fun_eq_iff split: prod.splits sum.splits)

lemma member_get: "member m k = Inr v \<Longrightarrow> get m k = v"
  by (simp add: member_def get_def split: option.splits)

lemma spec_publish_marker:
  assumes "marker_from_path dst = Inr x" and "kind x \<in> set CORE_STATE_KINDS" and "current_markers T (job_id x) = []"
    and "record_ref x \<noteq> ''init''" and "get m ''job_id'' = JStr (job_id x)"
    and "frame_agrees ws x f" and "ws_id ws = site_id" and "carries f m"
  shows "spec (\<lambda>s. site_ok s \<and> fresh site_id T t m s \<and> read_record [ws_journal (si_ws s)] (record_ref x) = Inr f)
    (change (publish_marker env k key name dst))
    (\<lambda>_ s. site_ok s \<and> imported T m s) (\<lambda>s. site_ok s \<and> (fresh site_id T t m s \<or> imported T m s))"
proof (rule spec_change)
  fix s r s'
  assume s: "site_ok s \<and> fresh site_id T t m s \<and> read_record [ws_journal (si_ws s)] (record_ref x) = Inr f"
    and p: "publish_marker env k key name dst s = (r, s')"
  have ok: "site_ok s" and T: "ws_tree (si_ws s) = T" "ws_id (si_ws s) = site_id"
    using s by (auto simp: fresh_def)
  have px: "path x = dst" using marker_from_path_wf [OF assms(1)] by blast
  from publish_outcome [OF ok _ assms(1,2) p] T assms(3)
  consider "still s s'" "site_ok s'" "\<exists>e. r = Inl e"
    | "r = Inr x" "site_ok s'" "ws_tree (si_ws s') = dst # T" "ws_id (si_ws s') = site_id"
      "ws_journal (si_ws s') = ws_journal (si_ws s)" by auto
  then show "case r of Inl _ \<Rightarrow> site_ok s' \<and> (fresh site_id T t m s' \<or> imported T m s') | Inr _ \<Rightarrow> site_ok s' \<and> imported T m s'"
  proof cases
    case 1
    with s fresh_still show ?thesis by auto
  next
    case 2
    have "read_state (si_ws s') x = Inr f"
      using s 2(4,5) assms(4,6,7) by (simp add: read_state_def frame_agrees_def)
    then have "published m x s'" using 2(3) px assms(1,2,5,8) by (simp add: published_def live_def eq_str_iff)
    with 2 px show ?thesis by (auto simp: imported_def)
  qed
qed auto


text \<open>The kinds in which a job can be imported have markers that are found again.\<close>

lemma quiescent_core: "k \<in> set QUIESCENT_KINDS \<Longrightarrow> k \<in> set CORE_STATE_KINDS"
  by (cases k) (simp_all add: QUIESCENT_KINDS_def CORE_STATE_KINDS_def STATE_KINDS_def)

lemma kind_of_name_Some: "kind_of_name n = Some k \<Longrightarrow> kind_name k = n"
  by (auto simp: kind_of_name_def find_Some_iff)

lemma marker_path_bounds: "marker_path k pl key prio gen ref = Inr p \<Longrightarrow> 0 \<le> gen"
  by (auto simp: marker_path_def marker_basename_def res_simps split: if_splits)

lemma normalize_parts_again:
  "normalize_placement v = Inr pl \<Longrightarrow> normalize_parts \<lparr>absolute = False, parts = pl\<rparr> = Inr pl"
  by (auto simp: normalize_placement_def normalize_parts_def split: if_splits)

text \<open>What happens after the marker is in place changes no marker.\<close>

definition after_publish :: "transfer_world \<Rightarrow> obj \<Rightarrow> string \<Rightarrow> string \<Rightarrow> string list \<Rightarrow> string \<Rightarrow> string \<Rightarrow> marker \<Rightarrow> obj io" where
  "after_publish w m transfer_id digest target key prior_kind published_marker =
     (let k = payload_key target key in
      bindio (effect (\<lambda>s. s\<lparr>si_imported := dict_set transfer_id
         (dict_update m [(''status'', JStr ''imported''), (''marker'', JStr (as_posix (path published_marker))),
           (''imported_at'', JStr (tw_now w))]) (si_imported s)\<rparr>)) (\<lambda>_.
      bindio (bindio (observe (transfer_at k)) (\<lambda>found. case found of
          None \<Rightarrow> (case get m ''seal'' of JNull \<Rightarrow> fail FileNotFoundError | _ \<Rightarrow> fail FormatError)
        | Some td \<Rightarrow> bindio (install_seal w td m) (\<lambda>_. remove_transfer w k))) (\<lambda>_.
      bindio (bindio (observe (\<lambda>s. ws_id (si_ws s))) (\<lambda>site_id.
        liftio (acknowledgement w site_id m transfer_id digest (JStr (as_posix target)) prior_kind))) (\<lambda>ack.
      write_ack transfer_id ack))))"

lemma inert_after_publish: "inert grows (after_publish w m t d target key pk x)"
  unfolding after_publish_def Let_def
  by (auto intro!: growing_rules split: option.splits json.splits)

text \<open>Once the marker path is known, the import renames and finishes.\<close>

lemma spec_place:
  assumes ids: "get m ''transfer_id'' = JStr t" "get m ''payload_sha256'' = JStr d"
      "get m ''source_workspace_id'' = JStr src" "get m ''job_id'' = JStr i" "get m ''job_key'' = JStr key"
      "parse_job_key key = Inr (tag, i)"
    and m: "sequenced m" and T: "current_markers T i = []"
    and f: "storable f" "f = imported_frame w site_id m prior (kind_name k) target gen prio t d"
    and k: "k \<in> set QUIESCENT_KINDS" and ref: "marker_ref_pattern ref" "ref \<noteq> ''init''"
    and dst: "marker_path k target key prio gen ref = Inr dst" "normalize_placement v = Inr target"
    and q: "\<And>x. inert grows (q x)"
  shows "spec (\<lambda>s. site_ok s \<and> fresh site_id T t m s \<and> read_record [ws_journal (si_ws s)] ref = Inr (stored f))
    (bindio (change (publish_marker env k' key name dst)) q)
    (\<lambda>_ s. site_ok s \<and> imported T m s) (\<lambda>s. site_ok s \<and> (fresh site_id T t m s \<or> imported T m s))"
proof (rule spec_bind)
  let ?x = "\<lparr>kind = k, placement = target, job_key = key, priority = nat prio, generation = nat gen,
    record_ref = ref, path = dst\<rparr>"
  have x: "marker_from_path dst = Inr ?x"
    by (rule marker_path_read [OF dst(1) normalize_parts_again [OF dst(2)] ref(1)])
  have i: "job_id ?x = i" using ids(6) by (simp add: job_id_def)
  have ws: "frame_agrees (ws\<lparr>ws_id := site_id\<rparr>) ?x (stored f)" for ws
    using marker_path_bounds [OF dst(1)] ids(5) f by (intro imported_agrees [OF f(1)]) simp_all
  have c: "carries (stored f) m" by (rule imported_carries [OF f ids(1-3) m])
  show "spec (\<lambda>s. site_ok s \<and> fresh site_id T t m s \<and> read_record [ws_journal (si_ws s)] ref = Inr (stored f))
    (change (publish_marker env k' key name dst))
    (\<lambda>_ s. site_ok s \<and> imported T m s) (\<lambda>s. site_ok s \<and> (fresh site_id T t m s \<or> imported T m s))"
    using spec_publish_marker [OF x _ _ _ _ ws _ c, where T = T and t = t] quiescent_core [OF k] T i ids(4) ref(2) by simp
  fix y
  show "spec (\<lambda>s. site_ok s \<and> imported T m s) (q y) (\<lambda>_ s. site_ok s \<and> imported T m s)
    (\<lambda>s. site_ok s \<and> (fresh site_id T t m s \<or> imported T m s))"
    by (rule spec_weaken [OF spec_inert [OF q imported_grows]]) auto
qed

text \<open>
  A new writer appends the frame, and what follows can rely on reading it back: \<open>q\<close> is the rest
  of the import, and the frame depends on the workspace only by its identity.
\<close>

lemma spec_write_frame:
  assumes w: "tw_segment_bytes w < 2 ^ 63" and f: "storable (frame site_id)"
    and q: "\<And>ref. marker_ref_pattern ref \<Longrightarrow> ref \<noteq> ''init'' \<Longrightarrow>
      spec (\<lambda>s. site_ok s \<and> fresh site_id T t m s \<and> read_record [ws_journal (si_ws s)] ref = Inr (stored (frame site_id)))
        (q ref) Q C"
    and C: "\<And>s. site_ok s \<and> fresh site_id T t m s \<Longrightarrow> C s"
  shows "spec (\<lambda>s. site_ok s \<and> fresh site_id T t m s)
    (bindio (open_writer w) (\<lambda>jw. bindio (observe (\<lambda>s. frame (ws_id (si_ws s)))) (\<lambda>f. bindio (append_frame jw f) q))) Q C"
proof (rule spec_bind [where R = "\<lambda>jw s. site_ok s \<and> fresh site_id T t m s \<and> writer_inv jw (ws_journal (si_ws s))"], goal_cases)
  case 1
  show ?case by (rule spec_weaken [OF spec_open_writer [OF fresh_still w]]) (use C in auto)
next
  case (2 jw)
  show ?case
  proof (rule spec_observe_known [where c = "frame site_id"], goal_cases)
    case (1 s)
    then show ?case by (auto simp: fresh_def)
  next
    case 2
    show ?case
    proof (rule spec_bind [where R = "\<lambda>ref s. site_ok s \<and> fresh site_id T t m s \<and> marker_ref_pattern ref \<and>
        ref \<noteq> ''init'' \<and> read_record [ws_journal (si_ws s)] ref = Inr (stored (frame site_id))"], goal_cases)
      case 1
      show ?case by (rule spec_weaken [OF spec_append [OF fresh_still]]) (use C f in auto)
    next
      case (2 ref)
      show ?case
      proof (rule spec_assume [where b = "marker_ref_pattern ref \<and> ref \<noteq> ''init''"], blast)
        assume "marker_ref_pattern ref \<and> ref \<noteq> ''init''"
        then show ?case by (intro spec_pre [OF q]) auto
      qed
    qed
  qed
qed

lemma spec_publish_import:
  assumes ids: "get m ''transfer_id'' = JStr t" "get m ''payload_sha256'' = JStr d"
      "get m ''source_workspace_id'' = JStr src" "get m ''job_id'' = JStr i" "get m ''job_key'' = JStr key"
      "parse_job_key key = Inr (tag, i)"
    and m: "sequenced m" and T: "current_markers T i = []"
    and w: "tw_segment_bytes w < 2 ^ 63" "keepable w site_id m"
    and target: "normalize_placement (str_text w (get m ''destination_placement'')) = Inr target"
  shows "spec (\<lambda>s. site_ok s \<and> fresh site_id T t m s) (publish_import w m t d target key)
    (\<lambda>_ s. site_ok s \<and> imported T m s) (\<lambda>s. site_ok s \<and> (fresh site_id T t m s \<or> imported T m s))"
proof (cases "get m ''prior_state''")
  case (JObj prior)
  let ?C = "\<lambda>s. site_ok s \<and> (fresh site_id T t m s \<or> imported T m s)"
  show ?thesis
    unfolding publish_import_def Let_def JObj json.case bindio_assoc
  proof (rule spec_pure_bind, unfold bindio_give, goal_cases)
    case (1 v)
    let ?pk = "str_text w v"
    show ?case
    proof (cases "kind_of_name ?pk")
      case None
      then show ?thesis by (auto intro!: spec_fail)
    next
      case (Some k)
      show ?thesis
        unfolding Some option.case
      proof (cases "k \<in> set QUIESCENT_KINDS", simp_all only: if_True if_False not_True_eq_False not_False_eq_True,
          rule spec_pure_bind, goal_cases)
        case (1 sg)
        show ?case
        proof (rule spec_pure_bind, goal_cases)
          case (1 prio)
          let ?f = "imported_frame w site_id m prior ?pk target (sg + 1) prio t d"
          have "arriving_frame w site_id m = Some ?f"
            using JObj 1 \<open>bindr (member m ''source_generation'') py_int = Inr sg\<close> target ids(1,2)
              member_get [OF \<open>member m ''prior_kind'' = Inr v\<close>]
            by (simp add: arriving_frame_def str_text_def [of w "JStr _"])
          then have st: "storable ?f" using w(2) by (simp add: keepable_def)
          have pk: "?f = imported_frame w site_id m prior (kind_name k) target (sg + 1) prio t d"
            using kind_of_name_Some [OF Some] by simp
          show ?case
          proof (rule spec_write_frame [where frame = "\<lambda>site_id. imported_frame w site_id m prior ?pk target (sg + 1) prio t d",
                OF w(1) st], rule spec_pure_bind, rule spec_pure_bind, rule spec_pure_bind, goal_cases)
            case (1 ref dst v' name)
            show ?case
              by (rule spec_weaken [OF spec_place [OF ids m T st pk \<open>k \<in> set QUIESCENT_KINDS\<close> 1(1,2,3) target]])
                (auto intro!: growing_rules split: option.splits json.splits)
          qed auto
        qed auto
      qed (auto intro!: spec_fail)
    qed
  qed auto
qed (auto simp: publish_import_def intro!: spec_fail)


text \<open>What the import of one manifest needs: it was validated, numbered, and names its job.\<close>

definition importable :: "transfer_world \<Rightarrow> payload option \<Rightarrow> obj \<Rightarrow> bool" where
  "importable w b m \<longleftrightarrow>
     validate_bundle w b = Inr m \<and> sequenced m \<and> names_job m \<and> tw_segment_bytes w < 2 ^ 63 \<and>
     keepable w (str_text w (get m ''destination_workspace_id'')) m"

lemma importable_facts:
  assumes "importable w b m"
  obtains t src i d key tag n where "get m ''transfer_id'' = JStr t" "get m ''payload_sha256'' = JStr d"
    "get m ''source_workspace_id'' = JStr src" "get m ''job_id'' = JStr i" "get m ''job_key'' = JStr key"
    "parse_job_key key = Inr (tag, i)" "sequence_of m = Inr (Some n)"
proof -
  obtain key tag i where "get m ''job_key'' = JStr key" "parse_job_key key = Inr (tag, i)" "get m ''job_id'' = JStr i"
    using assms by (auto simp: importable_def names_job_def eq_str_iff split: json.splits sum.splits)
  moreover obtain n where "sequence_of m = Inr (Some n)"
    using assms sequenced_facts [of m] unfolding importable_def by metis
  moreover obtain t src d where "get m ''transfer_id'' = JStr t" "get m ''source_workspace_id'' = JStr src"
    "get m ''payload_sha256'' = JStr d"
    using assms validated [of w b m] unfolding importable_def by metis
  ultimately show thesis using that by blast
qed

lemma str_text_simps [simp]: "str_text w (JStr x) = x"
  by (simp add: str_text_def)

lemma spec_import_bundle:
  assumes "importable w b m" and "get m ''transfer_id'' = JStr t" and "get m ''job_id'' = JStr i"
    and "current_markers T i = []"
  shows "spec (\<lambda>s. site_ok s \<and> fresh site_id T t m s) (import_bundle w b None)
    (\<lambda>_ s. site_ok s \<and> imported T m s) (\<lambda>s. site_ok s \<and> (fresh site_id T t m s \<or> imported T m s))"
proof -
  let ?P = "\<lambda>s. site_ok s \<and> fresh site_id T t m s"
  let ?C = "\<lambda>s. site_ok s \<and> (fresh site_id T t m s \<or> imported T m s)"
  obtain src d key tag where ids: "get m ''transfer_id'' = JStr t" "get m ''payload_sha256'' = JStr d"
    "get m ''source_workspace_id'' = JStr src" "get m ''job_id'' = JStr i" "get m ''job_key'' = JStr key"
    "parse_job_key key = Inr (tag, i)"
    using importable_facts [OF assms(1)] assms(2,3) by (metis json.inject(4))
  note v = assms(1) [unfolded importable_def]
  have v': "validate_bundle w b = Inr m" using v by blast
  have st: "spec ?P p (\<lambda>_. ?P) ?P" if "inert still p" for p :: "'b io"
    by (rule spec_inert [OF that fresh_still])
  show ?thesis
    unfolding import_bundle_def v' Let_def
  proof (rule spec_pure_bind, rule spec_observe_known [where c = None], goal_cases)
    case (1 m' s)
    then show ?case using ids(1) by (auto simp: fresh_def)
  next
    case (2 m')
    then have m': "m' = m" by simp
    show ?case
      unfolding m' option.case
    proof (rule spec_observe_known [where c = site_id], goal_cases)
      case 1
      then show ?case by (auto simp: fresh_def)
    next
      case 2
      show ?case
      proof (cases "eq_str (get m ''destination_workspace_id'') site_id")
        case False
        then show ?thesis by (auto intro: spec_fail)
      next
        case True
        then have k: "keepable w site_id m" using v by (simp add: eq_str_iff)
        show ?thesis
          unfolding if_not_P [OF not_not [THEN iffD2, OF True]]
        proof (rule spec_pure_bind, rule spec_then [OF st [OF staying.inert_install_runners]], rule spec_pure_bind,
            rule spec_pure_bind, rule spec_then [OF st [OF staying.inert_stage_payload]], goal_cases)
          case (1 u u' target key' u'')
          then have key': "key' = key"
            using ids(5) by (auto simp: res_simps dest: member_get)
          show ?case
            using spec_publish_import [OF ids _ assms(4) _ k, of target] v 1 ids(1,2) key' by simp
        qed auto
      qed
    qed
  qed auto
qed


lemma inert_prune_give: "inert grows (bindio (prune_receipts x) (\<lambda>_. liftio y))"
  by (intro growing_rules)

lemma settled_grows: "grows s s' \<Longrightarrow> imported T m s \<and> recorded m s \<Longrightarrow> imported T m s' \<and> recorded m s'"
  using imported_grows recorded_grows by blast

text \<open>The first import that is not killed publishes the job and records its receipt.\<close>

lemma spec_import_fresh:
  assumes "importable w b m" and "get m ''transfer_id'' = JStr t" and "get m ''job_id'' = JStr i"
    and "current_markers T i = []"
  shows "spec (\<lambda>s. site_ok s \<and> fresh site_id T t m s) (import_one w b)
    (\<lambda>_ s. site_ok s \<and> imported T m s \<and> recorded m s) (\<lambda>s. site_ok s \<and> (fresh site_id T t m s \<or> imported T m s))"
proof -
  let ?P = "\<lambda>s. site_ok s \<and> fresh site_id T t m s"
  obtain src n where m: "get m ''source_workspace_id'' = JStr src" "sequence_of m = Inr (Some n)"
    using importable_facts [OF assms(1)] by metis
  have v': "validate_bundle w b = Inr m" using assms(1) by (simp add: importable_def)
  have i: "str_text w (get m ''job_id'') = i" using assms(3) by simp
  show ?thesis
    unfolding import_one_def import_known_def v' bindio_assoc option.case
  proof (rule spec_pure_bind, rule spec_observe_known [where c = site_id], goal_cases)
    case (2 m')
    then have m': "m' = m" by simp
    show ?case
    proof (cases "eq_str (get m ''destination_workspace_id'') site_id")
      case False
      then show ?thesis by (auto simp: m' intro: spec_fail)
    next
      case True
      show ?thesis
        unfolding m' if_not_P [OF not_not [THEN iffD2, OF True]] i m(2)
      proof (rule spec_find_none [where P = "fresh site_id T t m", OF _ fresh_still], goal_cases)
        case 4
        show ?case
        proof (rule spec_pure_bind, goal_cases)
          case (1 sq)
          then have sq: "sq = Some n" by simp
          show ?case
            unfolding sq option.case
          proof (rule spec_pure_bind, rule spec_observe_bind, rule spec_pure_bind, goal_cases)
            case (1 u rd replayed)
            show ?case
            proof (rule spec_assume [where b = "\<not> replayed"], goal_cases)
              case (1 s)
              then show ?case
                using received_recorded [OF _ m, of "tw_str w" s replayed] \<open>rd = Inr replayed\<close> by (auto simp: fresh_def)
            next
              case 2
              then have "replayed = False" by simp
              show ?case
                unfolding \<open>replayed = False\<close> if_False bindio_assoc
              proof (rule spec_bind [where R = "\<lambda>_ s. site_ok s \<and> imported T m s"], goal_cases)
                case 1
                show ?case by (rule spec_weaken [OF spec_import_bundle [OF assms]]) auto
              next
                case (2 r)
                show ?case
                proof (rule spec_bind [where R = "\<lambda>_ s. site_ok s \<and> imported T m s \<and> recorded m s"], goal_cases)
                  case 1
                  show ?case by (rule spec_weaken [OF spec_remember [OF m imported_grows]]) auto
                next
                  case (2 u)
                  show ?case by (rule spec_weaken [OF spec_inert [OF inert_prune_give settled_grows]]) auto
                qed
              qed
            qed
          qed auto
        qed auto
      qed (use assms(4) in \<open>auto simp: fresh_def\<close>)
    qed
  qed (auto simp: fresh_def)
qed


text \<open>Another import of the same bundle leaves the job as it is.\<close>

lemma spec_import_marker:
  assumes "importable w b m" and "get m ''job_id'' = JStr (job_id x)"
    and "\<And>s. P s \<Longrightarrow> live (si_ws s) x" and "\<And>s s'. grows s s' \<Longrightarrow> P s \<Longrightarrow> P s'"
  shows "spec (\<lambda>s. site_ok s \<and> P s) (import_one w b)
    (\<lambda>_ s. site_ok s \<and> P s \<and> recorded m s) (\<lambda>s. site_ok s \<and> P s)"
proof -
  let ?P = "\<lambda>s. site_ok s \<and> P s"
  obtain src n where m: "get m ''source_workspace_id'' = JStr src" "sequence_of m = Inr (Some n)"
    using importable_facts [OF assms(1)] by metis
  have v': "validate_bundle w b = Inr m" using assms(1) by (simp add: importable_def)
  have i: "str_text w (get m ''job_id'') = job_id x" using assms(2) by simp
  have st: "spec ?P p (\<lambda>_. ?P) ?P" if "inert grows p" for p :: "'b io"
    by (rule spec_inert [OF that assms(4)])
  have rec_P: "grows s s' \<Longrightarrow> P s \<and> recorded m s \<Longrightarrow> P s' \<and> recorded m s'" for s s'
    using assms(4) recorded_grows by blast
  note tail = spec_weaken [OF spec_inert [OF inert_prune_give rec_P]]
  show ?thesis
    unfolding import_one_def import_known_def v' bindio_assoc option.case
  proof (rule spec_pure_bind, rule spec_observe_any, goal_cases)
    case (1 m' site_id)
    then have m': "m' = m" by simp
    show ?case
    proof (cases "eq_str (get m ''destination_workspace_id'') site_id")
      case False
      then show ?thesis by (auto simp: m' intro: spec_fail)
    next
      case True
      let ?R = "\<lambda>s. site_ok s \<and> P s \<and> recorded m s"
      show ?thesis
        unfolding m' if_not_P [OF not_not [THEN iffD2, OF True]] i m(2)
      proof (rule spec_find_live [where P = P and x = x], fact assms(3), rule refl, blast intro: assms(4) growing.still_R,
          rule spec_pure_bind, goal_cases)
        case (1 sq)
        then have sq: "sq = Some n" by simp
        show ?case
          unfolding sq option.case
        proof (rule spec_pure_bind, rule spec_observe_bind, rule spec_pure_bind, goal_cases)
          case (1 u rd replayed)
          have r: "site_ok s \<and> P s \<and> (replayed \<longrightarrow> recorded m s)"
            if "?P s \<and> received (tw_str w) m (si_received s) = rd" for s
            using that received_recorded [OF _ m, of "tw_str w" s replayed] 1 by auto
          show ?case
          proof (cases replayed)
            case True
            show ?thesis
              unfolding eqTrueI [OF True] if_True bindio_assoc
            proof (rule spec_pre [where P' = ?R], rule spec_bind [where R = "\<lambda>_. ?R"], goal_cases)
              case 1
              show ?case by (rule spec_weaken [OF spec_inert [OF growing.inert_read_state rec_P]]) auto
            next
              case (2 state)
              show ?case
                by (cases "same_provenance state m") (auto intro!: spec_fail tail)
            qed (use r True in auto)
          next
            case False
            then have f: "replayed = False" by simp
            show ?thesis
              unfolding f if_False bindio_assoc
            proof (rule spec_pre [where P' = ?P], rule spec_then [OF st [OF inert_import_bundle]],
                rule spec_bind [where R = "\<lambda>_. ?R"], goal_cases)
              case 1
              show ?case by (rule spec_weaken [OF spec_remember [OF m assms(4)]]) auto
            next
              case (2 v)
              show ?case by (rule tail) auto
            qed (use r in auto)
          qed
        qed auto
      qed auto
    qed
  qed auto
qed


section \<open>Imports that are killed and repeated\<close>

text \<open>Each import runs in its own world and may be killed after some changes.\<close>

fun retry_imports :: "payload option \<Rightarrow> (transfer_world \<times> nat) list \<Rightarrow> site \<Rightarrow> obj res list \<times> site" where
  "retry_imports b [] s = ([], s)"
| "retry_imports b ((w, n) # runs) s =
     (case import_one w b n s of
        (r, _, s') \<Rightarrow> (case retry_imports b runs s' of (rs, s'') \<Rightarrow> (r # rs, s'')))"

lemma retry_published:
  assumes "list_all (\<lambda>(w, n). importable w b m) runs" and "get m ''job_id'' = JStr (job_id x)"
    and "site_ok s" and "ws_tree (si_ws s) = path x # T" and "published m x s"
    and "retry_imports b runs s = (rs, s')"
  shows "site_ok s' \<and> ws_tree (si_ws s') = path x # T \<and> published m x s' \<and>
    (list_ex (\<lambda>r. \<exists>a. r = Inr a) rs \<longrightarrow> recorded m s') \<and> (recorded m s \<longrightarrow> recorded m s')"
  using assms(1,3-)
proof (induction runs arbitrary: s rs)
  case (Cons run runs)
  let ?P = "\<lambda>s. ws_tree (si_ws s) = path x # T \<and> published m x s"
  obtain w n where run: "run = (w, n)" by (cases run)
  obtain r k t where i: "import_one w b n s = (r, k, t)" by (cases "import_one w b n s")
  obtain rs' where rs: "retry_imports b runs t = (rs', s')" "rs = r # rs'"
    using Cons.prems(5) i run by (auto split: prod.splits)
  have w: "importable w b m" using Cons.prems(1) run by simp
  have g: "grows s s' \<Longrightarrow> ?P s \<Longrightarrow> ?P s'" for s s'
    using grows_tree [of s s'] published_grows [of s s' m x] by simp
  have live: "?P s \<Longrightarrow> live (si_ws s) x" for s by (simp add: published_def)
  have t: "site_ok t \<and> ?P t \<and> ((\<exists>a. r = Inr a) \<longrightarrow> recorded m t)"
  proof -
    have "spec (\<lambda>s. site_ok s \<and> ?P s) (import_one w b) (\<lambda>_ s. site_ok s \<and> ?P s \<and> recorded m s) (\<lambda>s. site_ok s \<and> ?P s)"
      by (rule spec_import_marker [OF w assms(2)]) (use live g in blast)+
    from specD [OF this _ i] Cons.prems(2-4) show ?thesis by (cases r) simp_all
  qed
  have rec: "recorded m t" if "recorded m s"
  proof -
    let ?R = "\<lambda>s. ?P s \<and> recorded m s"
    have "spec (\<lambda>s. site_ok s \<and> ?R s) (import_one w b) (\<lambda>_ s. site_ok s \<and> ?R s \<and> recorded m s) (\<lambda>s. site_ok s \<and> ?R s)"
      by (rule spec_import_marker [OF w assms(2)]) (use live g recorded_grows in blast)+
    from specD [OF this _ i] Cons.prems(2-4) that show ?thesis by (cases r) simp_all
  qed
  from Cons.IH [OF _ _ _ _ rs(1)] Cons.prems(1) t
  have "site_ok s' \<and> ws_tree (si_ws s') = path x # T \<and> published m x s' \<and>
    (list_ex (\<lambda>r. \<exists>a. r = Inr a) rs' \<longrightarrow> recorded m s') \<and> (recorded m t \<longrightarrow> recorded m s')" by simp
  with t rec rs(2) show ?case by auto
qed auto

text \<open>
  C15. An import publishes its job exactly once. A bundle is imported any number of times, each run
  killed at any change or finished: the state tree never gets more than one marker of the job, and
  as soon as one run returns an acknowledgement the job has its marker, with a state that reads
  back and records the transfer, and the receipt is kept.
\<close>

theorem import_exactly_once:
  assumes "list_all (\<lambda>(w, n). importable w b m) runs" and "site_ok s"
    and "get m ''job_id'' = JStr i" and "current_markers (ws_tree (si_ws s)) i = []"
    and "get m ''transfer_id'' = JStr t" and "map_of (si_acks s) t = None" and "\<not> recorded m s"
    and "retry_imports b runs s = (rs, s')"
  shows "(ws_tree (si_ws s') = ws_tree (si_ws s) \<or> imported (ws_tree (si_ws s)) m s') \<and>
    (list_ex (\<lambda>r. \<exists>a. r = Inr a) rs \<longrightarrow> imported (ws_tree (si_ws s)) m s' \<and> recorded m s')"
proof -
  let ?T = "ws_tree (si_ws s)" and ?F = "fresh (ws_id (si_ws s)) (ws_tree (si_ws s)) t m"
  have "(ws_tree (si_ws s') = ?T \<or> imported ?T m s') \<and>
      (list_ex (\<lambda>r. \<exists>a. r = Inr a) rs \<longrightarrow> imported ?T m s' \<and> recorded m s')"
    if "list_all (\<lambda>(w, n). importable w b m) runs" "site_ok u" "?F u" "retry_imports b runs u = (rs, s')" for u runs rs
    using that
  proof (induction runs arbitrary: u rs)
    case (Cons run runs)
    obtain w n where run: "run = (w, n)" by (cases run)
    obtain r k v where i: "import_one w b n u = (r, k, v)" by (cases "import_one w b n u")
    obtain rs' where rs: "retry_imports b runs v = (rs', s')" "rs = r # rs'"
      using Cons.prems(4) i run by (auto split: prod.splits)
    have w: "importable w b m" using Cons.prems(1) run by simp
    from specD [OF spec_import_fresh [OF w assms(5,3,4)] _ i, of "ws_id (si_ws s)"] Cons.prems(2,3)
    consider "\<exists>e. r = Inl e" "site_ok v" "?F v" | "site_ok v" "imported ?T m v" "(\<exists>a. r = Inr a) \<longrightarrow> recorded m v"
      by (cases r) auto
    then show ?case
    proof cases
      case 1
      with Cons.IH [OF _ _ _ rs(1)] Cons.prems(1) rs(2) show ?thesis by auto
    next
      case 2
      then obtain x where x: "ws_tree (si_ws v) = path x # ?T" "published m x v" by (auto simp: imported_def)
      have "get m ''job_id'' = JStr (job_id x)" using x(2) by (simp add: published_def eq_str_iff)
      from retry_published [OF _ this 2(1) x rs(1)] Cons.prems(1)
      have "ws_tree (si_ws s') = path x # ?T \<and> published m x s' \<and>
        (list_ex (\<lambda>r. \<exists>a. r = Inr a) rs' \<longrightarrow> recorded m s') \<and> (recorded m v \<longrightarrow> recorded m s')"
        by simp
      with 2(3) rs(2) show ?thesis by (auto simp: imported_def)
    qed
  qed (auto simp: fresh_def)
  from this [OF assms(1,2) _ assms(8)] assms(6,7) show ?thesis by (simp add: fresh_def)
qed


section \<open>Detaching an imported job onward\<close>

text \<open>Operations of the source side leave the receipts of imports alone.\<close>

lemma received_kept [simp]:
  "si_received (change_transfer k f s) = si_received s" "si_received (set_transfer k td s) = si_received s"
  "si_received (set_runner k r c s) = si_received s" "si_received (with_ws g s) = si_received s"
  "si_received (collect_retired_journal w segs s) = si_received s"
  using change_transfer_calm [of s k f] set_transfer_calm [of s k td] set_runner_calm [of s k r c]
  by (simp_all add: calm_def with_ws_def collect_retired_journal_def)

lemma always_read_state: "always I (read_job_state m)"
  unfolding read_job_state_def by (intro always_bind) auto

lemmas always_rules = always_bind always_liftio always_give always_fail always_observe always_each always_on_error
  always_effect always_change always_volatile always_read_state

lemma reserve_received: "always (\<lambda>s. Q (si_received s)) (reserve_io w p j t)"
  unfolding always_def spec_def reserve_io_def by (auto split: prod.splits sum.splits)

lemma sealed_received: "always (\<lambda>s. Q (si_received s)) (sealed_io w p t)"
  unfolding always_def spec_def sealed_io_def by (auto split: prod.splits sum.splits)

lemma fencing_received: "always (\<lambda>s. Q (si_received s)) (fencing_io w p t)"
  unfolding fencing_io_def by (intro always_rules) simp

lemma open_writer_received: "always (\<lambda>s. Q (si_received s)) (open_writer w)"
  unfolding open_writer_def by (intro always_rules) (simp split: prod.splits)

lemma append_received: "always (\<lambda>s. Q (si_received s)) (append_frame jw f)"
  unfolding append_frame_def by (intro always_rules) (simp split: prod.splits)

lemma transition_received: "always (\<lambda>s. Q (si_received s)) (transition_io w jw m k u)"
  unfolding transition_io_def by (auto intro!: always_rules append_received split: prod.splits)

lemma discard_received: "always (\<lambda>s. Q (si_received s)) (discard_writer w)"
  unfolding discard_writer_def by (auto intro!: always_rules)

lemma bundled_runners_received: "always (\<lambda>s. Q (si_received s)) (bundled_runners w k)"
  unfolding bundled_runners_def Let_def by (auto intro!: always_rules split: option.splits)

lemma bundled_seal_received: "always (\<lambda>s. Q (si_received s)) (bundled_seal w k key)"
  unfolding bundled_seal_def by (auto intro!: always_rules split: option.splits)

lemma seal_received: "always (\<lambda>s. Q (si_received s)) (seal_transferring w m state)"
  unfolding seal_transferring_def Let_def
  by (auto intro!: always_rules bundled_runners_received bundled_seal_received sealed_received
      split: option.splits json.splits)


lemma carries_facts:
  assumes "carries f m" and "importable w b m"
  obtains p t x n where "get f ''transfer'' = JObj p" "map_of p ''transfer_id'' = Some (JStr t)"
    "get p ''source_workspace_id'' = JStr x" "sequence_of p = Inr (Some n)" "\<And>s. recorded p s = recorded m s"
proof -
  obtain p where p: "get f ''transfer'' = JObj p" "get p ''transfer_id'' = get m ''transfer_id''"
    "get p ''transfer_sequence'' = get m ''transfer_sequence''" "get p ''transfer_epoch'' = get m ''transfer_epoch''"
    "get p ''source_workspace_id'' = get m ''source_workspace_id''"
    using assms(1) by (auto simp: carries_def split: json.splits)
  obtain t x n where m: "get m ''transfer_id'' = JStr t" "get m ''source_workspace_id'' = JStr x"
    "sequence_of m = Inr (Some n)"
    using importable_facts [OF assms(2)] by metis
  have "map_of p ''source_workspace_id'' = map_of m ''source_workspace_id''"
    using p(5) m(2) by (auto simp: get_def split: option.splits)
  moreover have "sequence_of p = sequence_of m" "epoch_of p = epoch_of m"
    using p(3,4) by (simp_all only: sequence_of_def epoch_of_def)
  ultimately have "manifest_number g p = manifest_number g m" for g
    by (simp only: manifest_number_def stream_key_def)
  then have "recorded p s = recorded m s" for s by (simp add: recorded_def)
  moreover have "sequence_of p = Inr (Some n)" using p(3) m(3) by (simp add: sequence_of_def)
  moreover have "map_of p ''transfer_id'' = Some (JStr t)" using p(2) m(1) by (auto simp: get_def split: option.splits)
  ultimately show thesis using that p(1,5) m(2) by simp
qed

text \<open>Before it moves the marker, a detach records the receipt that the import did not get to.\<close>

lemma spec_finish_receipt:
  assumes "carries f m" and "importable w' b m" and g: "\<And>s s'. grows s s' \<Longrightarrow> P s \<Longrightarrow> P s'"
  shows "spec (\<lambda>s. site_ok s \<and> P s) (finish_incoming_receipt w x f) (\<lambda>_. recorded m)
    (\<lambda>s. (site_ok s \<and> P s) \<or> recorded m s)"
proof -
  let ?P = "\<lambda>s. site_ok s \<and> P s"
  let ?R = "\<lambda>s. site_ok s \<and> P s \<and> recorded m s"
  obtain p t src n where p: "get f ''transfer'' = JObj p" "map_of p ''transfer_id'' = Some (JStr t)"
    "get p ''source_workspace_id'' = JStr src" "sequence_of p = Inr (Some n)" "\<And>s. recorded p s = recorded m s"
    by (rule carries_facts [OF assms(1,2)]) blast
  have st: "spec ?P q (\<lambda>_. ?P) ?P" if "inert grows q" for q :: "'b io"
    by (rule spec_inert [OF that g])
  have rec_P: "grows s s' \<Longrightarrow> P s \<and> recorded m s \<Longrightarrow> P s' \<and> recorded m s'" for s s'
    using g recorded_grows by blast
  have st': "spec ?R q (\<lambda>_. ?R) ?R" if "inert grows q" for q :: "'b io"
    by (rule spec_inert [OF that rec_P])
  have dir: "inert grows (case found of None \<Rightarrow> give () | Some td \<Rightarrow> (case td_manifest td of
      None \<Rightarrow> fail FormatError | Some manifest \<Rightarrow> bindio (install_seal w td manifest) (\<lambda>_. remove_transfer w k)))" for found k
    by (auto intro!: growing_rules split: option.splits)
  show ?thesis
    unfolding finish_incoming_receipt_def Let_def p(1) json.case bindio_assoc
  proof (rule spec_pure_bind, goal_cases)
    case (1 sq)
    then have sq: "sq = Some n" using p(4) by simp
    show ?case
      unfolding sq option.case
    proof (rule spec_observe_any, rule spec_then [OF st [OF dir]], rule spec_observe_bind, rule spec_pure_bind, goal_cases)
      case (1 found u kr known)
      have r: "?P s \<and> (known \<longrightarrow> recorded m s)" if "?P s \<and> received (tw_str w) p (si_received s) = kr" for s
        using that received_recorded [OF _ p(3,4), of "tw_str w" s known] p(5) 1 by auto
      have tail: "spec ?R (bindio (liftio (member p ''transfer_id'')) (\<lambda>t. prune_receipts (str_text w t))) (\<lambda>_. recorded m)
          (\<lambda>s. ?P s \<or> recorded m s)"
        by (rule spec_weaken [OF st']) (auto intro!: growing_rules)
      show ?case
      proof (rule spec_pre [where P' = "\<lambda>s. ?P s \<and> (known \<longrightarrow> recorded m s)"],
          rule spec_bind [where R = "\<lambda>_. ?R"], goal_cases)
        case 1
        show ?case
        proof (cases known)
          case True
          then show ?thesis by (auto intro!: spec_give)
        next
          case False
          then show ?thesis using spec_remember [OF p(3,4) g] p(5)
            by simp (rule spec_weaken [OF spec_remember [OF p(3,4) g]], auto)
        qed
      qed (use tail r in auto)
    qed auto
  qed auto
qed


text \<open>
  A detach of the job of \<open>x\<close>, whose state is \<open>f\<close>: everything before the receipt keeps the job, and
  nothing after it touches the receipts. \<open>A\<close> is what finishing the receipt ensures of them.
\<close>

lemma spec_detach_rule:
  assumes x: "live ws0 x"
    and finish: "spec (\<lambda>s. site_ok s \<and> live (si_ws s) x \<and> read_state (si_ws s) x = Inr f \<and> P s)
      (finish_incoming_receipt w x f) (\<lambda>_ s. A (si_received s)) C"
    and P: "\<And>s s'. still s s' \<Longrightarrow> P s \<Longrightarrow> P s'"
    and C: "\<And>s. site_ok s \<and> live (si_ws s) x \<and> read_state (si_ws s) x = Inr f \<and> P s \<Longrightarrow> C s"
    and A: "\<And>s. A (si_received s) \<Longrightarrow> C s"
  shows "spec (\<lambda>s. site_ok s \<and> live (si_ws s) x \<and> read_state (si_ws s) x = Inr f \<and> P s)
    (detach_job w (job_id x) None parents dst rem plc tid) (\<lambda>_. C) C"
proof -
  let ?P = "\<lambda>s. live (si_ws s) x \<and> read_state (si_ws s) x = Inr f \<and> P s"
  let ?I = "\<lambda>s. site_ok s \<and> ?P s"
  have g: "still s s' \<Longrightarrow> ?P s \<Longrightarrow> ?P s'" for s s'
    using read_state_extends [of "si_ws s" x f "si_ws s'"] P [of s s'] by (simp add: still_def live_def)
  have core: "kind x \<noteq> Transferring" using x by (auto simp: live_def CORE_STATE_KINDS_def)
  have after: "spec (\<lambda>s. A (si_received s)) p (\<lambda>_. C) C" if "always (\<lambda>s. A (si_received s)) p" for p :: "'b io"
    by (rule spec_weaken [OF that [unfolded always_def]]) (simp_all add: A)
  have joint: "spec ?I (bindio (find_job (job_id x)) (\<lambda>found. q found)) (\<lambda>_. C) C"
    if "spec ?I (q (Some x)) (\<lambda>_. C) C" for q :: "marker option \<Rightarrow> string io"
    by (rule spec_find_live [where P = ?P and x = x]) (use that g C in blast)+
  show ?thesis
    unfolding detach_job_def source_marker_def option.case bindio_assoc
  proof (rule spec_pure_bind, goal_cases)
    case (1 dest)
    show ?case
    proof (rule spec_bind [where R = "\<lambda>_. ?I"], goal_cases)
      case 1
      show ?case by (cases tid) (auto intro!: spec_give spec_liftio C)
    next
      case (2 t)
      show ?case
      proof (rule spec_observe_any, goal_cases)
        case (1 existing)
        show ?case
        proof (cases existing)
          case (Some ledger)
          then show ?thesis by (auto intro!: spec_fail spec_liftio C)
        next
          case None
          show ?thesis
            unfolding None option.case
          proof (rule joint, unfold option.case bindio_give if_not_P [OF core], goal_cases)
            case 1
            show ?case
            proof (cases "kind x \<notin> set QUIESCENT_KINDS")
              case True
              then show ?thesis by (auto intro!: spec_fail C)
            next
              case False
              show ?thesis
                unfolding if_not_P [OF False]
              proof (rule spec_observe_any, rule spec_pure_bind, goal_cases)
                case (1 jr joined)
                show ?case
                proof (cases joined)
                  case True
                  then show ?thesis by (auto intro!: spec_fail C)
                next
                  case False
                  show ?thesis
                    unfolding if_not_P [OF False] read_job_state_def bindio_assoc
                  proof (rule spec_pure_bind, rule spec_observe_known [where c = "Inr f"], blast, goal_cases)
                    case (1 tgt)
                    show ?case
                    proof (rule spec_pure_bind, rule spec_bind [where R = "\<lambda>_ s. A (si_received s)"], goal_cases)
                      case (1 prior)
                      then have "prior = f" by simp
                      then show ?case
                        using finish by simp
                    next
                      case (2 prior u)
                      show ?case
                        by (rule after)
                          (auto intro!: always_rules reserve_received open_writer_received fencing_received
                            transition_received discard_received seal_received split: prod.splits)
                    qed (simp_all add: C)
                  qed (simp_all add: C)
                qed
              qed (simp_all add: C)
            qed
          qed
        qed
      qed
    qed
  qed (simp_all add: C)
qed

lemma spec_detach:
  assumes "carries f m" and "importable w' b m" and "live ws0 x"
  shows "spec (\<lambda>s. site_ok s \<and> live (si_ws s) x \<and> read_state (si_ws s) x = Inr f \<and> True)
    (detach_job w (job_id x) None parents dst rem plc tid)
    (\<lambda>_ s. (site_ok s \<and> live (si_ws s) x) \<or> recorded m s)
    (\<lambda>s. (site_ok s \<and> live (si_ws s) x) \<or> recorded m s)"
proof (rule spec_detach_rule [OF assms(3), where A = "\<lambda>r.
    case manifest_number (\<lambda>_. []) m of None \<Rightarrow> False | Some (k, n) \<Rightarrow> n \<in> covered (stream_ranges r k)"])
  let ?P = "\<lambda>s. live (si_ws s) x \<and> read_state (si_ws s) x = Inr f"
  have g: "grows s s' \<Longrightarrow> ?P s \<Longrightarrow> ?P s'" for s s'
    using read_state_extends [of "si_ws s" x f "si_ws s'"] by (simp add: grows_def live_def)
  show "spec (\<lambda>s. site_ok s \<and> live (si_ws s) x \<and> read_state (si_ws s) x = Inr f \<and> True)
    (finish_incoming_receipt w x f)
    (\<lambda>_ s. case manifest_number (\<lambda>_. []) m of None \<Rightarrow> False
      | Some (k, n) \<Rightarrow> n \<in> covered (stream_ranges (si_received s) k))
    (\<lambda>s. (site_ok s \<and> live (si_ws s) x) \<or> recorded m s)"
    by (rule spec_weaken [OF spec_finish_receipt [OF assms(1,2) g]]) (auto simp: recorded_def)
qed (auto simp: recorded_def)

text \<open>Once a receipt is recorded, an import changes no marker.\<close>

lemma find_job_received: "always (\<lambda>s. ws_tree (si_ws s) = T \<and> Q (si_received s)) (find_job i)"
  unfolding find_job_def by (intro always_rules) (auto simp: with_ws_def split: prod.splits)

lemma spec_import_recorded:
  assumes "importable w b m"
  shows "spec (\<lambda>s. ws_tree (si_ws s) = T \<and> recorded m s) (import_one w b)
    (\<lambda>_ s. ws_tree (si_ws s) = T) (\<lambda>s. ws_tree (si_ws s) = T)"
proof -
  let ?P = "\<lambda>s. ws_tree (si_ws s) = T \<and> recorded m s"
  obtain src n where m: "get m ''source_workspace_id'' = JStr src" "sequence_of m = Inr (Some n)"
    using importable_facts [OF assms] by metis
  have v': "validate_bundle w b = Inr m" using assms by (simp add: importable_def)
  have find: "spec ?P (find_job i) (\<lambda>_. ?P) ?P" for i
    using find_job_received [of T "\<lambda>r. case manifest_number (\<lambda>_. []) m of None \<Rightarrow> False | Some (k, n) \<Rightarrow> n \<in> covered (stream_ranges r k)" i]
    by (simp add: always_def recorded_def)
  have tree: "spec ?P p (\<lambda>_ s. ws_tree (si_ws s) = T) (\<lambda>s. ws_tree (si_ws s) = T)"
    if "always (\<lambda>s. ws_tree (si_ws s) = T) p" for p :: "'b io"
    by (rule spec_pre [OF that [unfolded always_def]]) blast
  show ?thesis
    unfolding import_one_def import_known_def v' bindio_assoc option.case
  proof (rule spec_pure_bind, rule spec_observe_any, goal_cases)
    case (1 m' site_id)
    then have m': "m' = m" by simp
    show ?case
    proof (cases "eq_str (get m ''destination_workspace_id'') site_id")
      case False
      then show ?thesis by (auto simp: m' intro: spec_fail)
    next
      case True
      show ?thesis
        unfolding m' if_not_P [OF not_not [THEN iffD2, OF True]] m(2)
      proof (rule spec_then [OF find], rule spec_pure_bind, goal_cases)
        case (1 found sq)
        then have sq: "sq = Some n" by simp
        show ?case
          unfolding sq option.case
        proof (rule spec_pure_bind, rule spec_observe_bind, rule spec_pure_bind, goal_cases)
          case (1 u rd replayed)
          show ?case
          proof (rule spec_assume [where b = replayed], goal_cases)
            case (1 s)
            then show ?case using received_recorded [OF _ m, of "tw_str w" s replayed] \<open>rd = Inr replayed\<close> by auto
          next
            case 2
            then show ?case
              by (intro spec_pre [OF tree])
                (auto intro!: always_rules simp: prune_receipts_def split: option.splits)
          qed
        qed auto
      qed auto
    qed
  qed auto
qed



section \<open>Where the record of a transfer is lost\<close>

text \<open>The frame that a manager writes when it claims a job has no record of a transfer.\<close>

lemma claimed_transfer:
  "get (transition_frame ws m Claimed prio now (claim_updates mc wo i job state req a b)) ''transfer'' = JNull"
proof -
  let ?u = "claim_updates mc wo i job state req a b"
  have "has_key ?u ''transfer'' = False"
    unfolding claim_updates_def has_key_replace
    by (simp add: FRAME_MEMBERS_def CARRIED_STATE_MEMBERS_def carried_def has_key_def [of "dict_select _ _"])
  then have "map_of (rev ?u) ''transfer'' = None"
    by (auto simp: has_key_def map_of_eq_None_iff)
  then show ?thesis
    by (simp add: transition_frame_def transition_envelope_def get_def map_add_def)
qed

text \<open>
  C17. A replay is refused once the job was claimed. When the receipt of a bundle is recorded but
  the state of its job has no record of a transfer, as every state from the first claim on,
  each further import of the bundle fails with a corruption error instead of acknowledging it.
\<close>

theorem replay_after_claim_refused:
  assumes "importable w b m" and "site_ok s" and "recorded m s"
    and "live (si_ws s) x" and "get m ''job_id'' = JStr (job_id x)"
    and "read_state (si_ws s) x = Inr f" and "get f ''transfer'' = JNull"
    and "get m ''destination_workspace_id'' = JStr (ws_id (si_ws s))" and "tw_identity w = Inr ()"
    and "received (tw_str w) m (si_received s) = Inr known"
  shows "fst (import_one w b n s) = Inl WorkspaceCorruptionError"
proof -
  obtain src k where m: "get m ''source_workspace_id'' = JStr src" "sequence_of m = Inr (Some k)"
    using importable_facts [OF assms(1)] by metis
  have v: "validate_bundle w b = Inr m" using assms(1) by (simp add: importable_def)
  have known using received_recorded [OF assms(10) m] assms(3) by blast
  obtain r l t where find: "find_job (job_id x) n s = (r, l, t)" by (cases "find_job (job_id x) n s")
  have r: "r = Inr (Some x)" "still s t" using find_job_current [OF assms(2) find] assms(4) by blast+
  have t: "ws_id (si_ws t) = ws_id (si_ws s)" "si_received t = si_received s" "read_state (si_ws t) x = Inr f"
    using r(2) read_state_extends [OF assms(6), of "si_ws t"] by (simp_all add: still_def)
  have "\<not> same_provenance f m" using assms(7) by (simp add: same_provenance_def)
  then show ?thesis
    using v assms(5,8-10) find r(1) t m(2) \<open>known\<close>
    by (simp add: import_one_def import_known_def bindio_def liftio_def observe_def read_job_state_def fail_def eq_str_iff)
qed

text \<open>
  C18. An import that a claim made forget. A job whose state has no record of a transfer is detached
  onward without a receipt, at whatever change the detach is killed: if the import was killed
  before it recorded the receipt itself, a replay of the bundle is taken for a new one.
\<close>

theorem claimed_import_forgotten:
  assumes "site_ok s" and "live (si_ws s) x" and "read_state (si_ws s) x = Inr f" and "get f ''transfer'' = JNull"
    and "detach_job w (job_id x) None parents dst rem plc tid n s = (r, k, s1)"
  shows "si_received s1 = si_received s \<and> recorded m s1 = recorded m s"
proof -
  let ?I = "\<lambda>t. site_ok t \<and> live (si_ws t) x \<and> read_state (si_ws t) x = Inr f \<and> si_received t = si_received s"
  have "spec ?I (detach_job w (job_id x) None parents dst rem plc tid)
    (\<lambda>_ t. si_received t = si_received s) (\<lambda>t. si_received t = si_received s)"
  proof (rule spec_detach_rule [OF assms(2), where A = "\<lambda>r. r = si_received s"])
    show "spec ?I (finish_incoming_receipt w x f) (\<lambda>_ t. si_received t = si_received s) (\<lambda>t. si_received t = si_received s)"
      using assms(4) by (auto simp: finish_incoming_receipt_def intro!: spec_give)
  qed (auto simp: still_def)
  from specD [OF this _ assms(5)] assms(1-3) have "si_received s1 = si_received s" by (cases r) auto
  then show ?thesis by (simp only: recorded_def)
qed


end
