(* ===== verification/Transfer_Examples.thy ===== *)
theory Transfer_Examples
  imports Transfer_Safety
begin

text \<open>
  A concrete bundle, destination and worlds, on which the properties of transfers are applied.
\<close>

section \<open>Room for a record\<close>

text \<open>A bound on the text of a value, for records whose text is too long to compute.\<close>

fun json_room :: "json \<Rightarrow> nat" where
  "json_room (JStr s) = 6 * length s + 2"
| "json_room (JArr xs) = 2 + sum_list (map (\<lambda>x. json_room x + 1) xs)"
| "json_room (JObj m) = 2 + sum_list (map (\<lambda>(k, v). 6 * length k + 4 + json_room v) m)"
| "json_room v = length (json_bytes v)"

lemma length_escaped: "length (concat (map escape_char s)) \<le> 6 * length s"
proof (induction s)
  case (Cons c s)
  have "length (escape_char c) \<le> 6" by (simp add: escape_char_def)
  with Cons show ?case by simp
qed simp

lemma length_json_string: "length (json_string s) \<le> 6 * length s + 2"
  using length_escaped [of s] by (simp add: json_string_def)

lemma length_join: "length (join_with '','' ts) \<le> sum_list (map (\<lambda>t. length t + 1) ts)"
proof (induction ts)
  case (Cons t ts)
  then show ?case by (cases ts) (simp_all add: join_with.simps)
qed (simp add: join_with.simps)

lemma sum_sort: "sum_list (map g (sort_key f xs)) = (sum_list (map g xs) :: nat)"
proof -
  have "sum_list (map g (insort_key f x ys)) = g x + sum_list (map g ys)" for x ys
    by (induction ys) simp_all
  then show ?thesis by (induction xs) simp_all
qed

lemma json_room: "length (json_bytes v) \<le> json_room v"
proof (induction v rule: json_room.induct)
  case (1 s)
  then show ?case using length_json_string by simp
next
  case (2 xs)
  have "sum_list (map (\<lambda>x. length (json_bytes x) + 1) xs) \<le> sum_list (map (\<lambda>x. json_room x + 1) xs)"
    using 2 by (intro sum_list_mono) simp
  with length_join [of "map json_bytes xs"] show ?case by (simp add: comp_def)
next
  case (3 m)
  let ?g = "\<lambda>(k, t). json_string k @ CHR '':'' # t"
  let ?ts = "map (\<lambda>(k, v). (k, json_bytes v)) m"
  have "sum_list (map (\<lambda>p. length (?g p) + 1) ?ts) \<le> sum_list (map (\<lambda>(k, v). 6 * length k + 4 + json_room v) m)"
    unfolding map_map
  proof (rule sum_list_mono)
    fix p assume "p \<in> set m"
    obtain k v where p: "p = (k, v)" by (cases p)
    then show "((\<lambda>p. length (?g p) + 1) \<circ> (\<lambda>(k, v). (k, json_bytes v))) p
        \<le> (case p of (k, v) \<Rightarrow> 6 * length k + 4 + json_room v)"
      using 3 [OF \<open>p \<in> set m\<close> p [symmetric]] length_json_string [of k] by simp
  qed
  with length_join [of "map ?g (sort_key fst ?ts)"] sum_sort [of "\<lambda>p. length (?g p) + 1" fst ?ts]
  show ?case by (simp add: comp_def)
qed simp_all

section \<open>A bundle\<close>

definition example_digest :: string where
  "example_digest = hex_text (sha256 PAYLOAD_DIGEST_DOMAIN)"

lemma example_digest: "payload_digest g [] = Inr example_digest" "length example_digest = 64" "ascii example_digest"
proof -
  show "payload_digest g [] = Inr example_digest"
    by (simp add: example_digest_def payload_digest_def payload_preimage_def covered_entries_def)
  show "length example_digest = 64" by (simp add: example_digest_def)
  have "ascii hex_chars" by code_simp
  then show "ascii example_digest" unfolding example_digest_def by (rule ascii_subset [OF hex_text_all_in])
qed

definition transfer_example :: obj where
  "transfer_example =
     [(''format'', JStr ''httk-workflow-detached-transfer''), (''format_version'', JInt 2),
      (''core_profile'', JStr ''core-v2''), (''transfer_id'', JStr example_writer),
      (''source_workspace_id'', JStr example_writer), (''destination_workspace_id'', JStr example_id),
      (''job_id'', JStr example_id), (''job_key'', JStr example_key), (''source_placement'', JStr ''proj''),
      (''destination_placement'', JStr ''proj''), (''payload_sha256'', JStr example_digest), (''seal'', JNull),
      (''prior_kind'', JStr ''ready''), (''prior_state'', JObj []), (''priority'', JInt 500),
      (''source_generation'', JInt 3), (''sealed_marker'', JStr ''marker''),
      (''transfer_sequence'', JInt 1), (''transfer_epoch'', JStr example_id)]"

definition example_bundle :: payload where
  "example_bundle =
     \<lparr>pl_entries = [], pl_document = None, pl_transfer =
        Some \<lparr>td_manifest = Some transfer_example, td_files = [(''marker'', [])], td_runners = []\<rparr>\<rparr>"

definition transfer_world_example :: transfer_world where
  "transfer_world_example =
     \<lparr>tw_now = ''now'', tw_identifier = example_writer, tw_epoch = example_id, tw_pid = 7, tw_origin = example_origin,
      tw_writer = example_writer, tw_segment_bytes = 8192, tw_rename = quiet [True], tw_publish = [True],
      tw_str = (\<lambda>_. []), tw_file_digest = (\<lambda>_. []), tw_runner_digest = (\<lambda>_. []), tw_identity = Inr (),
      tw_sign = (\<lambda>m. m), tw_verify = (\<lambda>_. (False, False)), tw_copies = [], tw_removals = [], tw_runner_copies = [],
      tw_retired_removals = [], tw_publish_runner = (\<lambda>_. Inr ()), tw_trash_days = None, tw_gc = example_gc_view\<rparr>"

lemma example_source_parsed: "canonical_uuid (JStr example_writer) = Inr example_writer"
  "canonical_uuid (JStr example_id) = Inr example_id"
  by (simp_all add: canonical_uuid_Inr example_ids)

lemma transfer_example_get:
  "get transfer_example ''transfer_id'' = JStr example_writer" "get transfer_example ''job_id'' = JStr example_id"
  "get transfer_example ''source_workspace_id'' = JStr example_writer" "get transfer_example ''job_key'' = JStr example_key"
  "get transfer_example ''destination_workspace_id'' = JStr example_id"
  "get transfer_example ''payload_sha256'' = JStr example_digest"
  "get transfer_example ''transfer_sequence'' = JInt 1" "get transfer_example ''transfer_epoch'' = JStr example_id"
  "get transfer_example ''destination_placement'' = JStr ''proj''" "get transfer_example ''prior_kind'' = JStr ''ready''"
  by (simp_all add: transfer_example_def)

lemma example_validated: "validate_bundle transfer_world_example (Some example_bundle) = Inr transfer_example"
proof -
  have "normalize_placement ''proj'' = Inr [''proj'']" by code_simp
  then show ?thesis
    by (auto simp: validate_bundle_def example_bundle_def transfer_example_get example_source_parsed
        transfer_world_example_def example_digest(1) guardr_def manifest_runners_def carried_runners_def carried_seal_def
        get_default_def transfer_example_def)
qed


lemma example_sequenced: "sequenced transfer_example"
  "manifest_number f transfer_example = Some (example_writer @ ''/'' @ example_id, 1)"
proof -
  have "epoch_of transfer_example = Inr (Some example_id)" "sequence_of transfer_example = Inr (Some 1)"
    by (simp_all add: sequence_of_def epoch_of_def transfer_example_get example_source_parsed)
  moreover have "map_of transfer_example ''source_workspace_id'' = Some (JStr example_writer)"
    by (simp add: transfer_example_def)
  ultimately show n: "manifest_number f transfer_example = Some (example_writer @ ''/'' @ example_id, 1)" for f
    by (simp add: manifest_number_def stream_key_def)
  show "sequenced transfer_example" by (simp add: sequenced_def n)
qed

text \<open>The frame that an import of the bundle appends.\<close>

definition arrived_frame :: obj where
  "arrived_frame =
     [(''format'', JStr ''httk-workflow-state''), (''format_version'', JInt 2), (''workspace_id'', JStr example_id),
      (''job_id'', JStr example_id), (''job_key'', JStr example_key), (''placement'', JStr ''proj''),
      (''state_generation'', JInt 4), (''kind'', JStr ''ready''), (''previous_record_ref'', JNull),
      (''created_at'', JStr ''now''), (''priority'', JInt 500),
      (''transfer'', JObj
        [(''transfer_id'', JStr example_writer), (''transfer_sequence'', JInt 1), (''transfer_epoch'', JStr example_id),
         (''source_workspace_id'', JStr example_writer), (''payload_sha256'', JStr example_digest)])]"

lemma arrived_frame: "imported_frame transfer_world_example example_id transfer_example [] ''ready'' [''proj''] 4 500
    example_writer example_digest = arrived_frame"
  by (simp add: imported_frame_def transfer_example_get arrived_frame_def dict_update_def has_key_def)
    (simp add: transfer_example_def transfer_world_example_def as_posix_def join_with.simps)

lemma example_texts: "ascii example_id" "ascii example_writer" "ascii example_key"
  "length example_id = 36" "length example_writer = 36" "length example_key = 39"
  by code_simp+

lemma arrived_storable: "storable arrived_frame"
proof -
  have "json_ok (JObj arrived_frame)"
    by (simp add: arrived_frame_def utf8_ascii example_texts example_digest(3))
  moreover have "length (nat_text 2) = 1" "length (nat_text 4) = 1" "length (nat_text 500) = 3"
    "length (nat_text (Suc 0)) = 1"
    by code_simp+
  then have "json_room (JObj arrived_frame) < 5000"
    by (simp add: arrived_frame_def example_texts example_digest(2) int_text_def)
  ultimately show ?thesis using json_room [of "JObj arrived_frame"] by (simp add: storable_def)
qed

lemma example_keepable: "keepable transfer_world_example example_id transfer_example"
proof -
  have "arriving_frame transfer_world_example example_id transfer_example = Some arrived_frame"
  proof -
    have "normalize_placement ''proj'' = Inr [''proj'']" by code_simp
    then show ?thesis
      using arrived_frame
      by (simp add: arriving_frame_def transfer_example_get) (simp add: transfer_example_def member_def)
  qed
  then show ?thesis using arrived_storable by (simp add: keepable_def)
qed

lemma example_importable: "importable transfer_world_example (Some example_bundle) transfer_example"
  using example_validated example_sequenced(1) example_keepable
  by (simp add: importable_def names_job_def transfer_example_get example_key_parse)
    (simp add: transfer_world_example_def)


section \<open>A destination\<close>

text \<open>The workspace of the destination before an import, with given receipts.\<close>

definition empty_site :: "ranges dict \<Rightarrow> site" where
  "empty_site got =
     \<lparr>si_root = ''/work'',
      si_ws = \<lparr>ws_id = example_id, ws_tree = [], ws_documents = Map.empty, ws_journal = Map.empty,
        ws_index = example_index, ws_sealed = False, ws_sealed_jobs = []\<rparr>,
      si_payloads = [], si_staging = [], si_retired = [], si_ledgers = [], si_acks = [], si_imported = [],
      si_protocol = no_files, si_session = (\<lambda>_. None), si_received = got, si_pending = [], si_runners = [],
      si_seals = []\<rparr>"

lemma example_index_ok: "index_inv example_index"
  by code_simp

lemma empty_site_ok: "site_ok (empty_site [])"
  using example_index_ok by (simp add: site_ok_def empty_site_def one_marker_def stream_ranges_def)

lemma not_recorded: "\<not> recorded transfer_example (empty_site [])"
  by (simp add: recorded_def example_sequenced(2) empty_site_def stream_ranges_def)

lemma no_current: "current_markers [] i = []"
  using current_markers_set [of _ "[]" i] by simp (meson list.set_sel(1))

lemma example_find: "\<exists>idx. find_marker_by_id [] example_id example_index = (Inr None, idx)"
proof -
  obtain r idx where f: "find_marker_by_id [] example_id example_index = (r, idx)" by (cases "find_marker_by_id [] example_id example_index")
  then show ?thesis using find_marker_by_id_cases [OF _ example_index_ok f] no_current f by simp
qed

lemma example_init: "journal_writer_init example_writer 8192 Map.empty = (Inr (), example_store)"
  unfolding example_store_def journal_writer_init_def
  by (simp add: Let_def example_ids open_segment_def segment_bytes_def)

lemma example_arrives:
  obtains ref w J p where "append_record (fst example_store) arrived_frame (snd example_store) = (Inr ref, w, J)"
    "marker_path Ready [''proj''] example_key 500 4 ref = Inr p"
    "marker_from_path p = Inr \<lparr>kind = Ready, placement = [''proj''], job_key = example_key, priority = 500,
       generation = 4, record_ref = ref, path = p\<rparr>"
    "read_record [J] ref = Inr (stored arrived_frame)" "ref \<noteq> ''init''"
proof -
  have k: "json_ok (JObj arrived_frame)" using arrived_storable by (simp add: storable_def)
  obtain ref w J where a: "append_record (fst example_store) arrived_frame (snd example_store) = (Inr ref, w, J)"
    using example_append [OF utf8_json_bytes [OF k]] by blast
  have i: "writer_inv (fst example_store) (snd example_store)" using example_store_inv by (simp add: store_inv_def)
  obtain y where ref: "parse_record_ref ref = Inr y" using append_ref [OF i arrived_storable a] by blast
  obtain name where "marker_basename example_key 500 4 ref = Inr name"
    using marker_basename_ok [OF example_key_parse _ _ _ _ ref, of 500 4] by auto
  then have p: "marker_path Ready [''proj''] example_key 500 4 ref = Inr (state_directory Ready [''proj''] @ [name])"
    by (simp add: marker_path_def)
  have n: "normalize_parts \<lparr>absolute = False, parts = [''proj'']\<rparr> = Inr [''proj'']" by code_simp
  have s: "store_append example_store arrived_frame = (Inr ref, (w, J))"
    using a by (simp add: store_append_def split_beta)
  have "read_record [J] ref = Inr (stored arrived_frame)"
    using js.app_read [OF example_store_inv arrived_storable s] by (simp add: store_read_def)
  moreover have "ref \<noteq> ''init''" using append_reference [OF a] i by (simp add: writer_inv_def)
  ultimately show thesis
    using that [OF a p] marker_path_read [OF p n conjunct1 [OF parsed_ref_pattern [OF ref]]] by simp
qed

lemma example_import_returns:
  "\<exists>ack n s'. import_one transfer_world_example (Some example_bundle) 100 (empty_site []) = (Inr ack, n, s')"
proof -
  obtain idx where f: "find_marker_by_id [] example_id example_index = (Inr None, idx)" using example_find by blast
  obtain ref w J p where a: "append_record (fst example_store) arrived_frame (snd example_store) = (Inr ref, w, J)"
    "marker_path Ready [''proj''] example_key 500 4 ref = Inr p"
    "marker_from_path p = Inr \<lparr>kind = Ready, placement = [''proj''], job_key = example_key, priority = 500,
       generation = 4, record_ref = ref, path = p\<rparr>" by (rule example_arrives) blast
  have n: "normalize_placement ''proj'' = Inr [''proj'']" by code_simp
  have sq: "sequence_of transfer_example = Inr (Some 1)" by (simp add: sequence_of_def transfer_example_get)

  have w': "tw_writer transfer_world_example = example_writer" "tw_segment_bytes transfer_world_example = 8192"
    "tw_publish transfer_world_example = [True]" "tw_removals transfer_world_example = []" "tw_identity transfer_world_example = Inr ()"
    by (simp_all add: transfer_world_example_def)
  let ?w = transfer_world_example and ?s = "with_ws (\<lambda>ws. ws\<lparr>ws_index := idx\<rparr>) (empty_site [])"
  have rec: "received (tw_str ?w) transfer_example [] = Inr False"
    using example_sequenced(2) [of "tw_str ?w"]
    by (auto simp: received_def manifest_number_def sq in_ranges_def stream_ranges_def split: sum.splits)
  have find: "find_job example_id 100 (empty_site []) = (Inr None, 100, ?s)"
    by (simp add: find_job_def volatile_def empty_site_def with_ws_def f)
  have runners: "install_runners ?w td transfer_example k s = (Inr (), k, s)" for td k s
    by (simp add: install_runners_def manifest_runners_def transfer_example_def get_default_def bindio_def liftio_def give_def)

  let ?s2 = "(empty_site [])\<lparr>si_ws := (si_ws ?s)\<lparr>ws_documents := Map.empty([''proj'', example_key] := None)\<rparr>,
    si_payloads := [(as_posix [''proj'', example_key], example_bundle)]\<rparr>"
  have stage: "stage_payload ?w example_bundle example_writer example_digest [''proj'', example_key] 100 ?s = (Inr (), 98, ?s2)"
     by (simp add: stage_payload_def bindio_def observe_def liftio_def with_ws_def empty_site_def effect_def change_def
       transfer_world_example_def give_def example_bundle_def example_digest dict_del_def)
  have seal: "get transfer_example ''seal'' = JNull" "get transfer_example ''prior_state'' = JObj []"
     "member transfer_example ''source_generation'' = Inr (JInt 3)" "member transfer_example ''priority'' = Inr (JInt 500)"
     "member transfer_example ''prior_kind'' = Inr (JStr ''ready'')" "member transfer_example ''source_placement'' = Inr (JStr ''proj'')"
     "member transfer_example ''sealed_marker'' = Inr (JStr ''marker'')"
     "member transfer_example ''source_workspace_id'' = Inr (JStr example_writer)"
     "member transfer_example ''job_id'' = Inr (JStr example_id)" "member transfer_example ''job_key'' = Inr (JStr example_key)"
     "member transfer_example ''transfer_id'' = Inr (JStr example_writer)" "member transfer_example ''transfer_sequence'' = Inr (JInt 1)"
     "member transfer_example ''payload_sha256'' = Inr (JStr example_digest)"
     "member transfer_example ''destination_placement'' = Inr (JStr ''proj'')"
    by (simp_all add: transfer_example_def member_def)
  have arr: "imported_frame ?w example_id transfer_example [] ''ready'' [''proj''] 4 500 example_writer example_digest = arrived_frame"
    by (rule arrived_frame)
  have kn: "kind_of_name ''ready'' = Some Ready" using kind_of_name_name [of Ready] by simp
  obtain jw J0 where e: "example_store = (jw, J0)" by (cases example_store)
  have init: "journal_writer_init example_writer 8192 Map.empty = (Inr (), jw, J0)" using example_init unfolding e by simp
  have app: "append_record jw arrived_frame J0 = (Inr ref, w, J)" using a(1) unfolding e by simp
  have pub: "\<exists>ack s'. publish_import ?w transfer_example example_writer example_digest [''proj''] example_key 98 ?s2 = (Inr ack, 92, s') \<and>
     si_received s' = []"
    by (simp add: publish_import_def Let_def bindio_def observe_def liftio_def give_def seal kn n
      QUIESCENT_KINDS_def open_writer_def change_def append_frame_def with_ws_def empty_site_def arr effect_def w' init app a(2,3) arr
      payload_key_def transfer_at_def change_transfer_def set_transfer_def example_bundle_def payload_path_def
      acknowledgement_def write_ack_def install_seal_def remove_transfer_def)
  obtain s1 where s1: "s1 = ?s" by blast
  have f1: "ws_id (si_ws s1) = example_id" "si_acks s1 = []" "si_received s1 = []"
    by (simp_all add: s1 with_ws_def empty_site_def)
  have f0: "ws_id (si_ws (empty_site [])) = example_id" by (simp add: empty_site_def)
  obtain ack s' where p: "publish_import ?w transfer_example example_writer example_digest [''proj''] example_key 98 ?s2 = (Inr ack, 92, s')"
    "si_received s' = []" using pub by blast
  have "import_bundle ?w (Some example_bundle) None 100 s1 = (Inr ack, 92, s')"
    using f1 stage [folded s1] p(1) [folded s1]
    by (simp add: import_bundle_def example_validated bindio_def liftio_def observe_def transfer_example_get w' runners n seal payload_path_def)
  moreover obtain s3 where "remember_io ?w transfer_example 92 s' = (Inr (), 91, s3)"
  proof -
    obtain k where "stream_key (tw_str ?w) transfer_example = Inr k"
      using example_sequenced(2) [of "tw_str ?w"] by (auto simp: manifest_number_def split: sum.splits)
    then show thesis using that p(2) by (simp add: remember_io_def change_def remember_def sq)
  qed
  moreover obtain s4 where "prune_receipts example_writer 91 s3 = (Inr (), 89, s4)"
    by (simp add: prune_receipts_def bindio_def effect_def change_def)
  ultimately show ?thesis
    using f1 f0 rec find [folded s1]
    by (simp add: import_one_def import_known_def example_validated bindio_def liftio_def observe_def 
      transfer_example_get sq w' sequence_ack_def seal)
qed

theorem import_exactly_once_witness:
  "\<exists>rs s'. retry_imports (Some example_bundle) [(transfer_world_example, 100), (transfer_world_example, 3)] (empty_site []) =
      (rs, s') \<and> imported [] transfer_example s' \<and> recorded transfer_example s'"
proof -
  let ?runs = "[(transfer_world_example, 100), (transfer_world_example, 3)]"
  have runs: "list_all (\<lambda>(w, n). importable w (Some example_bundle) transfer_example) ?runs"
    using example_importable by simp
  have site: "current_markers (ws_tree (si_ws (empty_site []))) example_id = []" "ws_tree (si_ws (empty_site [])) = []"
    "map_of (si_acks (empty_site [])) example_writer = None"
    by (simp_all add: empty_site_def no_current)
  obtain ack n s1 where i: "import_one transfer_world_example (Some example_bundle) 100 (empty_site []) = (Inr ack, n, s1)"
    using example_import_returns by blast
  obtain rs s' where r: "retry_imports (Some example_bundle) ?runs (empty_site []) = (rs, s')"
    by (cases "retry_imports (Some example_bundle) ?runs (empty_site [])")
  then have "list_ex (\<lambda>r. \<exists>a. r = Inr a) rs" using i by (auto split: prod.splits)
  with import_exactly_once [OF runs empty_site_ok transfer_example_get(2) site(1) transfer_example_get(1) site(3)
      not_recorded r] r site(2) show ?thesis by auto
qed

text \<open>The site that this import leaves.\<close>

lemma example_published:
  obtains s x where "site_ok s" "published transfer_example x s"
proof -
  obtain ack n s where i: "import_one transfer_world_example (Some example_bundle) 100 (empty_site []) = (Inr ack, n, s)"
    using example_import_returns by blast
  have "site_ok (empty_site []) \<and> fresh example_id [] example_writer transfer_example (empty_site [])"
    using empty_site_ok not_recorded by (simp add: fresh_def) (simp add: empty_site_def)
  from specD [OF spec_import_fresh [OF example_importable transfer_example_get(1,2) no_current] this i]
  have "site_ok s" "imported [] transfer_example s" by simp_all
  then show thesis using that by (auto simp: imported_def)
qed


text \<open>A destination whose job has a marker and a state without a record of the transfer.\<close>

definition marked_site :: "ranges dict \<Rightarrow> site" where
  "marked_site got = (empty_site got)\<lparr>si_ws := example_workspace\<rparr>"

lemma marked_site_ok: "site_ok (marked_site [(k, [(1, 1)])])" "site_ok (marked_site [])"
  using example_coherent by (simp_all add: site_ok_def marked_site_def empty_site_def coherent_def stream_ranges_def)

lemma marked_state: "read_state (si_ws (marked_site got)) example_marker = Inr (initial_state example_workspace example_marker)"
  "get (initial_state example_workspace example_marker) ''transfer'' = JNull"
  "live (si_ws (marked_site got)) example_marker" "job_id example_marker = example_id"
  using example_live by (simp_all add: marked_site_def read_state_def example_marker_def initial_state_def job_id_def example_key_parse)

theorem replay_after_claim_refused_witness:
  "fst (import_one transfer_world_example (Some example_bundle) 100
     (marked_site [(example_writer @ ''/'' @ example_id, [(1, 1)])])) = Inl WorkspaceCorruptionError"
proof -
  let ?s = "marked_site [(example_writer @ ''/'' @ example_id, [(1, 1)])]"
  have "recorded transfer_example ?s"
    by (simp add: recorded_def example_sequenced(2) marked_site_def empty_site_def stream_ranges_def)
  moreover have "get transfer_example ''destination_workspace_id'' = JStr (ws_id (si_ws ?s))"
    by (simp add: transfer_example_get marked_site_def example_workspace_def)
  moreover have "tw_identity transfer_world_example = Inr ()" by (simp add: transfer_world_example_def)
  moreover have "received (tw_str transfer_world_example) transfer_example (si_received ?s) = Inr True"
    using example_sequenced(2) [of "tw_str transfer_world_example"]
    by (auto simp: received_def manifest_number_def in_ranges_def stream_ranges_def marked_site_def empty_site_def
        split: sum.splits option.splits)
  ultimately show ?thesis
    using marked_state transfer_example_get(2)
    by (intro replay_after_claim_refused [OF example_importable marked_site_ok(1) _ marked_state(3) _ marked_state(1,2)]) simp_all
qed

theorem claimed_import_forgotten_witness:
  "\<not> recorded transfer_example
     (snd (snd (detach_job transfer_world_example example_id None None example_writer None None None 9 (marked_site []))))"
proof -
  obtain r k s1 where d: "detach_job transfer_world_example (job_id example_marker) None None example_writer None None None 9
      (marked_site []) = (r, k, s1)"
    by (cases "detach_job transfer_world_example (job_id example_marker) None None example_writer None None None 9 (marked_site [])")
  have "\<not> recorded transfer_example (marked_site [])"
    by (simp add: recorded_def example_sequenced(2) marked_site_def empty_site_def stream_ranges_def)
  with claimed_import_forgotten [OF marked_site_ok(2) marked_state(3,1,2) d] d marked_state(4) show ?thesis by simp
qed



end
