(* ===== verification/Consistency_Check.thy ===== *)
theory Consistency_Check
  imports Removal Workspace_Protocol
begin

text \<open>
  The consistency check of a workspace (\<open>src/src/httk/workflow/fsck.py\<close>): which markers do not
  resolve to their own journal frame, and the conservative repair that re-points a damaged marker
  at the newest readable frame of its job, leaves the markers of live managers alone, and moves
  away, on request, what nothing can restore. At the end, what the check promises.
\<close>

section \<open>Findings\<close>

definition LIVE_KINDS :: "kind list" where
  "LIVE_KINDS = [Claimed, Running, Committing, Cancelling]"

datatype check_problem =
  Unparseable_Name | Unverified verification | Identity_Mismatch | Payload_Missing

datatype check_action = Reported | Repaired | Quarantined | Skipped_Live

text \<open>The members that only explain are left out; \<open>fi_marker\<close> is the marker that was read.\<close>

record finding =
  fi_entry :: "string list"
  fi_problem :: check_problem
  fi_action :: check_action
  fi_marker :: "marker option"
  fi_repaired_ref :: "string option"

record check_report =
  cr_workspace_id :: string
  cr_markers_checked :: nat
  cr_findings :: "finding list"
  cr_counts :: "check_action \<Rightarrow> nat"

definition check_ok :: "check_report \<Rightarrow> bool" where
  "check_ok r \<longleftrightarrow> cr_findings r = []"

definition unresolved :: "check_report \<Rightarrow> nat" where
  "unresolved r = length (filter (\<lambda>f. fi_action f \<in> {Reported, Skipped_Live}) (cr_findings r))"

fun frame_problem_code :: "frame_problem \<Rightarrow> string" where
  "frame_problem_code missing_segment = ''missing_segment''"
| "frame_problem_code short_read = ''short_read''"
| "frame_problem_code invalid_header = ''invalid_header''"
| "frame_problem_code length_mismatch = ''length_mismatch''"
| "frame_problem_code trailer_mismatch = ''trailer_mismatch''"
| "frame_problem_code checksum_mismatch = ''checksum_mismatch''"
| "frame_problem_code reference_mismatch = ''reference_mismatch''"
| "frame_problem_code undecodable_frame = ''undecodable_frame''"
| "frame_problem_code not_an_object = ''not_an_object''"

fun problem_code :: "check_problem \<Rightarrow> string" where
  "problem_code Unparseable_Name = ''unparseable_name''"
| "problem_code (Unverified (Problem p)) = frame_problem_code p"
| "problem_code (Unverified Invalid_record_ref) = ''invalid_record_ref''"
| "problem_code (Unverified Unreadable_frame) = ''unreadable_frame''"
| "problem_code (Unverified (Verified _)) = ''None''"
| "problem_code Identity_Mismatch = ''identity_mismatch''"
| "problem_code Payload_Missing = ''payload_missing''"

section \<open>What a check sees\<close>

text \<open>
  What the attempts of a read of one reference see of the journal, the segments of all writers
  in the order of their sorted names, which payload directories appear, the age of a manager's
  heartbeat, the default lease, the two times of a repair, the outcomes of renames, and the
  writer that a repair opens.
\<close>

record check_world =
  ck_views :: "string \<Rightarrow> journal \<Rightarrow> journal list"
  ck_listing :: "(string \<times> nat) list"
  ck_payload :: "string list \<Rightarrow> bool"
  ck_heartbeat_age :: "string \<Rightarrow> rat option"
  ck_lease :: pyfloat
  ck_now :: "marker \<Rightarrow> string \<times> string"
  ck_rename :: "marker \<Rightarrow> rename_env"
  ck_writer :: string
  ck_segment_bytes :: nat

definition iter_journal_frames :: "(string \<times> nat) list \<Rightarrow> journal \<Rightarrow> journal_frame list" where
  "iter_journal_frames listing J = concat (map (\<lambda>(w, n). iter_segment_frames (segment_bytes J w n) w n) listing)"

text \<open>\<open>_JournalIndex\<close>: the readable state frames of this workspace, and those of one job.\<close>

definition journal_index :: "check_world \<Rightarrow> workspace \<Rightarrow> journal_frame list" where
  "journal_index w ws = filter (\<lambda>e.
     eq_str (get (jf_frame e) ''format'') ''httk-workflow-state'' \<and> eq_int (get (jf_frame e) ''format_version'') 2 \<and>
     eq_str (get (jf_frame e) ''workspace_id'') (ws_id ws)) (iter_journal_frames (ck_listing w) (ws_journal ws))"

definition frames_for :: "journal_frame list \<Rightarrow> string \<Rightarrow> journal_frame list" where
  "frames_for index i = filter (\<lambda>e. eq_str (get (jf_frame e) ''job_id'') i) index"

definition frame_generation :: "journal_frame \<Rightarrow> int option" where
  "frame_generation e = (case get (jf_frame e) ''state_generation'' of JInt n \<Rightarrow> if n < 0 then None else Some n | _ \<Rightarrow> None)"

text \<open>\<open>_identity_problem\<close>: the first member in which the frame is not the marker's.\<close>

definition identity_problem :: "workspace \<Rightarrow> marker \<Rightarrow> obj \<Rightarrow> string option" where
  "identity_problem ws m f =
     map_option fst (List.find (\<lambda>(name, same). \<not> same)
       [(''format'', eq_str (get f ''format'') ''httk-workflow-state''),
        (''format_version'', eq_int (get f ''format_version'') 2),
        (''workspace_id'', eq_str (get f ''workspace_id'') (ws_id ws)),
        (''job_id'', eq_str (get f ''job_id'') (job_id m)),
        (''job_key'', eq_str (get f ''job_key'') (job_key m)),
        (''kind'', eq_str (get f ''kind'') (kind_name (kind m))),
        (''state_generation'', eq_int (get f ''state_generation'') (int (generation m)))])"

text \<open>\<open>_inspect\<close>.\<close>

definition inspect_payload :: "check_world \<Rightarrow> marker \<Rightarrow> check_problem option" where
  "inspect_payload w m =
     (if kind m \<notin> set (REMOVABLE_KINDS @ [Relocating, Transferring]) \<and> \<not> ck_payload w (payload_path (placement m) (job_key m))
      then Some Payload_Missing else None)"

definition inspect_marker :: "check_world \<Rightarrow> workspace \<Rightarrow> marker \<Rightarrow> check_problem option" where
  "inspect_marker w ws m =
     (if record_ref m = ''init'' then
        (if kind m \<noteq> Submitted \<or> generation m \<noteq> 0 then Some Identity_Mismatch else inspect_payload w m)
      else
        (case verify_record (ck_views w (record_ref m) (ws_journal ws)) (record_ref m) of
           Verified f \<Rightarrow>
             (case identity_problem ws m f of Some _ \<Rightarrow> Some Identity_Mismatch | None \<Rightarrow> inspect_payload w m)
         | v \<Rightarrow> Some (Unverified v)))"

section \<open>Who owns a damaged marker, and what it is restored from\<close>

text \<open>\<open>_live_owner\<close>: over the frames of the job, newest first.\<close>

definition frame_lease :: "check_world \<Rightarrow> journal_frame \<Rightarrow> pyfloat res" where
  "frame_lease w e = (case get (jf_frame e) ''lease_seconds'' of
     JInt n \<Rightarrow> float_of_int n | JFloat x \<Rightarrow> Inr x | _ \<Rightarrow> Inr (ck_lease w))"

fun live_owner_of :: "check_world \<Rightarrow> journal_frame list \<Rightarrow> string option res" where
  "live_owner_of w [] = Inr None"
| "live_owner_of w (e # es) =
     (case get (jf_frame e) ''manager_id'' of
        JStr manager_id \<Rightarrow>
          if manager_id = [] then live_owner_of w es
          else
            bindr (frame_lease w e) (\<lambda>lease.
            if manager_alive (ck_heartbeat_age w manager_id) lease then Inr (Some manager_id) else live_owner_of w es)
      | _ \<Rightarrow> live_owner_of w es)"

definition live_owner :: "check_world \<Rightarrow> marker \<Rightarrow> journal_frame list \<Rightarrow> string option res" where
  "live_owner w m index =
     (if kind m \<notin> set LIVE_KINDS then Inr None else live_owner_of w (rev (frames_for index (job_id m))))"

text \<open>\<open>_last_good_frame\<close>.\<close>

definition adoptable :: "marker \<Rightarrow> journal_frame \<Rightarrow> int option" where
  "adoptable m e =
     (if \<not> eq_str (get (jf_frame e) ''job_key'') (job_key m) then None
      else if (case get (jf_frame e) ''kind'' of JStr k \<Rightarrow> kind_of_name k = None | _ \<Rightarrow> True) then None
      else case frame_generation e of
        None \<Rightarrow> None
      | Some n \<Rightarrow> if n \<ge> int (generation m) then None else Some n)"

fun best_frame :: "marker \<Rightarrow> journal_frame list \<Rightarrow> journal_frame option \<Rightarrow> int \<Rightarrow> journal_frame option" where
  "best_frame m [] best best_generation = best"
| "best_frame m (e # es) best best_generation =
     (case adoptable m e of
        None \<Rightarrow> best_frame m es best best_generation
      | Some n \<Rightarrow> if n \<ge> best_generation then best_frame m es (Some e) n else best_frame m es best best_generation)"

definition last_good_frame :: "marker \<Rightarrow> journal_frame list \<Rightarrow> journal_frame option" where
  "last_good_frame m index = best_frame m (frames_for index (job_id m)) None (- 1)"

text \<open>\<open>_repair_frame\<close>.\<close>

definition repair_frame :: "check_world \<Rightarrow> workspace \<Rightarrow> marker \<Rightarrow> journal_frame \<Rightarrow> check_problem \<Rightarrow> obj" where
  "repair_frame w ws m e problem =
     dict_update (jf_frame e)
       [(''format'', JStr ''httk-workflow-state''), (''format_version'', JInt 2), (''workspace_id'', JStr (ws_id ws)),
        (''job_id'', JStr (job_id m)), (''job_key'', JStr (job_key m)), (''placement'', JStr (as_posix (placement m))),
        (''state_generation'', JInt (int (generation m) + 1)), (''kind'', JStr (kind_name (kind m))),
        (''previous_record_ref'', JStr (jf_record_ref e)), (''created_at'', JStr (fst (ck_now w m))),
        (''priority'', JInt (int (priority m))), (''reason'', JStr ''fsck_repair''),
        (''fsck_repair'', JObj
          [(''replaced_record_ref'', JStr (record_ref m)), (''problem'', JStr (problem_code problem)),
           (''recovered_record_ref'', JStr (jf_record_ref e)),
           (''recovered_generation'', (case frame_generation e of None \<Rightarrow> JNull | Some n \<Rightarrow> JInt n)),
           (''repaired_at'', JStr (snd (ck_now w m)))])]"

section \<open>The check\<close>

definition handle_unrepairable :: "bool \<Rightarrow> finding \<Rightarrow> workspace \<Rightarrow> finding res \<times> workspace" where
  "handle_unrepairable quar f ws =
     (if \<not> quar then (Inr f, ws)
      else case quarantine (fi_entry f) ws of
        (Inl e, ws') \<Rightarrow> (Inl e, ws')
      | (Inr _, ws') \<Rightarrow> (Inr (f\<lparr>fi_action := Quarantined\<rparr>), ws'))"

text \<open>The writer is opened at the first repair.\<close>

definition open_check_writer :: "check_world \<Rightarrow> journal_writer option \<Rightarrow> workspace \<Rightarrow> journal_writer res \<times> workspace" where
  "open_check_writer w opened ws =
     (case opened of
        Some jw \<Rightarrow> (Inr jw, ws)
      | None \<Rightarrow>
          (case journal_writer_init (ck_writer w) (ck_segment_bytes w) (ws_journal ws) of
             (r, jw, J) \<Rightarrow> (bindr r (\<lambda>_. Inr jw), ws\<lparr>ws_journal := J\<rparr>)))"

text \<open>One entry: the finding, if there is one, and the state of the check after it.\<close>

definition repair_entry ::
  "check_world \<Rightarrow> marker \<Rightarrow> journal_frame \<Rightarrow> finding \<Rightarrow> journal_writer option \<Rightarrow> workspace \<Rightarrow>
     finding res \<times> journal_writer option \<times> workspace" where
  "repair_entry w m e f opened ws =
     (case open_check_writer w opened ws of
        (Inl err, ws1) \<Rightarrow> (Inl err, opened, ws1)
      | (Inr jw, ws1) \<Rightarrow>
          (case repoint_marker (ck_rename w m) m (repair_frame w ws m e (fi_problem f)) jw ws1 of
             (Inl err, jw', ws2) \<Rightarrow> (Inl err, Some jw', ws2)
           | (Inr n, jw', ws2) \<Rightarrow>
               (Inr (f\<lparr>fi_action := Repaired, fi_entry := path n, fi_repaired_ref := Some (record_ref n)\<rparr>), Some jw', ws2)))"

definition check_entry ::
  "check_world \<Rightarrow> bool \<Rightarrow> bool \<Rightarrow> journal_frame list \<Rightarrow> entry \<Rightarrow> journal_writer option \<Rightarrow> workspace \<Rightarrow>
     finding option res \<times> journal_writer option \<times> workspace" where
  "check_entry w rep quar index entry opened ws =
     (case entry of
        Marker_Fault p \<Rightarrow>
          (case handle_unrepairable quar \<lparr>fi_entry = p, fi_problem = Unparseable_Name, fi_action = Reported,
               fi_marker = None, fi_repaired_ref = None\<rparr> ws of
             (r, ws') \<Rightarrow> (bindr r (\<lambda>f. Inr (Some f)), opened, ws'))
      | Found m \<Rightarrow>
          (case inspect_marker w ws m of
             None \<Rightarrow> (Inr None, opened, ws)
           | Some problem \<Rightarrow>
               (let f = \<lparr>fi_entry = path m, fi_problem = problem, fi_action = Reported, fi_marker = Some m,
                      fi_repaired_ref = None\<rparr>
                in if problem = Payload_Missing \<or> \<not> rep then (Inr (Some f), opened, ws)
                   else case live_owner w m index of
                     Inl e \<Rightarrow> (Inl e, opened, ws)
                   | Inr (Some _) \<Rightarrow> (Inr (Some (f\<lparr>fi_action := Skipped_Live\<rparr>)), opened, ws)
                   | Inr None \<Rightarrow>
                       (case last_good_frame m index of
                          None \<Rightarrow> (case handle_unrepairable quar f ws of
                            (r, ws') \<Rightarrow> (bindr r (\<lambda>f. Inr (Some f)), opened, ws'))
                        | Some e \<Rightarrow> (case repair_entry w m e f opened ws of
                            (r, opened', ws') \<Rightarrow> (bindr r (\<lambda>f. Inr (Some f)), opened', ws'))))))"

text \<open>The loop over all entries; the findings so far in reverse.\<close>

fun check_entries ::
  "check_world \<Rightarrow> bool \<Rightarrow> bool \<Rightarrow> journal_frame list \<Rightarrow> entry list \<Rightarrow> journal_writer option \<Rightarrow> workspace \<Rightarrow>
     finding list res \<times> workspace" where
  "check_entries w rep quar index [] opened ws = (Inr [], ws)"
| "check_entries w rep quar index (entry # entries) opened ws =
     (case check_entry w rep quar index entry opened ws of
        (Inl e, opened', ws') \<Rightarrow> (Inl e, ws')
      | (Inr hit, opened', ws') \<Rightarrow>
          (case check_entries w rep quar index entries opened' ws' of
             (Inl e, ws'') \<Rightarrow> (Inl e, ws'')
           | (Inr fs, ws'') \<Rightarrow> (Inr (case hit of None \<Rightarrow> fs | Some f \<Rightarrow> f # fs), ws'')))"

text \<open>
  \<open>check_workspace\<close>. The index is built from the journal before anything is written; the walk
  takes the listing of a directory before it yields from it, and repairs stay in theirs.
\<close>

definition check_workspace :: "check_world \<Rightarrow> bool \<Rightarrow> bool \<Rightarrow> workspace \<Rightarrow> check_report res \<times> workspace" where
  "check_workspace w rep quar ws =
     (if quar \<and> \<not> rep then (Inl ValueError, ws)
      else
        (let entries = scan_marker_entries (ws_tree ws) STATE_KINDS
         in case check_entries w rep quar (journal_index w ws) entries None ws of
              (Inl e, ws') \<Rightarrow> (Inl e, ws')
            | (Inr fs, ws') \<Rightarrow>
                (Inr \<lparr>cr_workspace_id = ws_id ws, cr_markers_checked = length (filter (\<lambda>x. found x \<noteq> None) entries),
                   cr_findings = fs, cr_counts = (\<lambda>a. length (filter (\<lambda>f. fi_action f = a) fs))\<rparr>, ws')))"


section \<open>What is reported\<close>

lemma identity_problem_None:
  "identity_problem ws m f = None \<longleftrightarrow>
     eq_str (get f ''format'') ''httk-workflow-state'' \<and> eq_int (get f ''format_version'') 2 \<and>
     eq_str (get f ''workspace_id'') (ws_id ws) \<and> eq_str (get f ''job_id'') (job_id m) \<and>
     eq_str (get f ''job_key'') (job_key m) \<and> eq_str (get f ''kind'') (kind_name (kind m)) \<and>
     eq_int (get f ''state_generation'') (int (generation m))"
  by (simp add: identity_problem_def)

lemma verify_record_read: "verify_record [J] ref = Verified f \<longleftrightarrow> read_record [J] ref = Inr f"
  by (auto simp: verify_record_def read_record_def res_simps split: sum.splits if_splits)

text \<open>
  A marker resolves when its state can be read, the frame names its job too, and its payload is
  there if its kind needs one. This is said without the walk of the check.
\<close>

definition resolves :: "check_world \<Rightarrow> workspace \<Rightarrow> marker \<Rightarrow> bool" where
  "resolves w ws m \<longleftrightarrow>
     (case read_state ws m of Inl _ \<Rightarrow> False
      | Inr f \<Rightarrow> eq_str (get f ''job_id'') (job_id m) \<and> frame_agrees ws m f) \<and>
     inspect_payload w m = None"

lemma inspect_marker_resolves:
  assumes "ck_views w = (\<lambda>_ J. [J])"
  shows "inspect_marker w ws m = None \<longleftrightarrow> resolves w ws m"
proof (cases "record_ref m = ''init''")
  case True
  then have "read_state ws m = Inr (initial_state ws m)" by (simp add: read_state_def)
  then show ?thesis
    using True by (cases "kind m") (auto simp: inspect_marker_def resolves_def frame_agrees_def initial_state_def)
next
  case False
  show ?thesis
  proof (cases "read_record [ws_journal ws] (record_ref m)")
    case (Inl e)
    then have "verify_record [ws_journal ws] (record_ref m) \<noteq> Verified f" for f by (simp add: verify_record_read)
    then have "inspect_marker w ws m \<noteq> None"
      using False assms by (cases "verify_record [ws_journal ws] (record_ref m)") (auto simp: inspect_marker_def)
    moreover have "\<not> resolves w ws m" using False Inl by (simp add: resolves_def read_state_def)
    ultimately show ?thesis by simp
  next
    case (Inr f)
    then have v: "verify_record [ws_journal ws] (record_ref m) = Verified f" by (simp add: verify_record_read)
    have "read_state ws m = (if frame_agrees ws m f then Inr f else Inl WorkspaceCorruptionError)"
      using False Inr by (simp add: read_state_def)
    moreover have "identity_problem ws m f = None \<longleftrightarrow> frame_agrees ws m f \<and> eq_str (get f ''job_id'') (job_id m)"
      unfolding identity_problem_None frame_agrees_def by blast
    ultimately show ?thesis
      using False assms v by (auto simp: inspect_marker_def resolves_def split: option.splits)
  qed
qed

text \<open>What is found at one entry.\<close>

definition diagnosis :: "check_world \<Rightarrow> workspace \<Rightarrow> entry \<Rightarrow> finding option" where
  "diagnosis w ws entry =
     (case entry of
        Marker_Fault p \<Rightarrow> Some \<lparr>fi_entry = p, fi_problem = Unparseable_Name, fi_action = Reported, fi_marker = None,
          fi_repaired_ref = None\<rparr>
      | Found m \<Rightarrow> map_option (\<lambda>problem. \<lparr>fi_entry = path m, fi_problem = problem, fi_action = Reported,
          fi_marker = Some m, fi_repaired_ref = None\<rparr>) (inspect_marker w ws m))"

lemma check_entry_reports: "check_entry w False False index entry opened ws = (Inr (diagnosis w ws entry), opened, ws)"
  by (simp add: check_entry_def diagnosis_def handle_unrepairable_def Let_def split: entry.splits option.splits)

lemma check_entries_reports:
  "check_entries w False False index entries opened ws = (Inr (List.map_filter (diagnosis w ws) entries), ws)"
  by (induction entries) (simp_all add: check_entry_reports List.map_filter_def split: option.splits)

text \<open>
  Without repair the check is read only and complete. It always returns, changes nothing, and
  its findings are the diagnoses of all entries of the state tree, in order.
\<close>

theorem check_reports_only:
  "\<exists>r. check_workspace w False False ws = (Inr r, ws) \<and>
     cr_findings r = List.map_filter (diagnosis w ws) (scan_marker_entries (ws_tree ws) STATE_KINDS) \<and>
     unresolved r = length (cr_findings r) \<and> cr_counts r Repaired = 0 \<and> cr_counts r Quarantined = 0"
proof -
  let ?fs = "List.map_filter (diagnosis w ws) (scan_marker_entries (ws_tree ws) STATE_KINDS)"
  have "fi_action f = Reported" if "f \<in> set ?fs" for f
    using that by (auto simp: List.map_filter_def diagnosis_def split: entry.splits option.splits)
  then have "filter (\<lambda>f. fi_action f \<in> {Reported, Skipped_Live}) ?fs = ?fs"
    "filter (\<lambda>f. fi_action f = Repaired) ?fs = []" "filter (\<lambda>f. fi_action f = Quarantined) ?fs = []"
    by (auto simp: filter_id_conv filter_empty_conv)
  then show ?thesis by (simp add: check_workspace_def check_entries_reports Let_def unresolved_def)
qed

text \<open>The files that the walk takes for markers.\<close>

definition marker_file :: "string list \<Rightarrow> bool" where
  "marker_file p \<longleftrightarrow> p \<noteq> [] \<and> kind_of_name (hd p) \<noteq> None \<and> length p > 1 \<and> marker_shaped (last p)"

lemma kind_in_all: "k \<in> set STATE_KINDS"
  by (cases k) (simp_all add: STATE_KINDS_def)

lemma kind_of_name_iff: "kind_of_name n \<noteq> None \<longleftrightarrow> (\<exists>k. n = kind_name k)"
  by (auto simp: kind_of_name_def find_None_iff) (metis kind_in_all)

lemma marker_file_kind:
  "marker_file p \<longleftrightarrow> (\<exists>k. p \<noteq> [] \<and> hd p = kind_name k \<and> length p > 1 \<and> marker_shaped (last p))"
  unfolding marker_file_def kind_of_name_iff by blast

lemma kind_files_all: "(\<Union>k\<in>set STATE_KINDS. set (kind_files T k)) = {p \<in> set T. marker_file p}"
  unfolding kind_files_set marker_file_kind using kind_in_all by blast

lemma scan_all_entries: "set (scan_marker_entries T STATE_KINDS) = read_entry ` {p \<in> set T. marker_file p}"
  unfolding kind_files_all [symmetric] by (simp add: scan_marker_entries_def image_UN)

text \<open>
  C29. A clean check is a loadable workspace. With a complete view of the journal the check finds
  nothing precisely when every file in the place of a marker parses and resolves: its state reads
  back, agrees with it and names its job, and its payload is there.
\<close>

theorem clean_check_exact:
  assumes "ck_views w = (\<lambda>_ J. [J])" and "check_workspace w False False ws = (Inr r, ws')"
  shows "check_ok r \<longleftrightarrow> (\<forall>p\<in>set (ws_tree ws). marker_file p \<longrightarrow> (\<exists>m. marker_from_path p = Inr m \<and> resolves w ws m))"
proof -
  have "cr_findings r = List.map_filter (diagnosis w ws) (scan_marker_entries (ws_tree ws) STATE_KINDS)"
    using assms(2) by (auto simp: check_workspace_def check_entries_reports Let_def)
  then have "check_ok r \<longleftrightarrow> (\<forall>e\<in>set (scan_marker_entries (ws_tree ws) STATE_KINDS). diagnosis w ws e = None)"
    by (auto simp: check_ok_def List.map_filter_def filter_empty_conv)
  also have "\<dots> \<longleftrightarrow> (\<forall>p\<in>set (ws_tree ws). marker_file p \<longrightarrow> diagnosis w ws (read_entry p) = None)"
    by (auto simp: scan_all_entries)
  moreover have "diagnosis w ws (read_entry p) = None \<longleftrightarrow> (\<exists>m. marker_from_path p = Inr m \<and> resolves w ws m)" for p
    using inspect_marker_resolves [OF assms(1)]
    by (auto simp: diagnosis_def read_entry_def split: sum.splits)
  ultimately show ?thesis by simp
qed

section \<open>What a repair adopts\<close>

lemma best_frame_cases:
  assumes "case best of None \<Rightarrow> g = -1 | Some e \<Rightarrow> adoptable m e = Some g" and "-1 \<le> g"
  shows "case best_frame m es best g of
      None \<Rightarrow> best = None \<and> (\<forall>x\<in>set es. adoptable m x = None)
    | Some e \<Rightarrow> (e \<in> set es \<or> best = Some e) \<and>
        (\<exists>n. adoptable m e = Some n \<and> g \<le> n \<and> (\<forall>x\<in>set es. \<forall>k. adoptable m x = Some k \<longrightarrow> k \<le> n))"
  using assms
proof (induction es arbitrary: best g)
  case Nil
  then show ?case by (cases best) auto
next
  case (Cons x es)
  show ?case
  proof (cases "adoptable m x")
    case None
    then have "best_frame m (x # es) best g = best_frame m es best g" by simp
    with Cons.IH [OF Cons.prems] None show ?thesis by (cases "best_frame m es best g") auto
  next
    case (Some k)
    have k: "0 \<le> k" using Some by (auto simp: adoptable_def frame_generation_def split: if_splits option.splits json.splits)
    show ?thesis
    proof (cases "k \<ge> g")
      case True
      then have "best_frame m (x # es) best g = best_frame m es (Some x) k" using Some by simp
      with Cons.IH [of k "Some x"] Some k True show ?thesis by (cases "best_frame m es (Some x) k") auto
    next
      case False
      then have "best_frame m (x # es) best g = best_frame m es best g" "best \<noteq> None"
        using Some Cons.prems k by (auto split: option.splits)
      with Cons.IH [OF Cons.prems] Some False show ?thesis by (cases "best_frame m es best g") auto
    qed
  qed
qed



section \<open>What a repair keeps\<close>

text \<open>One marker per job, of whatever kind; a repair works on such trees.\<close>

definition one_home :: "state_tree \<Rightarrow> bool" where
  "one_home T \<longleftrightarrow>
     (\<forall>p\<in>set T. \<forall>q\<in>set T. \<forall>m n.
        marker_from_path p = Inr m \<longrightarrow> marker_from_path q = Inr n \<longrightarrow> job_id m = job_id n \<longrightarrow> p = q)"

definition tree_ok :: "workspace \<Rightarrow> bool" where
  "tree_ok ws \<longleftrightarrow> distinct (ws_tree ws) \<and> one_home (ws_tree ws) \<and> index_inv (ws_index ws)"

lemma one_homeD:
  "one_home T \<Longrightarrow> p \<in> set T \<Longrightarrow> q \<in> set T \<Longrightarrow> marker_from_path p = Inr m \<Longrightarrow> marker_from_path q = Inr n \<Longrightarrow>
     job_id m = job_id n \<Longrightarrow> p = q"
  unfolding one_home_def by blast

lemma one_home_subset: "one_home T \<Longrightarrow> set T' \<subseteq> set T \<Longrightarrow> one_home T'"
  unfolding one_home_def by blast

text \<open>The marker that a repair leaves, and that it reads back.\<close>

definition restored :: "marker \<Rightarrow> marker \<Rightarrow> bool" where
  "restored m n \<longleftrightarrow>
     kind n = kind m \<and> placement n = placement m \<and> job_key n = job_key m \<and> priority n = priority m \<and>
     generation n = generation m + 1 \<and> record_ref n \<noteq> ''init'' \<and> marker_from_path (path n) = Inr n"

lemma repair_frame_get:
  "get (repair_frame w ws m e p) ''format'' = JStr ''httk-workflow-state''"
  "get (repair_frame w ws m e p) ''format_version'' = JInt 2"
  "get (repair_frame w ws m e p) ''workspace_id'' = JStr (ws_id ws)"
  "get (repair_frame w ws m e p) ''job_id'' = JStr (job_id m)"
  "get (repair_frame w ws m e p) ''job_key'' = JStr (job_key m)"
  "get (repair_frame w ws m e p) ''kind'' = JStr (kind_name (kind m))"
  "get (repair_frame w ws m e p) ''state_generation'' = JInt (int (generation m) + 1)"
  "get (repair_frame w ws m e p) ''reason'' = JStr ''fsck_repair''"
  by (simp_all add: repair_frame_def get_def [of "dict_update _ _"])

lemma repoint_outcome:
  assumes "tree_ok ws" and m: "path m \<in> set (ws_tree ws)" "marker_from_path (path m) = Inr m"
    and jw: "writer_inv jw (ws_journal ws)" and f: "f = repair_frame w ws0 m e p" "storable f" "ws_id ws = ws_id ws0"
    and bs: "True \<in> set bs" and run: "repoint_marker (quiet bs) m f jw ws = (r, jw', ws')"
  shows "tree_ok ws' \<and> journal_extends (ws_journal ws) (ws_journal ws') \<and> ws_id ws' = ws_id ws \<and>
    writer_inv jw' (ws_journal ws') \<and> (\<forall>e. r = Inl e \<longrightarrow> ws_tree ws' = ws_tree ws) \<and>
    (\<forall>n. r = Inr n \<longrightarrow> restored m n \<and> path n \<notin> set (ws_tree ws) \<and>
       set (ws_tree ws') = insert (path n) (set (ws_tree ws) - {path m}) \<and> read_state ws' n = Inr (stored f))"
proof -
  have ok: "distinct (ws_tree ws)" "one_home (ws_tree ws)" "index_inv (ws_index ws)"
    using assms(1) by (simp_all add: tree_ok_def)
  have d: "distinct (map fst f)" using f(2) by (simp add: storable_def)
  obtain x jw1 J where a: "append_record jw f (ws_journal ws) = (x, jw1, J)"
    by (cases "append_record jw f (ws_journal ws)")
  have ext: "journal_extends (ws_journal ws) J" by (rule append_extends [OF jw a])
  have inv: "writer_inv jw1 J" by (rule append_inv [OF jw f(2) a])
  have guard: "eq_str (get f ''workspace_id'') (ws_id ws) \<and> eq_str (get f ''job_id'') (job_id m) \<and>
      eq_str (get f ''job_key'') (job_key m) \<and> eq_str (get f ''kind'') (kind_name (kind m)) \<and>
      eq_int (get f ''state_generation'') (int (generation m) + 1)"
    by (simp add: f(1,3) repair_frame_get)
  have same: ?thesis if "(\<exists>e. r = Inl e)" "jw' = jw1" "ws' = ws\<lparr>ws_journal := J\<rparr>"
    using that ext inv assms(1) by (auto simp: tree_ok_def)
  show ?thesis
  proof (cases x)
    case (Inl e)
    with run a guard show ?thesis by (intro same) (auto simp: repoint_marker_def Let_def)
  next
    case (Inr ref)
    show ?thesis
    proof (cases "marker_path (kind m) (placement m) (job_key m) (int (priority m)) (int (generation m) + 1) ref")
      case (Inl e)
      with run a guard \<open>x = Inr ref\<close> show ?thesis by (intro same) (auto simp: repoint_marker_def Let_def)
    next
      case (Inr dst)
      let ?n = "\<lparr>kind = kind m, placement = placement m, job_key = job_key m, priority = nat (int (priority m)),
        generation = nat (int (generation m) + 1), record_ref = ref, path = dst\<rparr>"
      let ?ws1 = "ws\<lparr>ws_journal := J\<rparr>"
      obtain y where ref: "parse_record_ref ref = Inr y"
        using append_ref [OF jw f(2) a [unfolded \<open>x = Inr ref\<close>]] by blast
      have n: "marker_from_path dst = Inr ?n"
        by (rule marker_path_read [OF Inr marker_from_path_placement [OF m(2)] conjunct1 [OF parsed_ref_pattern [OF ref]]])
      have i: "job_id ?n = job_id m" by (simp add: job_id_def)
      have new: "dst \<notin> set (ws_tree ws)"
      proof
        assume "dst \<in> set (ws_tree ws)"
        then have "dst = path m" using one_homeD [OF ok(2) _ m(1) n m(2)] i by simp
        then have "?n = m" using n m(2) by simp
        then have "generation m = nat (int (generation m) + 1)" by (metis marker.select_convs(5))
        then show False by simp
      qed
      have run': "verified_marker_rename (quiet bs) m dst ?ws1 = (r, ws')" "jw' = jw1"
        using run a guard \<open>x = Inr ref\<close> Inr by (auto simp: repoint_marker_def Let_def split: prod.splits)
      obtain idx where idx: "index_inv idx" "r = Inr ?n"
        "ws' = ?ws1\<lparr>ws_tree := rename_path (path m) dst (ws_tree ws), ws_index := idx\<rparr>"
        using rename_outcome [OF run'(1) n] new m(1) ok bs by auto
      note T = rename_path_facts [OF ok(1) m(1), of dst]
      have "one_home (rename_path (path m) dst (ws_tree ws))"
        unfolding one_home_def T(2)
      proof (intro ballI allI impI)
        fix p q k l
        assume "p \<in> insert dst (set (ws_tree ws) - {path m})" "q \<in> insert dst (set (ws_tree ws) - {path m})"
          "marker_from_path p = Inr k" "marker_from_path q = Inr l" "job_id k = job_id l"
        then show "p = q"
          using n i m one_homeD [OF ok(2)] by (metis Diff_iff insertE singletonI sum.inject(2))
      qed
      moreover have "read_state ws' ?n = Inr (stored f)"
      proof -
        have "store_append (jw, ws_journal ws) f = (Inr ref, (jw1, J))" using a \<open>x = Inr ref\<close> by (simp add: store_append_def)
        from js.app_read [OF _ f(2) this] jw have "read_record [J] ref = Inr (stored f)"
          by (simp add: store_inv_def store_read_def)
        moreover have "get (stored f) k = canon (get f k)" for k by (rule stored_get [OF d])
        then have "frame_agrees ws' ?n (stored f)"
          using idx(3) f(3) by (simp add: frame_agrees_def f(1) repair_frame_get)
        ultimately show ?thesis using idx(3) parsed_ref_pattern [OF ref] by (simp add: read_state_def)
      qed
      moreover have "restored m ?n"
        using n parsed_ref_pattern [OF ref] by (simp add: restored_def nat_add_distrib)
      ultimately show ?thesis
        using idx ext inv run'(2) T new by (simp add: tree_ok_def)
    qed
  qed
qed

text \<open>
  What a finding says of the tree after the check: a repaired marker is gone and the one at the
  entry of the finding reads back, a quarantined entry is gone, any other is still there.
\<close>

definition settled :: "workspace \<Rightarrow> finding \<Rightarrow> bool" where
  "settled ws f \<longleftrightarrow>
     (case fi_action f of
        Repaired \<Rightarrow> fi_entry f \<in> set (ws_tree ws) \<and>
          (\<exists>m n g. fi_marker f = Some m \<and> path m \<notin> set (ws_tree ws) \<and> fi_entry f = path n \<and> restored m n \<and>
             read_state ws n = Inr g \<and> eq_str (get g ''job_id'') (job_id m))
      | Quarantined \<Rightarrow> fi_entry f \<notin> set (ws_tree ws)
      | _ \<Rightarrow> fi_entry f \<in> set (ws_tree ws))"

definition named :: "finding \<Rightarrow> string list set" where
  "named f = insert (fi_entry f) (path ` set_option (fi_marker f))"

lemma settled_later:
  assumes "settled ws f" and "journal_extends (ws_journal ws) (ws_journal ws')" and "ws_id ws' = ws_id ws"
    and "\<And>p. p \<in> named f \<Longrightarrow> p \<in> set (ws_tree ws') \<longleftrightarrow> p \<in> set (ws_tree ws)"
  shows "settled ws' f"
proof (cases "fi_action f")
  case Repaired
  then obtain m n g where "fi_entry f \<in> set (ws_tree ws)" "fi_marker f = Some m" "path m \<notin> set (ws_tree ws)"
    "fi_entry f = path n" "restored m n" "read_state ws n = Inr g" "eq_str (get g ''job_id'') (job_id m)"
    using assms(1) by (auto simp: settled_def)
  moreover from this have "read_state ws' n = Inr g" by (intro read_state_extends [OF _ assms(2,3)])
  ultimately show ?thesis using Repaired assms(4) by (auto simp: settled_def named_def)
qed (use assms in \<open>auto simp: settled_def named_def\<close>)

text \<open>
  What any part of a repair does that works on the entries \<open>E\<close>: other files stay, and a new marker
  is of a job of one of them.
\<close>

definition confined :: "string list set \<Rightarrow> workspace \<Rightarrow> workspace \<Rightarrow> bool" where
  "confined E ws ws' \<longleftrightarrow>
     tree_ok ws' \<and> journal_extends (ws_journal ws) (ws_journal ws') \<and> ws_id ws' = ws_id ws \<and>
     set (ws_tree ws) - E \<subseteq> set (ws_tree ws') \<and>
     (\<forall>q\<in>set (ws_tree ws') - set (ws_tree ws). \<exists>p\<in>E \<inter> set (ws_tree ws). \<exists>m n.
        marker_from_path p = Inr m \<and> marker_from_path q = Inr n \<and> job_id n = job_id m)"

lemma confined_refl: "tree_ok ws \<Longrightarrow> confined E ws ws"
  by (simp add: confined_def)

lemma confinedD:
  assumes "confined E ws ws'"
  shows "tree_ok ws'" "journal_extends (ws_journal ws) (ws_journal ws')" "ws_id ws' = ws_id ws"
    and "p \<in> set (ws_tree ws) \<Longrightarrow> p \<notin> E \<Longrightarrow> p \<in> set (ws_tree ws')"
    and "q \<in> set (ws_tree ws') \<Longrightarrow> q \<notin> set (ws_tree ws) \<Longrightarrow> \<exists>p\<in>E \<inter> set (ws_tree ws). \<exists>m n.
        marker_from_path p = Inr m \<and> marker_from_path q = Inr n \<and> job_id n = job_id m"
  using assms unfolding confined_def by blast+

lemma confined_then:
  assumes a: "confined A ws ws1" and b: "confined B ws1 ws2" and B: "B \<subseteq> set (ws_tree ws)"
  shows "confined (A \<union> B) ws ws2"
proof -
  have "\<exists>p\<in>(A \<union> B) \<inter> set (ws_tree ws). \<exists>m n. marker_from_path p = Inr m \<and> marker_from_path q = Inr n \<and> job_id n = job_id m"
    if "q \<in> set (ws_tree ws2)" "q \<notin> set (ws_tree ws)" for q
  proof (cases "q \<in> set (ws_tree ws1)")
    case True
    from confinedD(5) [OF a this that(2)] show ?thesis by blast
  next
    case False
    from confinedD(5) [OF b that(1) this] show ?thesis using B by blast
  qed
  moreover have "set (ws_tree ws) - (A \<union> B) \<subseteq> set (ws_tree ws2)"
    using confinedD(4) [OF a] confinedD(4) [OF b] by blast
  ultimately show ?thesis
    using confinedD(1-3) [OF a] confinedD(1-3) [OF b] journal_extends_trans
    unfolding confined_def by auto
qed

text \<open>An entry of the tree that is left out of the rest, or was just written, stays as it is.\<close>

lemma confined_outside:
  assumes ok: "one_home (ws_tree ws)" and E: "E \<subseteq> set (ws_tree ws)" and b: "confined E ws1 ws2"
    and p: "p \<in> set (ws_tree ws) \<and> p \<notin> E \<or> p \<in> set (ws_tree ws1) - set (ws_tree ws)"
  shows "p \<in> set (ws_tree ws2) \<longleftrightarrow> p \<in> set (ws_tree ws1)"
proof
  assume "p \<in> set (ws_tree ws1)"
  moreover have "p \<notin> E" using p E by blast
  ultimately show "p \<in> set (ws_tree ws2)" by (rule confinedD(4) [OF b])
next
  assume *: "p \<in> set (ws_tree ws2)"
  show "p \<in> set (ws_tree ws1)"
  proof (rule ccontr)
    assume "p \<notin> set (ws_tree ws1)"
    from confinedD(5) [OF b * this] obtain q m n where q: "q \<in> E" "marker_from_path q = Inr m"
      "marker_from_path p = Inr n" "job_id n = job_id m" by blast
    have "p \<in> set (ws_tree ws)" "p \<notin> E" using p \<open>p \<notin> set (ws_tree ws1)\<close> by blast+
    then have "p = q" using one_homeD [OF ok] q E by blast
    with q \<open>p \<notin> E\<close> show False by simp
  qed
qed

lemma resolves_extends:
  assumes "resolves w ws m" and "journal_extends (ws_journal ws) (ws_journal ws')" and "ws_id ws' = ws_id ws"
  shows "resolves w ws' m"
proof -
  obtain f where "read_state ws m = Inr f" using assms(1) by (auto simp: resolves_def split: sum.splits)
  moreover from this have "read_state ws' m = Inr f" by (rule read_state_extends [OF _ assms(2,3)])
  ultimately show ?thesis using assms(1,3) by (simp add: resolves_def frame_agrees_def)
qed

text \<open>The journal keeps every frame a repair may write for the markers of a tree.\<close>

definition repairable :: "check_world \<Rightarrow> workspace \<Rightarrow> state_tree \<Rightarrow> journal_frame list \<Rightarrow> bool" where
  "repairable w ws T index \<longleftrightarrow>
     (\<forall>q\<in>set T. \<forall>m. marker_from_path q = Inr m \<longrightarrow>
        (\<forall>e\<in>set index. \<forall>problem. storable (repair_frame w ws m e problem)))"

definition opened_ok :: "journal_writer option \<Rightarrow> workspace \<Rightarrow> bool" where
  "opened_ok opened ws \<longleftrightarrow> (\<forall>jw. opened = Some jw \<longrightarrow> writer_inv jw (ws_journal ws))"

lemma last_good_in: "last_good_frame m index = Some e \<Longrightarrow> e \<in> set index"
  using best_frame_cases [where best = None and g = "-1" and m = m and es = "frames_for index (job_id m)"]
  by (auto simp: last_good_frame_def frames_for_def)

lemma open_check_writer_ok:
  assumes "open_check_writer w opened ws = (r, ws1)" and "opened_ok opened ws" and "ck_segment_bytes w < 2 ^ 63"
  shows "\<exists>J. ws1 = ws\<lparr>ws_journal := J\<rparr> \<and> journal_extends (ws_journal ws) J \<and>
    (\<forall>jw. r = Inr jw \<longrightarrow> writer_inv jw J) \<and> ((\<exists>e. r = Inl e) \<longrightarrow> opened = None)"
proof (cases opened)
  case (Some jw)
  then have "r = Inr jw" "ws1 = ws" using assms(1) by (simp_all add: open_check_writer_def)
  then show ?thesis using assms(2) Some by (intro exI [of _ "ws_journal ws"]) (simp add: opened_ok_def)
next
  case None
  obtain x jw J where j: "journal_writer_init (ck_writer w) (ck_segment_bytes w) (ws_journal ws) = (x, jw, J)"
    by (cases "journal_writer_init (ck_writer w) (ck_segment_bytes w) (ws_journal ws)")
  then have "r = bindr x (\<lambda>_. Inr jw)" "ws1 = ws\<lparr>ws_journal := J\<rparr>"
    using assms(1) None by (auto simp: open_check_writer_def)
  moreover have "journal_extends (ws_journal ws) J"
    using j by (auto simp: journal_writer_init_def open_segment_def Let_def journal_extends_def segment_bytes_def
      set_segment_def split: if_splits option.splits)
  moreover have "writer_inv jw J" if "x = Inr u" for u
    using journal_writer_init_inv [OF j [unfolded that] assms(3)] by simp
  ultimately show ?thesis using None by (auto simp: res_simps)
qed

text \<open>What the work on one entry leaves.\<close>

definition entry_done ::
  "string list \<Rightarrow> workspace \<Rightarrow> (finding option res \<times> journal_writer option \<times> workspace) \<Rightarrow> bool" where
  "entry_done p ws out \<longleftrightarrow>
     (case out of (r, opened, ws1) \<Rightarrow>
        confined {p} ws ws1 \<and>
        ((\<exists>x. r = Inr x) \<longrightarrow> opened_ok opened ws1) \<and>
        (\<forall>f. r = Inr (Some f) \<longrightarrow> settled ws1 f \<and> named f \<subseteq> insert p (set (ws_tree ws1) - set (ws_tree ws))))"

lemma quarantine_done:
  assumes ok: "tree_ok ws" "opened_ok opened ws" and p: "p \<in> set (ws_tree ws)"
    and f: "fi_entry f = p" "fi_action f = Reported" "path ` set_option (fi_marker f) \<subseteq> {p}"
    and run: "handle_unrepairable quar f ws = (r, ws1)"
  shows "entry_done p ws (bindr r (\<lambda>f. Inr (Some f)), opened, ws1)"
proof (cases quar)
  case False
  then have "r = Inr f" "ws1 = ws" using run by (simp_all add: handle_unrepairable_def)
  then show ?thesis
    using ok p f by (auto simp: entry_done_def confined_refl settled_def named_def res_simps)
next
  case True
  then have r: "r = Inr (f\<lparr>fi_action := Quarantined\<rparr>)" and ws1: "ws_tree ws1 = filter (\<lambda>q. q \<noteq> p) (ws_tree ws)"
    "ws_journal ws1 = ws_journal ws" "ws_id ws1 = ws_id ws" "index_inv (ws_index ws1)"
    using run p f ok(1) index_forget_inv
    by (auto simp: handle_unrepairable_def quarantine_def tree_ok_def split: sum.splits)
  have "tree_ok ws1" using ok(1) ws1 one_home_subset [of "ws_tree ws" "ws_tree ws1"] by (auto simp: tree_ok_def)
  then have "confined {p} ws ws1" using ws1 by (auto simp: confined_def)
  moreover have "opened_ok opened ws1" using ok(2) ws1 by (simp add: opened_ok_def)
  ultimately show ?thesis
    using r ws1 f by (auto simp: entry_done_def settled_def named_def res_simps)
qed

text \<open>A marker that was re-pointed at the frame of a repair.\<close>

lemma repointed_done:
  assumes ok: "tree_ok ws1" "journal_extends (ws_journal ws) (ws_journal ws1)" "ws_id ws1 = ws_id ws" "opened_ok opened ws1"
    and m: "path m \<in> set (ws_tree ws)" "marker_from_path (path m) = Inr m" and f: "fi_marker f = Some m"
    and st: "storable (repair_frame w ws m e problem)"
    and n: "restored m n" "path n \<notin> set (ws_tree ws)" "read_state ws1 n = Inr (stored (repair_frame w ws m e problem))"
      "set (ws_tree ws1) = insert (path n) (set (ws_tree ws) - {path m})"
  shows "entry_done (path m) ws
    (Inr (Some (f\<lparr>fi_action := Repaired, fi_entry := path n, fi_repaired_ref := Some (record_ref n)\<rparr>)), opened, ws1)"
proof -
  let ?f = "f\<lparr>fi_action := Repaired, fi_entry := path n, fi_repaired_ref := Some (record_ref n)\<rparr>"
  have i: "job_id n = job_id m" "marker_from_path (path n) = Inr n"
    using n(1) by (simp_all add: restored_def job_id_def)
  have "get (stored (repair_frame w ws m e problem)) ''job_id'' = canon (JStr (job_id m))"
    using stored_get [of "repair_frame w ws m e problem"] st by (simp add: storable_def repair_frame_get)
  then have "settled ws1 ?f" using n f m(1) by (auto simp: settled_def)
  moreover have "confined {path m} ws ws1" using ok n(2,4) i m by (auto simp: confined_def)
  moreover have "named ?f \<subseteq> insert (path m) (set (ws_tree ws1) - set (ws_tree ws))"
    using n f by (auto simp: named_def)
  ultimately show ?thesis using ok(4) by (simp add: entry_done_def)
qed

lemma repair_done:
  assumes ok: "tree_ok ws" "opened_ok opened ws" and m: "path m \<in> set (ws_tree ws)" "marker_from_path (path m) = Inr m"
    and w: "ck_rename w = (\<lambda>_. quiet bs)" "True \<in> set bs" "ck_segment_bytes w < 2 ^ 63"
    and f: "fi_marker f = Some m" and st: "storable (repair_frame w ws m e (fi_problem f))"
    and run: "repair_entry w m e f opened ws = (r, opened', ws1)"
  shows "entry_done (path m) ws (bindr r (\<lambda>f. Inr (Some f)), opened', ws1)"
proof -
  obtain x ws0 where o: "open_check_writer w opened ws = (x, ws0)"
    by (cases "open_check_writer w opened ws")
  from open_check_writer_ok [OF o ok(2) w(3)] obtain J where J: "ws0 = ws\<lparr>ws_journal := J\<rparr>"
    "journal_extends (ws_journal ws) J" "\<And>jw. x = Inr jw \<Longrightarrow> writer_inv jw J" by blast
  have ok0: "tree_ok ws0" using ok(1) J(1) by (simp add: tree_ok_def)
  show ?thesis
  proof (cases x)
    case (Inl err)
    then have "r = Inl err" "ws1 = ws0" using run o by (simp_all add: repair_entry_def)
    then show ?thesis using ok0 J by (simp add: entry_done_def confined_def)
  next
    case x: (Inr jw)
    let ?F = "repair_frame w ws m e (fi_problem f)"
    obtain y jw' ws2 where y: "repoint_marker (quiet bs) m ?F jw ws0 = (y, jw', ws2)"
      by (cases "repoint_marker (quiet bs) m ?F jw ws0")
    have F: "repair_frame w ws0 m e (fi_problem f) = ?F" using J(1) by (simp add: repair_frame_def)
    have p: "path m \<in> set (ws_tree ws0)" "ws_id ws0 = ws_id ws" using m(1) J(1) by simp_all
    have jw: "writer_inv jw (ws_journal ws0)" using J(1) J(3) [OF x] by simp
    note out = repoint_outcome [OF ok0 p(1) m(2) jw refl st p(2) w(2) y]
    have ext: "journal_extends (ws_journal ws) (ws_journal ws2)" "ws_id ws2 = ws_id ws" "tree_ok ws2"
      "opened_ok (Some jw') ws2"
      using journal_extends_trans [OF J(2)] out J(1) by (simp_all add: opened_ok_def)
    show ?thesis
    proof (cases y)
      case (Inl err)
      then have "r = Inl err" "ws1 = ws2" using run o x y F w(1) by (auto simp: repair_entry_def)
      moreover have "confined {path m} ws ws2" using out ext J(1) Inl by (simp add: confined_def)
      ultimately show ?thesis by (simp add: entry_done_def)
    next
      case (Inr n)
      have r: "r = Inr (f\<lparr>fi_action := Repaired, fi_entry := path n, fi_repaired_ref := Some (record_ref n)\<rparr>)"
        "ws1 = ws2" "opened' = Some jw'"
        using run o x y F w(1) Inr by (simp_all add: repair_entry_def)
      have n: "restored m n" "path n \<notin> set (ws_tree ws)" "read_state ws2 n = Inr (stored ?F)"
        "set (ws_tree ws2) = insert (path n) (set (ws_tree ws) - {path m})"
        using out Inr J(1) by simp_all
      show ?thesis
        using repointed_done [OF ext(3,1,2,4) m f st n] by (simp add: r)
    qed
  qed
qed

lemma check_entry_done:
  assumes ok: "tree_ok ws" "opened_ok opened ws" and p: "p \<in> set (ws_tree ws)"
    and w: "ck_rename w = (\<lambda>_. quiet bs)" "True \<in> set bs" "ck_segment_bytes w < 2 ^ 63"
    and st: "\<And>m e problem. marker_from_path p = Inr m \<Longrightarrow> e \<in> set index \<Longrightarrow> storable (repair_frame w ws m e problem)"
  shows "entry_done p ws (check_entry w rep quar index (read_entry p) opened ws)"
proof (cases "marker_from_path p")
  case (Inl err)
  let ?f = "\<lparr>fi_entry = p, fi_problem = Unparseable_Name, fi_action = Reported, fi_marker = None, fi_repaired_ref = None\<rparr>"
  obtain r ws1 where h: "handle_unrepairable quar ?f ws = (r, ws1)" by (cases "handle_unrepairable quar ?f ws")
  have "entry_done p ws (bindr r (\<lambda>f. Inr (Some f)), opened, ws1)"
    by (rule quarantine_done [OF ok p _ _ _ h]) simp_all
  then show ?thesis using Inl h by (simp add: check_entry_def read_entry_def)
next
  case (Inr m)
  have pm: "path m = p" by (rule marker_from_path_parts(5) [OF Inr])
  have read: "read_entry p = Found m" using Inr by (simp add: read_entry_def)
  show ?thesis
  proof (cases "inspect_marker w ws m")
    case None
    then show ?thesis using ok read by (simp add: check_entry_def entry_done_def confined_refl)
  next
    case (Some problem)
    let ?f = "\<lparr>fi_entry = path m, fi_problem = problem, fi_action = Reported, fi_marker = Some m, fi_repaired_ref = None\<rparr>"
    obtain r ws1 where h: "handle_unrepairable quar ?f ws = (r, ws1)" by (cases "handle_unrepairable quar ?f ws")
    have q: "entry_done p ws (bindr r (\<lambda>f. Inr (Some f)), opened, ws1)"
      by (rule quarantine_done [OF ok p _ _ _ h]) (simp_all add: pm)
    have here: "entry_done p ws (Inr (Some g), opened, ws)"
      if "fi_action g \<in> {Reported, Skipped_Live}" "fi_entry g = p" "fi_marker g = Some m" for g
      using that ok p pm by (auto simp: entry_done_def confined_refl settled_def named_def)
    have gone: "entry_done p ws (Inl e, opened, ws)" for e using ok by (simp add: entry_done_def confined_refl)
    have rep: "entry_done p ws (bindr r (\<lambda>f. Inr (Some f)), opened', ws')"
      if "last_good_frame m index = Some e" "repair_entry w m e ?f opened ws = (r, opened', ws')" for e r opened' ws'
      using repair_done [OF ok, where m = m and w = w and bs = bs and f = ?f and e = e and r = r and opened' = opened'] p pm Inr w
        st [OF Inr last_good_in [OF that(1)]] that(2) by simp
    show ?thesis
      using Some read h q here gone rep pm
      by (auto simp: check_entry_def Let_def split: sum.splits option.splits prod.splits)
  qed
qed

text \<open>The loop, over any entries of the tree without repetition.\<close>

lemma check_entries_done:
  assumes "tree_ok ws" and "opened_ok opened ws" and "distinct ps" and "set ps \<subseteq> set (ws_tree ws)"
    and w: "ck_rename w = (\<lambda>_. quiet bs)" "True \<in> set bs" "ck_segment_bytes w < 2 ^ 63" "ck_views w = (\<lambda>_ J. [J])"
    and st: "\<And>p m e problem. p \<in> set ps \<Longrightarrow> marker_from_path p = Inr m \<Longrightarrow> e \<in> set index \<Longrightarrow>
      storable (repair_frame w ws m e problem)"
    and run: "check_entries w rep quar index (map read_entry ps) opened ws = (r, ws')"
  shows "confined (set ps) ws ws' \<and>
    (\<forall>p\<in>set ps. \<forall>m. marker_from_path p = Inr m \<longrightarrow> resolves w ws m \<longrightarrow> p \<in> set (ws_tree ws')) \<and>
    (\<forall>fs. r = Inr fs \<longrightarrow> (\<forall>f\<in>set fs. settled ws' f))"
  using assms(1-4) st run
proof (induction ps arbitrary: opened ws r ws')
  case Nil
  then show ?case by (auto simp: confined_refl)
next
  case (Cons p ps)
  obtain x opened1 ws1 where e: "check_entry w rep quar index (read_entry p) opened ws = (x, opened1, ws1)"
    by (cases "check_entry w rep quar index (read_entry p) opened ws")
  have p: "p \<in> set (ws_tree ws)" "p \<notin> set ps" "set ps \<subseteq> set (ws_tree ws)" using Cons.prems by auto
  have "entry_done p ws (check_entry w rep quar index (read_entry p) opened ws)"
    by (rule check_entry_done [OF Cons.prems(1,2) p(1) w(1-3)]) (rule Cons.prems(5) [of p], simp_all)
  then have "entry_done p ws (x, opened1, ws1)" by (simp only: e)
  then have c1: "confined {p} ws ws1" and o1: "\<And>hit. x = Inr hit \<Longrightarrow> opened_ok opened1 ws1"
    and f1: "\<And>f. x = Inr (Some f) \<Longrightarrow> settled ws1 f \<and> named f \<subseteq> insert p (set (ws_tree ws1) - set (ws_tree ws))"
    by (auto simp: entry_done_def)
  have home: "one_home (ws_tree ws)" using Cons.prems(1) by (simp add: tree_ok_def)
  have still: "x = Inr None \<and> ws1 = ws" if "marker_from_path p = Inr m" "resolves w ws m" for m
    using that e inspect_marker_resolves [OF w(4), of ws m] by (simp add: check_entry_def read_entry_def)
  have rest: "q \<in> set (ws_tree ws1)" if "q \<in> set ps" for q
    using confinedD(4) [OF c1, of q] p that by auto
  show ?case
  proof (cases x)
    case (Inl err)
    then have "r = Inl err" "ws' = ws1" using Cons.prems(6) e by simp_all
    moreover have "confined (set (p # ps)) ws ws1" using c1 p unfolding confined_def by auto
    ultimately show ?thesis using Inl still rest by auto
  next
    case (Inr hit)
    obtain y ws2 where y: "check_entries w rep quar index (map read_entry ps) opened1 ws1 = (y, ws2)"
      by (cases "check_entries w rep quar index (map read_entry ps) opened1 ws1")
    have ws': "ws' = ws2" "\<And>fs. r = Inr fs \<Longrightarrow> \<exists>gs. y = Inr gs \<and> fs = (case hit of None \<Rightarrow> gs | Some f \<Rightarrow> f # gs)"
      using Cons.prems(6) e Inr y by (auto split: sum.splits)
    have frame: "repair_frame w ws1 m e problem = repair_frame w ws m e problem" for m e problem
      using confinedD(3) [OF c1] by (simp add: repair_frame_def)
    have IH: "confined (set ps) ws1 ws2 \<and>
      (\<forall>p\<in>set ps. \<forall>m. marker_from_path p = Inr m \<longrightarrow> resolves w ws1 m \<longrightarrow> p \<in> set (ws_tree ws2)) \<and>
      (\<forall>fs. y = Inr fs \<longrightarrow> (\<forall>f\<in>set fs. settled ws2 f))"
      by (rule Cons.IH [OF confinedD(1) [OF c1] o1 [OF Inr] _ _ _ y]) (use Cons.prems(3,5) rest in \<open>auto simp: frame\<close>)
    then have c2: "confined (set ps) ws1 ws2" by blast
    have "confined ({p} \<union> set ps) ws ws2" by (rule confined_then [OF c1 c2 p(3)])
    moreover have "q \<in> set (ws_tree ws2)"
      if "q \<in> set (p # ps)" "marker_from_path q = Inr m" "resolves w ws m" for q m
    proof (cases "q = p")
      case True
      then show ?thesis using still [of m] that p confinedD(4) [OF c2, of p] by simp
    next
      case False
      with IH that resolves_extends [OF that(3) confinedD(2,3) [OF c1]] show ?thesis by auto
    qed
    moreover have "settled ws2 f" if "hit = Some f" for f
    proof (rule settled_later [OF _ confinedD(2,3) [OF c2]])
      show "settled ws1 f" using f1 Inr that by simp
      show "q \<in> set (ws_tree ws2) \<longleftrightarrow> q \<in> set (ws_tree ws1)" if "q \<in> named f" for q
        using f1 [of f] Inr \<open>hit = Some f\<close> that p confined_outside [OF home p(3) c2, of q] by auto
    qed
    ultimately show ?thesis using IH ws' by (fastforce split: option.splits)
  qed
qed

lemma entry_paths_distinct: "distinct T \<Longrightarrow> distinct (concat (map (kind_files T) STATE_KINDS))"
proof -
  assume T: "distinct T"
  have "distinct (concat (map (kind_files T) ks))" if "distinct ks" for ks
    using that
  proof (induction ks)
    case (Cons k ks)
    have "set (kind_files T k) \<inter> set (concat (map (kind_files T) ks)) = {}"
      using Cons.prems by (auto simp: kind_files_set)
    with Cons kind_files_distinct [OF T] show ?case by simp
  qed simp
  moreover have "distinct STATE_KINDS" by code_simp
  ultimately show ?thesis by simp
qed

lemma entry_paths: "scan_marker_entries T STATE_KINDS = map read_entry (concat (map (kind_files T) STATE_KINDS))"
  by (simp add: scan_marker_entries_def map_concat comp_def)

lemma entry_paths_set: "set (concat (map (kind_files T) STATE_KINDS)) = {p \<in> set T. marker_file p}"
  unfolding kind_files_all [symmetric] by simp

text \<open>
  C27. A repair loses no job. When nobody else moves the damaged markers, a repair, with or
  without quarantine and whether or not it is cut short by an error, only adds to the journal and
  leaves one marker per job; every marker that resolved is still there and resolves, and so is
  every file that is no marker. When it returns, each repaired marker is gone and its
  replacement, of the same kind, place, key and priority and one generation on, is in the tree and reads back as a
  frame of its job; a quarantined entry is gone; any other reported entry is untouched.
\<close>

theorem repair_restores:
  assumes "tree_ok ws" and "repairable w ws (ws_tree ws) (journal_index w ws)"
    and "ck_rename w = (\<lambda>_. quiet bs)" and "True \<in> set bs" and "ck_segment_bytes w < 2 ^ 63"
    and "ck_views w = (\<lambda>_ J. [J])" and "check_workspace w True quar ws = (r, ws')"
  shows "tree_ok ws' \<and> journal_extends (ws_journal ws) (ws_journal ws') \<and>
    (\<forall>p\<in>set (ws_tree ws). \<forall>m. marker_from_path p = Inr m \<longrightarrow> resolves w ws m \<longrightarrow>
       p \<in> set (ws_tree ws') \<and> resolves w ws' m) \<and>
    (\<forall>p\<in>set (ws_tree ws). \<not> marker_file p \<longrightarrow> p \<in> set (ws_tree ws')) \<and>
    (\<forall>report. r = Inr report \<longrightarrow> (\<forall>f\<in>set (cr_findings report). settled ws' f))"
proof -
  let ?ps = "concat (map (kind_files (ws_tree ws)) STATE_KINDS)"
  obtain x ws1 where e: "check_entries w True quar (journal_index w ws) (map read_entry ?ps) None ws = (x, ws1)"
    by (cases "check_entries w True quar (journal_index w ws) (map read_entry ?ps) None ws")
  have ws': "ws' = ws1" "\<And>report. r = Inr report \<Longrightarrow> x = Inr (cr_findings report)"
    using assms(7) e by (auto simp: check_workspace_def Let_def entry_paths split: sum.splits)
  have d: "distinct ?ps" using assms(1) by (simp only: tree_ok_def entry_paths_distinct)
  have sub: "set ?ps \<subseteq> set (ws_tree ws)" unfolding entry_paths_set by blast
  have o: "opened_ok None ws" by (simp add: opened_ok_def)
  have st: "storable (repair_frame w ws m i problem)"
    if "p \<in> set ?ps" "marker_from_path p = Inr m" "i \<in> set (journal_index w ws)" for p m i problem
    using assms(2) that sub unfolding repairable_def by blast
  have loop: "confined (set ?ps) ws ws1 \<and>
    (\<forall>p\<in>set ?ps. \<forall>m. marker_from_path p = Inr m \<longrightarrow> resolves w ws m \<longrightarrow> p \<in> set (ws_tree ws1)) \<and>
    (\<forall>fs. x = Inr fs \<longrightarrow> (\<forall>f\<in>set fs. settled ws1 f))"
    by (rule check_entries_done [OF assms(1) o d sub assms(3-6) _ e]) (rule st)
  then have c: "confined (set ?ps) ws ws1" by blast
  have "p \<in> set (ws_tree ws1) \<and> resolves w ws1 m"
    if "p \<in> set (ws_tree ws)" "marker_from_path p = Inr m" "resolves w ws m" for p m
    using that loop confinedD(4) [OF c, of p] resolves_extends [OF that(3) confinedD(2,3) [OF c]] by blast
  moreover have "p \<in> set (ws_tree ws1)" if "p \<in> set (ws_tree ws)" "\<not> marker_file p" for p
    using confinedD(4) [OF c that(1)] that(2) entry_paths_set by blast
  ultimately show ?thesis using loop confinedD(1,2) [OF c] ws' by blast
qed

section \<open>What a repair may touch\<close>

lemma live_owner_None:
  assumes "live_owner_of w es = Inr None" and "e \<in> set es" and "get (jf_frame e) ''manager_id'' = JStr i" and "i \<noteq> []"
  shows "\<exists>l. frame_lease w e = Inr l \<and> \<not> manager_alive (ck_heartbeat_age w i) l"
  using assms
proof (induction es)
  case (Cons x es)
  then show ?case
    by (cases "get (jf_frame x) ''manager_id''") (auto simp: res_simps split: if_splits sum.splits)
qed simp

definition hands_off :: "check_world \<Rightarrow> journal_frame list \<Rightarrow> marker \<Rightarrow> bool" where
  "hands_off w index m \<longleftrightarrow>
     (kind m \<in> set LIVE_KINDS \<longrightarrow>
       (\<forall>e\<in>set (frames_for index (job_id m)). \<forall>i. get (jf_frame e) ''manager_id'' = JStr i \<longrightarrow> i \<noteq> [] \<longrightarrow>
          (\<exists>l. frame_lease w e = Inr l \<and> \<not> manager_alive (ck_heartbeat_age w i) l)))"

lemma live_owner_hands_off: "live_owner w m index = Inr None \<Longrightarrow> hands_off w index m"
  using live_owner_None by (fastforce simp: live_owner_def hands_off_def split: if_splits)

definition warranted :: "check_world \<Rightarrow> bool \<Rightarrow> bool \<Rightarrow> journal_frame list \<Rightarrow> finding \<Rightarrow> bool" where
  "warranted w rep quar index f \<longleftrightarrow>
     (\<forall>m. fi_action f \<in> {Repaired, Quarantined} \<longrightarrow> fi_marker f = Some m \<longrightarrow>
        rep \<and> fi_problem f \<noteq> Payload_Missing \<and> hands_off w index m \<and>
        (fi_action f = Repaired \<longleftrightarrow> last_good_frame m index \<noteq> None)) \<and>
     (fi_action f = Quarantined \<longrightarrow> quar)"

lemma handle_unrepairable_cases:
  assumes "handle_unrepairable quar f ws = (Inr g, ws')"
  shows "g = (if quar then f\<lparr>fi_action := Quarantined\<rparr> else f)"
  using assms by (auto simp: handle_unrepairable_def split: sum.splits prod.splits if_splits)

lemma repair_entry_cases:
  assumes "repair_entry w m e f opened ws = (Inr g, opened', ws')"
  shows "fi_action g = Repaired \<and> fi_marker g = fi_marker f \<and> fi_problem g = fi_problem f"
  using assms by (auto simp: repair_entry_def split: sum.splits prod.splits)

lemma check_entry_warranted:
  assumes "check_entry w rep quar index entry opened ws = (Inr (Some g), opened', ws')"
  shows "warranted w rep quar index g"
proof (cases entry)
  case (Marker_Fault p)
  with assms show ?thesis
    by (auto simp: check_entry_def warranted_def res_simps dest!: handle_unrepairable_cases split: prod.splits sum.splits if_splits)
next
  case (Found m)
  obtain problem where pr: "inspect_marker w ws m = Some problem"
    using assms Found by (auto simp: check_entry_def split: option.splits)
  show ?thesis
  proof (cases "problem = Payload_Missing \<or> \<not> rep")
    case True
    with assms Found pr show ?thesis by (auto simp: check_entry_def Let_def warranted_def)
  next
    case False
    obtain owner where ow: "live_owner w m index = Inr owner"
      using assms Found pr False by (auto simp: check_entry_def Let_def split: sum.splits)
    show ?thesis
    proof (cases owner)
      case (Some i)
      with assms Found pr False ow show ?thesis by (auto simp: check_entry_def Let_def warranted_def)
    next
      case None
      then have off: "hands_off w index m" using ow live_owner_hands_off by simp
      show ?thesis
      proof (cases "last_good_frame m index")
        case None
        then show ?thesis using assms Found pr False ow \<open>owner = None\<close> off
          by (auto simp: check_entry_def Let_def warranted_def res_simps dest!: handle_unrepairable_cases
              split: prod.splits sum.splits if_splits)
      next
        case (Some e)
        then show ?thesis using assms Found pr False ow \<open>owner = None\<close> off
          by (auto simp: check_entry_def Let_def warranted_def res_simps dest!: repair_entry_cases
              split: prod.splits sum.splits)
      qed
    qed
  qed
qed

lemma check_entries_warranted:
  "check_entries w rep quar index entries opened ws = (Inr fs, ws') \<Longrightarrow> f \<in> set fs \<Longrightarrow> warranted w rep quar index f"
proof (induction entries arbitrary: opened ws fs)
  case (Cons entry entries)
  obtain x opened1 ws1 where e: "check_entry w rep quar index entry opened ws = (x, opened1, ws1)"
    by (cases "check_entry w rep quar index entry opened ws")
  obtain y ws2 where y: "check_entries w rep quar index entries opened1 ws1 = (y, ws2)"
    by (cases "check_entries w rep quar index entries opened1 ws1")
  show ?case
    using Cons e y check_entry_warranted [of w rep quar index entry opened ws f opened1 ws1]
    by (auto split: sum.splits option.splits)
qed simp


section \<open>A concrete check\<close>

text \<open>
  A complete view of a journal without frames, quiet renames; and a running marker that names the
  initial state, which nothing can restore.
\<close>

definition example_check :: check_world where
  "example_check =
     \<lparr>ck_views = (\<lambda>_ J. [J]), ck_listing = [], ck_payload = (\<lambda>_. True), ck_heartbeat_age = (\<lambda>_. None),
      ck_lease = Fin 60, ck_now = (\<lambda>_. ([], [])), ck_rename = (\<lambda>_. quiet [True]),
      ck_writer = example_writer, ck_segment_bytes = 8192\<rparr>"

definition damaged_marker :: marker where
  "damaged_marker = example_marker\<lparr>kind := Running, path := [''running'', ''proj'', example_key @ ''.p500.g0.init'']\<rparr>"

definition damaged_workspace :: workspace where
  "damaged_workspace = example_workspace\<lparr>ws_tree := [path damaged_marker]\<rparr>"

definition damaged_finding :: finding where
  "damaged_finding = \<lparr>fi_entry = path damaged_marker, fi_problem = Identity_Mismatch, fi_action = Quarantined,
     fi_marker = Some damaged_marker, fi_repaired_ref = None\<rparr>"

lemma damaged_marker_read: "marker_from_path (path damaged_marker) = Inr damaged_marker"
proof -
  have "marker_path Running [''proj''] example_key 500 0 ''init'' = Inr (path damaged_marker)"
    "normalize_parts \<lparr>absolute = False, parts = [''proj'']\<rparr> = Inr [''proj'']" "marker_ref_pattern ''init''"
    by code_simp+
  from marker_path_read [OF this] show ?thesis by (simp add: damaged_marker_def example_marker_def)
qed

lemma damaged_entries: "scan_marker_entries (ws_tree damaged_workspace) STATE_KINDS = [Found damaged_marker]"
proof -
  have t: "ws_tree damaged_workspace = [path damaged_marker]" by (simp add: damaged_workspace_def)
  have "marker_file (path damaged_marker)" by code_simp
  then have "set (concat (map (kind_files (ws_tree damaged_workspace)) STATE_KINDS)) = {path damaged_marker}"
    unfolding entry_paths_set t by auto
  moreover have "distinct (concat (map (kind_files (ws_tree damaged_workspace)) STATE_KINDS))"
    by (rule entry_paths_distinct) (simp add: t)
  ultimately have "concat (map (kind_files (ws_tree damaged_workspace)) STATE_KINDS) = [path damaged_marker]"
    by (metis distinct_singleton)
  then show ?thesis unfolding entry_paths by (simp add: read_entry_def damaged_marker_read)
qed

lemma example_no_frames: "journal_index example_check ws = []"
  by (simp add: journal_index_def iter_journal_frames_def example_check_def)

lemma damaged_check:
  "\<exists>r ws'. check_workspace example_check True True damaged_workspace = (Inr r, ws') \<and> cr_findings r = [damaged_finding]"
proof -
  have "inspect_marker example_check damaged_workspace damaged_marker = Some Identity_Mismatch"
    by (simp add: inspect_marker_def damaged_marker_def example_marker_def)
  moreover have "live_owner example_check damaged_marker [] = Inr None" "last_good_frame damaged_marker [] = None"
    by (simp_all add: live_owner_def last_good_frame_def frames_for_def)
  moreover have "path damaged_marker \<in> set (ws_tree damaged_workspace)" by (simp add: damaged_workspace_def)
  ultimately show ?thesis
    by (auto simp: check_workspace_def Let_def damaged_entries example_no_frames check_entry_def
        handle_unrepairable_def quarantine_def damaged_finding_def res_simps)
qed

lemma example_clean_world: "ck_views example_check = (\<lambda>_ J. [J])" "ck_rename example_check = (\<lambda>_. quiet [True])"
  "True \<in> set [True]" "ck_segment_bytes example_check < 2 ^ 63"
  by (simp_all add: example_check_def)

theorem clean_check_exact_witness:
  "\<exists>r. check_workspace example_check False False example_workspace = (Inr r, example_workspace) \<and> check_ok r"
proof -
  obtain r where r: "check_workspace example_check False False example_workspace = (Inr r, example_workspace)"
    by (auto simp: check_workspace_def check_entries_reports Let_def)
  have "resolves example_check example_workspace example_marker"
    by (simp add: resolves_def read_state_def frame_agrees_def initial_state_def example_marker_def inspect_payload_def
        example_check_def)
  then have "\<forall>p\<in>set (ws_tree example_workspace). marker_file p \<longrightarrow>
      (\<exists>m. marker_from_path p = Inr m \<and> resolves example_check example_workspace m)"
    using example_marker_read by (auto simp: example_workspace_def)
  with clean_check_exact [OF example_clean_world(1) r] r show ?thesis by blast
qed

theorem repair_restores_witness:
  "\<exists>r ws'. check_workspace example_check True True damaged_workspace = (Inr r, ws') \<and>
     cr_findings r = [damaged_finding] \<and> tree_ok ws' \<and> path damaged_marker \<notin> set (ws_tree ws')"
proof -
  have idx: "index_inv (ws_index damaged_workspace)"
    using example_coherent by (simp add: coherent_def damaged_workspace_def)
  then have ok: "tree_ok damaged_workspace"
    by (simp add: tree_ok_def one_home_def damaged_workspace_def)
  have rp: "repairable example_check damaged_workspace (ws_tree damaged_workspace)
      (journal_index example_check damaged_workspace)"
    by (simp add: repairable_def example_no_frames)
  obtain r ws' where r: "check_workspace example_check True True damaged_workspace = (Inr r, ws')"
    "cr_findings r = [damaged_finding]"
    using damaged_check by blast
  from repair_restores [OF ok rp example_clean_world(2-4,1) r(1)] r(2)
  have "tree_ok ws'" "settled ws' damaged_finding" by simp_all
  then show ?thesis using r by (auto simp: settled_def damaged_finding_def)
qed


text \<open>A marker at generation two, and three readable frames of its job, one of them its own.\<close>

definition later_marker :: marker where
  "later_marker = example_marker\<lparr>generation := 2\<rparr>"

definition example_frame_of :: "int \<Rightarrow> journal_frame" where
  "example_frame_of n =
     \<lparr>jf_record_ref = ''r'', jf_writer_id = example_writer, jf_segment = 0, jf_offset = 12,
      jf_frame = [(''job_id'', JStr example_id), (''job_key'', JStr example_key), (''kind'', JStr ''ready''),
        (''state_generation'', JInt n)]\<rparr>"

definition example_frames :: "journal_frame list" where
  "example_frames = [example_frame_of 0, example_frame_of 1, example_frame_of 2]"

lemma later_job: "job_id later_marker = example_id"
  by (simp add: later_marker_def job_id_def example_marker_def example_key_parse)

lemma example_frames_for: "frames_for example_frames example_id = example_frames"
  by (simp add: frames_for_def example_frames_def example_frame_of_def get_def)

lemma example_adoptable: "adoptable later_marker (example_frame_of n) = (if 0 \<le> n \<and> n < 2 then Some n else None)"
proof -
  have "kind_of_name ''ready'' = Some Ready" by code_simp
  then show ?thesis
    by (simp add: adoptable_def example_frame_of_def get_def frame_generation_def later_marker_def example_marker_def)
qed

lemma example_recovered: "last_good_frame later_marker example_frames = Some (example_frame_of 1)"
  unfolding last_good_frame_def later_job example_frames_for
  by (simp add: example_frames_def example_adoptable)


end
