(* ===== verification/Spec2Isabelle.thy ===== *)
theory Spec2Isabelle
  imports Documents Visibility Workspace_Protocol Transactions_Correct Scheduling_Correct Manager_Safety
    Transfer_Receipts Removal Collector Transfer_Examples
    Consistency_Check
begin

text \<open>
  A verification development for the workflow engine of \<open>src/src/httk/workflow/\<close>.

  The program. A workspace is a directory on a shared file system. A job is a payload directory
  with an immutable document \<open>job.json\<close> and one state marker, an empty file whose path below
  \<open>state/\<close> is the kind of its state, its placement, key, priority and generation, and a
  reference to a frame of the journal. A state change appends a frame and renames the marker; the
  rename decides races. Task managers claim ready jobs within their capacity, launch attempts,
  commit the outcomes they publish (a transaction over the data of the job, children, and the
  next state), take over attempts of managers that died, cancel, serve requests of operators, and
  wait for children. Jobs are removed, collected, and detached from one workspace and imported
  into another by bundles that are acknowledged and retired.

  The model. Strings are the bytes of their UTF-8 text; exceptions are values of a sum, one
  constructor per class the code distinguishes (\<open>error\<close> of Prelude), without messages;
  dictionaries are association lists in insertion order; integers are unbounded as in Python;
  floats are rationals with infinities and NaN; the state of a component is a record that its
  operations return updated. What the file system, other hosts, clocks and other processes do is an
  argument of the operations: the outcome of each rename attempt, which prefix of a
  journal segment a reader sees, whether a process is alive. Theorems hold for all of them unless
  a hypothesis says otherwise.

  Documents (\<open>models.py\<close>, \<open>_util.py\<close>). Json is the JSON value and the deterministic encoder,
  Json_Parser the decoder, Json_Roundtrip their agreement; Sha256 the digest; Names job keys,
  identifiers and labels; Paths placements and runner paths; Documents policies, retention, parameters,
  resources, environments, failures; Job_Definition the job document; State_Frame the frame of a
  state and the members that survive a transition; Markers kinds, record references and marker
  names; Visibility the retry schedule of reads.

  Journal and workspace (\<open>journal.py\<close>, \<open>workspace.py\<close>). Journal holds writers, segments as byte
  strings, reads, verification and walks; Journal_Correct refines it to an append-only store.
  Marker_Index is the state tree, a list of paths, with the lookup cache, which agrees with a
  full scan whatever it holds. Workspace_State is submission, reading of a state, transition,
  repointing, quarantine; Workspace_Correct proves each, Workspace_Protocol makes actors with stale
  markers steps of one relation and proves the coherence of every reachable state.

  Transactions (\<open>transactions.py\<close>) replays a data transaction step by step with its crash points;
  Transactions_Correct proves replay idempotent under crashes and complete.

  Managers. Scheduling and Join_Conditions are the decisions, Scheduling_Correct their properties.
  Manager_Core (\<open>manager.py\<close>) is claim and launch over the state \<open>act\<close> of a manager, its workspace and the
  log; Manager_Commit (\<open>_manager_commit.py\<close>) outcomes, children, polling and takeover; Manager_Joins,
  Manager_Cancellation and Manager_Requests the modules of these names; Manager_Tick composes
  the passes in the order of \<open>TaskManager.tick\<close> and iterates them in \<open>run_until_idle\<close>.
  Manager_Invariants states the interface of all operations as the locale \<open>step_invariant\<close>, and
  \<open>pass_invariant\<close> the sequence of passes: an invariant kept by the few primitives is kept by
  everything a manager does. Manager_Jobs interprets it for one marker per job and for finished
  jobs, Manager_History for the readable history. Manager_Capacity interprets the locale of the
  claim loop. Manager_Safety holds what single decisions guarantee. Manager_Examples are the concrete worlds of
  the witnesses.

  Around the managers. Removal (\<open>removal.py\<close>) is the preflight and removal of a batch. Collector
  (\<open>gc.py\<close>) is the liveness of managers and the collection of journal segments. Consistency_Check
  (\<open>fsck.py\<close>) finds the markers that do not resolve, re-points them at the newest readable frame of their
  job, and quarantines the rest; a clean check is exactly a workspace in which every marker resolves, and a
  repair, even one cut short, loses no job and touches no marker of a live manager. Transfer_Receipts
  (\<open>_transfer_receipts.py\<close>) is the sequence numbers of detached transfers under interleaving,
  crashes and lost files, and the compressed ranges of received numbers. Payload_Digest,
  Transfer_State and Transfers (\<open>transfers.py\<close>) are the digest of a payload, the files of a
  transfer, and detaching, validating, importing, acknowledging, retiring and recovering as
  programs that can be killed between any two changes. Transfer_Safety proves an import
  exactly once under any kills and retries, with the locale \<open>growth\<close> of the programs that move no
  marker; Transfer_Examples holds the concrete sites of its witnesses.

  Bounds. Recursions are structural or carry a measure, so every operation is a total function.
  Retry loops run over the list of what their attempts see, whose length is the number of attempts the schedule
  of the code makes. A transfer runs with the number of changes it may still make, so that a kill is a number that is too
  small; theorems quantify over it. The number of ticks of \<open>run_until_idle\<close> and of links a path follows are
  arguments too.

  Not modelled. Process creation, signals, sockets, shells and remote hosts (runtimes, executors,
  launchers, adapters): the manager sees their results, which are inputs here. Command-line parsing
  and printing, reports and the monitor: they present state. Seals and signatures call identity functions of
  another package; a workspace has the set of its seals. Copying of trees
  is a list of intermediate states of the destination. Foreign workflow languages, scaffolding and the VASP domain are built on
  top of the protocol. Logging, durations and the text of messages have no place in the state.
\<close>

end
